(* ===== verification/Chunk_Prelude.thy ===== *)
theory Chunk_Prelude
  imports Main "HOL-Library.Word" "HOL-Library.AList" "HOL-Library.Multiset"
begin

text \<open>
  Shared vocabulary of the development: machine types, the error enum of
  \<^verbatim>\<open>core/src/error.rs\<close>, the outcome of a Rust call, state-passing actions
  with their weakest-precondition calculus, mutexes, and the generic facts on association
  lists (the model of \<^verbatim>\<open>HashMap\<close>), multisets and strings that the components
  share.

  Conventions.  A Rust \<^verbatim>\<open>String\<close> is the list of its UTF-8 bytes, as
  \<open>string\<close>; a byte buffer is \<open>bytes\<close>.  \<^verbatim>\<open>u64\<close> counters are
  64-bit words whose arithmetic wraps (the release profile, which the repository's wheels
  and static libraries are built with, has overflow checks off).  In-memory lengths
  (\<^verbatim>\<open>usize\<close>) are \<open>nat\<close>.
\<close>

type_synonym byte = "8 word"
type_synonym bytes = "8 word list"
type_synonym u64 = "64 word"

named_theorems wp_rules \<open>weakest-precondition equations of the action combinators\<close>
named_theorems act_defs \<open>definitions of the action combinators\<close>

section \<open>Errors and outcomes\<close>

datatype chunk_store_error =
    BackendError string
  | DigestMismatch (expected: string) (actual: string)
  | NotFound string
  | InvalidArgument string
  | LockError
  | IoError string

text \<open>
  What a call can do: return \<open>Ok\<close>, return \<open>Err\<close>, panic, or never return.
  The last two propagate through every caller exactly as the first error does through the
  \<^verbatim>\<open>?\<close> operator.
\<close>

datatype 'a res = Ok 'a | Err chunk_store_error | Panic | Hang

fun bind_res :: "'a res \<Rightarrow> ('a \<Rightarrow> 'b res) \<Rightarrow> 'b res" where
  "bind_res (Ok a) f = f a"
| "bind_res (Err e) f = Err e"
| "bind_res Panic f = Panic"
| "bind_res Hang f = Hang"

text \<open>\<open>map_err\<close> on the result of a third-party call whose error is its message.\<close>

fun map_err :: "(string \<Rightarrow> chunk_store_error) \<Rightarrow> string + 'a \<Rightarrow> 'a res" where
  "map_err f (Inl e) = Err (f e)"
| "map_err f (Inr a) = Ok a"

fun option_of_res :: "'a res \<Rightarrow> 'a option" where
  "option_of_res (Ok a) = Some a"
| "option_of_res (Err e) = None"
| "option_of_res Panic = None"
| "option_of_res Hang = None"

lemma option_of_res_Some [simp]: "option_of_res r = Some a \<longleftrightarrow> r = Ok a"
  by (cases r) auto

section \<open>Actions: state passing with the outcome\<close>

type_synonym ('s, 'a) act = "'s \<Rightarrow> 'a res \<times> 's"

definition ret :: "'a \<Rightarrow> ('s, 'a) act" where [act_defs]:
  "ret a s = (Ok a, s)"

definition fail :: "chunk_store_error \<Rightarrow> ('s, 'a) act" where [act_defs]:
  "fail e s = (Err e, s)"

definition lift :: "'a res \<Rightarrow> ('s, 'a) act" where [act_defs]:
  "lift r s = (r, s)"

text \<open>\<open>seq m f\<close> is \<^verbatim>\<open>let x = m?; f(x)\<close>.\<close>

definition seq :: "('s, 'a) act \<Rightarrow> ('a \<Rightarrow> ('s, 'b) act) \<Rightarrow> ('s, 'b) act" where [act_defs]:
  "seq m f s =
     (case m s of
        (Ok a, s') \<Rightarrow> f a s'
      | (Err e, s') \<Rightarrow> (Err e, s')
      | (Panic, s') \<Rightarrow> (Panic, s')
      | (Hang, s') \<Rightarrow> (Hang, s'))"

text \<open>A \<^verbatim>\<open>for x in xs { f(x)?; }\<close> loop.\<close>

primrec for_each :: "'x list \<Rightarrow> ('x \<Rightarrow> ('s, unit) act) \<Rightarrow> ('s, unit) act" where
  "for_each [] f = ret ()"
| "for_each (x # xs) f = seq (f x) (\<lambda>_. for_each xs f)"

text \<open>The same loop with a local variable that the body updates.\<close>

primrec fold_act :: "('x \<Rightarrow> 'v \<Rightarrow> ('s, 'v) act) \<Rightarrow> 'x list \<Rightarrow> 'v \<Rightarrow> ('s, 'v) act" where
  "fold_act f [] v = ret v"
| "fold_act f (x # xs) v = seq (f x v) (\<lambda>v'. fold_act f xs v')"

text \<open>Running an action on one component of a larger state.\<close>

definition zoom :: "('t \<Rightarrow> 's) \<Rightarrow> ('s \<Rightarrow> 't \<Rightarrow> 't) \<Rightarrow> ('s, 'a) act \<Rightarrow> ('t, 'a) act" where [act_defs]:
  "zoom g p m t = (case m (g t) of (r, s') \<Rightarrow> (r, p s' t))"

lemma seq_ret [simp]: "seq (ret a) f = f a"
  by (simp add: fun_eq_iff act_defs)

lemma seq_lift_Ok [simp]: "seq (lift (Ok a)) f = f a"
  by (simp add: fun_eq_iff seq_def lift_def)

lemma seq_Ok: "m s = (Ok a, s') \<Longrightarrow> seq m f s = f a s'"
  by (simp add: seq_def)

lemma seq_Err: "m s = (Err e, s') \<Longrightarrow> seq m f s = (Err e, s')"
  by (simp add: seq_def)

lemma seq_OkD:
  "seq m f s = (Ok b, s'') \<Longrightarrow> \<exists>a s'. m s = (Ok a, s') \<and> f a s' = (Ok b, s'')"
  by (auto simp: seq_def split: prod.splits res.splits)

lemma seq_assoc: "seq (seq m f) g = seq m (\<lambda>a. seq (f a) g)"
  by (auto simp: fun_eq_iff seq_def split: prod.splits res.splits)

section \<open>Weakest preconditions\<close>

text \<open>
  \<open>wp m s Q\<close>: started in \<open>s\<close>, \<open>m\<close> returns \<open>Ok\<close> and \<open>Q\<close>
  holds of the returned value and the new state.  It is total correctness: an error, a
  panic or a call that never returns does not satisfy it.
\<close>

definition wp :: "('s, 'a) act \<Rightarrow> 's \<Rightarrow> ('a \<Rightarrow> 's \<Rightarrow> bool) \<Rightarrow> bool" where
  "wp m s Q \<longleftrightarrow> (case m s of (Ok a, s') \<Rightarrow> Q a s' | _ \<Rightarrow> False)"

lemma wp_iff: "wp m s Q \<longleftrightarrow> (\<exists>a s'. m s = (Ok a, s') \<and> Q a s')"
  by (auto simp: wp_def split: prod.splits res.splits)

lemma wpE:
  assumes "wp m s Q"
  obtains a s' where "m s = (Ok a, s')" and "Q a s'"
  using assms by (auto simp: wp_iff)

lemma wp_mono: "wp m s P \<Longrightarrow> (\<And>a s'. P a s' \<Longrightarrow> Q a s') \<Longrightarrow> wp m s Q"
  by (auto simp: wp_iff)

lemma wp_ret [wp_rules]: "wp (ret a) s Q = Q a s"
  by (simp add: wp_iff act_defs)

lemma wp_lift [wp_rules]: "wp (lift r) s Q = (case r of Ok a \<Rightarrow> Q a s | _ \<Rightarrow> False)"
  by (cases r) (auto simp: wp_iff act_defs)

lemma wp_fail [wp_rules]: "wp (fail e) s Q = False"
  by (simp add: wp_iff act_defs)

lemma wp_seq [wp_rules]: "wp (seq m f) s Q = wp m s (\<lambda>a s'. wp (f a) s' Q)"
  by (auto simp: wp_def seq_def split: prod.splits res.splits)

lemma wp_zoom [wp_rules]: "wp (zoom g p m) t Q = wp m (g t) (\<lambda>a s'. Q a (p s' t))"
  by (auto simp: wp_def zoom_def split: prod.splits res.splits)

lemma wp_if [wp_rules]: "wp (if b then m else n) s Q = (if b then wp m s Q else wp n s Q)"
  by simp

lemma wp_for_each:
  assumes "I [] s"
    and "\<And>done x todo s. xs = done @ x # todo \<Longrightarrow> I done s \<Longrightarrow>
           wp (f x) s (\<lambda>_ s'. I (done @ [x]) s')"
    and "\<And>s. I xs s \<Longrightarrow> Q () s"
  shows "wp (for_each xs f) s Q"
proof -
  have "xs = pre @ todo \<Longrightarrow> I pre t \<Longrightarrow> wp (for_each todo f) t Q" for pre todo t
  proof (induction todo arbitrary: pre t)
    case Nil
    then show ?case using assms(3) by (simp add: wp_ret)
  next
    case (Cons x todo)
    then show ?case
      by (auto simp: wp_seq intro!: wp_mono [OF assms(2) [of pre x todo t]])
  qed
  from this [of "[]" xs s] show ?thesis using assms(1) by simp
qed

lemma wp_fold_act:
  assumes "I [] v s"
    and "\<And>done x todo v s. xs = done @ x # todo \<Longrightarrow> I done v s \<Longrightarrow>
           wp (f x v) s (\<lambda>v' s'. I (done @ [x]) v' s')"
    and "\<And>v s. I xs v s \<Longrightarrow> Q v s"
  shows "wp (fold_act f xs v) s Q"
proof -
  have "xs = pre @ todo \<Longrightarrow> I pre u t \<Longrightarrow> wp (fold_act f todo u) t Q" for pre todo u t
  proof (induction todo arbitrary: pre u t)
    case Nil
    then show ?case using assms(3) by (simp add: wp_ret)
  next
    case (Cons x todo)
    then show ?case
      by (auto simp: wp_seq intro!: wp_mono [OF assms(2) [of pre x todo u t]])
  qed
  from this [of "[]" xs v s] show ?thesis using assms(1) by simp
qed

section \<open>Two postconditions\<close>

text \<open>\<open>returns m s P R\<close>: \<open>m\<close> returns, with a result and a state that satisfy \<open>P\<close>
  or with an error and a state that satisfies \<open>R\<close>.\<close>

definition returns :: "('s, 'a) act \<Rightarrow> 's \<Rightarrow> ('a \<Rightarrow> 's \<Rightarrow> bool) \<Rightarrow> ('s \<Rightarrow> bool) \<Rightarrow> bool" where
  "returns m s P R \<longleftrightarrow>
     (case m s of (Ok a, s') \<Rightarrow> P a s' | (Err e, s') \<Rightarrow> R s' | (Panic, s') \<Rightarrow> False | (Hang, s') \<Rightarrow> False)"

lemma returns_mono:
  "returns m s P R \<Longrightarrow> (\<And>a s'. P a s' \<Longrightarrow> P' a s') \<Longrightarrow> (\<And>s'. R s' \<Longrightarrow> R' s') \<Longrightarrow> returns m s P' R'"
  by (auto simp: returns_def split: prod.splits res.splits)

lemma returns_ret: "P a s \<Longrightarrow> returns (ret a) s P R"
  by (simp add: returns_def ret_def)

lemma returns_fail: "R s \<Longrightarrow> returns (fail e) s P R"
  by (simp add: returns_def fail_def)

lemma returns_lift: "r = Ok a \<Longrightarrow> P a s \<Longrightarrow> returns (lift r) s P R"
  by (simp add: returns_def lift_def)

lemma returns_lift_map_err:
  "R s \<Longrightarrow> (\<And>a. x = Inr a \<Longrightarrow> P a s) \<Longrightarrow> returns (lift (map_err f x)) s P R"
  by (cases x) (simp_all add: returns_def lift_def)

lemma returns_seq: "returns m s (\<lambda>a s'. returns (f a) s' P R) R \<Longrightarrow> returns (seq m f) s P R"
  by (auto simp: returns_def seq_def split: prod.splits res.splits)

lemma returns_for_each:
  assumes "J s" and "\<And>x s. x \<in> set xs \<Longrightarrow> J s \<Longrightarrow> returns (f x) s (\<lambda>_. J) R"
  shows "returns (for_each xs f) s (\<lambda>_. J) R"
  using assms
proof (induction xs arbitrary: s)
  case (Cons x xs)
  show ?case
    unfolding for_each.simps
    by (rule returns_seq, rule returns_mono [OF Cons.prems(2) [OF _ Cons.prems(1)]])
      (use Cons in auto)
qed (simp add: returns_ret)

lemma returns_fold_act:
  assumes "J s" and "\<And>x v s. x \<in> set xs \<Longrightarrow> J s \<Longrightarrow> returns (f x v) s (\<lambda>_. J) R"
  shows "returns (fold_act f xs v) s (\<lambda>_. J) R"
  using assms
proof (induction xs arbitrary: s v)
  case (Cons x xs)
  show ?case
    unfolding fold_act.simps
    by (rule returns_seq, rule returns_mono [OF Cons.prems(2) [OF _ Cons.prems(1)]])
      (use Cons in auto)
qed (simp add: returns_ret)

lemma returns_iff:
  "returns m s P R \<longleftrightarrow> (\<exists>a s'. m s = (Ok a, s') \<and> P a s') \<or> (\<exists>e s'. m s = (Err e, s') \<and> R s')"
  by (auto simp: returns_def split: prod.splits res.splits)

lemma returns_zoom: "returns m (g t) (\<lambda>a s'. P a (p s' t)) (\<lambda>s'. R (p s' t)) \<Longrightarrow> returns (zoom g p m) t P R"
  by (auto simp: returns_def zoom_def split: prod.splits res.splits)

section \<open>Failing calls\<close>

text \<open>\<open>raises m s R\<close>: started in \<open>s\<close>, \<open>m\<close> returns an error, and
  \<open>R\<close> holds of it and of the new state.\<close>

definition raises :: "('s, 'a) act \<Rightarrow> 's \<Rightarrow> (chunk_store_error \<Rightarrow> 's \<Rightarrow> bool) \<Rightarrow> bool" where
  "raises m s R \<longleftrightarrow> (case m s of (Err e, s') \<Rightarrow> R e s' | _ \<Rightarrow> False)"

lemma raises_iff: "raises m s R \<longleftrightarrow> (\<exists>e s'. m s = (Err e, s') \<and> R e s')"
  by (auto simp: raises_def split: prod.splits res.splits)

lemma raises_mono: "raises m s P \<Longrightarrow> (\<And>e s'. P e s' \<Longrightarrow> R e s') \<Longrightarrow> raises m s R"
  by (auto simp: raises_iff)

lemma raises_fail [wp_rules]: "raises (fail e) s R = R e s"
  by (simp add: raises_iff act_defs)

lemma raises_seq_first: "raises m s R \<Longrightarrow> raises (seq m f) s R"
  by (auto simp: raises_iff seq_def)

lemma raises_seq_second: "wp m s (\<lambda>a s'. raises (f a) s' R) \<Longrightarrow> raises (seq m f) s R"
  by (auto simp: raises_iff wp_iff seq_def)

lemma raises_zoom: "raises m (g t) (\<lambda>e s'. R e (p s' t)) \<Longrightarrow> raises (zoom g p m) t R"
  by (auto simp: raises_iff zoom_def)

section \<open>Mutexes\<close>

text \<open>
  \<^verbatim>\<open>std::sync::Mutex\<close>: a value and the poison flag, which a thread that
  panics while holding the lock sets.  \<^verbatim>\<open>lock()\<close> on a poisoned mutex is an
  error, which the store maps to \<open>LockError\<close>.
\<close>

record 'a mutex =
  guarded :: 'a
  poisoned :: bool

definition new_mutex :: "'a \<Rightarrow> 'a mutex" where
  "new_mutex a = \<lparr>guarded = a, poisoned = False\<rparr>"

text \<open>Running an action on the value behind the lock; a panic under the lock poisons it.\<close>

definition with_lock :: "('a, 'r) act \<Rightarrow> ('a mutex, 'r) act" where
  "with_lock m mx =
     (if poisoned mx then (Err LockError, mx)
      else case m (guarded mx) of (r, a) \<Rightarrow>
             (r, mx\<lparr>guarded := a, poisoned := (r = Panic)\<rparr>))"

lemma wp_with_lock [wp_rules]:
  "wp (with_lock m) mx Q \<longleftrightarrow>
     \<not> poisoned mx \<and> wp m (guarded mx) (\<lambda>r a. Q r (mx\<lparr>guarded := a\<rparr>))"
  by (cases mx) (auto simp: wp_def with_lock_def split: prod.splits res.splits)

lemma returns_with_lock:
  assumes "\<not> poisoned mx"
    and "returns m (guarded mx) (\<lambda>a p. P a (mx\<lparr>guarded := p\<rparr>)) (\<lambda>p. R (mx\<lparr>guarded := p\<rparr>))"
  shows "returns (with_lock m) mx P R"
  using assms by (cases mx) (auto simp: returns_def with_lock_def split: prod.splits res.splits)

lemma raises_with_lock:
  "\<not> poisoned mx \<Longrightarrow> raises m (guarded mx) (\<lambda>e a. R e (mx\<lparr>guarded := a\<rparr>)) \<Longrightarrow> raises (with_lock m) mx R"
  by (cases mx) (auto simp: raises_iff with_lock_def)

text \<open>Running an action on the whole state while one of its locks, \<open>g\<close>, is held.\<close>

definition holding ::
  "('s \<Rightarrow> 'a mutex) \<Rightarrow> ('a mutex \<Rightarrow> 's \<Rightarrow> 's) \<Rightarrow> ('s, 'r) act \<Rightarrow> ('s, 'r) act" where
  "holding g p m s =
     (if poisoned (g s) then (Err LockError, s)
      else case m s of
             (Panic, s') \<Rightarrow> (Panic, p ((g s')\<lparr>poisoned := True\<rparr>) s')
           | other \<Rightarrow> other)"

lemma wp_holding [wp_rules]: "wp (holding g p m) s Q \<longleftrightarrow> \<not> poisoned (g s) \<and> wp m s Q"
  by (auto simp: wp_def holding_def split: prod.splits res.splits)

lemma new_mutex_simps [simp]: "guarded (new_mutex a) = a" "\<not> poisoned (new_mutex a)"
  by (simp_all add: new_mutex_def)

section \<open>Decimal rendering of counters in error messages\<close>

definition digit_char :: "nat \<Rightarrow> char" where
  "digit_char n = ''0123456789'' ! n"

fun show_nat :: "nat \<Rightarrow> string" where
  "show_nat n = (if n < 10 then [digit_char n] else show_nat (n div 10) @ [digit_char (n mod 10)])"

declare show_nat.simps [simp del]

text \<open>The \<^verbatim>\<open>Display\<close> text of an error, which the bindings hand to their callers.\<close>

fun show_error :: "chunk_store_error \<Rightarrow> string" where
  "show_error (BackendError m) = ''backend error: '' @ m"
| "show_error (DigestMismatch e a) = ''digest mismatch: expected '' @ e @ '', got '' @ a"
| "show_error (NotFound m) = ''not found: '' @ m"
| "show_error (InvalidArgument m) = ''invalid argument: '' @ m"
| "show_error LockError = ''lock poisoned''"
| "show_error (IoError m) = ''io error: '' @ m"

section \<open>Association lists as hash maps\<close>

text \<open>
  A \<^verbatim>\<open>HashMap\<close> is an association list with distinct keys; the list order stands
  for the map's unspecified iteration order, and no result below depends on it.
\<close>

abbreviation keys_distinct :: "('k \<times> 'v) list \<Rightarrow> bool" where
  "keys_distinct al \<equiv> distinct (map fst al)"

lemma map_of_al_update [simp]: "map_of (AList.update k v al) = (map_of al)(k \<mapsto> v)"
  by (rule update_conv')

lemma map_of_al_delete [simp]: "map_of (AList.delete k al) = (map_of al)(k := None)"
  by (rule delete_conv')

lemma keys_distinct_update [simp]: "keys_distinct al \<Longrightarrow> keys_distinct (AList.update k v al)"
  by (rule distinct_update)

lemma keys_distinct_delete [simp]: "keys_distinct al \<Longrightarrow> keys_distinct (AList.delete k al)"
  by (rule distinct_delete)

lemma set_fst_dom: "set (map fst al) = dom (map_of al)"
  by (simp add: dom_map_of_conv_image_fst)

lemma restrict_map_dom_self [simp]: "m |` dom m = m"
  by (rule ext) (simp add: restrict_map_def domIff)

lemma restrict_map_insert_Some:
  "m k = Some v \<Longrightarrow> m |` insert k A = (m |` A)(k \<mapsto> v)"
  by (rule ext) (simp add: restrict_map_def)

section \<open>Multisets of references\<close>

text \<open>All list elements held by the values of a hash map of lists, with multiplicity.\<close>

definition all_refs :: "('k \<times> 'a list) list \<Rightarrow> 'a multiset" where
  "all_refs al = sum_list (map (\<lambda>kv. mset (snd kv)) al)"

lemma all_refs_Nil [simp]: "all_refs [] = {#}"
  by (simp add: all_refs_def)

lemma all_refs_Cons [simp]: "all_refs (kv # al) = mset (snd kv) + all_refs al"
  by (simp add: all_refs_def)

lemma all_refs_update_fresh:
  "map_of al k = None \<Longrightarrow> all_refs (AList.update k v al) = all_refs al + mset v"
  by (induction al) (auto simp: ac_simps split: if_splits)

lemma all_refs_update_old:
  "keys_distinct al \<Longrightarrow> map_of al k = Some old \<Longrightarrow>
     all_refs (AList.update k v al) + mset old = all_refs al + mset v"
  by (induction al) (auto simp: ac_simps split: if_splits)

lemma all_refs_delete:
  "keys_distinct al \<Longrightarrow> map_of al k = Some old \<Longrightarrow>
     all_refs (AList.delete k al) + mset old = all_refs al"
  by (induction al) (auto simp: ac_simps split: if_splits)

lemma all_refs_member: "map_of al k = Some ds \<Longrightarrow> d \<in> set ds \<Longrightarrow> d \<in># all_refs al"
  by (induction al) (auto split: if_splits)

section \<open>Words\<close>

lemma unat_of_nat_u64: "n < 2 ^ 64 \<Longrightarrow> unat (of_nat n :: u64) = n"
  by (simp add: unat_of_nat)

lemma unat_u64_lt: "unat (w :: u64) < 2 ^ 64"
proof -
  have "unat w < 2 ^ LENGTH(64)" by (rule unsigned_less)
  then show ?thesis by simp
qed

lemma of_nat_u64_inj:
  "m < 2 ^ 64 \<Longrightarrow> n < 2 ^ 64 \<Longrightarrow> (of_nat m :: u64) = of_nat n \<longleftrightarrow> m = n"
  by (metis unat_of_nat_u64)

end
