(* ===== verification/Hasher.thy ===== *)
theory Hasher
  imports Chunk_Prelude
begin

text \<open>
  \<^verbatim>\<open>core/src/hasher.rs\<close>: content digests.  The SHA-256 compression itself is
  the \<^verbatim>\<open>sha2\<close> crate, so it is the parameter \<open>sha\<close> of every definition; what the
  code relies on is only that a digest has 32 bytes (\<open>sha_ok\<close>, the return type
  \<^verbatim>\<open>[u8; 32]\<close>).  The hexadecimal rendering is the repository's own and is modelled.
\<close>

unbundle bit_operations_syntax

type_synonym hash_fun = "bytes \<Rightarrow> bytes"

definition sha_ok :: "hash_fun \<Rightarrow> bool" where
  "sha_ok sha \<longleftrightarrow> (\<forall>data. length (sha data) = 32)"

definition HEX :: string where
  "HEX = ''0123456789abcdef''"

text \<open>The two characters pushed for one byte: high nibble, then low nibble.\<close>

definition hex_byte :: "byte \<Rightarrow> string" where
  "hex_byte b = [HEX ! unat (drop_bit 4 b), HEX ! unat (b AND 0x0f)]"

primrec hex_encode :: "bytes \<Rightarrow> string" where
  "hex_encode [] = []"
| "hex_encode (b # bs) = hex_byte b @ hex_encode bs"

definition digest_hex :: "hash_fun \<Rightarrow> bytes \<Rightarrow> string" where
  "digest_hex sha data = hex_encode (sha data)"

definition digest_bytes :: "hash_fun \<Rightarrow> bytes \<Rightarrow> bytes" where
  "digest_bytes sha data = sha data"

definition verify_digest :: "hash_fun \<Rightarrow> bytes \<Rightarrow> string \<Rightarrow> unit res" where
  "verify_digest sha data expected_hex =
     (let actual = digest_hex sha data in
      if actual = expected_hex then Ok () else Err (DigestMismatch expected_hex actual))"

text \<open>
  \<^verbatim>\<open>char::is_ascii_hexdigit\<close> / \<^verbatim>\<open>u8::is_ascii_hexdigit\<close>, and the
  test for a digest-shaped name that \<^verbatim>\<open>fsck.rs\<close>, \<^verbatim>\<open>fs_backend.rs\<close> and
  \<^verbatim>\<open>persistence.rs\<close> share.
\<close>

definition is_ascii_hexdigit :: "char \<Rightarrow> bool" where
  "is_ascii_hexdigit c =
     (let n = (of_char c :: nat) in
      (48 \<le> n \<and> n \<le> 57) \<or> (65 \<le> n \<and> n \<le> 70) \<or> (97 \<le> n \<and> n \<le> 102))"

definition is_chunk_digest :: "string \<Rightarrow> bool" where
  "is_chunk_digest name \<longleftrightarrow> length name = 64 \<and> list_all is_ascii_hexdigit name"

section \<open>The hexadecimal rendering\<close>

lemma length_hex_encode [simp]: "length (hex_encode bs) = 2 * length bs"
  by (induction bs) (simp_all add: hex_byte_def)

lemma hex_encode_append: "hex_encode (xs @ ys) = hex_encode xs @ hex_encode ys"
  by (induction xs) auto

lemma nat_lt_16_cases:
  "n < 16 \<Longrightarrow> n \<in> {0, 1, 2, 3, 4, 5, 6, 7, 8, 9, 10, 11, 12, 13, 14, 15 :: nat}"
  by (simp; arith)

lemma HEX_nth_hexdigit: "n < 16 \<Longrightarrow> is_ascii_hexdigit (HEX ! n)"
  by (drule nat_lt_16_cases) (auto simp: HEX_def is_ascii_hexdigit_def)

lemma HEX_distinct: "distinct HEX" and HEX_length: "length HEX = 16"
  by (simp_all add: HEX_def)

lemma HEX_nth_inj: "m < 16 \<Longrightarrow> n < 16 \<Longrightarrow> HEX ! m = HEX ! n \<longleftrightarrow> m = n"
  using HEX_distinct by (simp add: nth_eq_iff_index_eq HEX_length)

lemma unat_high_nibble: "unat (drop_bit 4 (b :: byte)) = unat b div 16"
  by (simp add: unat_drop_bit_eq drop_bit_eq_div unat_div)

lemma unat_low_nibble: "unat ((b :: byte) AND 0x0f) = unat b mod 16"
proof -
  have "(b AND 0x0f) = take_bit 4 b"
    by (simp add: take_bit_eq_mask mask_eq_exp_minus_1)
  then show ?thesis by (simp add: take_bit_eq_mod unat_mod)
qed

lemma unat_byte_lt: "unat (b :: byte) < 256"
  using unsigned_less [of b] by simp

lemma hex_byte_nibbles:
  "hex_byte b = [HEX ! (unat b div 16), HEX ! (unat b mod 16)]"
  by (simp add: hex_byte_def unat_high_nibble unat_low_nibble)

lemma nibble_bounds [simp]: "unat (b :: byte) div 16 < 16" "unat (b :: byte) mod 16 < 16"
  using unat_byte_lt [of b] by auto

lemma hex_byte_inj: "hex_byte a = hex_byte b \<longleftrightarrow> a = b"
proof
  assume "hex_byte a = hex_byte b"
  then have "unat a div 16 = unat b div 16" "unat a mod 16 = unat b mod 16"
    by (simp_all add: hex_byte_nibbles HEX_nth_inj)
  then have "unat a = unat b" by (metis div_mult_mod_eq)
  then show "a = b" by (rule unsigned_word_eqI)
qed simp

lemma length_hex_byte [simp]: "length (hex_byte b) = 2"
  by (simp add: hex_byte_def)

lemma hex_encode_inj: "hex_encode xs = hex_encode ys \<longleftrightarrow> xs = ys"
proof (induction xs arbitrary: ys)
  case Nil
  show ?case by (cases ys) (auto simp: hex_byte_def)
next
  case (Cons x xs)
  note IH = Cons.IH
  show ?case
  proof (cases ys)
    case Nil
    then show ?thesis by (simp add: hex_byte_def)
  next
    case (Cons y ys')
    then show ?thesis by (simp add: append_eq_append_conv hex_byte_inj IH)
  qed
qed

lemma hex_encode_hexdigits: "list_all is_ascii_hexdigit (hex_encode bs)"
  by (induction bs) (simp_all add: hex_byte_nibbles HEX_nth_hexdigit)

section \<open>Digests\<close>

lemma digest_is_chunk_digest: "sha_ok sha \<Longrightarrow> is_chunk_digest (digest_hex sha data)"
  by (simp add: is_chunk_digest_def digest_hex_def sha_ok_def hex_encode_hexdigits)

lemma digest_hex_eq_iff: "digest_hex sha x = digest_hex sha y \<longleftrightarrow> sha x = sha y"
  by (simp add: digest_hex_def hex_encode_inj)

lemma verify_digest_Ok_iff [simp]: "verify_digest sha data d = Ok u \<longleftrightarrow> digest_hex sha data = d"
  by (simp add: verify_digest_def Let_def)

lemma verify_digest_own [simp]: "verify_digest sha data (digest_hex sha data) = Ok ()"
  by simp

text \<open>No digest starts with the underscore that opens the metadata prefixes.\<close>

lemma chunk_digest_no_underscore: "is_chunk_digest (CHR ''_'' # s) \<Longrightarrow> False"
  by (simp add: is_chunk_digest_def is_ascii_hexdigit_def)

lemma chunk_digest_Nil: "is_chunk_digest [] \<longleftrightarrow> False"
  by (simp add: is_chunk_digest_def)

end
