(* ===== verification/Backend.thy ===== *)
theory Backend
  imports Chunk_Prelude
begin

text \<open>
  The storage interface of \<^verbatim>\<open>core/src/store/mod.rs\<close>: the trait
  \<^verbatim>\<open>ChunkBackend\<close> as the record of its methods over an abstract backend state (the
  methods take \<^verbatim>\<open>&self\<close> and mutate behind it), the \<^verbatim>\<open>Arc\<close> forwarding
  implementation and \<^verbatim>\<open>MemoryBackend\<close>.  What the store needs of a backend is the
  locale \<open>kv_backend\<close>: on the valid keys it behaves as a finite map of non-empty values (the
  store never writes an empty one, and not every backend could keep it).
\<close>

record 'b backend_ops =
  be_get :: "string \<Rightarrow> ('b, bytes option) act"
  be_put :: "string \<Rightarrow> bytes \<Rightarrow> ('b, unit) act"
  be_exists :: "string \<Rightarrow> ('b, bool) act"
  be_delete :: "string \<Rightarrow> ('b, unit) act"
  be_list_keys :: "string \<Rightarrow> ('b, string list option) act"

text \<open>The trait's default \<^verbatim>\<open>list_keys\<close>: the backend cannot list.\<close>

definition default_list_keys :: "string \<Rightarrow> ('b, string list option) act" where
  "default_list_keys prefix = ret None"

text \<open>\<^verbatim>\<open>impl ChunkBackend for Arc<B>\<close> forwards every method.\<close>

definition arc_backend :: "'b backend_ops \<Rightarrow> 'b backend_ops" where
  "arc_backend B =
     \<lparr>be_get = (\<lambda>key. be_get B key), be_put = (\<lambda>key data. be_put B key data),
      be_exists = (\<lambda>key. be_exists B key), be_delete = (\<lambda>key. be_delete B key),
      be_list_keys = (\<lambda>prefix. be_list_keys B prefix)\<rparr>"

lemma arc_backend_id [simp]: "arc_backend B = B"
  by (simp add: arc_backend_def)

section \<open>The in-memory backend\<close>

record memory_backend =
  mem_data :: "(string \<times> bytes) list mutex"

definition starts_with :: "string \<Rightarrow> string \<Rightarrow> bool" where
  "starts_with k prefix \<longleftrightarrow> take (length prefix) k = prefix"

definition memory_new :: memory_backend where
  "memory_new = \<lparr>mem_data = new_mutex []\<rparr>"

definition locked_data ::
  "((string \<times> bytes) list, 'a) act \<Rightarrow> (memory_backend, 'a) act" where
  "locked_data m = zoom mem_data (\<lambda>d b. b\<lparr>mem_data := d\<rparr>) (with_lock m)"

definition memory_get :: "string \<Rightarrow> (memory_backend, bytes option) act" where
  "memory_get key = locked_data (\<lambda>d. (Ok (map_of d key), d))"

definition memory_put :: "string \<Rightarrow> bytes \<Rightarrow> (memory_backend, unit) act" where
  "memory_put key v = locked_data (\<lambda>d. (Ok (), AList.update key v d))"

definition memory_exists :: "string \<Rightarrow> (memory_backend, bool) act" where
  "memory_exists key = locked_data (\<lambda>d. (Ok (map_of d key \<noteq> None), d))"

definition memory_delete :: "string \<Rightarrow> (memory_backend, unit) act" where
  "memory_delete key = locked_data (\<lambda>d. (Ok (), AList.delete key d))"

definition memory_list_keys :: "string \<Rightarrow> (memory_backend, string list option) act" where
  "memory_list_keys prefix =
     locked_data (\<lambda>d. (Ok (Some (filter (\<lambda>k. starts_with k prefix) (map fst d))), d))"

definition memory_key_count :: "(memory_backend, nat) act" where
  "memory_key_count = locked_data (\<lambda>d. (Ok (length d), d))"

definition memory_contains_key :: "string \<Rightarrow> (memory_backend, bool) act" where
  "memory_contains_key key = memory_exists key"

definition MemoryBackend :: "memory_backend backend_ops" where
  "MemoryBackend =
     \<lparr>be_get = memory_get, be_put = memory_put, be_exists = memory_exists,
      be_delete = memory_delete, be_list_keys = memory_list_keys\<rparr>"

section \<open>The contract of a backend\<close>

locale kv_backend =
  fixes B :: "'b backend_ops"
    and kv :: "'b \<Rightarrow> string \<rightharpoonup> bytes"
    and ok :: "'b \<Rightarrow> bool"
    and valid :: "string \<Rightarrow> bool"
  assumes get_law:
      "ok b \<Longrightarrow> valid k \<Longrightarrow> \<exists>b'. be_get B k b = (Ok (kv b k), b') \<and> ok b' \<and> kv b' = kv b"
    and put_law:
      "ok b \<Longrightarrow> valid k \<Longrightarrow> v \<noteq> [] \<Longrightarrow>
         \<exists>b'. be_put B k v b = (Ok (), b') \<and> ok b' \<and> kv b' = (kv b)(k \<mapsto> v)"
    and exists_law:
      "ok b \<Longrightarrow> valid k \<Longrightarrow>
         \<exists>b'. be_exists B k b = (Ok (kv b k \<noteq> None), b') \<and> ok b' \<and> kv b' = kv b"
    and delete_law:
      "ok b \<Longrightarrow> valid k \<Longrightarrow> \<exists>b'. be_delete B k b = (Ok (), b') \<and> ok b' \<and> kv b' = (kv b)(k := None)"
begin

lemma wp_get:
  "ok b \<Longrightarrow> valid k \<Longrightarrow> (\<And>b'. ok b' \<Longrightarrow> kv b' = kv b \<Longrightarrow> Q (kv b k) b') \<Longrightarrow> wp (be_get B k) b Q"
  using get_law [of b k] by (auto simp: wp_iff)

lemma wp_put:
  "ok b \<Longrightarrow> valid k \<Longrightarrow> v \<noteq> [] \<Longrightarrow> (\<And>b'. ok b' \<Longrightarrow> kv b' = (kv b)(k \<mapsto> v) \<Longrightarrow> Q () b') \<Longrightarrow>
     wp (be_put B k v) b Q"
  using put_law [of b k v] by (auto simp: wp_iff)

lemma wp_exists:
  "ok b \<Longrightarrow> valid k \<Longrightarrow> (\<And>b'. ok b' \<Longrightarrow> kv b' = kv b \<Longrightarrow> Q (kv b k \<noteq> None) b') \<Longrightarrow>
     wp (be_exists B k) b Q"
  using exists_law [of b k] by (auto simp: wp_iff)

lemma wp_delete:
  "ok b \<Longrightarrow> valid k \<Longrightarrow> (\<And>b'. ok b' \<Longrightarrow> kv b' = (kv b)(k := None) \<Longrightarrow> Q () b') \<Longrightarrow>
     wp (be_delete B k) b Q"
  using delete_law [of b k] by (auto simp: wp_iff)

lemmas wp_backend = wp_get wp_put wp_exists wp_delete

text \<open>A written value is read back, and other keys do not change.\<close>

lemma get_after_put:
  assumes "ok b" and "valid k" and "valid k'" and "v \<noteq> []"
  shows "wp (seq (be_put B k v) (\<lambda>_. be_get B k')) b
           (\<lambda>r b'. r = (if k' = k then Some v else kv b k'))"
  using assms by (auto simp: wp_rules intro!: wp_backend)

end

text \<open>A backend that can enumerate its keys.\<close>

locale listing_backend = kv_backend +
  assumes list_law:
    "ok b \<Longrightarrow> \<exists>keys b'. be_list_keys B prefix b = (Ok (Some keys), b') \<and> ok b' \<and> kv b' = kv b \<and>
       distinct keys \<and> set keys = {k \<in> dom (kv b). starts_with k prefix}"
begin

lemma wp_list_keys:
  assumes "ok b"
    and "\<And>keys b'. ok b' \<Longrightarrow> kv b' = kv b \<Longrightarrow> distinct keys \<Longrightarrow>
           set keys = {k \<in> dom (kv b). starts_with k prefix} \<Longrightarrow> Q (Some keys) b'"
  shows "wp (be_list_keys B prefix) b Q"
  using list_law [OF assms(1), of prefix] assms(2) by (auto simp: wp_iff)

end

definition memory_kv :: "memory_backend \<Rightarrow> string \<rightharpoonup> bytes" where
  "memory_kv b = map_of (guarded (mem_data b))"

definition memory_ok :: "memory_backend \<Rightarrow> bool" where
  "memory_ok b \<longleftrightarrow> \<not> poisoned (mem_data b) \<and> keys_distinct (guarded (mem_data b))"

lemmas memory_defs =
  memory_get_def memory_put_def memory_exists_def memory_delete_def memory_list_keys_def
  locked_data_def zoom_def with_lock_def

interpretation mem: listing_backend MemoryBackend memory_kv memory_ok "\<lambda>_. True"
proof (unfold_locales, goal_cases)
  case (5 b prefix)
  then show ?case
    by (auto simp: MemoryBackend_def memory_ok_def memory_kv_def memory_defs
        dom_map_of_conv_image_fst)
qed (auto simp: MemoryBackend_def memory_ok_def memory_kv_def memory_defs)

lemma memory_new_ok: "memory_ok memory_new" and memory_new_kv: "memory_kv memory_new = Map.empty"
  by (simp_all add: memory_ok_def memory_new_def memory_kv_def)

end
