(* ===== verification/Refcount.thy ===== *)
theory Refcount
  imports Chunk_Prelude
begin

text \<open>
  \<^verbatim>\<open>core/src/store/refcount.rs\<close>: reference count and payload size per chunk digest.
  Counts are 64-bit words; \<^verbatim>\<open>entry.count += 1\<close> and \<^verbatim>\<open>entry.count -= 1\<close>
  wrap.
\<close>

record chunk_ref =
  cr_count :: u64
  cr_size :: u64

record ref_count =
  counts :: "(string \<times> chunk_ref) list"

lemma chunk_ref_eta [simp]: "\<lparr>cr_count = cr_count r, cr_size = cr_size r\<rparr> = r"
  by simp

definition ref_count_new :: ref_count where
  "ref_count_new = \<lparr>counts = []\<rparr>"

definition rc_set :: "string \<Rightarrow> u64 \<Rightarrow> u64 \<Rightarrow> ref_count \<Rightarrow> ref_count" where
  "rc_set digest cnt sz rc =
     (if cnt = 0 then rc\<lparr>counts := AList.delete digest (counts rc)\<rparr>
      else rc\<lparr>counts := AList.update digest \<lparr>cr_count = cnt, cr_size = sz\<rparr> (counts rc)\<rparr>)"

text \<open>\<^verbatim>\<open>entry(k).or_insert(v)\<close>: the entry and the map that holds it.\<close>

definition or_insert :: "string \<Rightarrow> chunk_ref \<Rightarrow> ref_count \<Rightarrow> chunk_ref \<times> ref_count" where
  "or_insert digest v rc =
     (case map_of (counts rc) digest of
        None \<Rightarrow> (v, rc\<lparr>counts := AList.update digest v (counts rc)\<rparr>)
      | Some entry \<Rightarrow> (entry, rc))"

definition size_mismatch_error :: "string \<Rightarrow> u64 \<Rightarrow> u64 \<Rightarrow> chunk_store_error" where
  "size_mismatch_error digest stored got =
     InvalidArgument (''chunk size mismatch for '' @ digest @ '': stored '' @
       show_nat (unat stored) @ '' got '' @ show_nat (unat got))"

definition increment :: "string \<Rightarrow> u64 \<Rightarrow> (ref_count, u64) act" where
  "increment digest sz rc =
     (case or_insert digest \<lparr>cr_count = 0, cr_size = sz\<rparr> rc of (entry, rc1) \<Rightarrow>
        if cr_size entry = 0
        then (let e = entry\<lparr>cr_size := sz, cr_count := cr_count entry + 1\<rparr>
              in (Ok (cr_count e), rc1\<lparr>counts := AList.update digest e (counts rc1)\<rparr>))
        else if sz \<noteq> 0 \<and> cr_size entry \<noteq> sz
        then (Err (size_mismatch_error digest (cr_size entry) sz), rc1)
        else (let e = entry\<lparr>cr_count := cr_count entry + 1\<rparr>
              in (Ok (cr_count e), rc1\<lparr>counts := AList.update digest e (counts rc1)\<rparr>)))"

definition decrement :: "string \<Rightarrow> (ref_count, u64) act" where
  "decrement digest rc =
     (case map_of (counts rc) digest of
        None \<Rightarrow> (Err (NotFound (''refcount '' @ digest)), rc)
      | Some entry \<Rightarrow>
          (let e = entry\<lparr>cr_count := cr_count entry - 1\<rparr>;
               remaining = cr_count e
           in (Ok remaining,
               if remaining = 0 then rc\<lparr>counts := AList.delete digest (counts rc)\<rparr>
               else rc\<lparr>counts := AList.update digest e (counts rc)\<rparr>)))"

definition rc_get :: "ref_count \<Rightarrow> string \<Rightarrow> u64 option" where
  "rc_get rc digest = map_option cr_count (map_of (counts rc) digest)"

definition size_of :: "ref_count \<Rightarrow> string \<Rightarrow> u64 option" where
  "size_of rc digest = map_option cr_size (map_of (counts rc) digest)"

definition get_ref :: "ref_count \<Rightarrow> string \<Rightarrow> chunk_ref option" where
  "get_ref rc digest = map_of (counts rc) digest"

definition rc_iter :: "ref_count \<Rightarrow> (string \<times> u64) list" where
  "rc_iter rc = map (\<lambda>(digest, meta). (digest, cr_count meta)) (counts rc)"

definition iter_refs :: "ref_count \<Rightarrow> (string \<times> chunk_ref) list" where
  "iter_refs rc = counts rc"

section \<open>The invariant and the operations on the map view\<close>

text \<open>No entry with count 0 is ever stored, and keys are distinct.\<close>

definition rc_ok :: "ref_count \<Rightarrow> bool" where
  "rc_ok rc \<longleftrightarrow> keys_distinct (counts rc) \<and> (\<forall>r \<in> snd ` set (counts rc). cr_count r \<noteq> 0)"

lemma rc_ok_iff:
  "rc_ok rc \<longleftrightarrow> keys_distinct (counts rc) \<and>
     (\<forall>d r. get_ref rc d = Some r \<longrightarrow> cr_count r \<noteq> 0)"
  by (auto simp: rc_ok_def get_ref_def) (metis map_of_SomeD image_eqI snd_conv)

lemma rc_ok_new: "rc_ok ref_count_new"
  by (simp add: rc_ok_def ref_count_new_def)

lemma rc_ok_count: "rc_ok rc \<Longrightarrow> get_ref rc d = Some r \<Longrightarrow> cr_count r \<noteq> 0"
  by (simp add: rc_ok_iff)

lemma get_ref_set [simp]:
  "get_ref (rc_set d c n rc) =
     (get_ref rc)(d := if c = 0 then None else Some \<lparr>cr_count = c, cr_size = n\<rparr>)"
  by (simp add: rc_set_def get_ref_def fun_eq_iff)

lemma rc_ok_set: "rc_ok rc \<Longrightarrow> rc_ok (rc_set d c n rc)"
  by (auto simp: rc_ok_iff split: if_splits) (simp_all add: rc_set_def)

lemma increment_fresh:
  assumes "get_ref rc d = None"
  shows "fst (increment d n rc) = Ok 1"
    and "get_ref (snd (increment d n rc)) = (get_ref rc)(d \<mapsto> \<lparr>cr_count = 1, cr_size = n\<rparr>)"
    and "keys_distinct (counts rc) \<Longrightarrow> keys_distinct (counts (snd (increment d n rc)))"
  using assms by (simp_all add: increment_def or_insert_def get_ref_def fun_eq_iff)

lemma increment_known:
  assumes "get_ref rc d = Some r" and "cr_size r = n"
  shows "fst (increment d n rc) = Ok (cr_count r + 1)"
    and "get_ref (snd (increment d n rc)) =
           (get_ref rc)(d \<mapsto> \<lparr>cr_count = cr_count r + 1, cr_size = n\<rparr>)"
    and "keys_distinct (counts rc) \<Longrightarrow> keys_distinct (counts (snd (increment d n rc)))"
  using assms by (simp_all add: increment_def or_insert_def get_ref_def fun_eq_iff Let_def)

lemma increment_mismatch:
  assumes "get_ref rc d = Some r" and "cr_size r \<noteq> 0" and "n \<noteq> 0" and "cr_size r \<noteq> n"
  shows "increment d n rc = (Err (size_mismatch_error d (cr_size r) n), rc)"
  using assms by (simp add: increment_def or_insert_def get_ref_def)

lemma decrement_missing:
  "get_ref rc d = None \<Longrightarrow> decrement d rc = (Err (NotFound (''refcount '' @ d)), rc)"
  by (simp add: decrement_def get_ref_def)

lemma decrement_known:
  assumes "get_ref rc d = Some r"
  shows "fst (decrement d rc) = Ok (cr_count r - 1)"
    and "get_ref (snd (decrement d rc)) =
           (get_ref rc)(d := if cr_count r = 1 then None
                             else Some (r\<lparr>cr_count := cr_count r - 1\<rparr>))"
    and "keys_distinct (counts rc) \<Longrightarrow> keys_distinct (counts (snd (decrement d rc)))"
  using assms by (simp_all add: decrement_def get_ref_def fun_eq_iff Let_def)

lemma wp_by_fst_snd: "fst (m s) = Ok a \<Longrightarrow> wp m s Q \<longleftrightarrow> Q a (snd (m s))"
  by (cases "m s") (simp add: wp_iff)

text \<open>
  Both operations keep the invariant, except that the increment of a count at the top of
  the word wraps to 0.
\<close>

lemma rc_ok_put:
  assumes "rc_ok rc" and "cr_count e \<noteq> 0"
  shows "rc_ok (rc\<lparr>counts := AList.update d e (counts rc)\<rparr>)"
  unfolding rc_ok_iff
proof (intro conjI allI impI)
  show "keys_distinct (counts (rc\<lparr>counts := AList.update d e (counts rc)\<rparr>))"
    using assms(1) by (simp add: rc_ok_def)
next
  fix d' r
  assume "get_ref (rc\<lparr>counts := AList.update d e (counts rc)\<rparr>) d' = Some r"
  then show "cr_count r \<noteq> 0"
    using assms(2) rc_ok_count [OF assms(1), of d'] by (auto simp: get_ref_def split: if_splits)
qed

lemma rc_ok_increment:
  assumes "rc_ok rc" and "\<And>r. get_ref rc d = Some r \<Longrightarrow> cr_count r + 1 \<noteq> 0"
  shows "rc_ok (snd (increment d n rc))"
proof (cases "get_ref rc d")
  case None
  then have "snd (increment d n rc) =
      rc\<lparr>counts := AList.update d \<lparr>cr_count = 1, cr_size = n\<rparr>
           (AList.update d \<lparr>cr_count = 0, cr_size = n\<rparr> (counts rc))\<rparr>"
    by (simp add: increment_def or_insert_def get_ref_def)
  moreover have "AList.update d x (AList.update d y al) = AList.update d x al" for x y al
    by (induction al) auto
  ultimately show ?thesis using assms(1) by (simp add: rc_ok_put)
next
  case (Some r)
  then have r: "map_of (counts rc) d = Some r" by (simp add: get_ref_def)
  show ?thesis
    using assms(1) assms(2) [OF Some] by (simp add: increment_def or_insert_def r Let_def rc_ok_put)
qed

lemma rc_ok_decrement: "rc_ok rc \<Longrightarrow> rc_ok (snd (decrement d rc))"
  by (cases "get_ref rc d")
    (auto simp: rc_ok_iff decrement_known decrement_missing)

end
