(* ===== verification/Manifests.thy ===== *)
theory Manifests
  imports Chunk_Prelude
begin

text \<open>
  \<^verbatim>\<open>core/src/store/manifest.rs\<close>: file ids to ordered chunk digests, with the file
  sizes beside them.
\<close>

record manifest =
  files :: "(string \<times> string list) list"
  file_bytes :: "(string \<times> u64) list"

definition manifest_new :: manifest where
  "manifest_new = \<lparr>files = [], file_bytes = []\<rparr>"

definition try_get :: "manifest \<Rightarrow> string \<Rightarrow> string list option" where
  "try_get m file_id = map_of (files m) file_id"

definition manifest_insert :: "string \<Rightarrow> string list \<Rightarrow> u64 \<Rightarrow> (manifest, unit) act" where
  "manifest_insert file_id digests nbytes m =
     (if file_id = [] then (Err (InvalidArgument ''file_id cannot be empty''), m)
      else (Ok (), m\<lparr>files := AList.update file_id digests (files m),
                     file_bytes := AList.update file_id nbytes (file_bytes m)\<rparr>))"

definition manifest_get :: "manifest \<Rightarrow> string \<Rightarrow> string list res" where
  "manifest_get m file_id =
     (case map_of (files m) file_id of
        None \<Rightarrow> Err (NotFound (''file '' @ file_id))
      | Some ds \<Rightarrow> Ok ds)"

definition manifest_remove :: "string \<Rightarrow> (manifest, string list) act" where
  "manifest_remove file_id m =
     (let m1 = m\<lparr>file_bytes := AList.delete file_id (file_bytes m)\<rparr> in
      case map_of (files m1) file_id of
        None \<Rightarrow> (Err (NotFound (''file '' @ file_id)), m1)
      | Some ds \<Rightarrow> (Ok ds, m1\<lparr>files := AList.delete file_id (files m1)\<rparr>))"

section \<open>The invariant and the map view\<close>

text \<open>The two maps have the same, distinct, non-empty keys.\<close>

definition manifest_ok :: "manifest \<Rightarrow> bool" where
  "manifest_ok m \<longleftrightarrow>
     keys_distinct (files m) \<and> keys_distinct (file_bytes m) \<and>
     dom (map_of (files m)) = dom (map_of (file_bytes m)) \<and> map_of (files m) [] = None"

lemma manifest_ok_new: "manifest_ok manifest_new"
  by (simp add: manifest_ok_def manifest_new_def)

lemma try_get_new [simp]: "try_get manifest_new f = None"
  by (simp add: try_get_def manifest_new_def)

lemma manifest_insert_Ok:
  assumes "file_id \<noteq> []"
  shows "fst (manifest_insert file_id ds n m) = Ok ()"
    and "files (snd (manifest_insert file_id ds n m)) = AList.update file_id ds (files m)"
    and "file_bytes (snd (manifest_insert file_id ds n m)) =
           AList.update file_id n (file_bytes m)"
  using assms by (simp_all add: manifest_insert_def)

lemma manifest_insert_preserves: "manifest_ok m \<Longrightarrow> manifest_ok (snd (manifest_insert f ds n m))"
  by (auto simp: manifest_ok_def manifest_insert_def)

lemma manifest_remove_preserves: "manifest_ok m \<Longrightarrow> manifest_ok (snd (manifest_remove f m))"
  by (auto simp: manifest_ok_def manifest_remove_def Let_def split: option.splits)

lemma manifest_remove_Ok:
  assumes "try_get m f = Some ds"
  shows "fst (manifest_remove f m) = Ok ds"
    and "files (snd (manifest_remove f m)) = AList.delete f (files m)"
    and "file_bytes (snd (manifest_remove f m)) = AList.delete f (file_bytes m)"
  using assms by (simp_all add: manifest_remove_def try_get_def Let_def)

lemma manifest_remove_missing:
  "try_get m f = None \<Longrightarrow> fst (manifest_remove f m) = Err (NotFound (''file '' @ f))"
  by (simp add: manifest_remove_def try_get_def Let_def)

lemma manifest_get_try_get:
  "manifest_get m f = (case try_get m f of None \<Rightarrow> Err (NotFound (''file '' @ f)) | Some ds \<Rightarrow> Ok ds)"
  by (simp add: manifest_get_def try_get_def)

text \<open>Digests and size of a file, as one map.\<close>

definition manifest_view :: "manifest \<Rightarrow> string \<rightharpoonup> string list \<times> u64" where
  "manifest_view m f =
     (case (map_of (files m) f, map_of (file_bytes m) f) of
        (Some ds, Some n) \<Rightarrow> Some (ds, n)
      | _ \<Rightarrow> None)"

lemma manifest_view_new [simp]: "manifest_view manifest_new = Map.empty"
  by (simp add: fun_eq_iff manifest_view_def manifest_new_def)

lemma manifest_view_insert:
  "f \<noteq> [] \<Longrightarrow>
     manifest_view (snd (manifest_insert f ds n m)) = (manifest_view m)(f \<mapsto> (ds, n))"
  by (simp add: fun_eq_iff manifest_view_def manifest_insert_def)

lemma manifest_view_remove:
  "try_get m f = Some ds \<Longrightarrow>
     manifest_view (snd (manifest_remove f m)) = (manifest_view m)(f := None)"
  by (simp add: fun_eq_iff manifest_view_def manifest_remove_Ok)

lemma manifest_bytes_iff:
  "manifest_ok m \<Longrightarrow> map_of (file_bytes m) f = None \<longleftrightarrow> map_of (files m) f = None"
  unfolding manifest_ok_def by (metis domIff)

lemma manifest_view_digests:
  "manifest_ok m \<Longrightarrow> map_option fst (manifest_view m f) = try_get m f"
  using manifest_bytes_iff [of m f]
  by (auto simp: manifest_view_def try_get_def split: option.split)

lemma manifest_view_dom: "manifest_ok m \<Longrightarrow> dom (manifest_view m) = dom (map_of (files m))"
  using manifest_bytes_iff [of m]
  by (auto simp: manifest_view_def domIff set_eq_iff split: option.split)

end
