(* ===== verification/Persistence.thy ===== *)
theory Persistence
  imports Hasher Backend Refcount Manifests
begin

text \<open>
  \<^verbatim>\<open>core/src/store/persistence.rs\<close>: manifests and refcounts as JSON values on the
  backend, one key per record plus one index key per kind.  \<^verbatim>\<open>serde_json\<close> is the
  parameter \<open>json_ops\<close>, one field per type the code encodes or decodes; what the code
  relies on is \<open>json_ok\<close>: an encoding is not empty and decoding it gives the value back.
\<close>

record manifest_record =
  mr_digests :: "string list"
  mr_file_bytes :: u64

record ref_count_record =
  rr_count :: u64
  rr_size :: u64

datatype ref_count_wire = Legacy u64 | Record ref_count_record

record json_ops =
  to_vec_manifest :: "manifest_record \<Rightarrow> string + bytes"
  from_slice_manifest :: "bytes \<Rightarrow> string + manifest_record"
  to_vec_refcount :: "ref_count_record \<Rightarrow> string + bytes"
  from_slice_refcount :: "bytes \<Rightarrow> string + ref_count_wire"
  to_vec_strings :: "string list \<Rightarrow> string + bytes"
  from_slice_strings :: "bytes \<Rightarrow> string + string list"

definition json_ok :: "json_ops \<Rightarrow> bool" where
  "json_ok J \<longleftrightarrow>
     (\<forall>r. \<exists>v. to_vec_manifest J r = Inr v \<and> from_slice_manifest J v = Inr r \<and> v \<noteq> []) \<and>
     (\<forall>r. \<exists>v. to_vec_refcount J r = Inr v \<and> from_slice_refcount J v = Inr (Record r) \<and> v \<noteq> []) \<and>
     (\<forall>xs. \<exists>v. to_vec_strings J xs = Inr v \<and> from_slice_strings J v = Inr xs \<and> v \<noteq> [])"

text \<open>
  An encoded \<^verbatim>\<open>ManifestRecord\<close> is a JSON object, so it does not parse as an array of
  strings.
\<close>

definition json_typed :: "json_ops \<Rightarrow> bool" where
  "json_typed J \<longleftrightarrow>
     (\<forall>r v. to_vec_manifest J r = Inr v \<longrightarrow> (\<exists>e. from_slice_strings J v = Inl e))"

section \<open>Keys\<close>

definition MANIFEST_PREFIX :: string where "MANIFEST_PREFIX = ''_manifest/''"
definition REFCOUNT_PREFIX :: string where "REFCOUNT_PREFIX = ''_refcount/''"
definition MANIFEST_INDEX_KEY :: string where "MANIFEST_INDEX_KEY = ''_manifest/__index__''"
definition REFCOUNT_INDEX_KEY :: string where "REFCOUNT_INDEX_KEY = ''_refcount/__index__''"

definition manifest_key :: "string \<Rightarrow> string" where
  "manifest_key file_id = MANIFEST_PREFIX @ file_id"

definition refcount_key :: "string \<Rightarrow> string" where
  "refcount_key digest = REFCOUNT_PREFIX @ digest"

definition validate_digest :: "string \<Rightarrow> unit res" where
  "validate_digest digest =
     (if length digest \<noteq> 64 \<or> \<not> list_all is_ascii_hexdigit digest
      then Err (InvalidArgument (''invalid digest: '' @ digest)) else Ok ())"

section \<open>Index lists\<close>

definition read_string_list :: "json_ops \<Rightarrow> 'b backend_ops \<Rightarrow> string \<Rightarrow> ('b, string list) act" where
  "read_string_list J B key =
     seq (be_get B key) (\<lambda>v.
       case v of
         Some raw \<Rightarrow>
           lift (map_err (\<lambda>e. BackendError (''invalid index JSON at '' @ key @ '': '' @ e))
                  (from_slice_strings J raw))
       | None \<Rightarrow> ret [])"

definition write_string_list ::
  "json_ops \<Rightarrow> 'b backend_ops \<Rightarrow> string \<Rightarrow> string list \<Rightarrow> ('b, unit) act" where
  "write_string_list J B key vs =
     seq (lift (map_err (\<lambda>e. BackendError (''index encode failed: '' @ e)) (to_vec_strings J vs)))
       (\<lambda>payload. be_put B key payload)"

section \<open>Loading\<close>

definition parse_refcount_record :: "json_ops \<Rightarrow> bytes \<Rightarrow> string \<Rightarrow> (u64 \<times> u64) res" where
  "parse_refcount_record J raw digest =
     bind_res
       (map_err (\<lambda>e. BackendError (''invalid refcount JSON for '' @ digest @ '': '' @ e))
          (from_slice_refcount J raw))
       (\<lambda>wire. Ok (case wire of Legacy cnt \<Rightarrow> (cnt, 0) | Record r \<Rightarrow> (rr_count r, rr_size r)))"

definition load_manifest_entry ::
  "json_ops \<Rightarrow> 'b backend_ops \<Rightarrow> string \<Rightarrow> manifest \<Rightarrow> ('b, manifest) act" where
  "load_manifest_entry J B file_id m =
     seq (be_get B (manifest_key file_id)) (\<lambda>v.
     seq (lift (case v of
            None \<Rightarrow> Err (BackendError (''missing manifest key '' @ manifest_key file_id))
          | Some raw \<Rightarrow> Ok raw)) (\<lambda>raw.
     seq (lift (map_err (\<lambda>e. BackendError (''invalid manifest JSON for '' @ file_id @ '': '' @ e))
            (from_slice_manifest J raw))) (\<lambda>rec.
     seq (for_each (mr_digests rec) (\<lambda>d. lift (validate_digest d))) (\<lambda>_.
     (case manifest_insert file_id (mr_digests rec) (mr_file_bytes rec) m of
        (Ok u, m') \<Rightarrow> ret m'
      | (Err e, m') \<Rightarrow> fail e
      | (Panic, m') \<Rightarrow> lift Panic
      | (Hang, m') \<Rightarrow> lift Hang)))))"

definition load_manifests :: "json_ops \<Rightarrow> 'b backend_ops \<Rightarrow> ('b, manifest) act" where
  "load_manifests J B =
     seq (read_string_list J B MANIFEST_INDEX_KEY) (\<lambda>index.
       fold_act (load_manifest_entry J B) index manifest_new)"

definition load_refcount_entry ::
  "json_ops \<Rightarrow> 'b backend_ops \<Rightarrow> string \<Rightarrow> ref_count \<Rightarrow> ('b, ref_count) act" where
  "load_refcount_entry J B digest rc =
     seq (lift (validate_digest digest)) (\<lambda>_.
     seq (be_get B (refcount_key digest)) (\<lambda>v.
     seq (lift (case v of
            None \<Rightarrow> Err (BackendError (''missing refcount key '' @ refcount_key digest))
          | Some raw \<Rightarrow> Ok raw)) (\<lambda>raw.
     seq (lift (parse_refcount_record J raw digest)) (\<lambda>(cnt, sz).
     ret (if 0 < cnt then rc_set digest cnt sz rc else rc)))))"

definition load_refcounts :: "json_ops \<Rightarrow> 'b backend_ops \<Rightarrow> ('b, ref_count) act" where
  "load_refcounts J B =
     seq (read_string_list J B REFCOUNT_INDEX_KEY) (\<lambda>index.
       fold_act (load_refcount_entry J B) index ref_count_new)"

section \<open>Saving and removing\<close>

definition save_manifest ::
  "json_ops \<Rightarrow> 'b backend_ops \<Rightarrow> string \<Rightarrow> string list \<Rightarrow> u64 \<Rightarrow> ('b, unit) act" where
  "save_manifest J B file_id digests nbytes =
     seq (for_each digests (\<lambda>d. lift (validate_digest d))) (\<lambda>_.
     seq (lift (map_err (\<lambda>e. BackendError (''manifest encode failed: '' @ e))
            (to_vec_manifest J \<lparr>mr_digests = digests, mr_file_bytes = nbytes\<rparr>))) (\<lambda>payload.
     seq (be_put B (manifest_key file_id) payload) (\<lambda>_.
     seq (read_string_list J B MANIFEST_INDEX_KEY) (\<lambda>index.
     if file_id \<in> set index then ret ()
     else write_string_list J B MANIFEST_INDEX_KEY (index @ [file_id])))))"

definition remove_manifest :: "json_ops \<Rightarrow> 'b backend_ops \<Rightarrow> string \<Rightarrow> ('b, unit) act" where
  "remove_manifest J B file_id =
     seq (be_delete B (manifest_key file_id)) (\<lambda>_.
     seq (read_string_list J B MANIFEST_INDEX_KEY) (\<lambda>index.
     write_string_list J B MANIFEST_INDEX_KEY (filter (\<lambda>id. id \<noteq> file_id) index)))"

definition save_refcount ::
  "json_ops \<Rightarrow> 'b backend_ops \<Rightarrow> string \<Rightarrow> u64 \<Rightarrow> u64 \<Rightarrow> ('b, unit) act" where
  "save_refcount J B digest cnt sz =
     seq (lift (validate_digest digest)) (\<lambda>_.
     seq (lift (map_err (\<lambda>e. BackendError (''refcount encode failed: '' @ e))
            (to_vec_refcount J \<lparr>rr_count = cnt, rr_size = sz\<rparr>))) (\<lambda>payload.
     seq (be_put B (refcount_key digest) payload) (\<lambda>_.
     seq (read_string_list J B REFCOUNT_INDEX_KEY) (\<lambda>index.
     if digest \<in> set index then ret ()
     else write_string_list J B REFCOUNT_INDEX_KEY (index @ [digest])))))"

definition remove_refcount :: "json_ops \<Rightarrow> 'b backend_ops \<Rightarrow> string \<Rightarrow> ('b, unit) act" where
  "remove_refcount J B digest =
     seq (be_delete B (refcount_key digest)) (\<lambda>_.
     seq (read_string_list J B REFCOUNT_INDEX_KEY) (\<lambda>index.
     write_string_list J B REFCOUNT_INDEX_KEY (filter (\<lambda>d. d \<noteq> digest) index)))"

section \<open>The key space\<close>

lemmas key_defs =
  MANIFEST_PREFIX_def REFCOUNT_PREFIX_def MANIFEST_INDEX_KEY_def REFCOUNT_INDEX_KEY_def
  manifest_key_def refcount_key_def

lemma validate_digest_Ok_iff [simp]: "validate_digest d = Ok u \<longleftrightarrow> is_chunk_digest d"
  by (simp add: validate_digest_def is_chunk_digest_def)

lemma validate_digest_cases:
  "validate_digest d =
     (if is_chunk_digest d then Ok () else Err (InvalidArgument (''invalid digest: '' @ d)))"
  by (simp add: validate_digest_def is_chunk_digest_def)

definition is_manifest_key :: "string \<Rightarrow> bool" where
  "is_manifest_key k \<longleftrightarrow> starts_with k MANIFEST_PREFIX"

definition is_refcount_key :: "string \<Rightarrow> bool" where
  "is_refcount_key k \<longleftrightarrow> starts_with k REFCOUNT_PREFIX"

lemma manifest_key_class [simp]:
  "is_manifest_key (manifest_key f)" "is_manifest_key MANIFEST_INDEX_KEY"
  "\<not> is_refcount_key (manifest_key f)" "\<not> is_refcount_key MANIFEST_INDEX_KEY"
  by (simp_all add: is_manifest_key_def is_refcount_key_def starts_with_def key_defs)

lemma refcount_key_class [simp]:
  "is_refcount_key (refcount_key d)" "is_refcount_key REFCOUNT_INDEX_KEY"
  "\<not> is_manifest_key (refcount_key d)" "\<not> is_manifest_key REFCOUNT_INDEX_KEY"
  by (simp_all add: is_manifest_key_def is_refcount_key_def starts_with_def key_defs)

lemma refcount_key_not_manifest_key: "is_refcount_key k \<Longrightarrow> \<not> is_manifest_key k"
  by (auto simp: is_manifest_key_def is_refcount_key_def starts_with_def key_defs)

lemma digest_key_class [simp]:
  assumes "is_chunk_digest d"
  shows "\<not> is_manifest_key d" and "\<not> is_refcount_key d"
proof -
  have "hd d \<noteq> CHR ''_''" "d \<noteq> []"
    using assms by (cases d; auto simp: chunk_digest_Nil dest: chunk_digest_no_underscore)+
  then show "\<not> is_manifest_key d" and "\<not> is_refcount_key d"
    by (cases d; simp add: is_manifest_key_def is_refcount_key_def starts_with_def key_defs)+
qed

lemma manifest_key_inj [simp]: "manifest_key f = manifest_key g \<longleftrightarrow> f = g"
  by (simp add: manifest_key_def)

lemma refcount_key_inj [simp]: "refcount_key d = refcount_key e \<longleftrightarrow> d = e"
  by (simp add: refcount_key_def)

text \<open>The one clash of the layout: a file called \<^verbatim>\<open>__index__\<close>.\<close>

lemma manifest_key_eq_index: "manifest_key f = MANIFEST_INDEX_KEY \<longleftrightarrow> f = ''__index__''"
  by (simp add: key_defs)

lemma refcount_key_eq_index: "refcount_key d = REFCOUNT_INDEX_KEY \<longleftrightarrow> d = ''__index__''"
  by (simp add: key_defs)

lemma digest_not_index: "is_chunk_digest d \<Longrightarrow> d \<noteq> ''__index__''"
  by (auto simp: is_chunk_digest_def)

lemma refcount_key_not_index [simp]:
  "is_chunk_digest d \<Longrightarrow> refcount_key d \<noteq> REFCOUNT_INDEX_KEY"
  by (simp add: refcount_key_eq_index digest_not_index)

end
