(* ===== verification/Codec.thy ===== *)
theory Codec
  imports Chunk_Prelude
begin

text \<open>
  \<^verbatim>\<open>core/src/store/codec.rs\<close>: the optional transform of blob bytes.  The trait is the
  record of its two methods; its documented law (\<^verbatim>\<open>decode(encode(p)) == p\<close>), and that a
  chunk is not encoded as nothing, make the locale \<open>chunk_codec\<close>, which \<^verbatim>\<open>IdentityCodec\<close> and the absent codec satisfy.
\<close>

record chunk_codec_ops =
  encode :: "bytes \<Rightarrow> bytes res"
  decode :: "bytes \<Rightarrow> bytes res"

definition IdentityCodec :: chunk_codec_ops where
  "IdentityCodec = \<lparr>encode = (\<lambda>plaintext. Ok plaintext), decode = (\<lambda>stored. Ok stored)\<rparr>"

text \<open>What \<^verbatim>\<open>store_chunk\<close> writes and \<^verbatim>\<open>read_chunk_by_digest\<close> recovers under
  \<^verbatim>\<open>codec: Option<Arc<dyn ChunkCodec>>\<close>.\<close>

fun encode_opt :: "chunk_codec_ops option \<Rightarrow> bytes \<Rightarrow> bytes res" where
  "encode_opt None data = Ok data"
| "encode_opt (Some c) data = encode c data"

fun decode_opt :: "chunk_codec_ops option \<Rightarrow> bytes \<Rightarrow> bytes res" where
  "decode_opt None stored = Ok stored"
| "decode_opt (Some c) stored = decode c stored"

locale chunk_codec =
  fixes enc :: "bytes \<Rightarrow> bytes res"
    and dec :: "bytes \<Rightarrow> bytes res"
  assumes encode_decode: "\<exists>stored. enc p = Ok stored \<and> dec stored = Ok p"
    and encode_nonempty: "p \<noteq> [] \<Longrightarrow> enc p \<noteq> Ok []"
begin

lemma encodeE:
  obtains stored where "enc p = Ok stored" and "dec stored = Ok p"
  using encode_decode by blast

lemma encode_inj:
  assumes "enc p = Ok s" and "enc q = Ok s"
  shows "p = q"
proof -
  obtain s1 where "enc p = Ok s1" "dec s1 = Ok p" by (rule encodeE)
  moreover obtain s2 where "enc q = Ok s2" "dec s2 = Ok q" by (rule encodeE)
  ultimately show ?thesis using assms by simp
qed

end

interpretation identity_codec: chunk_codec "encode IdentityCodec" "decode IdentityCodec"
  by unfold_locales (simp_all add: IdentityCodec_def)

interpretation no_codec: chunk_codec "encode_opt None" "decode_opt None"
  by unfold_locales simp_all

text \<open>A store's codec slot is lawful when it is empty or holds a lawful codec.\<close>

definition codec_ok :: "chunk_codec_ops option \<Rightarrow> bool" where
  "codec_ok c \<longleftrightarrow>
     (\<forall>p. (\<exists>stored. encode_opt c p = Ok stored \<and> decode_opt c stored = Ok p) \<and>
          (p \<noteq> [] \<longrightarrow> encode_opt c p \<noteq> Ok []))"

lemma codec_ok_iff_locale: "codec_ok c \<longleftrightarrow> chunk_codec (encode_opt c) (decode_opt c)"
  by (auto simp: codec_ok_def chunk_codec_def)

lemma codec_ok_None [simp]: "codec_ok None"
  using no_codec.chunk_codec_axioms by (simp add: codec_ok_iff_locale)

lemma codec_ok_Identity [simp]: "codec_ok (Some IdentityCodec)"
  by (simp add: codec_ok_def IdentityCodec_def)

lemma codec_okE:
  assumes "codec_ok c"
  obtains stored where "encode_opt c p = Ok stored" and "decode_opt c stored = Ok p"
    and "p \<noteq> [] \<Longrightarrow> stored \<noteq> []"
  using assms unfolding codec_ok_def by metis

end
