(* ===== verification/Chunkers.thy ===== *)
theory Chunkers
  imports Chunk_Prelude
begin

text \<open>
  \<^verbatim>\<open>core/src/chunker/\<close>: the \<^verbatim>\<open>Chunker\<close> trait, its fixed-size and
  content-defined implementations, and the streaming loop \<^verbatim>\<open>for_each_chunk\<close>.  The
  trait is the record of its methods; its contract is the locale \<open>chunker\<close>, and
  \<open>stream_chunker\<close> adds that the chunks do not depend on how the input is split.  FastCDC's
  fcdc-point search is the \<^verbatim>\<open>fastcdc\<close> crate, a parameter; a \<^verbatim>\<open>Read\<close>er is any
  action that returns at most the bytes asked for, the empty list being end of file.
\<close>

record 'c chunker_ops =
  feed :: "bytes \<Rightarrow> ('c, bytes list) act"
  finish :: "('c, bytes list) act"

section \<open>The fixed-size chunker\<close>

record fixed_chunker =
  chunk_size :: nat
  fc_buffer :: bytes

definition fixed_chunker_new :: "nat \<Rightarrow> fixed_chunker" where
  "fixed_chunker_new n = \<lparr>chunk_size = n, fc_buffer = []\<rparr>"

definition default_chunk_size :: nat where
  "default_chunk_size = 4 * 1024 * 1024"

text \<open>
  The \<^verbatim>\<open>while self.buffer.len() >= self.chunk_size\<close> loop.  With a chunk size of 0
  the guard never fails, so the loop is partial: \<open>None\<close> is a call that does not return.
\<close>

partial_function (option) fixed_feed_loop ::
  "nat \<Rightarrow> bytes \<Rightarrow> bytes list \<Rightarrow> (bytes list \<times> bytes) option" where
  "fixed_feed_loop n buffer out =
     (if n \<le> length buffer
      then fixed_feed_loop n (drop n buffer) (out @ [take n buffer])
      else Some (out, buffer))"

definition fixed_feed :: "bytes \<Rightarrow> (fixed_chunker, bytes list) act" where
  "fixed_feed data c =
     (let c1 = c\<lparr>fc_buffer := fc_buffer c @ data\<rparr> in
      case fixed_feed_loop (chunk_size c1) (fc_buffer c1) [] of
        None \<Rightarrow> (Hang, c1)
      | Some (out, rest) \<Rightarrow> (Ok out, c1\<lparr>fc_buffer := rest\<rparr>))"

definition fixed_finish :: "(fixed_chunker, bytes list) act" where
  "fixed_finish c =
     (if fc_buffer c = [] then (Ok [], c)
      else (Ok [fc_buffer c], c\<lparr>fc_buffer := []\<rparr>))"

definition FixedChunker :: "fixed_chunker chunker_ops" where
  "FixedChunker = \<lparr>feed = fixed_feed, finish = fixed_finish\<rparr>"

section \<open>The content-defined chunker\<close>

record cdc_config =
  min_size :: nat
  avg_size :: nat
  max_size :: nat
  window_size :: nat

definition cdc_config_default :: cdc_config where
  "cdc_config_default =
     \<lparr>min_size = 256 * 1024, avg_size = 4 * 1024 * 1024, max_size = 8 * 1024 * 1024,
      window_size = 64\<rparr>"

text \<open>
  \<open>fcdc data min avg max\<close> stands for the entries (offset, length) of
  \<^verbatim>\<open>FastCDC::with_level(data, min, avg, max, Level1)\<close>; \<open>None\<close> is the panic of
  its argument assertions.  Slicing out of range panics.
\<close>

type_synonym fastcdc = "bytes \<Rightarrow> nat \<Rightarrow> nat \<Rightarrow> nat \<Rightarrow> (nat \<times> nat) list option"

definition slice :: "bytes \<Rightarrow> nat \<Rightarrow> nat \<Rightarrow> bytes res" where
  "slice data offset len =
     (if offset + len \<le> length data then Ok (take len (drop offset data)) else Panic)"

fun push_slices :: "bytes \<Rightarrow> (nat \<times> nat) list \<Rightarrow> bytes list \<Rightarrow> bytes list res" where
  "push_slices data [] chunks = Ok chunks"
| "push_slices data ((offset, len) # es) chunks =
     bind_res (slice data offset len) (\<lambda>c. push_slices data es (chunks @ [c]))"

definition chunk_bytes :: "fastcdc \<Rightarrow> bytes \<Rightarrow> cdc_config \<Rightarrow> bytes list res" where
  "chunk_bytes fcdc data config =
     (if min_size config = 0 \<or> avg_size config < min_size config
      then Err (InvalidArgument ''invalid CDC size parameters'')
      else if max_size config < avg_size config
      then Err (InvalidArgument ''max_size must be >= avg_size'')
      else case fcdc data (min_size config) (avg_size config) (max_size config) of
             None \<Rightarrow> Panic
           | Some entries \<Rightarrow> push_slices data entries [])"

record cdc_chunker =
  cc_config :: cdc_config
  cc_buffer :: bytes

definition cdc_chunker_new :: "cdc_config \<Rightarrow> cdc_chunker res" where
  "cdc_chunker_new config =
     (if window_size config = 0 then Err (InvalidArgument ''window_size must be > 0'')
      else Ok \<lparr>cc_config = config, cc_buffer = []\<rparr>)"

definition cdc_with_defaults :: "cdc_chunker res" where
  "cdc_with_defaults = cdc_chunker_new cdc_config_default"

definition cdc_feed :: "bytes \<Rightarrow> (cdc_chunker, bytes list) act" where
  "cdc_feed data c = (Ok [], c\<lparr>cc_buffer := cc_buffer c @ data\<rparr>)"

definition cdc_finish :: "fastcdc \<Rightarrow> (cdc_chunker, bytes list) act" where
  "cdc_finish fcdc c =
     (if cc_buffer c = [] then (Ok [], c)
      else (chunk_bytes fcdc (cc_buffer c) (cc_config c), c\<lparr>cc_buffer := []\<rparr>))"

definition CdcChunker :: "fastcdc \<Rightarrow> cdc_chunker chunker_ops" where
  "CdcChunker fcdc = \<lparr>feed = cdc_feed, finish = cdc_finish fcdc\<rparr>"

definition chunk_cdc :: "fastcdc \<Rightarrow> bytes \<Rightarrow> bytes list res" where
  "chunk_cdc fcdc data = chunk_bytes fcdc data cdc_config_default"

section \<open>Streaming a reader through a chunker\<close>

type_synonym 'r reader = "nat \<Rightarrow> ('r, bytes) act"

definition read_buf_size :: nat where
  "read_buf_size = 64 * 1024"

text \<open>
  The \<^verbatim>\<open>loop\<close> of \<^verbatim>\<open>for_each_chunk\<close>.  A reader that never reports end of
  file keeps it running, so it is partial.  A reader that claims more bytes than the buffer
  holds makes \<^verbatim>\<open>&buf[..n]\<close> panic.
\<close>

partial_function (option) read_loop ::
  "'r reader \<Rightarrow> 'c chunker_ops \<Rightarrow> (bytes \<Rightarrow> ('s, unit) act) \<Rightarrow> 'r \<Rightarrow> 'c \<Rightarrow> 's \<Rightarrow>
     (unit res \<times> 'r \<times> 'c \<times> 's) option" where
  "read_loop rd K on_chunk r c s =
     (case rd read_buf_size r of
        (Err e, r1) \<Rightarrow> Some (Err e, r1, c, s)
      | (Panic, r1) \<Rightarrow> Some (Panic, r1, c, s)
      | (Hang, r1) \<Rightarrow> Some (Hang, r1, c, s)
      | (Ok buf, r1) \<Rightarrow>
          if buf = [] then Some (Ok (), r1, c, s)
          else if read_buf_size < length buf then Some (Panic, r1, c, s)
          else (case feed K buf c of
                  (Err e, c1) \<Rightarrow> Some (Err e, r1, c1, s)
                | (Panic, c1) \<Rightarrow> Some (Panic, r1, c1, s)
                | (Hang, c1) \<Rightarrow> Some (Hang, r1, c1, s)
                | (Ok chunks, c1) \<Rightarrow>
                    (case for_each chunks on_chunk s of
                       (Err e, s1) \<Rightarrow> Some (Err e, r1, c1, s1)
                     | (Panic, s1) \<Rightarrow> Some (Panic, r1, c1, s1)
                     | (Hang, s1) \<Rightarrow> Some (Hang, r1, c1, s1)
                     | (Ok u, s1) \<Rightarrow> read_loop rd K on_chunk r1 c1 s1)))"

definition for_each_chunk ::
  "'r reader \<Rightarrow> 'c chunker_ops \<Rightarrow> (bytes \<Rightarrow> ('s, unit) act) \<Rightarrow> ('r \<times> 'c \<times> 's, unit) act" where
  "for_each_chunk rd K on_chunk =
     (\<lambda>(r, c, s).
        case read_loop rd K on_chunk r c s of
          None \<Rightarrow> (Hang, (r, c, s))
        | Some (Ok u, r1, c1, s1) \<Rightarrow>
            (case finish K c1 of
               (Err e, c2) \<Rightarrow> (Err e, (r1, c2, s1))
             | (Panic, c2) \<Rightarrow> (Panic, (r1, c2, s1))
             | (Hang, c2) \<Rightarrow> (Hang, (r1, c2, s1))
             | (Ok chunks, c2) \<Rightarrow>
                 (case for_each chunks on_chunk s1 of (res, s2) \<Rightarrow> (res, (r1, c2, s2))))
        | Some (Err e, rest) \<Rightarrow> (Err e, rest)
        | Some (Panic, rest) \<Rightarrow> (Panic, rest)
        | Some (Hang, rest) \<Rightarrow> (Hang, rest))"

definition chunk_reader ::
  "'r reader \<Rightarrow> 'c chunker_ops \<Rightarrow> 'r \<Rightarrow> 'c \<Rightarrow> bytes list res \<times> 'r \<times> 'c" where
  "chunk_reader rd K r c =
     (case for_each_chunk rd K (\<lambda>chunk chunks. (Ok (), chunks @ [chunk])) (r, c, []) of
        (res, (r1, c1, chunks)) \<Rightarrow> (bind_res res (\<lambda>_. Ok chunks), r1, c1))"

section \<open>The contract of a chunker\<close>

text \<open>
  \<open>pending c\<close> are the bytes a chunker holds back.  Feeding loses, invents and reorders
  nothing, finishing flushes, and no chunk is empty.  A \<open>stream_chunker\<close> moreover cannot
  see how its input was split into calls.
\<close>

locale chunker =
  fixes K :: "'c chunker_ops"
    and inv :: "'c \<Rightarrow> bool"
    and pending :: "'c \<Rightarrow> bytes"
  assumes feed_spec:
      "inv c \<Longrightarrow> \<exists>cs c'. feed K data c = (Ok cs, c') \<and> inv c' \<and> [] \<notin> set cs \<and>
         concat cs @ pending c' = pending c @ data"
    and finish_spec:
      "inv c \<Longrightarrow> \<exists>cs c'. finish K c = (Ok cs, c') \<and> inv c' \<and> [] \<notin> set cs \<and>
         concat cs = pending c \<and> pending c' = []"

locale stream_chunker = chunker +
  assumes feed_Nil: "inv c \<Longrightarrow> feed K [] c = (Ok [], c)"
    and feed_append:
      "inv c \<Longrightarrow> feed K xs c = (Ok cs, c1) \<Longrightarrow> feed K ys c1 = (Ok ds, c2) \<Longrightarrow>
         feed K (xs @ ys) c = (Ok (cs @ ds), c2)"

text \<open>All chunks of one buffer: one \<open>feed\<close>, then \<open>finish\<close>.\<close>

definition one_shot :: "'c chunker_ops \<Rightarrow> bytes \<Rightarrow> 'c \<Rightarrow> bytes list res" where
  "one_shot K data c = fst (seq (feed K data) (\<lambda>cs. seq (finish K) (\<lambda>ds. ret (cs @ ds))) c)"

text \<open>A reader that hands over exactly \<open>data\<close>, in pieces of any size, and then ends.\<close>

inductive delivers :: "'r reader \<Rightarrow> 'r \<Rightarrow> bytes \<Rightarrow> 'r \<Rightarrow> bool" for rd where
  eof: "rd read_buf_size r = (Ok [], r') \<Longrightarrow> delivers rd r [] r'"
| piece: "rd read_buf_size r = (Ok buf, r1) \<Longrightarrow> buf \<noteq> [] \<Longrightarrow> length buf \<le> read_buf_size \<Longrightarrow>
     delivers rd r1 rest r' \<Longrightarrow> delivers rd r (buf @ rest) r'"

lemma for_each_append:
  "for_each (xs @ ys) f = seq (for_each xs f) (\<lambda>_. for_each ys f)"
  by (induction xs) (simp_all add: seq_assoc)

context chunker
begin

lemma one_shot_Ok:
  assumes "inv c"
  obtains chunks where "one_shot K data c = Ok chunks" and "concat chunks = pending c @ data"
    and "[] \<notin> set chunks"
proof -
  obtain cs c1 where 1: "feed K data c = (Ok cs, c1)" "inv c1" "[] \<notin> set cs"
      "concat cs @ pending c1 = pending c @ data"
    using feed_spec [OF assms] by blast
  obtain ds c2 where 2: "finish K c1 = (Ok ds, c2)" "[] \<notin> set ds" "concat ds = pending c1"
    using finish_spec [OF 1(2)] by blast
  have "one_shot K data c = Ok (cs @ ds)"
    by (simp add: one_shot_def seq_Ok [where m = "feed K data", OF 1(1)]
        seq_Ok [where m = "finish K", OF 2(1)] ret_def)
  moreover have "concat (cs @ ds) = pending c @ data" using 1(4) 2(3) by simp
  ultimately show ?thesis using 1(3) 2(2) by (intro that [of "cs @ ds"]) auto
qed

end

context stream_chunker
begin

lemma read_loop_delivers:
  assumes "delivers rd r data r'" and "inv c"
  shows "\<exists>cs c'. feed K data c = (Ok cs, c') \<and> inv c' \<and>
     (\<forall>x s'. for_each cs f s = (x, s') \<longrightarrow>
        (if x = Ok () then read_loop rd K f r c s = Some (Ok (), r', c', s')
         else \<exists>r1 c1. read_loop rd K f r c s = Some (x, r1, c1, s')))"
  using assms
proof (induction arbitrary: c s)
  case (eof r r')
  then show ?case by (simp add: feed_Nil ret_def read_loop.simps)
next
  case (piece r buf r1 rest r')
  obtain cs c1 where 1: "feed K buf c = (Ok cs, c1)" "inv c1"
    using feed_spec [OF piece.prems] by blast
  obtain x s1 where x: "for_each cs f s = (x, s1)" by fastforce
  obtain ds c2 where 2: "feed K rest c1 = (Ok ds, c2)" "inv c2"
      and loop: "\<And>y s'. for_each ds f s1 = (y, s') \<Longrightarrow>
        (if y = Ok () then read_loop rd K f r1 c1 s1 = Some (Ok (), r', c2, s')
         else \<exists>ra ca. read_loop rd K f r1 c1 s1 = Some (y, ra, ca, s'))"
    using piece.IH [OF 1(2), of s1] by blast
  have "feed K (buf @ rest) c = (Ok (cs @ ds), c2)"
    by (rule feed_append [OF piece.prems 1(1) 2(1)])
  moreover have "for_each (cs @ ds) f s =
      (case x of Ok u \<Rightarrow> for_each ds f s1 | Err e \<Rightarrow> (Err e, s1) | Panic \<Rightarrow> (Panic, s1)
         | Hang \<Rightarrow> (Hang, s1))"
    by (simp add: for_each_append seq_def x)
  moreover have "read_loop rd K f r c s =
      (case x of Ok u \<Rightarrow> read_loop rd K f r1 c1 s1 | _ \<Rightarrow> Some (x, r1, c1, s1))"
    using piece.hyps 1(1) x
    by (simp add: read_loop.simps [of rd K f r c s] split: res.split)
  ultimately show ?case
    using 2 loop by (intro exI [of _ "cs @ ds"] exI [of _ c2]) (auto split: res.split)
qed

text \<open>
  Streaming equals buffering: whatever the reader's pieces, the callback sees exactly the
  chunks of the whole input, in order, and stops at the same first error.
\<close>

lemma for_each_chunk_delivers:
  assumes "delivers rd r data r'" and "inv c" and "one_shot K data c = Ok chunks"
  shows "\<exists>r1 c1. for_each_chunk rd K f (r, c, s) =
           (fst (for_each chunks f s), (r1, c1, snd (for_each chunks f s)))"
proof -
  obtain cs c' where 1: "feed K data c = (Ok cs, c')" "inv c'"
      and loop: "\<And>x s'. for_each cs f s = (x, s') \<Longrightarrow>
        (if x = Ok () then read_loop rd K f r c s = Some (Ok (), r', c', s')
         else \<exists>r1 c1. read_loop rd K f r c s = Some (x, r1, c1, s'))"
    using read_loop_delivers [OF assms(1,2), of f s] by blast
  obtain ds c2 where 2: "finish K c' = (Ok ds, c2)"
    using finish_spec [OF 1(2)] by blast
  have chunks: "chunks = cs @ ds"
    using assms(3) by (simp add: one_shot_def seq_Ok [where m = "feed K data", OF 1(1)]
        seq_Ok [where m = "finish K", OF 2] ret_def)
  obtain x s1 where x: "for_each cs f s = (x, s1)" by fastforce
  show ?thesis
    using loop [OF x] 2
    by (cases x) (auto simp: for_each_chunk_def chunks for_each_append seq_def x split: prod.splits)
qed

end

section \<open>The fixed-size chunker meets the contract\<close>

text \<open>
  The reference: the \<open>i\<close>-th full chunk of a buffer is the slice of length \<open>n\<close> at
  \<open>i * n\<close>; what is left is the tail.
\<close>

definition full_chunks :: "nat \<Rightarrow> bytes \<Rightarrow> bytes list" where
  "full_chunks n xs = map (\<lambda>i. take n (drop (i * n) xs)) [0..<length xs div n]"

definition rest_bytes :: "nat \<Rightarrow> bytes \<Rightarrow> bytes" where
  "rest_bytes n xs = drop (n * (length xs div n)) xs"

lemma full_chunks_short: "length xs < n \<Longrightarrow> full_chunks n xs = []"
  and rest_bytes_short: "length xs < n \<Longrightarrow> rest_bytes n xs = xs"
  by (simp_all add: full_chunks_def rest_bytes_def)

lemma full_chunks_step:
  assumes "0 < n" and "n \<le> length xs"
  shows "full_chunks n xs = take n xs # full_chunks n (drop n xs)"
    and "rest_bytes n xs = rest_bytes n (drop n xs)"
proof -
  have len: "length xs div n = Suc ((length xs - n) div n)"
    using assms by (simp add: le_div_geq)
  show "full_chunks n xs = take n xs # full_chunks n (drop n xs)"
    by (simp add: full_chunks_def len upt_conv_Cons map_Suc_upt [symmetric] add.commute
        del: upt_Suc map_Suc_upt)
  show "rest_bytes n xs = rest_bytes n (drop n xs)"
    by (simp add: rest_bytes_def len add.commute)
qed

lemma fixed_feed_loop_eq:
  assumes "0 < n"
  shows "fixed_feed_loop n buffer out = Some (out @ full_chunks n buffer, rest_bytes n buffer)"
proof (induction "length buffer" arbitrary: buffer out rule: less_induct)
  case less
  show ?case
  proof (cases "n \<le> length buffer")
    case True
    with assms less [of "drop n buffer" "out @ [take n buffer]"] show ?thesis
      by (simp add: fixed_feed_loop.simps [of n buffer] full_chunks_step)
  next
    case False
    then show ?thesis
      by (simp add: fixed_feed_loop.simps [of n buffer] full_chunks_short rest_bytes_short)
  qed
qed

lemma fixed_feed_loop_0: "fixed_feed_loop 0 buffer out = None"
proof (rule ccontr)
  assume "fixed_feed_loop 0 buffer out \<noteq> None"
  then obtain y where y: "fixed_feed_loop 0 buffer out = Some y" by blast
  have "(0::nat) \<noteq> 0"
    by (rule fixed_feed_loop.raw_induct [where P = "\<lambda>n buffer out r. n \<noteq> 0", OF _ y])
      (auto split: if_splits)
  then show False by simp
qed

lemma length_rest_bytes: "0 < n \<Longrightarrow> length (rest_bytes n xs) < n"
  by (simp add: rest_bytes_def minus_mult_div_eq_mod)

lemma full_chunks_lengths: "0 < n \<Longrightarrow> c \<in> set (full_chunks n xs) \<Longrightarrow> length c = n"
proof -
  assume n: "0 < n" and "c \<in> set (full_chunks n xs)"
  then obtain i where i: "i < length xs div n" "c = take n (drop (i * n) xs)"
    by (auto simp: full_chunks_def)
  then have "(i + 1) * n \<le> (length xs div n) * n" by (intro mult_le_mono1) simp
  also have "\<dots> \<le> length xs" by simp
  finally show "length c = n" using i by simp
qed

lemma concat_full_chunks: "0 < n \<Longrightarrow> concat (full_chunks n xs) @ rest_bytes n xs = xs"
proof (induction "length xs" arbitrary: xs rule: less_induct)
  case less
  show ?case
  proof (cases "n \<le> length xs")
    case True
    with less show ?thesis by (simp add: full_chunks_step)
  next
    case False
    then show ?thesis by (simp add: full_chunks_short rest_bytes_short)
  qed
qed

lemma full_chunks_append:
  "0 < n \<Longrightarrow>
     full_chunks n (xs @ ys) = full_chunks n xs @ full_chunks n (rest_bytes n xs @ ys) \<and>
     rest_bytes n (xs @ ys) = rest_bytes n (rest_bytes n xs @ ys)"
proof (induction "length xs" arbitrary: xs rule: less_induct)
  case less
  show ?case
  proof (cases "n \<le> length xs")
    case True
    with less show ?thesis by (simp add: full_chunks_step)
  next
    case False
    then show ?thesis by (simp add: full_chunks_short rest_bytes_short)
  qed
qed

definition fixed_inv :: "fixed_chunker \<Rightarrow> bool" where
  "fixed_inv c \<longleftrightarrow> 0 < chunk_size c \<and> length (fc_buffer c) < chunk_size c"

lemma fixed_inv_new: "0 < n \<Longrightarrow> fixed_inv (fixed_chunker_new n)"
  by (simp add: fixed_inv_def fixed_chunker_new_def)

lemma fixed_feed_eq:
  "0 < chunk_size c \<Longrightarrow>
     fixed_feed data c =
       (Ok (full_chunks (chunk_size c) (fc_buffer c @ data)),
        c\<lparr>fc_buffer := rest_bytes (chunk_size c) (fc_buffer c @ data)\<rparr>)"
  by (simp add: fixed_feed_def fixed_feed_loop_eq)

interpretation fixed: stream_chunker FixedChunker fixed_inv fc_buffer
proof (unfold_locales, goal_cases)
  case (1 c data)
  then show ?case
    by (auto simp: FixedChunker_def fixed_inv_def fixed_feed_eq length_rest_bytes
        concat_full_chunks dest: full_chunks_lengths)
next
  case (2 c)
  then show ?case
    by (auto simp: FixedChunker_def fixed_inv_def fixed_finish_def)
next
  case (3 c)
  then show ?case
    by (simp add: FixedChunker_def fixed_inv_def fixed_feed_eq full_chunks_short rest_bytes_short)
next
  case (4 c xs cs c1 ys ds c2)
  then show ?case
    using full_chunks_append [of "chunk_size c" "fc_buffer c @ xs" ys]
    by (auto simp: FixedChunker_def fixed_inv_def fixed_feed_eq)
qed

text \<open>The chunk list of a whole file under fixed-size chunking.\<close>

definition fixed_chunks :: "nat \<Rightarrow> bytes \<Rightarrow> bytes list" where
  "fixed_chunks n data =
     full_chunks n data @ (if rest_bytes n data = [] then [] else [rest_bytes n data])"

lemma one_shot_fixed:
  "0 < n \<Longrightarrow> one_shot FixedChunker data (fixed_chunker_new n) = Ok (fixed_chunks n data)"
  by (simp add: one_shot_def FixedChunker_def seq_def fixed_feed_eq fixed_chunker_new_def
      fixed_finish_def fixed_chunks_def ret_def)

lemma concat_fixed_chunks: "0 < n \<Longrightarrow> concat (fixed_chunks n data) = data"
  using concat_full_chunks [of n data] by (auto simp: fixed_chunks_def)

lemma fixed_chunks_nonempty: "0 < n \<Longrightarrow> [] \<notin> set (fixed_chunks n data)"
  by (auto simp: fixed_chunks_def dest: full_chunks_lengths)

section \<open>The content-defined chunker meets the contract\<close>

text \<open>
  What the code relies on FastCDC for: on non-empty input with the given sizes its entries
  are consecutive, non-empty, cover the input, stay within \<open>max\<close>, and all but the last
  reach \<open>min\<close>.
\<close>

fun contiguous :: "nat \<Rightarrow> (nat \<times> nat) list \<Rightarrow> nat \<Rightarrow> bool" where
  "contiguous p [] n \<longleftrightarrow> p = n"
| "contiguous p ((offset, len) # es) n \<longleftrightarrow> offset = p \<and> 0 < len \<and> contiguous (p + len) es n"

definition fastcdc_ok :: "fastcdc \<Rightarrow> cdc_config \<Rightarrow> bool" where
  "fastcdc_ok fcdc config \<longleftrightarrow>
     (\<forall>data. data \<noteq> [] \<longrightarrow>
        (\<exists>es. fcdc data (min_size config) (avg_size config) (max_size config) = Some es \<and>
              contiguous 0 es (length data) \<and>
              (\<forall>e \<in> set es. snd e \<le> max_size config) \<and>
              (\<forall>e \<in> set (butlast es). min_size config \<le> snd e)))"

definition cdc_config_ok :: "cdc_config \<Rightarrow> bool" where
  "cdc_config_ok config \<longleftrightarrow>
     0 < min_size config \<and> min_size config \<le> avg_size config \<and> avg_size config \<le> max_size config"

lemma contiguous_le: "contiguous p es n \<Longrightarrow> p \<le> n"
  by (induction p es n rule: contiguous.induct) auto

lemma push_slices_contiguous:
  "contiguous p es (length data) \<Longrightarrow>
     \<exists>cs. push_slices data es acc = Ok (acc @ cs) \<and> concat cs = drop p data \<and>
          map length cs = map snd es"
proof (induction p es "length data" arbitrary: acc rule: contiguous.induct)
  case (1 p)
  then show ?case by simp
next
  case (2 p offset len es)
  then have h: "offset = p" "0 < len" "contiguous (p + len) es (length data)" by auto
  then have le: "p + len \<le> length data" by (blast dest: contiguous_le)
  let ?c = "take len (drop p data)"
  obtain cs where cs: "push_slices data es (acc @ [?c]) = Ok ((acc @ [?c]) @ cs)"
      "concat cs = drop (p + len) data" "map length cs = map snd es"
    using 2 h by blast
  have "concat (?c # cs) = drop p data"
    using append_take_drop_id [of len "drop p data"] cs(2) by (simp add: add.commute)
  with cs h le show ?case
    by (intro exI [of _ "?c # cs"]) (simp add: slice_def)
qed

lemma contiguous_positive: "contiguous p es n \<Longrightarrow> e \<in> set es \<Longrightarrow> 0 < snd e"
  by (induction p es n rule: contiguous.induct) auto

lemma chunk_bytes_Ok:
  assumes "cdc_config_ok config" and "fastcdc_ok fcdc config" and "data \<noteq> []"
  obtains cs where "chunk_bytes fcdc data config = Ok cs" and "concat cs = data"
    and "[] \<notin> set cs" and "\<forall>c \<in> set cs. length c \<le> max_size config"
    and "\<forall>c \<in> set (butlast cs). min_size config \<le> length c"
proof -
  obtain es where es: "fcdc data (min_size config) (avg_size config) (max_size config) = Some es"
      "contiguous 0 es (length data)" "\<forall>e \<in> set es. snd e \<le> max_size config"
      "\<forall>e \<in> set (butlast es). min_size config \<le> snd e"
    using assms(2,3) unfolding fastcdc_ok_def by blast
  obtain cs where cs: "push_slices data es [] = Ok cs" "concat cs = data"
      "map length cs = map snd es"
    using push_slices_contiguous [OF es(2), of "[]"] by auto
  have sizes: "length ` set cs = snd ` set es"
    by (metis cs(3) set_map)
  have butlast_sizes: "length ` set (butlast cs) = snd ` set (butlast es)"
    by (metis cs(3) map_butlast set_map)
  have "[] \<notin> set cs"
  proof
    assume "[] \<in> set cs"
    then have "0 \<in> snd ` set es" using sizes by (metis image_eqI list.size(3))
    then show False using contiguous_positive [OF es(2)] by fastforce
  qed
  moreover have "\<forall>c \<in> set cs. length c \<le> max_size config"
    using sizes es(3) by (metis (no_types, lifting) image_iff)
  moreover have "\<forall>c \<in> set (butlast cs). min_size config \<le> length c"
    using butlast_sizes es(4) by (metis (no_types, lifting) image_iff)
  moreover have "chunk_bytes fcdc data config = Ok cs"
    using assms(1) es(1) cs(1) by (simp add: chunk_bytes_def cdc_config_ok_def)
  ultimately show ?thesis using cs(2) by (intro that)
qed

definition cdc_inv :: "fastcdc \<Rightarrow> cdc_chunker \<Rightarrow> bool" where
  "cdc_inv fcdc c \<longleftrightarrow> cdc_config_ok (cc_config c) \<and> fastcdc_ok fcdc (cc_config c)"

lemma cdc_stream_chunker: "stream_chunker (CdcChunker fcdc) (cdc_inv fcdc) cc_buffer"
proof (unfold_locales, goal_cases)
  case (1 c data)
  then show ?case by (simp add: CdcChunker_def cdc_feed_def cdc_inv_def)
next
  case (2 c)
  show ?case
  proof (cases "cc_buffer c = []")
    case True
    with 2 show ?thesis by (simp add: CdcChunker_def cdc_finish_def cdc_inv_def)
  next
    case False
    with 2 show ?thesis
      by (auto simp: CdcChunker_def cdc_finish_def cdc_inv_def
          elim: chunk_bytes_Ok [of "cc_config c" fcdc "cc_buffer c"])
  qed
next
  case (3 c)
  then show ?case by (simp add: CdcChunker_def cdc_feed_def)
next
  case (4 c xs cs c1 ys ds c2)
  then show ?case by (auto simp: CdcChunker_def cdc_feed_def)
qed

lemma cdc_defaults_ok: "cdc_config_ok cdc_config_default"
  by (simp add: cdc_config_ok_def cdc_config_default_def)

section \<open>Readers over a buffer\<close>

text \<open>\<^verbatim>\<open>std::io::Cursor<Vec<u8>>\<close>: each read takes what fits.\<close>

definition cursor_read :: "bytes reader" where
  "cursor_read cap data = (Ok (take cap data), drop cap data)"

lemma cursor_delivers: "delivers cursor_read data data []"
proof (induction "length data" arbitrary: data rule: less_induct)
  case less
  show ?case
  proof (cases "data = []")
    case True
    then show ?thesis by (auto simp: cursor_read_def intro: delivers.eof)
  next
    case False
    then have "delivers cursor_read (drop read_buf_size data) (drop read_buf_size data) []"
      by (intro less) (simp add: read_buf_size_def)
    with False have "delivers cursor_read data (take read_buf_size data @ drop read_buf_size data) []"
      by (intro delivers.piece) (auto simp: cursor_read_def read_buf_size_def)
    then show ?thesis by simp
  qed
qed

end
