(* ===== verification/F64.thy ===== *)
theory F64
  imports Main "HOL-Library.Countable" "HOL-Library.Word"
begin

text \<open>
  The \<^verbatim>\<open>f64\<close> arithmetic of the statistics.  A finite \<^verbatim>\<open>f64\<close> is a
  rational number; each operation of IEEE 754 gives the exact result rounded to 53 significant
  bits, to the nearest, ties to even.  The values at hand are 0 or between \<open>2 ^ -64\<close> and
  \<open>2 ^ 71\<close>, where nothing overflows or underflows.
\<close>

type_synonym f64 = rat

definition round_half_even :: "rat \<Rightarrow> int" where
  "round_half_even y =
     (if y - of_int \<lfloor>y\<rfloor> < 1 / 2 then \<lfloor>y\<rfloor>
      else if 1 / 2 < y - of_int \<lfloor>y\<rfloor> then \<lfloor>y\<rfloor> + 1
      else if even \<lfloor>y\<rfloor> then \<lfloor>y\<rfloor> else \<lfloor>y\<rfloor> + 1)"

text \<open>The binary exponent of a positive number from \<open>2 ^ -64\<close> on.\<close>

function bit_length :: "int \<Rightarrow> nat" where
  "bit_length n = (if n \<le> 0 then 0 else Suc (bit_length (n div 2)))"
  by pat_completeness auto
termination by (relation "measure nat") simp_all

declare bit_length.simps [simp del]

definition f64_exponent :: "rat \<Rightarrow> int" where
  "f64_exponent x = int (bit_length \<lfloor>x * 2 ^ 64\<rfloor>) - 65"

definition f64_unit :: "rat \<Rightarrow> rat" where
  "f64_unit x = 2 powi (f64_exponent x - 52)"

definition f64_round :: "rat \<Rightarrow> f64" where
  "f64_round x = (if x = 0 then 0 else of_int (round_half_even (x / f64_unit x)) * f64_unit x)"

text \<open>\<^verbatim>\<open>n as f64\<close>, \<^verbatim>\<open>a / b\<close> and \<^verbatim>\<open>a * b\<close>.\<close>

definition f64_of_u64 :: "64 word \<Rightarrow> f64" where
  "f64_of_u64 w = f64_round (of_nat (unat w))"

definition f64_div :: "f64 \<Rightarrow> f64 \<Rightarrow> f64" where
  "f64_div a b = f64_round (a / b)"

definition f64_mult :: "f64 \<Rightarrow> f64 \<Rightarrow> f64" where
  "f64_mult a b = f64_round (a * b)"

section \<open>Rounding to integers\<close>

lemma round_half_even_floor: "\<lfloor>y\<rfloor> \<le> round_half_even y" "round_half_even y \<le> \<lfloor>y\<rfloor> + 1"
  by (simp_all add: round_half_even_def)

lemma round_half_even_of_int [simp]: "round_half_even (of_int n) = n"
  by (simp add: round_half_even_def)

lemma round_half_even_mono:
  assumes "x \<le> y"
  shows "round_half_even x \<le> round_half_even y"
proof (cases "\<lfloor>x\<rfloor> = \<lfloor>y\<rfloor>")
  case True
  then show ?thesis using assms by (auto simp: round_half_even_def)
next
  case False
  then have "\<lfloor>x\<rfloor> + 1 \<le> \<lfloor>y\<rfloor>" using floor_mono [OF assms] by simp
  then show ?thesis using round_half_even_floor(2) [of x] round_half_even_floor(1) [of y] by linarith
qed

lemma round_half_even_bounds:
  "of_int a \<le> y \<Longrightarrow> a \<le> round_half_even y" "y \<le> of_int b \<Longrightarrow> round_half_even y \<le> b"
  using round_half_even_mono [of "of_int a" y] round_half_even_mono [of y "of_int b"] by simp_all

section \<open>The exponent\<close>

lemma bit_length_bounds:
  assumes "0 < n"
  shows "0 < bit_length n" and "2 ^ (bit_length n - 1) \<le> n" and "n < 2 ^ bit_length n"
proof -
  have "0 < bit_length n \<and> 2 ^ (bit_length n - 1) \<le> n \<and> n < 2 ^ bit_length n"
    using assms
  proof (induction n rule: bit_length.induct)
    case (1 n)
    show ?case
    proof (cases "n = 1")
      case True
      then show ?thesis by (simp add: bit_length.simps)
    next
      case False
      then have half: "0 < n div 2" using 1 by simp
      then have IH: "0 < bit_length (n div 2)" "2 ^ (bit_length (n div 2) - 1) \<le> n div 2"
          "n div 2 < 2 ^ bit_length (n div 2)"
        using 1 by simp_all
      have "2 ^ bit_length (n div 2) = 2 * (2 :: int) ^ (bit_length (n div 2) - 1)"
        using IH(1) by (simp add: power_eq_if)
      with IH show ?thesis using 1(2) by (subst (1 2 3) bit_length.simps) (simp, linarith)
    qed
  qed
  then show "0 < bit_length n" and "2 ^ (bit_length n - 1) \<le> n" and "n < 2 ^ bit_length n" by blast+
qed

lemma bit_length_mono: "m \<le> n \<Longrightarrow> bit_length m \<le> bit_length n"
proof (cases "0 < m")
  case True
  assume "m \<le> n"
  with True have "(2 :: int) ^ (bit_length m - 1) < 2 ^ bit_length n"
    using bit_length_bounds(2) [of m] bit_length_bounds(3) [of n] by linarith
  then have "bit_length m - 1 < bit_length n" by (simp only: power_strict_increasing_iff)
  then show ?thesis by simp
qed (simp add: bit_length.simps)

lemma f64_exponent_bounds:
  assumes "1 / 2 ^ 64 \<le> x"
  shows "2 powi f64_exponent x \<le> x" and "x < 2 powi (f64_exponent x + 1)"
proof -
  let ?n = "\<lfloor>x * 2 ^ 64\<rfloor>"
  let ?l = "bit_length ?n"
  have "1 \<le> x * 2 ^ 64" using assms by (simp add: field_simps)
  then have n: "0 < ?n" by simp
  note b = bit_length_bounds [OF n]
  have "of_int (2 ^ (?l - 1)) \<le> (of_int ?n :: rat)" using b(2) by (simp only: of_int_le_iff)
  also have "\<dots> \<le> x * 2 ^ 64" by simp
  finally have lower: "(2 :: rat) ^ (?l - 1) \<le> x * 2 ^ 64" by simp
  have "x * 2 ^ 64 < of_int (?n + 1)" by linarith
  also have "\<dots> \<le> (of_int (2 ^ ?l) :: rat)" using b(3) by (simp only: of_int_le_iff)
  finally have upper: "x * 2 ^ 64 < (2 :: rat) ^ ?l" by simp
  have powi: "(2 :: rat) powi (int k - 64) = 2 ^ k / 2 ^ 64" for k
    by (simp add: power_int_diff)
  have "f64_exponent x = int (?l - 1) - 64" using b(1) by (simp add: f64_exponent_def of_nat_diff)
  then have "2 powi f64_exponent x = (2 :: rat) ^ (?l - 1) / 2 ^ 64" by (simp only: powi)
  then show "2 powi f64_exponent x \<le> x" using lower by (simp only: pos_divide_le_eq zero_less_power zero_less_numeral)
  have "f64_exponent x + 1 = int ?l - 64" by (simp add: f64_exponent_def)
  then have "2 powi (f64_exponent x + 1) = (2 :: rat) ^ ?l / 2 ^ 64" by (simp only: powi)
  then show "x < 2 powi (f64_exponent x + 1)" using upper by (simp only: pos_less_divide_eq zero_less_power zero_less_numeral)
qed

lemma f64_unit_pos [simp]: "0 < f64_unit x"
  by (simp add: f64_unit_def)

lemma f64_units:
  assumes "1 / 2 ^ 64 \<le> x"
  shows "2 ^ 52 * f64_unit x \<le> x" and "x < 2 ^ 53 * f64_unit x"
proof -
  have "2 powi f64_exponent x = 2 ^ 52 * f64_unit x" "2 powi (f64_exponent x + 1) = 2 ^ 53 * f64_unit x"
    by (simp_all add: f64_unit_def power_int_diff power_int_add)
  then show "2 ^ 52 * f64_unit x \<le> x" and "x < 2 ^ 53 * f64_unit x"
    using f64_exponent_bounds [OF assms] by simp_all
qed

lemma f64_unit_scaled:
  assumes "1 / 2 ^ 64 \<le> x"
  shows "2 ^ 52 \<le> x / f64_unit x" and "x / f64_unit x < 2 ^ 53"
  unfolding pos_le_divide_eq [OF f64_unit_pos] pos_divide_less_eq [OF f64_unit_pos]
  by (rule f64_units [OF assms])+

section \<open>Rounding\<close>

lemma f64_round_zero [simp]: "f64_round 0 = 0"
  by (simp add: f64_round_def)

lemma small_positive: "1 / 2 ^ 64 \<le> (x :: rat) \<Longrightarrow> 0 < x"
  by (rule less_le_trans [of _ "1 / 2 ^ 64"]) simp_all

text \<open>The result is within half a unit, a relative error of \<open>2 ^ -53\<close>.\<close>

lemma round_half_even_error: "\<bar>of_int (round_half_even y) - y\<bar> \<le> 1 / 2"
proof -
  have "of_int \<lfloor>y\<rfloor> \<le> y" "y < of_int \<lfloor>y\<rfloor> + 1" by linarith+
  then show ?thesis unfolding round_half_even_def abs_le_iff by (simp split: if_splits) linarith
qed

lemma f64_round_error:
  assumes "1 / 2 ^ 64 \<le> x"
  shows "\<bar>f64_round x - x\<bar> \<le> x / 2 ^ 53"
proof -
  let ?u = "f64_unit x" and ?q = "of_int (round_half_even (x / f64_unit x)) :: rat"
  have scaled: "x / ?u * ?u = x" using f64_unit_pos [of x] by (metis less_irrefl nonzero_eq_divide_eq)
  have r: "f64_round x = ?q * ?u" using small_positive [OF assms] by (simp add: f64_round_def)
  have "f64_round x - x = (?q - x / ?u) * ?u" unfolding r left_diff_distrib scaled ..
  then have "\<bar>f64_round x - x\<bar> = \<bar>?q - x / ?u\<bar> * ?u" by (simp add: abs_mult abs_of_pos)
  also have "\<dots> \<le> 1 / 2 * ?u"
    by (rule mult_right_mono [OF round_half_even_error less_imp_le [OF f64_unit_pos]])
  also have "\<dots> \<le> x / 2 ^ 53" using f64_units(1) [OF assms] by simp
  finally show ?thesis .
qed

lemma f64_round_bounds:
  assumes "1 / 2 ^ 64 \<le> x"
  shows "2 powi f64_exponent x \<le> f64_round x" and "f64_round x \<le> 2 powi (f64_exponent x + 1)"
proof -
  have r: "f64_round x = of_int (round_half_even (x / f64_unit x)) * f64_unit x"
    using small_positive [OF assms] by (simp add: f64_round_def)
  have "2 ^ 52 \<le> round_half_even (x / f64_unit x)" "round_half_even (x / f64_unit x) \<le> 2 ^ 53"
    using round_half_even_bounds(1) [of "2 ^ 52" "x / f64_unit x"] round_half_even_bounds(2) [of "x / f64_unit x" "2 ^ 53"]
      f64_unit_scaled [OF assms] by simp_all
  then have "of_int (2 ^ 52) \<le> (of_int (round_half_even (x / f64_unit x)) :: rat)"
      "(of_int (round_half_even (x / f64_unit x)) :: rat) \<le> of_int (2 ^ 53)"
    by (simp_all only: of_int_le_iff)
  then have "of_int (2 ^ 52) * f64_unit x \<le> f64_round x" "f64_round x \<le> of_int (2 ^ 53) * f64_unit x"
    unfolding r by (auto intro: mult_right_mono less_imp_le [OF f64_unit_pos] simp del: of_int_power of_int_numeral)
  then show "2 powi f64_exponent x \<le> f64_round x" and "f64_round x \<le> 2 powi (f64_exponent x + 1)"
    by (simp_all add: f64_unit_def power_int_diff power_int_add)
qed

lemma f64_round_pos: "1 / 2 ^ 64 \<le> x \<Longrightarrow> 0 < f64_round x"
  using f64_round_bounds(1) [of x] less_le_trans [of 0 "2 powi f64_exponent x" "f64_round x"] by simp

lemma f64_round_mono:
  assumes "1 / 2 ^ 64 \<le> x" and "x \<le> y"
  shows "f64_round x \<le> f64_round y"
proof -
  have y: "1 / 2 ^ 64 \<le> y" using assms by simp
  have "f64_exponent x \<le> f64_exponent y"
    using assms(2) by (simp add: f64_exponent_def bit_length_mono floor_mono mult_right_mono)
  then consider "f64_exponent x = f64_exponent y" | "f64_exponent x + 1 \<le> f64_exponent y" by linarith
  then show ?thesis
  proof cases
    case 1
    then have u: "f64_unit y = f64_unit x" by (simp add: f64_unit_def)
    have "x / f64_unit x \<le> y / f64_unit x" using assms(2) by (simp add: divide_right_mono less_imp_le)
    then have "of_int (round_half_even (x / f64_unit x)) * f64_unit x \<le>
        of_int (round_half_even (y / f64_unit x)) * f64_unit x"
      using round_half_even_mono by (intro mult_right_mono) (simp_all add: less_imp_le)
    then show ?thesis
      using small_positive [OF assms(1)] small_positive [OF y] by (simp add: f64_round_def u)
  next
    case 2
    have "f64_round x \<le> 2 powi (f64_exponent x + 1)" by (rule f64_round_bounds(2) [OF assms(1)])
    also have "\<dots> \<le> (2 :: rat) powi f64_exponent y" using 2 by (intro power_int_increasing) simp_all
    also have "\<dots> \<le> f64_round y" by (rule f64_round_bounds(1) [OF y])
    finally show ?thesis .
  qed
qed

text \<open>Integers below \<open>2 ^ 53\<close> are exact.\<close>

lemma f64_round_nat:
  assumes "n < 2 ^ 53"
  shows "f64_round (of_nat n) = of_nat n"
proof (cases "n = 0")
  case False
  then have "1 \<le> (of_nat n :: rat)" by simp
  then have n: "1 / 2 ^ 64 \<le> (of_nat n :: rat)" by (rule order_trans [rotated]) simp
  have "(2 :: rat) powi f64_exponent (of_nat n) < 2 powi 53"
    by (rule le_less_trans [OF f64_exponent_bounds(1) [OF n]]) (use assms in \<open>simp add: of_nat_less_numeral_iff\<close>)
  then have "f64_exponent (of_nat n) < 53" by (rule power_int_le_imp_less_exp [rotated]) simp_all
  then obtain k where k: "52 - f64_exponent (of_nat n) = int k"
    using zero_le_imp_eq_int [of "52 - f64_exponent (of_nat n)"] by auto
  then have u: "f64_unit (of_nat n) = 1 / 2 ^ k"
    unfolding f64_unit_def by (metis minus_diff_eq power_int_minus power_int_of_nat inverse_eq_divide)
  have "of_nat n / f64_unit (of_nat n) = of_int (int n * 2 ^ k)" by (simp add: u)
  then have "round_half_even (of_nat n / f64_unit (of_nat n)) = int n * 2 ^ k"
    by (simp only: round_half_even_of_int)
  then show ?thesis using False by (simp add: f64_round_def u)
qed simp

text \<open>Evaluating a rounding from a guess of the exponent and the mantissa.\<close>

lemma f64_exponent_unique:
  assumes "1 / 2 ^ 64 \<le> x" and "2 powi e \<le> x" and "x < 2 powi (e + 1)"
  shows "f64_exponent x = e"
proof -
  have less: "a < b" if "(2 :: rat) powi a < 2 powi b" for a b :: int
    using that power_int_increasing [of b a "2 :: rat"] by (cases "a < b") auto
  note x = f64_exponent_bounds [OF assms(1)]
  have "f64_exponent x < e + 1" by (rule less [OF le_less_trans [OF x(1) assms(3)]])
  moreover have "e < f64_exponent x + 1" by (rule less [OF le_less_trans [OF assms(2) x(2)]])
  ultimately show ?thesis by simp
qed

lemma round_half_even_near:
  assumes "\<bar>y - of_int n\<bar> < 1 / 2"
  shows "round_half_even y = n"
proof -
  have "\<bar>of_int (round_half_even y) - of_int n\<bar> < (1 :: rat)"
    using round_half_even_error [of y] assms by linarith
  then have "\<bar>round_half_even y - n\<bar> < 1"
    by (simp only: of_int_diff [symmetric] of_int_abs [symmetric] of_int_less_1_iff)
  then show ?thesis by simp
qed

lemma f64_roundI:
  assumes "1 / 2 ^ 64 \<le> x" and "2 powi e \<le> x" and "x < 2 powi (e + 1)"
    and "\<bar>x / 2 powi (e - 52) - of_int n\<bar> < 1 / 2"
  shows "f64_round x = of_int n * 2 powi (e - 52)"
  using f64_exponent_unique [OF assms(1-3)] round_half_even_near [OF assms(4)] small_positive [OF assms(1)]
  by (simp add: f64_round_def f64_unit_def)

section \<open>Percentages\<close>

lemma f64_round_relative:
  assumes "1 / 2 ^ 64 \<le> x"
  shows "x * (1 - 1 / 2 ^ 53) \<le> f64_round x" and "f64_round x \<le> x * (1 + 1 / 2 ^ 53)"
proof -
  have "f64_round x - x \<le> x / 2 ^ 53" "x - f64_round x \<le> x / 2 ^ 53"
    using f64_round_error [OF assms] by (simp_all only: abs_le_iff minus_diff_eq)
  then show "x * (1 - 1 / 2 ^ 53) \<le> f64_round x" and "f64_round x \<le> x * (1 + 1 / 2 ^ 53)"
    by simp_all
qed

lemma f64_of_u64_zero [simp]: "f64_of_u64 0 = 0"
  by (simp add: f64_of_u64_def)

lemma f64_div_zero [simp]: "f64_div 0 b = 0"
  by (simp add: f64_div_def)

lemma f64_mult_zero [simp]: "f64_mult 0 b = 0"
  by (simp add: f64_mult_def)

text \<open>A positive 64-bit number stays between 1 and \<open>2 ^ 64\<close>.\<close>

lemma f64_of_u64_range:
  assumes "w \<noteq> 0"
  shows "1 / 2 ^ 64 \<le> (of_nat (unat w) :: rat)" and "1 \<le> f64_of_u64 w" and "f64_of_u64 w \<le> 2 ^ 64"
proof -
  let ?x = "of_nat (unat w) :: rat"
  have "0 < unat w" using assms by (simp add: unat_gt_0)
  then have one: "1 \<le> ?x" by (simp del: of_nat_unat)
  then show small: "1 / 2 ^ 64 \<le> ?x" by (rule order_trans [rotated]) simp
  have "f64_round (of_nat 1) \<le> f64_round ?x" using one by (intro f64_round_mono) simp_all
  then show "1 \<le> f64_of_u64 w" using f64_round_nat [of 1] by (simp add: f64_of_u64_def)
  have "?x < of_nat (2 ^ 64)" using unsigned_less [of w, where 'a = nat] by (simp only: of_nat_less_iff) simp
  also have "\<dots> = 2 powi 64" by simp
  finally have "?x < 2 powi 64" .
  with f64_exponent_bounds(1) [OF small] have "(2 :: rat) powi f64_exponent ?x < 2 powi 64"
    by (rule le_less_trans)
  then have "f64_exponent ?x < 64" by (rule power_int_le_imp_less_exp [rotated]) simp_all
  then have "(2 :: rat) powi (f64_exponent ?x + 1) \<le> 2 powi 64" by (intro power_int_increasing) simp_all
  with f64_round_bounds(2) [OF small] show "f64_of_u64 w \<le> 2 ^ 64"
    by (simp only: f64_of_u64_def) simp
qed

lemma f64_of_u64_mono:
  assumes "v \<noteq> 0" and "v \<le> w"
  shows "f64_of_u64 v \<le> f64_of_u64 w"
  unfolding f64_of_u64_def
  by (rule f64_round_mono [OF f64_of_u64_range(1) [OF assms(1)]])
    (use assms(2) in \<open>simp add: word_le_nat_alt del: of_nat_unat\<close>)

text \<open>The quotient of two of them, times 100: three roundings after the two of the conversions.\<close>

lemma f64_percentage:
  assumes "v \<noteq> 0" and "v \<le> w"
  defines "exact \<equiv> 100 * (of_nat (unat v) / of_nat (unat w)) :: rat"
    and "pct \<equiv> f64_mult (f64_div (f64_of_u64 v) (f64_of_u64 w)) 100"
  shows "0 < pct" and "pct \<le> 100" and "\<bar>pct - exact\<bar> \<le> exact / 2 ^ 50"
proof -
  let ?v = "of_nat (unat v) :: rat" and ?w = "of_nat (unat w) :: rat"
  let ?a = "f64_of_u64 v" and ?b = "f64_of_u64 w"
  have w: "w \<noteq> 0" using assms(1,2) by auto
  note V = f64_of_u64_range [OF assms(1)] and W = f64_of_u64_range [OF w]
  have pos: "0 < ?v" "0 < ?w" "0 < ?a" "0 < ?b"
    using small_positive [OF V(1)] small_positive [OF W(1)] V(2) W(2) by simp_all
  have q: "1 / 2 ^ 64 \<le> ?a / ?b" using V(2) W(3) pos by (intro frac_le) simp_all
  have "?a / ?b \<le> 1" using f64_of_u64_mono [OF assms(1,2)] pos by simp
  then have "f64_round (?a / ?b) \<le> f64_round (of_nat 1)" by (intro f64_round_mono [OF q]) simp
  then have q1: "f64_round (?a / ?b) \<le> 1" using f64_round_nat [of 1] by simp
  note Q = f64_round_relative [OF q]
  have "?a / ?b * 1 \<le> ?a / ?b * ((1 - 1 / 2 ^ 53) * 100)"
    using pos by (intro mult_left_mono) (simp_all add: less_imp_le)
  also have "\<dots> \<le> f64_round (?a / ?b) * 100" using Q(1) by (simp only: mult.assoc [symmetric]) simp
  finally have m: "1 / 2 ^ 64 \<le> f64_round (?a / ?b) * 100" by (rule order_trans [OF q, OF order_trans [OF eq_refl [OF mult_1_right [symmetric]]]])
  note M = f64_round_relative [OF m]
  have pct: "pct = f64_round (f64_round (?a / ?b) * 100)" by (simp add: pct_def f64_mult_def f64_div_def)
  show "0 < pct" unfolding pct by (rule f64_round_pos [OF m])
  have "f64_round (f64_round (?a / ?b) * 100) \<le> f64_round (of_nat 100)"
    using q1 by (intro f64_round_mono [OF m]) simp
  then show "pct \<le> 100" using f64_round_nat [of 100] by (simp add: pct)
  note A = f64_round_relative [OF V(1), folded f64_of_u64_def]
    and B = f64_round_relative [OF W(1), folded f64_of_u64_def]
  let ?u = "1 / 2 ^ 53 :: rat"
  have r: "0 < ?v / ?w" using pos by simp
  have "?a / ?b \<le> (?v * (1 + ?u)) / (?w * (1 - ?u))" using A(2) B(1) pos by (intro frac_le) simp_all
  also have "\<dots> = ?v / ?w * ((1 + ?u) / (1 - ?u))" by simp
  finally have up: "?a / ?b \<le> ?v / ?w * ((1 + ?u) / (1 - ?u))" .
  have "(?v * (1 - ?u)) / (?w * (1 + ?u)) \<le> ?a / ?b" using A(1) B(2) pos by (intro frac_le) simp_all
  then have down: "?v / ?w * ((1 - ?u) / (1 + ?u)) \<le> ?a / ?b" by simp
  have "pct \<le> exact * (1 + 1 / 2 ^ 50)" "exact * (1 - 1 / 2 ^ 50) \<le> pct"
    using M Q up down r unfolding pct exact_def by simp_all
  then show "\<bar>pct - exact\<bar> \<le> exact / 2 ^ 50"
    unfolding abs_le_iff right_diff_distrib distrib_left by simp
qed

end
