(* ===== verification/Store_Stats.thy ===== *)
theory Store_Stats
  imports Chunk_Prelude F64
begin

text \<open>
  \<^verbatim>\<open>core/src/store/stats.rs\<close>: the running byte totals.  Additions wrap, the
  subtractions saturate, as the code writes them.  \<open>savings_pct\<close> computes in the floating-point
  numbers of \<open>F64\<close>.
\<close>

record stats =
  total_bytes :: u64
  stored_bytes :: u64
  gc_chunks :: u64

definition stats_default :: stats where
  "stats_default = \<lparr>total_bytes = 0, stored_bytes = 0, gc_chunks = 0\<rparr>"

definition saturating_sub :: "u64 \<Rightarrow> u64 \<Rightarrow> u64" where
  "saturating_sub a b = (if b \<le> a then a - b else 0)"

definition saturating_add :: "u64 \<Rightarrow> u64 \<Rightarrow> u64" where
  "saturating_add a b = (if unat a + unat b < 2 ^ 64 then a + b else - 1)"

definition add_reference :: "u64 \<Rightarrow> stats \<Rightarrow> stats" where
  "add_reference n s = s\<lparr>total_bytes := total_bytes s + n\<rparr>"

definition add_unique_chunk :: "u64 \<Rightarrow> stats \<Rightarrow> stats" where
  "add_unique_chunk n s = s\<lparr>total_bytes := total_bytes s + n, stored_bytes := stored_bytes s + n\<rparr>"

definition remove_reference :: "u64 \<Rightarrow> stats \<Rightarrow> stats" where
  "remove_reference n s = s\<lparr>total_bytes := saturating_sub (total_bytes s) n\<rparr>"

definition remove_unique_chunk :: "u64 \<Rightarrow> stats \<Rightarrow> stats" where
  "remove_unique_chunk n s =
     s\<lparr>stored_bytes := saturating_sub (stored_bytes s) n,
       gc_chunks := saturating_add (gc_chunks s) 1\<rparr>"

definition savings_pct :: "stats \<Rightarrow> f64" where
  "savings_pct s =
     (if total_bytes s = 0 then 0
      else let saved = f64_of_u64 (saturating_sub (total_bytes s) (stored_bytes s))
           in f64_mult (f64_div saved (f64_of_u64 (total_bytes s))) 100)"

text \<open>\<^verbatim>\<open>{:.n}\<close> of a number that is not negative: to the nearest, ties to even.\<close>

definition show_fixed :: "nat \<Rightarrow> f64 \<Rightarrow> string" where
  "show_fixed digits x =
     (let n = nat (round_half_even (x * 10 ^ digits)); frac = show_nat (n mod 10 ^ digits) in
      show_nat (n div 10 ^ digits) @ ''.'' @ replicate (digits - length frac) (CHR ''0'') @ frac)"

lemmas stats_defs =
  add_reference_def add_unique_chunk_def remove_reference_def remove_unique_chunk_def

lemma saturating_sub_of_nat:
  assumes "n \<le> m" and "m < 2 ^ 64"
  shows "saturating_sub (of_nat m) (of_nat n) = of_nat (m - n)"
proof -
  have "n < 2 ^ 64" using assms by simp
  with assms have "(of_nat n :: u64) \<le> of_nat m"
    by (simp add: word_le_nat_alt unat_of_nat_u64)
  with assms(1) show ?thesis by (simp add: saturating_sub_def of_nat_diff)
qed

lemma unat_saturating_sub: "unat (saturating_sub a b) = unat a - unat b"
  by (simp add: saturating_sub_def word_le_nat_alt unat_sub)

lemma unat_saturating_add: "unat (saturating_add a b) = min (unat a + unat b) (2 ^ 64 - 1)"
proof (cases "unat a + unat b < 2 ^ 64")
  case True
  then show ?thesis by (simp add: saturating_add_def unat_word_ariths)
next
  case False
  then show ?thesis by (simp add: saturating_add_def unsigned_minus_1_eq_mask mask_eq_exp_minus_1)
qed

text \<open>The percentage is that of the bytes saved, up to five roundings.\<close>

lemma savings_pct_accurate:
  fixes s :: stats
  defines "exact \<equiv> 100 * (of_nat (unat (total_bytes s) - unat (stored_bytes s)) / of_nat (unat (total_bytes s))) :: rat"
  shows "0 \<le> savings_pct s" and "savings_pct s \<le> 100"
    and "savings_pct s = 0 \<longleftrightarrow> total_bytes s \<le> stored_bytes s"
    and "\<bar>savings_pct s - exact\<bar> \<le> exact / 2 ^ 50"
proof -
  let ?v = "saturating_sub (total_bytes s) (stored_bytes s)"
  have v: "unat ?v = unat (total_bytes s) - unat (stored_bytes s)" by (rule unat_saturating_sub)
  have "0 \<le> savings_pct s \<and> savings_pct s \<le> 100 \<and> (savings_pct s = 0 \<longleftrightarrow> total_bytes s \<le> stored_bytes s) \<and>
      \<bar>savings_pct s - exact\<bar> \<le> exact / 2 ^ 50"
  proof (cases "total_bytes s \<le> stored_bytes s")
    case True
    then have "?v = 0" "exact = 0" using v by (simp_all add: exact_def word_le_nat_alt flip: unat_eq_0)
    then have "savings_pct s = 0" by (simp add: savings_pct_def)
    with True \<open>exact = 0\<close> show ?thesis by simp
  next
    case False
    then have "?v \<noteq> 0" "?v \<le> total_bytes s" "total_bytes s \<noteq> 0"
      using v by (auto simp: word_le_nat_alt simp flip: unat_eq_0)
    note p = f64_percentage [OF this(1,2)]
    have "savings_pct s = f64_mult (f64_div (f64_of_u64 ?v) (f64_of_u64 (total_bytes s))) 100"
      using \<open>total_bytes s \<noteq> 0\<close> by (simp add: savings_pct_def)
    with p [folded this, unfolded v, folded exact_def] False show ?thesis by simp
  qed
  then show "0 \<le> savings_pct s" and "savings_pct s \<le> 100"
    and "savings_pct s = 0 \<longleftrightarrow> total_bytes s \<le> stored_bytes s"
    and "\<bar>savings_pct s - exact\<bar> \<le> exact / 2 ^ 50" by blast+
qed

end
