(* ===== verification/Store.thy ===== *)
theory Store
  imports Persistence Codec Chunkers Store_Stats
begin

text \<open>
  \<^verbatim>\<open>core/src/store/mod.rs\<close> and \<^verbatim>\<open>fsck.rs\<close>: \<^verbatim>\<open>ChunkStore<B>\<close>
  as built by default (feature \<^verbatim>\<open>postgres\<close> off).  Every method is one definition,
  composed as the code composes it; \<open>deps\<close> collects what the store is compiled against: the
  backend's methods, serde_json, SHA-256 and FastCDC.
\<close>

record 'b deps =
  dp_backend :: "'b backend_ops"
  dp_json :: json_ops
  dp_sha :: hash_fun
  dp_fastcdc :: fastcdc

record 'b store =
  st_backend :: 'b
  st_manifest :: "manifest mutex"
  st_refcount :: "ref_count mutex"
  st_stats :: "stats mutex"
  st_blob :: "unit mutex"
  st_codec :: "chunk_codec_ops option"

text \<open>Access to the fields: the backend directly, the others through their locks.\<close>

definition on_backend :: "('b, 'a) act \<Rightarrow> ('b store, 'a) act" where
  "on_backend m = zoom st_backend (\<lambda>b s. s\<lparr>st_backend := b\<rparr>) m"

definition on_manifest :: "(manifest, 'a) act \<Rightarrow> ('b store, 'a) act" where
  "on_manifest m = zoom st_manifest (\<lambda>x s. s\<lparr>st_manifest := x\<rparr>) (with_lock m)"

definition on_refcount :: "(ref_count, 'a) act \<Rightarrow> ('b store, 'a) act" where
  "on_refcount m = zoom st_refcount (\<lambda>x s. s\<lparr>st_refcount := x\<rparr>) (with_lock m)"

definition on_stats :: "(stats, 'a) act \<Rightarrow> ('b store, 'a) act" where
  "on_stats m = zoom st_stats (\<lambda>x s. s\<lparr>st_stats := x\<rparr>) (with_lock m)"

text \<open>The two critical sections that also touch the backend.\<close>

definition hold_blob :: "('b store, 'a) act \<Rightarrow> ('b store, 'a) act" where
  "hold_blob m = holding st_blob (\<lambda>x s. s\<lparr>st_blob := x\<rparr>) m"

definition hold_refcount :: "('b store, 'a) act \<Rightarrow> ('b store, 'a) act" where
  "hold_refcount m = holding st_refcount (\<lambda>x s. s\<lparr>st_refcount := x\<rparr>) m"

definition refcount_value :: "(ref_count, 'a) act \<Rightarrow> ('b store, 'a) act" where
  "refcount_value m =
     zoom (\<lambda>s. guarded (st_refcount s))
          (\<lambda>v s. s\<lparr>st_refcount := (st_refcount s)\<lparr>guarded := v\<rparr>\<rparr>) m"

definition ok_or :: "chunk_store_error \<Rightarrow> 'a option \<Rightarrow> 'a res" where
  "ok_or e x = (case x of None \<Rightarrow> Err e | Some a \<Rightarrow> Ok a)"

definition encode_blob :: "bytes \<Rightarrow> ('b store, bytes) act" where
  "encode_blob data s = (encode_opt (st_codec s) data, s)"

definition decode_blob :: "bytes \<Rightarrow> ('b store, bytes) act" where
  "decode_blob stored s = (decode_opt (st_codec s) stored, s)"

abbreviation len64 :: "bytes \<Rightarrow> u64" where
  "len64 xs \<equiv> of_nat (length xs)"

section \<open>Storing one chunk\<close>

text \<open>The three lock-delimited sections of \<^verbatim>\<open>store_chunk\<close>.\<close>

definition blob_section :: "'b deps \<Rightarrow> string \<Rightarrow> bytes \<Rightarrow> ('b store, bool) act" where
  "blob_section E digest blob =
     hold_blob (
       seq (on_backend (be_exists (dp_backend E) digest)) (\<lambda>found.
       if found then ret found
       else seq (on_backend (be_put (dp_backend E) digest blob)) (\<lambda>_. ret found)))"

definition refcount_section :: "'b deps \<Rightarrow> string \<Rightarrow> u64 \<Rightarrow> ('b store, unit) act" where
  "refcount_section E digest sz =
     hold_refcount (
       seq (refcount_value (increment digest sz)) (\<lambda>cnt.
       seq (refcount_value (\<lambda>rc. (Ok (size_of rc digest), rc))) (\<lambda>known.
       on_backend (save_refcount (dp_json E) (dp_backend E) digest cnt
         (case known of None \<Rightarrow> sz | Some n \<Rightarrow> n)))))"

definition stats_section :: "bool \<Rightarrow> u64 \<Rightarrow> ('b store, unit) act" where
  "stats_section found sz =
     on_stats (\<lambda>st. (Ok (), if found then add_reference sz st else add_unique_chunk sz st))"

definition store_chunk :: "'b deps \<Rightarrow> string \<Rightarrow> bytes \<Rightarrow> ('b store, bool) act" where
  "store_chunk E digest data =
     seq (encode_blob data) (\<lambda>blob.
     seq (blob_section E digest blob) (\<lambda>found.
     seq (refcount_section E digest (len64 data)) (\<lambda>_.
     seq (stats_section found (len64 data)) (\<lambda>_.
     ret found))))"

section \<open>Reading\<close>

definition digests_for_file :: "string \<Rightarrow> ('b store, string list) act" where
  "digests_for_file file_id = on_manifest (\<lambda>m. (manifest_get m file_id, m))"

definition file_digests :: "string \<Rightarrow> ('b store, string list) act" where
  "file_digests file_id = digests_for_file file_id"

definition peek_digests :: "string \<Rightarrow> ('b store, string list option) act" where
  "peek_digests file_id = on_manifest (\<lambda>m. (Ok (try_get m file_id), m))"

definition read_chunk_by_digest :: "'b deps \<Rightarrow> string \<Rightarrow> ('b store, bytes) act" where
  "read_chunk_by_digest E digest =
     seq (on_backend (be_get (dp_backend E) digest)) (\<lambda>v.
     seq (lift (ok_or (NotFound (''chunk '' @ digest)) v)) (\<lambda>stored.
     seq (decode_blob stored) (\<lambda>chunk.
     seq (lift (verify_digest (dp_sha E) chunk digest)) (\<lambda>_.
     ret chunk))))"

definition read_chunk :: "'b deps \<Rightarrow> string \<Rightarrow> ('b store, bytes) act" where
  "read_chunk E digest = read_chunk_by_digest E digest"

text \<open>\<^verbatim>\<open>read_to_writer\<close> runs on the caller's writer and the store; the writer is
  given by its \<^verbatim>\<open>write_all\<close>.\<close>

definition on_writer :: "('w, 'a) act \<Rightarrow> ('w \<times> 's, 'a) act" where
  "on_writer m = zoom fst (\<lambda>w (_, s). (w, s)) m"

definition on_store :: "('s, 'a) act \<Rightarrow> ('w \<times> 's, 'a) act" where
  "on_store m = zoom snd (\<lambda>s (w, _). (w, s)) m"

definition read_to_writer ::
  "'b deps \<Rightarrow> (bytes \<Rightarrow> ('w, unit) act) \<Rightarrow> string \<Rightarrow> ('w \<times> 'b store, unit) act" where
  "read_to_writer E write_all file_id =
     seq (on_store (digests_for_file file_id)) (\<lambda>digests.
     for_each digests (\<lambda>digest.
       seq (on_store (read_chunk_by_digest E digest)) (\<lambda>chunk.
       on_writer (write_all chunk))))"

text \<open>\<^verbatim>\<open>impl Write for Vec<u8>\<close>.\<close>

definition vec_write_all :: "bytes \<Rightarrow> (bytes, unit) act" where
  "vec_write_all chunk out = (Ok (), out @ chunk)"

definition read :: "'b deps \<Rightarrow> string \<Rightarrow> ('b store, bytes) act" where
  "read E file_id s =
     (case read_to_writer E vec_write_all file_id ([], s) of
        (r, (out, s')) \<Rightarrow> (bind_res r (\<lambda>_. Ok out), s'))"

section \<open>Sizes, release and delete\<close>

definition fetch_size :: "'b deps \<Rightarrow> string \<Rightarrow> ('b store, u64) act" where
  "fetch_size E digest =
     seq (on_backend (be_get (dp_backend E) digest)) (\<lambda>v.
     seq (lift (ok_or (NotFound (''chunk '' @ digest)) v)) (\<lambda>stored.
     seq (decode_blob stored) (\<lambda>chunk.
     ret (len64 chunk))))"

definition chunk_size_of :: "'b deps \<Rightarrow> string \<Rightarrow> ('b store, u64) act" where
  "chunk_size_of E digest =
     seq (on_refcount (\<lambda>rc. (Ok (size_of rc digest), rc))) (\<lambda>known.
     case known of
       Some sz \<Rightarrow> if 0 < sz then ret sz else fetch_size E digest
     | None \<Rightarrow> fetch_size E digest)"

definition release_digest :: "'b deps \<Rightarrow> string \<Rightarrow> ('b store, unit) act" where
  "release_digest E digest =
     seq (chunk_size_of E digest) (\<lambda>sz.
     seq (on_refcount (decrement digest)) (\<lambda>remaining.
     seq (if remaining = 0
          then seq (on_backend (be_delete (dp_backend E) digest)) (\<lambda>_.
               seq (on_backend (remove_refcount (dp_json E) (dp_backend E) digest)) (\<lambda>_.
               on_stats (\<lambda>st. (Ok (), remove_unique_chunk sz st))))
          else on_backend (save_refcount (dp_json E) (dp_backend E) digest remaining sz)) (\<lambda>_.
     on_stats (\<lambda>st. (Ok (), remove_reference sz st)))))"

definition release_digests :: "'b deps \<Rightarrow> string list \<Rightarrow> ('b store, unit) act" where
  "release_digests E digests = for_each digests (release_digest E)"

definition delete :: "'b deps \<Rightarrow> string \<Rightarrow> ('b store, unit) act" where
  "delete E file_id =
     seq (on_manifest (manifest_remove file_id)) (\<lambda>digests.
     seq (on_backend (remove_manifest (dp_json E) (dp_backend E) file_id)) (\<lambda>_.
     release_digests E digests))"

section \<open>Ingest\<close>

record ingest_session =
  se_digests :: "string list"
  se_sizes :: "u64 list"
  se_file_bytes :: u64

definition session_new :: ingest_session where
  "session_new = \<lparr>se_digests = [], se_sizes = [], se_file_bytes = 0\<rparr>"

definition accept :: "'b deps \<Rightarrow> bytes \<Rightarrow> ingest_session \<Rightarrow> ('b store, ingest_session) act" where
  "accept E chunk se =
     (let digest = digest_hex (dp_sha E) chunk in
      seq (store_chunk E digest chunk) (\<lambda>_.
      ret \<lparr>se_digests = se_digests se @ [digest],
           se_sizes = se_sizes se @ [len64 chunk],
           se_file_bytes = se_file_bytes se + len64 chunk\<rparr>))"

definition commit :: "'b deps \<Rightarrow> string \<Rightarrow> ingest_session \<Rightarrow> ('b store, string list) act" where
  "commit E file_id se =
     seq (peek_digests file_id) (\<lambda>old.
     seq (on_manifest (manifest_insert file_id (se_digests se) (se_file_bytes se))) (\<lambda>_.
     seq (on_backend (save_manifest (dp_json E) (dp_backend E) file_id
            (se_digests se) (se_file_bytes se))) (\<lambda>_.
     seq (case old of Some ds \<Rightarrow> release_digests E ds | None \<Rightarrow> ret ()) (\<lambda>_.
     ret (se_digests se)))))"

definition ingest_chunks :: "'b deps \<Rightarrow> string \<Rightarrow> bytes list \<Rightarrow> ('b store, string list) act" where
  "ingest_chunks E file_id chunks =
     seq (fold_act (accept E) chunks session_new) (\<lambda>se. commit E file_id se)"

text \<open>
  The body that the chunker-driven ingests share, over what is done with a chunk
  (\<^verbatim>\<open>session.accept(self, chunk)\<close>) and at the end
  (\<^verbatim>\<open>session.commit(self, file_id)\<close>), which differ between the builds with and without
  \<^verbatim>\<open>postgres\<close>.
\<close>

definition drive_chunker ::
  "(bytes \<Rightarrow> ingest_session \<Rightarrow> ('s, ingest_session) act) \<Rightarrow> (ingest_session \<Rightarrow> ('s, string list) act) \<Rightarrow>
     bytes \<Rightarrow> 'c chunker_ops \<Rightarrow> 'c \<Rightarrow> ('s, string list) act" where
  "drive_chunker acc com data K c =
     (case feed K data c of (fed, c1) \<Rightarrow>
        seq (lift fed) (\<lambda>chunks.
        seq (fold_act acc chunks session_new) (\<lambda>se.
        (case finish K c1 of (finished, c2) \<Rightarrow>
           seq (lift finished) (\<lambda>chunks.
           seq (fold_act acc chunks se) com)))))"

definition ingest_with_chunker ::
  "'b deps \<Rightarrow> string \<Rightarrow> bytes \<Rightarrow> 'c chunker_ops \<Rightarrow> 'c \<Rightarrow> ('b store, string list) act" where
  "ingest_with_chunker E file_id data K c = drive_chunker (accept E) (commit E file_id) data K c"

definition zero_chunk_size_error :: chunk_store_error where
  "zero_chunk_size_error = InvalidArgument ''chunk_size must be greater than 0''"

definition ingest_fixed :: "'b deps \<Rightarrow> string \<Rightarrow> bytes \<Rightarrow> nat \<Rightarrow> ('b store, string list) act" where
  "ingest_fixed E file_id data chunk_sz =
     (if chunk_sz = 0 then fail zero_chunk_size_error
      else ingest_with_chunker E file_id data FixedChunker (fixed_chunker_new chunk_sz))"

definition ingest :: "'b deps \<Rightarrow> string \<Rightarrow> bytes \<Rightarrow> ('b store, string list) act" where
  "ingest E file_id data = ingest_fixed E file_id data default_chunk_size"

definition ingest_cdc :: "'b deps \<Rightarrow> string \<Rightarrow> bytes \<Rightarrow> ('b store, string list) act" where
  "ingest_cdc E file_id data =
     seq (lift cdc_with_defaults) (\<lambda>c.
     ingest_with_chunker E file_id data (CdcChunker (dp_fastcdc E)) c)"

text \<open>Streaming ingest: the closure \<^verbatim>\<open>|chunk| session.accept(self, chunk)\<close> owns the
  session and the store.\<close>

definition accept_callback ::
  "(bytes \<Rightarrow> ingest_session \<Rightarrow> ('s, ingest_session) act) \<Rightarrow> bytes \<Rightarrow> (ingest_session \<times> 's, unit) act" where
  "accept_callback acc chunk =
     (\<lambda>(se, s). case acc chunk se s of
        (Ok se', s') \<Rightarrow> (Ok (), (se', s'))
      | (Err e, s') \<Rightarrow> (Err e, (se, s'))
      | (Panic, s') \<Rightarrow> (Panic, (se, s'))
      | (Hang, s') \<Rightarrow> (Hang, (se, s')))"

definition drive_reader ::
  "(bytes \<Rightarrow> ingest_session \<Rightarrow> ('s, ingest_session) act) \<Rightarrow> (ingest_session \<Rightarrow> ('s, string list) act) \<Rightarrow>
     'r reader \<Rightarrow> 'c chunker_ops \<Rightarrow> 'c \<Rightarrow> ('r \<times> 's, string list) act" where
  "drive_reader acc com rd K c =
     (\<lambda>(r, s).
        case for_each_chunk rd K (accept_callback acc) (r, c, (session_new, s)) of
          (Ok u, (r1, c1, (se, s1))) \<Rightarrow>
            (case com se s1 of (res, s2) \<Rightarrow> (res, (r1, s2)))
        | (Err e, (r1, c1, (se, s1))) \<Rightarrow> (Err e, (r1, s1))
        | (Panic, (r1, c1, (se, s1))) \<Rightarrow> (Panic, (r1, s1))
        | (Hang, (r1, c1, (se, s1))) \<Rightarrow> (Hang, (r1, s1)))"

definition ingest_reader_with_chunker ::
  "'b deps \<Rightarrow> string \<Rightarrow> 'r reader \<Rightarrow> 'c chunker_ops \<Rightarrow> 'c \<Rightarrow> ('r \<times> 'b store, string list) act" where
  "ingest_reader_with_chunker E file_id rd K c = drive_reader (accept E) (commit E file_id) rd K c"

definition ingest_reader_fixed ::
  "'b deps \<Rightarrow> string \<Rightarrow> 'r reader \<Rightarrow> nat \<Rightarrow> ('r \<times> 'b store, string list) act" where
  "ingest_reader_fixed E file_id rd chunk_sz =
     (if chunk_sz = 0 then fail zero_chunk_size_error
      else ingest_reader_with_chunker E file_id rd FixedChunker (fixed_chunker_new chunk_sz))"

definition ingest_reader_cdc ::
  "'b deps \<Rightarrow> string \<Rightarrow> 'r reader \<Rightarrow> ('r \<times> 'b store, string list) act" where
  "ingest_reader_cdc E file_id rd =
     seq (lift cdc_with_defaults) (\<lambda>c.
     ingest_reader_with_chunker E file_id rd (CdcChunker (dp_fastcdc E)) c)"

text \<open>\<^verbatim>\<open>std::fs::File::open\<close> is given by what it returns for a path: an open file to
  read from, or the I/O error.  \<open>from_file\<close> runs an ingest on the file and drops it.\<close>

definition from_file :: "(string \<Rightarrow> 'r res) \<Rightarrow> string \<Rightarrow> ('r \<times> 's, 'a) act \<Rightarrow> ('s, 'a) act" where
  "from_file open_file path m s =
     (case open_file path of
        Ok r \<Rightarrow> (case m (r, s) of (res, (r', s')) \<Rightarrow> (res, s'))
      | Err e \<Rightarrow> (Err e, s)
      | Panic \<Rightarrow> (Panic, s)
      | Hang \<Rightarrow> (Hang, s))"

definition ingest_path ::
  "'b deps \<Rightarrow> (string \<Rightarrow> 'r res) \<Rightarrow> 'r reader \<Rightarrow> string \<Rightarrow> string \<Rightarrow> ('b store, string list) act" where
  "ingest_path E open_file rd file_id path =
     from_file open_file path (ingest_reader_fixed E file_id rd default_chunk_size)"

definition ingest_path_cdc ::
  "'b deps \<Rightarrow> (string \<Rightarrow> 'r res) \<Rightarrow> 'r reader \<Rightarrow> string \<Rightarrow> string \<Rightarrow> ('b store, string list) act" where
  "ingest_path_cdc E open_file rd file_id path =
     from_file open_file path (ingest_reader_cdc E file_id rd)"

section \<open>Statistics\<close>

definition rebuild_entry ::
  "'b deps \<Rightarrow> string \<times> chunk_ref \<Rightarrow> stats \<Rightarrow> ('b store, stats) act" where
  "rebuild_entry E = (\<lambda>(digest, meta) st.
     seq (if 0 < cr_size meta then ret (cr_size meta) else chunk_size_of E digest) (\<lambda>sz.
     ret (st\<lparr>stored_bytes := stored_bytes st + sz,
             total_bytes := total_bytes st + sz * cr_count meta\<rparr>)))"

definition rebuild_stats :: "'b deps \<Rightarrow> ('b store, unit) act" where
  "rebuild_stats E =
     seq (on_refcount (\<lambda>rc. (Ok (iter_refs rc), rc))) (\<lambda>refs.
     seq (fold_act (rebuild_entry E) refs stats_default) (\<lambda>st.
     on_stats (\<lambda>_. (Ok (), st))))"

definition store_stats :: "('b store, stats) act" where
  "store_stats = on_stats (\<lambda>st. (Ok st, st))"

definition chunk_refcount :: "string \<Rightarrow> ('b store, u64 option) act" where
  "chunk_refcount digest = on_refcount (\<lambda>rc. (Ok (rc_get rc digest), rc))"

section \<open>Opening\<close>

definition backfill_entry ::
  "'b deps \<Rightarrow> string \<times> u64 \<Rightarrow> ref_count \<Rightarrow> ('b, ref_count) act" where
  "backfill_entry E = (\<lambda>(digest, cnt) rc.
     seq (be_get (dp_backend E) digest) (\<lambda>v.
     case v of
       None \<Rightarrow> ret rc
     | Some data \<Rightarrow>
         if \<not> is_chunk_digest digest then ret rc
         else seq (save_refcount (dp_json E) (dp_backend E) digest cnt (len64 data)) (\<lambda>_.
              ret (rc_set digest cnt (len64 data) rc))))"

definition backfill_refcount_sizes :: "'b deps \<Rightarrow> ref_count \<Rightarrow> ('b, ref_count) act" where
  "backfill_refcount_sizes E rc =
     fold_act (backfill_entry E)
       (map (\<lambda>(digest, meta). (digest, cr_count meta))
          (filter (\<lambda>(_, meta). cr_size meta = 0 \<and> 0 < cr_count meta) (iter_refs rc))) rc"

text \<open>The struct literal of \<^verbatim>\<open>open\<close>, and the call of \<^verbatim>\<open>rebuild_stats\<close> on it.\<close>

definition fresh_store :: "manifest \<Rightarrow> ref_count \<Rightarrow> 'b \<Rightarrow> 'b store" where
  "fresh_store m rc b =
     \<lparr>st_backend = b, st_manifest = new_mutex m, st_refcount = new_mutex rc,
      st_stats = new_mutex stats_default, st_blob = new_mutex (), st_codec = None\<rparr>"

definition build_store :: "'b deps \<Rightarrow> manifest \<Rightarrow> ref_count \<Rightarrow> ('b, 'b store) act" where
  "build_store E m rc b =
     (case rebuild_stats E (fresh_store m rc b) of
        (Ok u, s) \<Rightarrow> (Ok s, st_backend s)
      | (Err e, s) \<Rightarrow> (Err e, st_backend s)
      | (Panic, s) \<Rightarrow> (Panic, st_backend s)
      | (Hang, s) \<Rightarrow> (Hang, st_backend s))"

definition open_store :: "'b deps \<Rightarrow> ('b, 'b store) act" where
  "open_store E =
     seq (load_manifests (dp_json E) (dp_backend E)) (\<lambda>m.
     seq (load_refcounts (dp_json E) (dp_backend E)) (\<lambda>rc.
     seq (backfill_refcount_sizes E rc) (\<lambda>rc.
     build_store E m rc)))"

definition open_with_codec :: "'b deps \<Rightarrow> chunk_codec_ops \<Rightarrow> ('b, 'b store) act" where
  "open_with_codec E codec = seq (open_store E) (\<lambda>s. ret (s\<lparr>st_codec := Some codec\<rparr>))"

section \<open>Consistency check\<close>

record fsck_report =
  missing_blobs :: "string list"
  orphan_blobs :: "string list"
  repaired :: u64

definition collect_orphans :: "'b backend_ops \<Rightarrow> string set \<Rightarrow> ('b, string list) act" where
  "collect_orphans B live =
     seq (be_list_keys B []) (\<lambda>listing.
     case listing of
       None \<Rightarrow> ret []
     | Some keys \<Rightarrow> ret (filter (\<lambda>key. is_chunk_digest key \<and> key \<notin> live) keys))"

definition check_blob :: "'b deps \<Rightarrow> string \<Rightarrow> string list \<Rightarrow> ('b store, string list) act" where
  "check_blob E digest missing =
     seq (on_backend (be_exists (dp_backend E) digest)) (\<lambda>found.
     ret (if found then missing else missing @ [digest]))"

definition repair_blob :: "'b deps \<Rightarrow> string \<Rightarrow> u64 \<Rightarrow> ('b store, u64) act" where
  "repair_blob E key n =
     seq (on_backend (be_delete (dp_backend E) key)) (\<lambda>_. ret (n + 1))"

definition fsck :: "'b deps \<Rightarrow> bool \<Rightarrow> ('b store, fsck_report) act" where
  "fsck E repair =
     seq (on_refcount (\<lambda>rc. (Ok (map fst (rc_iter rc)), rc))) (\<lambda>live.
     seq (fold_act (check_blob E) live []) (\<lambda>missing.
     seq (on_backend (collect_orphans (dp_backend E) (set live))) (\<lambda>orphans.
     seq (if repair then fold_act (repair_blob E) orphans 0 else ret 0) (\<lambda>n.
     ret \<lparr>missing_blobs = missing, orphan_blobs = orphans, repaired = n\<rparr>))))"

end
