(* ===== verification/Persistence_Laws.thy ===== *)
theory Persistence_Laws
  imports Persistence
begin

text \<open>
  What the records on a backend say (\<open>disk_refs\<close>, \<open>disk_manifests\<close>), and that
  each persistence routine performs the corresponding map update on them, on every backend
  that satisfies the contract \<open>store_backend\<close>.
\<close>

text \<open>The keys the store uses for itself, of whatever backend.\<close>

locale store_keys =
  fixes valid :: "string \<Rightarrow> bool"
  assumes valid_digest: "is_chunk_digest d \<Longrightarrow> valid d"
    and valid_refcount_key: "is_chunk_digest d \<Longrightarrow> valid (refcount_key d)"
    and valid_refcount_index: "valid REFCOUNT_INDEX_KEY"
    and valid_manifest_index: "valid MANIFEST_INDEX_KEY"

locale store_backend = kv_backend B kv ok valid + store_keys valid
  for B :: "'b backend_ops" and kv :: "'b \<Rightarrow> string \<rightharpoonup> bytes" and ok :: "'b \<Rightarrow> bool"
    and valid :: "string \<Rightarrow> bool"

interpretation mem: store_backend MemoryBackend memory_kv memory_ok "\<lambda>_. True"
  by unfold_locales auto

section \<open>Abstract views of the records\<close>

definition index_lists :: "json_ops \<Rightarrow> (string \<rightharpoonup> bytes) \<Rightarrow> string \<Rightarrow> string list \<Rightarrow> bool" where
  "index_lists J m key xs \<longleftrightarrow>
     (case m key of None \<Rightarrow> xs = [] | Some raw \<Rightarrow> from_slice_strings J raw = Inr xs)"

definition disk_refs :: "json_ops \<Rightarrow> (string \<rightharpoonup> bytes) \<Rightarrow> (string \<rightharpoonup> chunk_ref) \<Rightarrow> bool" where
  "disk_refs J m refs \<longleftrightarrow>
     (\<exists>idx. index_lists J m REFCOUNT_INDEX_KEY idx \<and> distinct idx \<and> set idx = dom refs) \<and>
     (\<forall>d r. refs d = Some r \<longrightarrow> is_chunk_digest d \<and> cr_count r \<noteq> 0 \<and>
        (\<exists>raw. m (refcount_key d) = Some raw \<and>
               parse_refcount_record J raw d = Ok (cr_count r, cr_size r)))"

definition proper_file_id :: "string \<Rightarrow> bool" where
  "proper_file_id f \<longleftrightarrow> f \<noteq> [] \<and> f \<noteq> ''__index__''"

definition disk_manifests ::
  "json_ops \<Rightarrow> (string \<rightharpoonup> bytes) \<Rightarrow> (string \<rightharpoonup> string list \<times> u64) \<Rightarrow> bool" where
  "disk_manifests J m fs \<longleftrightarrow>
     (\<exists>idx. index_lists J m MANIFEST_INDEX_KEY idx \<and> distinct idx \<and> set idx = dom fs) \<and>
     (\<forall>f ds n. fs f = Some (ds, n) \<longrightarrow> proper_file_id f \<and> list_all is_chunk_digest ds \<and>
        (\<exists>raw. m (manifest_key f) = Some raw \<and>
               from_slice_manifest J raw = Inr \<lparr>mr_digests = ds, mr_file_bytes = n\<rparr>))"

text \<open>Two backends that agree outside a class of keys.\<close>

definition same_outside ::
  "(string \<Rightarrow> bool) \<Rightarrow> (string \<rightharpoonup> bytes) \<Rightarrow> (string \<rightharpoonup> bytes) \<Rightarrow> bool" where
  "same_outside P m m' \<longleftrightarrow> (\<forall>k. \<not> P k \<longrightarrow> m' k = m k)"

lemma same_outside_refl [simp]: "same_outside P m m"
  by (simp add: same_outside_def)

lemma same_outside_trans:
  "same_outside P m1 m2 \<Longrightarrow> same_outside P m2 m3 \<Longrightarrow> same_outside P m1 m3"
  by (simp add: same_outside_def)

lemma same_outside_mono:
  "same_outside P m m' \<Longrightarrow> (\<And>k. P k \<Longrightarrow> Q k) \<Longrightarrow> same_outside Q m m'"
  by (auto simp: same_outside_def)

lemma same_outside_upd [simp]: "P k \<Longrightarrow> same_outside P m (m(k := v))"
  by (simp add: same_outside_def)

lemma disk_refs_cong:
  assumes "same_outside P m m'" and "\<And>k. is_refcount_key k \<Longrightarrow> \<not> P k"
  shows "disk_refs J m' refs \<longleftrightarrow> disk_refs J m refs"
proof -
  have "m' (refcount_key d) = m (refcount_key d)" for d
    using assms by (simp add: same_outside_def)
  moreover have "m' REFCOUNT_INDEX_KEY = m REFCOUNT_INDEX_KEY"
    using assms by (simp add: same_outside_def)
  ultimately show ?thesis by (simp add: disk_refs_def index_lists_def)
qed

lemma disk_manifests_cong:
  assumes "same_outside P m m'" and "\<And>k. is_manifest_key k \<Longrightarrow> \<not> P k"
  shows "disk_manifests J m' fs \<longleftrightarrow> disk_manifests J m fs"
proof -
  have "m' (manifest_key f) = m (manifest_key f)" for f
    using assms by (simp add: same_outside_def)
  moreover have "m' MANIFEST_INDEX_KEY = m MANIFEST_INDEX_KEY"
    using assms by (simp add: same_outside_def)
  ultimately show ?thesis by (simp add: disk_manifests_def index_lists_def)
qed

lemma disk_refs_empty: "disk_refs J Map.empty Map.empty"
  by (auto simp: disk_refs_def index_lists_def)

lemma disk_manifests_empty: "disk_manifests J Map.empty Map.empty"
  by (auto simp: disk_manifests_def index_lists_def)

lemma manifest_key_not_index [simp]: "proper_file_id f \<Longrightarrow> manifest_key f \<noteq> MANIFEST_INDEX_KEY"
  by (simp add: proper_file_id_def manifest_key_eq_index)

lemma not_class_key [simp]:
  "\<not> is_refcount_key k \<Longrightarrow> k \<noteq> refcount_key d"
  "\<not> is_refcount_key k \<Longrightarrow> k \<noteq> REFCOUNT_INDEX_KEY"
  "\<not> is_manifest_key k \<Longrightarrow> k \<noteq> manifest_key f"
  "\<not> is_manifest_key k \<Longrightarrow> k \<noteq> MANIFEST_INDEX_KEY"
  by auto

lemma disk_refsD:
  assumes "disk_refs J m refs" and "refs d = Some r"
  shows "is_chunk_digest d" and "cr_count r \<noteq> 0"
    and "\<exists>raw. m (refcount_key d) = Some raw \<and>
           parse_refcount_record J raw d = Ok (cr_count r, cr_size r)"
  using assms by (auto simp: disk_refs_def)

lemma disk_manifestsD:
  assumes "disk_manifests J m fs" and "fs f = Some (ds, n)"
  shows "proper_file_id f" and "list_all is_chunk_digest ds"
    and "\<exists>raw. m (manifest_key f) = Some raw \<and>
           from_slice_manifest J raw = Inr \<lparr>mr_digests = ds, mr_file_bytes = n\<rparr>"
  using assms by (auto simp: disk_manifests_def)

lemma index_not_key [simp]:
  "is_chunk_digest d \<Longrightarrow> REFCOUNT_INDEX_KEY \<noteq> refcount_key d"
  "proper_file_id f \<Longrightarrow> MANIFEST_INDEX_KEY \<noteq> manifest_key f"
  using refcount_key_not_index [of d] manifest_key_not_index [of f] by metis+

lemma json_okE:
  assumes "json_ok J"
  obtains v where "to_vec_strings J xs = Inr v" and "from_slice_strings J v = Inr xs" and "v \<noteq> []"
  using assms unfolding json_ok_def by blast

lemma json_ok_refcountE:
  assumes "json_ok J"
  obtains v where "to_vec_refcount J r = Inr v" and "from_slice_refcount J v = Inr (Record r)"
    and "v \<noteq> []"
  using assms unfolding json_ok_def by blast

lemma json_ok_manifestE:
  assumes "json_ok J"
  obtains v where "to_vec_manifest J r = Inr v" and "from_slice_manifest J v = Inr r"
    and "v \<noteq> []"
  using assms unfolding json_ok_def by blast

lemma for_each_validate:
  "list_all is_chunk_digest ds \<Longrightarrow> for_each ds (\<lambda>d. lift (validate_digest d)) = ret ()"
proof (induction ds)
  case (Cons d ds)
  then show ?case by (simp add: fun_eq_iff seq_def lift_def validate_digest_cases)
qed simp

text \<open>Updating the views.\<close>

lemma disk_refs_put:
  assumes "disk_refs J m refs" and "is_chunk_digest d" and "cr_count r \<noteq> 0"
    and "m' (refcount_key d) = Some raw"
    and "parse_refcount_record J raw d = Ok (cr_count r, cr_size r)"
    and "index_lists J m' REFCOUNT_INDEX_KEY idx" and "distinct idx" and "set idx = insert d (dom refs)"
    and "\<And>e. is_chunk_digest e \<Longrightarrow> e \<noteq> d \<Longrightarrow> m' (refcount_key e) = m (refcount_key e)"
  shows "disk_refs J m' (refs(d \<mapsto> r))"
  unfolding disk_refs_def
proof (intro conjI allI impI)
  show "\<exists>idx. index_lists J m' REFCOUNT_INDEX_KEY idx \<and> distinct idx \<and> set idx = dom (refs(d \<mapsto> r))"
    using assms(6-8) by auto
next
  fix e x
  assume *: "(refs(d \<mapsto> r)) e = Some x"
  show "is_chunk_digest e"
    using * assms(1,2) by (auto simp: disk_refs_def split: if_splits)
  show "cr_count x \<noteq> 0"
    using * assms(1,3) by (auto simp: disk_refs_def split: if_splits)
  show "\<exists>raw. m' (refcount_key e) = Some raw \<and>
          parse_refcount_record J raw e = Ok (cr_count x, cr_size x)"
    using * assms(1,4,5,9) by (auto simp: disk_refs_def split: if_splits)
qed

lemma disk_refs_del:
  assumes "disk_refs J m refs"
    and "index_lists J m' REFCOUNT_INDEX_KEY idx" and "distinct idx" and "set idx = dom refs - {d}"
    and "\<And>e. is_chunk_digest e \<Longrightarrow> e \<noteq> d \<Longrightarrow> m' (refcount_key e) = m (refcount_key e)"
  shows "disk_refs J m' (refs(d := None))"
  using assms unfolding disk_refs_def by auto

lemma disk_manifests_put:
  assumes "disk_manifests J m fs" and "proper_file_id f" and "list_all is_chunk_digest ds"
    and "m' (manifest_key f) = Some raw"
    and "from_slice_manifest J raw = Inr \<lparr>mr_digests = ds, mr_file_bytes = n\<rparr>"
    and "index_lists J m' MANIFEST_INDEX_KEY idx" and "distinct idx" and "set idx = insert f (dom fs)"
    and "\<And>g. proper_file_id g \<Longrightarrow> g \<noteq> f \<Longrightarrow> m' (manifest_key g) = m (manifest_key g)"
  shows "disk_manifests J m' (fs(f \<mapsto> (ds, n)))"
  using assms unfolding disk_manifests_def by auto

lemma disk_manifests_del:
  assumes "disk_manifests J m fs"
    and "index_lists J m' MANIFEST_INDEX_KEY idx" and "distinct idx" and "set idx = dom fs - {f}"
    and "\<And>g. proper_file_id g \<Longrightarrow> g \<noteq> f \<Longrightarrow> m' (manifest_key g) = m (manifest_key g)"
  shows "disk_manifests J m' (fs(f := None))"
  using assms unfolding disk_manifests_def by auto

section \<open>The routines on a conforming backend\<close>

context store_backend
begin

lemma wp_read_string_list:
  assumes "ok b" and "valid key" and "index_lists J (kv b) key xs"
    and "\<And>b'. ok b' \<Longrightarrow> kv b' = kv b \<Longrightarrow> Q xs b'"
  shows "wp (read_string_list J B key) b Q"
  using assms
  by (auto simp: read_string_list_def wp_rules index_lists_def intro!: wp_get split: option.splits)

lemma wp_write_string_list:
  assumes "ok b" and "valid key" and "json_ok J"
    and "\<And>b' v. ok b' \<Longrightarrow> kv b' = (kv b)(key \<mapsto> v) \<Longrightarrow> from_slice_strings J v = Inr xs \<Longrightarrow> Q () b'"
  shows "wp (write_string_list J B key xs) b Q"
proof -
  obtain v where "to_vec_strings J xs = Inr v" "from_slice_strings J v = Inr xs" "v \<noteq> []"
    using assms(3) by (rule json_okE)
  with assms show ?thesis
    by (auto simp: write_string_list_def wp_rules intro!: wp_put)
qed

text \<open>The two index updates: append unless present, and \<^verbatim>\<open>retain\<close>.\<close>

lemma wp_index_add:
  assumes "ok b" and "valid key" and "json_ok J" and "index_lists J (kv b) key idx" and "distinct idx"
    and Q: "\<And>b' idx'. ok b' \<Longrightarrow> same_outside (\<lambda>k. k = key) (kv b) (kv b') \<Longrightarrow>
              index_lists J (kv b') key idx' \<Longrightarrow> distinct idx' \<Longrightarrow> set idx' = insert x (set idx) \<Longrightarrow> Q () b'"
  shows "wp (seq (read_string_list J B key) (\<lambda>index.
           if x \<in> set index then ret () else write_string_list J B key (index @ [x]))) b Q"
  unfolding wp_seq
proof (rule wp_read_string_list [OF assms(1,2,4)])
  fix b1 assume b1: "ok b1" "kv b1 = kv b"
  show "wp (if x \<in> set idx then ret () else write_string_list J B key (idx @ [x])) b1 Q"
  proof (cases "x \<in> set idx")
    case True
    with b1 assms(4,5) show ?thesis by (auto simp: wp_rules insert_absorb intro!: Q)
  next
    case False
    with b1 assms show ?thesis
      by (auto simp: index_lists_def same_outside_def intro!: wp_write_string_list Q)
  qed
qed

lemma wp_index_remove:
  assumes "ok b" and "valid key" and "json_ok J" and "index_lists J (kv b) key idx" and "distinct idx"
    and Q: "\<And>b' idx'. ok b' \<Longrightarrow> same_outside (\<lambda>k. k = key) (kv b) (kv b') \<Longrightarrow>
              index_lists J (kv b') key idx' \<Longrightarrow> distinct idx' \<Longrightarrow> set idx' = set idx - {x} \<Longrightarrow> Q () b'"
  shows "wp (seq (read_string_list J B key) (\<lambda>index.
           write_string_list J B key (filter (\<lambda>y. y \<noteq> x) index))) b Q"
  unfolding wp_seq
  by (rule wp_read_string_list [OF assms(1,2,4)], rule wp_write_string_list)
    (use assms in \<open>auto simp: index_lists_def same_outside_def intro!: Q\<close>)

lemma wp_save_refcount:
  assumes "ok b" and "json_ok J" and "disk_refs J (kv b) refs" and "is_chunk_digest d" and "c \<noteq> 0"
    and Q: "\<And>b'. ok b' \<Longrightarrow> same_outside is_refcount_key (kv b) (kv b') \<Longrightarrow>
              disk_refs J (kv b') (refs(d \<mapsto> \<lparr>cr_count = c, cr_size = n\<rparr>)) \<Longrightarrow> Q () b'"
  shows "wp (save_refcount J B d c n) b Q"
proof -
  obtain idx where idx: "index_lists J (kv b) REFCOUNT_INDEX_KEY idx" "distinct idx" "set idx = dom refs"
    using assms(3) by (auto simp: disk_refs_def)
  obtain raw where raw: "to_vec_refcount J \<lparr>rr_count = c, rr_size = n\<rparr> = Inr raw"
      "from_slice_refcount J raw = Inr (Record \<lparr>rr_count = c, rr_size = n\<rparr>)" "raw \<noteq> []"
    using assms(2) by (rule json_ok_refcountE)
  show ?thesis
    unfolding save_refcount_def
  proof (simp add: wp_seq wp_lift validate_digest_cases assms(4) raw(1),
      rule wp_put [OF assms(1) valid_refcount_key [OF assms(4)] raw(3)], fold wp_seq)
    fix b1 assume b1: "ok b1" "kv b1 = (kv b)(refcount_key d \<mapsto> raw)"
    show "wp (seq (read_string_list J B REFCOUNT_INDEX_KEY) (\<lambda>index.
        if d \<in> set index then ret () else write_string_list J B REFCOUNT_INDEX_KEY (index @ [d]))) b1 Q"
    proof (rule wp_index_add [OF b1(1) valid_refcount_index assms(2) _ idx(2)], goal_cases)
      case 1
      then show ?case using idx(1) assms(4) by (simp add: index_lists_def b1(2))
    next
      case (2 b2 idx')
      have "disk_refs J (kv b2) (refs(d \<mapsto> \<lparr>cr_count = c, cr_size = n\<rparr>))"
        by (rule disk_refs_put [OF assms(3,4) _ _ _ 2(3,4)])
          (use 2 b1 assms(4,5) idx(3) raw(2) in
            \<open>auto simp: same_outside_def parse_refcount_record_def refcount_key_eq_index
              digest_not_index\<close>)
      then show ?case
        using 2 b1 by (intro Q) (auto simp: same_outside_def)
    qed
  qed
qed

lemma wp_remove_refcount:
  assumes "ok b" and "json_ok J" and "disk_refs J (kv b) refs" and "is_chunk_digest d"
    and Q: "\<And>b'. ok b' \<Longrightarrow> same_outside is_refcount_key (kv b) (kv b') \<Longrightarrow>
              disk_refs J (kv b') (refs(d := None)) \<Longrightarrow> Q () b'"
  shows "wp (remove_refcount J B d) b Q"
proof -
  obtain idx where idx: "index_lists J (kv b) REFCOUNT_INDEX_KEY idx" "distinct idx"
      "set idx = dom refs"
    using assms(3) by (auto simp: disk_refs_def)
  show ?thesis
    unfolding remove_refcount_def
  proof (subst wp_seq, rule wp_delete [OF assms(1) valid_refcount_key [OF assms(4)]])
    fix b1 assume b1: "ok b1" "kv b1 = (kv b)(refcount_key d := None)"
    show "wp (seq (read_string_list J B REFCOUNT_INDEX_KEY) (\<lambda>index.
        write_string_list J B REFCOUNT_INDEX_KEY (filter (\<lambda>e. e \<noteq> d) index))) b1 Q"
    proof (rule wp_index_remove [OF b1(1) valid_refcount_index assms(2) _ idx(2)], goal_cases)
      case 1
      then show ?case using idx(1) assms(4) by (simp add: index_lists_def b1(2))
    next
      case (2 b2 idx')
      have "disk_refs J (kv b2) (refs(d := None))"
        by (rule disk_refs_del [OF assms(3) 2(3,4)])
          (use 2 b1 idx(3) in \<open>auto simp: same_outside_def\<close>)
      then show ?case
        using 2 b1 by (intro Q) (auto simp: same_outside_def)
    qed
  qed
qed

lemma wp_save_manifest:
  assumes "ok b" and "json_ok J" and "disk_manifests J (kv b) fs"
    and "proper_file_id f" and "valid (manifest_key f)" and "list_all is_chunk_digest ds"
    and Q: "\<And>b'. ok b' \<Longrightarrow> same_outside is_manifest_key (kv b) (kv b') \<Longrightarrow>
              disk_manifests J (kv b') (fs(f \<mapsto> (ds, n))) \<Longrightarrow> Q () b'"
  shows "wp (save_manifest J B f ds n) b Q"
proof -
  obtain idx where idx: "index_lists J (kv b) MANIFEST_INDEX_KEY idx" "distinct idx"
      "set idx = dom fs"
    using assms(3) by (auto simp: disk_manifests_def)
  let ?rec = "\<lparr>mr_digests = ds, mr_file_bytes = n\<rparr>"
  obtain raw where raw: "to_vec_manifest J ?rec = Inr raw" "from_slice_manifest J raw = Inr ?rec" "raw \<noteq> []"
    using assms(2) by (rule json_ok_manifestE)
  show ?thesis
    unfolding save_manifest_def
  proof (simp add: wp_seq wp_lift wp_ret for_each_validate assms(6) raw(1),
      rule wp_put [OF assms(1,5) raw(3)], fold wp_seq)
    fix b1 assume b1: "ok b1" "kv b1 = (kv b)(manifest_key f \<mapsto> raw)"
    show "wp (seq (read_string_list J B MANIFEST_INDEX_KEY) (\<lambda>index.
        if f \<in> set index then ret () else write_string_list J B MANIFEST_INDEX_KEY (index @ [f]))) b1 Q"
    proof (rule wp_index_add [OF b1(1) valid_manifest_index assms(2) _ idx(2)], goal_cases)
      case 1
      then show ?case using idx(1) assms(4) by (simp add: index_lists_def b1(2))
    next
      case (2 b2 idx')
      have "disk_manifests J (kv b2) (fs(f \<mapsto> (ds, n)))"
        by (rule disk_manifests_put [OF assms(3,4,6) _ raw(2) 2(3,4)])
          (use 2 b1 assms(4) idx(3) in \<open>auto simp: same_outside_def\<close>)
      then show ?case
        using 2 b1 by (intro Q) (auto simp: same_outside_def)
    qed
  qed
qed

lemma wp_remove_manifest:
  assumes "ok b" and "json_ok J" and "disk_manifests J (kv b) fs"
    and "proper_file_id f" and "valid (manifest_key f)"
    and Q: "\<And>b'. ok b' \<Longrightarrow> same_outside is_manifest_key (kv b) (kv b') \<Longrightarrow>
              disk_manifests J (kv b') (fs(f := None)) \<Longrightarrow> Q () b'"
  shows "wp (remove_manifest J B f) b Q"
proof -
  obtain idx where idx: "index_lists J (kv b) MANIFEST_INDEX_KEY idx" "distinct idx"
      "set idx = dom fs"
    using assms(3) by (auto simp: disk_manifests_def)
  show ?thesis
    unfolding remove_manifest_def
  proof (subst wp_seq, rule wp_delete [OF assms(1,5)])
    fix b1 assume b1: "ok b1" "kv b1 = (kv b)(manifest_key f := None)"
    show "wp (seq (read_string_list J B MANIFEST_INDEX_KEY) (\<lambda>index.
        write_string_list J B MANIFEST_INDEX_KEY (filter (\<lambda>g. g \<noteq> f) index))) b1 Q"
    proof (rule wp_index_remove [OF b1(1) valid_manifest_index assms(2) _ idx(2)], goal_cases)
      case 1
      then show ?case using idx(1) assms(4) by (simp add: index_lists_def b1(2))
    next
      case (2 b2 idx')
      have "disk_manifests J (kv b2) (fs(f := None))"
        by (rule disk_manifests_del [OF assms(3) 2(3,4)])
          (use 2 b1 idx(3) in \<open>auto simp: same_outside_def\<close>)
      then show ?case
        using 2 b1 by (intro Q) (auto simp: same_outside_def)
    qed
  qed
qed

text \<open>Loading reads the views back into the in-memory structures.\<close>

lemma wp_load_refcounts:
  assumes "ok b" and "disk_refs J (kv b) refs"
    and Q: "\<And>rc b'. ok b' \<Longrightarrow> kv b' = kv b \<Longrightarrow> rc_ok rc \<Longrightarrow> get_ref rc = refs \<Longrightarrow> Q rc b'"
  shows "wp (load_refcounts J B) b Q"
proof -
  obtain idx where idx: "index_lists J (kv b) REFCOUNT_INDEX_KEY idx" "set idx = dom refs"
    using assms(2) by (auto simp: disk_refs_def)
  show ?thesis
    unfolding load_refcounts_def wp_seq
  proof (rule wp_read_string_list [OF assms(1) valid_refcount_index idx(1)],
      rule wp_fold_act [where I = "\<lambda>done rc b'. ok b' \<and> kv b' = kv b \<and> rc_ok rc \<and>
                                     get_ref rc = refs |` set done"], goal_cases)
    case (1 b1)
    then show ?case by (simp add: rc_ok_new) (simp add: ref_count_new_def get_ref_def fun_eq_iff)
  next
    case (2 b1 pre d todo rc b2)
    then have "d \<in> dom refs" using idx(2) by (metis in_set_conv_decomp)
    then obtain r where r: "refs d = Some r" by blast
    then obtain raw where d: "is_chunk_digest d" "cr_count r \<noteq> 0" "kv b2 (refcount_key d) = Some raw"
        "parse_refcount_record J raw d = Ok (cr_count r, cr_size r)"
      using disk_refsD [OF assms(2) r] 2 by auto
    then have "0 < cr_count r" by (simp add: word_greater_zero_iff)
    moreover have "refs |` insert d (set pre) =
        (refs |` set pre)(d \<mapsto> \<lparr>cr_count = cr_count r, cr_size = cr_size r\<rparr>)"
      by (subst restrict_map_insert_Some [of refs d r]) (simp_all add: r)
    ultimately show ?case
      using 2 d r
      by (auto simp: load_refcount_entry_def wp_rules validate_digest_cases valid_refcount_key
          rc_ok_set intro!: wp_get)
  next
    case (3 b1 rc b2)
    then have "get_ref rc = refs" by (simp add: idx(2))
    with 3 show ?case by (intro Q) auto
  qed
qed

lemma wp_load_manifests:
  assumes "ok b" and "disk_manifests J (kv b) fs"
    and "\<And>f. f \<in> dom fs \<Longrightarrow> valid (manifest_key f)"
    and Q: "\<And>m b'. ok b' \<Longrightarrow> kv b' = kv b \<Longrightarrow> manifest_ok m \<Longrightarrow> manifest_view m = fs \<Longrightarrow> Q m b'"
  shows "wp (load_manifests J B) b Q"
proof -
  obtain idx where idx: "index_lists J (kv b) MANIFEST_INDEX_KEY idx" "set idx = dom fs"
    using assms(2) by (auto simp: disk_manifests_def)
  show ?thesis
    unfolding load_manifests_def wp_seq
  proof (rule wp_read_string_list [OF assms(1) valid_manifest_index idx(1)],
      rule wp_fold_act [where I = "\<lambda>done m b'. ok b' \<and> kv b' = kv b \<and> manifest_ok m \<and>
                                     manifest_view m = fs |` set done"], goal_cases)
    case (1 b1)
    then show ?case by (simp add: manifest_ok_new)
  next
    case (2 b1 pre f todo m b2)
    then have "f \<in> dom fs" using idx(2) by (metis in_set_conv_decomp)
    then obtain ds n where r: "fs f = Some (ds, n)" by auto
    then obtain raw where f: "proper_file_id f" "list_all is_chunk_digest ds"
        "kv b2 (manifest_key f) = Some raw"
        "from_slice_manifest J raw = Inr \<lparr>mr_digests = ds, mr_file_bytes = n\<rparr>"
      using disk_manifestsD [OF assms(2) r] 2 by auto
    have f0: "f \<noteq> []" using f(1) by (simp add: proper_file_id_def)
    obtain m' where m': "manifest_insert f ds n m = (Ok (), m')" "manifest_ok m'"
        "manifest_view m' = (manifest_view m)(f \<mapsto> (ds, n))"
      using manifest_insert_Ok(1) [OF f0] manifest_insert_preserves [of m f ds n] 2
        manifest_view_insert [OF f0] by (metis prod.collapse)
    have "fs |` insert f (set pre) = (fs |` set pre)(f \<mapsto> (ds, n))"
      using r by (rule restrict_map_insert_Some)
    then show ?case
      using 2 f m' assms(3) [OF \<open>f \<in> dom fs\<close>]
      by (auto simp: load_manifest_entry_def wp_rules for_each_validate intro!: wp_get)
  next
    case (3 b1 m b2)
    then have "manifest_view m = fs" by (simp add: idx(2))
    with 3 show ?case by (intro Q) auto
  qed
qed

end

end
