(* ===== verification/Store_Inv.thy ===== *)
theory Store_Inv
  imports Store Persistence_Laws
begin

text \<open>
  The invariant of \<open>ChunkStore\<close> and its preservation by the two chunk-level steps,
  \<open>store_chunk\<close> and \<open>release_digest\<close>.  The invariant ties four things together
  through the multiset \<open>M\<close> of chunk references: the in-memory counts, the records on the
  backend, the blobs, and the byte totals.  In the middle of an ingest or a release \<open>M\<close> is
  not yet (or no longer) the multiset of the manifests, so it is a parameter.
\<close>

section \<open>Contents of the backend\<close>

text \<open>The plaintext stored under a digest.\<close>

definition blob_plain ::
  "chunk_codec_ops option \<Rightarrow> (string \<rightharpoonup> bytes) \<Rightarrow> string \<rightharpoonup> bytes" where
  "blob_plain c m d =
     (case m d of None \<Rightarrow> None | Some raw \<Rightarrow> option_of_res (decode_opt c raw))"

definition plain_len :: "chunk_codec_ops option \<Rightarrow> (string \<rightharpoonup> bytes) \<Rightarrow> string \<Rightarrow> nat" where
  "plain_len c m d = (case blob_plain c m d of None \<Rightarrow> 0 | Some p \<Rightarrow> length p)"

definition stored_plain :: "chunk_codec_ops option \<Rightarrow> (string \<rightharpoonup> bytes) \<Rightarrow> bytes set" where
  "stored_plain c m = {p. \<exists>d. is_chunk_digest d \<and> blob_plain c m d = Some p}"

text \<open>Assembling a file from its digests.\<close>

definition assemble ::
  "chunk_codec_ops option \<Rightarrow> (string \<rightharpoonup> bytes) \<Rightarrow> string list \<Rightarrow> bytes option" where
  "assemble c m ds = map_option concat (those (map (blob_plain c m) ds))"

text \<open>The abstract state of a store: the bytes of every file.\<close>

definition contents :: "('b \<Rightarrow> string \<rightharpoonup> bytes) \<Rightarrow> 'b store \<Rightarrow> string \<rightharpoonup> bytes" where
  "contents kv s f =
     (case try_get (guarded (st_manifest s)) f of
        None \<Rightarrow> None
      | Some ds \<Rightarrow> assemble (st_codec s) (kv (st_backend s)) ds)"

section \<open>The invariant\<close>

definition unlocked :: "'b store \<Rightarrow> bool" where
  "unlocked s \<longleftrightarrow> \<not> poisoned (st_manifest s) \<and> \<not> poisoned (st_refcount s) \<and>
     \<not> poisoned (st_stats s) \<and> \<not> poisoned (st_blob s)"

definition refs_match :: "(string \<rightharpoonup> chunk_ref) \<Rightarrow> string multiset \<Rightarrow> bool" where
  "refs_match refs M \<longleftrightarrow>
     (\<forall>d. refs d = None \<longleftrightarrow> d \<notin># M) \<and>
     (\<forall>d r. refs d = Some r \<longrightarrow> cr_count r = of_nat (count M d))"

definition blobs_match ::
  "hash_fun \<Rightarrow> chunk_codec_ops option \<Rightarrow> (string \<rightharpoonup> bytes) \<Rightarrow> (string \<rightharpoonup> chunk_ref) \<Rightarrow> bool" where
  "blobs_match sha c m refs \<longleftrightarrow>
     (\<forall>d. is_chunk_digest d \<longrightarrow> refs d = None \<longrightarrow> m d = None) \<and>
     (\<forall>d r. is_chunk_digest d \<longrightarrow> refs d = Some r \<longrightarrow>
        (\<exists>p. blob_plain c m d = Some p \<and> digest_hex sha p = d \<and> cr_size r = len64 p))"

text \<open>Bytes referenced, with multiplicity, and bytes of the distinct chunks.\<close>

definition ref_bytes :: "(string \<Rightarrow> nat) \<Rightarrow> string multiset \<Rightarrow> nat" where
  "ref_bytes len M = (\<Sum>d\<in>#M. len d)"

definition unique_bytes :: "(string \<Rightarrow> nat) \<Rightarrow> string multiset \<Rightarrow> nat" where
  "unique_bytes len M = (\<Sum>d\<in>set_mset M. len d)"

definition stats_match :: "stats \<Rightarrow> (string \<Rightarrow> nat) \<Rightarrow> string multiset \<Rightarrow> bool" where
  "stats_match st len M \<longleftrightarrow>
     ref_bytes len M < 2 ^ 64 \<and>
     total_bytes st = of_nat (ref_bytes len M) \<and>
     stored_bytes st = of_nat (unique_bytes len M)"

definition chunk_inv :: "'b deps \<Rightarrow> (string \<rightharpoonup> bytes) \<Rightarrow> string multiset \<Rightarrow> 'b store \<Rightarrow> bool" where
  "chunk_inv E m M s \<longleftrightarrow>
     unlocked s \<and> codec_ok (st_codec s) \<and> size M < 2 ^ 64 \<and>
     keys_distinct (counts (guarded (st_refcount s))) \<and>
     refs_match (get_ref (guarded (st_refcount s))) M \<and>
     blobs_match (dp_sha E) (st_codec s) m (get_ref (guarded (st_refcount s))) \<and>
     disk_refs (dp_json E) m (get_ref (guarded (st_refcount s))) \<and>
     stats_match (guarded (st_stats s)) (plain_len (st_codec s) m) M"

text \<open>Between operations: the references are those of the manifests, on disk and in memory.\<close>

definition store_inv ::
  "'b deps \<Rightarrow> ('b \<Rightarrow> string \<rightharpoonup> bytes) \<Rightarrow> ('b \<Rightarrow> bool) \<Rightarrow> (string \<Rightarrow> bool) \<Rightarrow> 'b store \<Rightarrow> bool" where
  "store_inv E kv ok valid s \<longleftrightarrow>
     ok (st_backend s) \<and>
     manifest_ok (guarded (st_manifest s)) \<and>
     disk_manifests (dp_json E) (kv (st_backend s)) (manifest_view (guarded (st_manifest s))) \<and>
     (\<forall>f \<in> dom (manifest_view (guarded (st_manifest s))). valid (manifest_key f)) \<and>
     chunk_inv E (kv (st_backend s)) (all_refs (files (guarded (st_manifest s)))) s"

locale store_env = store_backend "dp_backend E" kv ok valid
  for E :: "'b deps" and kv :: "'b \<Rightarrow> string \<rightharpoonup> bytes" and ok :: "'b \<Rightarrow> bool"
    and valid :: "string \<Rightarrow> bool" +
  assumes json: "json_ok (dp_json E)"
    and sha: "sha_ok (dp_sha E)"

section \<open>Access to the fields\<close>

lemma wp_on_backend [wp_rules]:
  "wp (on_backend a) s Q = wp a (st_backend s) (\<lambda>x b. Q x (s\<lparr>st_backend := b\<rparr>))"
  by (simp add: on_backend_def wp_zoom)

lemma wp_on_manifest [wp_rules]:
  "wp (on_manifest a) s Q \<longleftrightarrow> \<not> poisoned (st_manifest s) \<and>
     wp a (guarded (st_manifest s))
       (\<lambda>x v. Q x (s\<lparr>st_manifest := (st_manifest s)\<lparr>guarded := v\<rparr>\<rparr>))"
  by (simp add: on_manifest_def wp_zoom wp_with_lock)

lemma wp_on_refcount [wp_rules]:
  "wp (on_refcount a) s Q \<longleftrightarrow> \<not> poisoned (st_refcount s) \<and>
     wp a (guarded (st_refcount s))
       (\<lambda>x v. Q x (s\<lparr>st_refcount := (st_refcount s)\<lparr>guarded := v\<rparr>\<rparr>))"
  by (simp add: on_refcount_def wp_zoom wp_with_lock)

lemma wp_on_stats [wp_rules]:
  "wp (on_stats a) s Q \<longleftrightarrow> \<not> poisoned (st_stats s) \<and>
     wp a (guarded (st_stats s))
       (\<lambda>x v. Q x (s\<lparr>st_stats := (st_stats s)\<lparr>guarded := v\<rparr>\<rparr>))"
  by (simp add: on_stats_def wp_zoom wp_with_lock)

lemma wp_hold_blob [wp_rules]:
  "wp (hold_blob m) s Q \<longleftrightarrow> \<not> poisoned (st_blob s) \<and> wp m s Q"
  by (simp add: hold_blob_def wp_holding)

lemma wp_hold_refcount [wp_rules]:
  "wp (hold_refcount m) s Q \<longleftrightarrow> \<not> poisoned (st_refcount s) \<and> wp m s Q"
  by (simp add: hold_refcount_def wp_holding)

lemma wp_refcount_value [wp_rules]:
  "wp (refcount_value a) s Q =
     wp a (guarded (st_refcount s))
       (\<lambda>x v. Q x (s\<lparr>st_refcount := (st_refcount s)\<lparr>guarded := v\<rparr>\<rparr>))"
  by (simp add: refcount_value_def wp_zoom)

lemma wp_const [wp_rules]: "wp (\<lambda>s. (Ok (f s), g s)) s Q = Q (f s) (g s)"
  by (simp add: wp_iff)

lemma wp_pair:
  "wp (\<lambda>s. (f s, g s)) s Q = (case f s of Ok a \<Rightarrow> Q a (g s) | _ \<Rightarrow> False)"
  by (cases "f s") (auto simp: wp_iff)

lemma wp_encode_blob:
  "encode_opt (st_codec s) p = Ok x \<Longrightarrow> wp (encode_blob p) s Q = Q x s"
  by (simp add: wp_iff encode_blob_def)

lemma wp_decode_blob:
  "decode_opt (st_codec s) raw = Ok x \<Longrightarrow> wp (decode_blob raw) s Q = Q x s"
  by (simp add: wp_iff decode_blob_def)

lemma wp_option_case:
  "wp (case x of None \<Rightarrow> a | Some y \<Rightarrow> f y) s Q =
     (case x of None \<Rightarrow> wp a s Q | Some y \<Rightarrow> wp (f y) s Q)"
  by (simp split: option.split)

section \<open>Facts about the views\<close>

lemma blob_plain_cong: "m' d = m d \<Longrightarrow> blob_plain c m' d = blob_plain c m d"
  by (simp add: blob_plain_def)

lemma plain_len_cong: "blob_plain c m' d = blob_plain c m d \<Longrightarrow> plain_len c m' d = plain_len c m d"
  by (simp add: plain_len_def)

lemma refs_match_None_iff: "refs_match refs M \<Longrightarrow> refs d = None \<longleftrightarrow> d \<notin># M"
  by (simp add: refs_match_def)

lemma refs_match_dom: "refs_match refs M \<Longrightarrow> dom refs = set_mset M"
  by (rule set_eqI) (simp add: refs_match_def domIff)

lemma refs_match_Some: "refs_match refs M \<Longrightarrow> refs d = Some r \<Longrightarrow> cr_count r = of_nat (count M d)"
  by (simp add: refs_match_def)

lemma refs_match_member:
  assumes "refs_match refs M" and "d \<in># M"
  obtains r where "refs d = Some r" and "cr_count r = of_nat (count M d)"
  using assms refs_match_None_iff [OF assms(1), of d] refs_match_Some [OF assms(1), of d]
  by (cases "refs d") auto

lemma refs_match_add:
  "refs_match refs M \<Longrightarrow>
     refs_match (refs(d \<mapsto> \<lparr>cr_count = of_nat (Suc (count M d)), cr_size = n\<rparr>)) (add_mset d M)"
  by (auto simp: refs_match_def)

lemma refs_match_remove:
  "refs_match refs (add_mset d N) \<Longrightarrow>
     refs_match
       (refs(d := if d \<in># N then Some \<lparr>cr_count = of_nat (count N d), cr_size = n\<rparr> else None)) N"
  by (auto simp: refs_match_def)

lemma count_less_64: "size M < 2 ^ 64 \<Longrightarrow> count M d < 2 ^ 64"
  by (meson count_le_size le_less_trans)

lemma blobs_matchD:
  assumes "blobs_match sha c m refs" and "is_chunk_digest d" and "refs d = Some r"
  obtains p where "blob_plain c m d = Some p" and "digest_hex sha p = d" and "cr_size r = len64 p"
  using assms unfolding blobs_match_def by blast

lemma blobs_match_None:
  "blobs_match sha c m refs \<Longrightarrow> is_chunk_digest d \<Longrightarrow> refs d = None \<Longrightarrow> m d = None"
  unfolding blobs_match_def by blast

lemma blobs_match_upd:
  assumes "blobs_match sha c m refs"
    and "\<And>e. is_chunk_digest e \<Longrightarrow> e \<noteq> d \<Longrightarrow> m' e = m e"
    and "v = None \<Longrightarrow> m' d = None"
    and "\<And>r. v = Some r \<Longrightarrow>
           \<exists>p. blob_plain c m' d = Some p \<and> digest_hex sha p = d \<and> cr_size r = len64 p"
  shows "blobs_match sha c m' (refs(d := v))"
proof -
  have "blob_plain c m' e = blob_plain c m e" if "is_chunk_digest e" "e \<noteq> d" for e
    using assms(2) that by (simp add: blob_plain_def)
  with assms show ?thesis unfolding blobs_match_def by simp
qed

lemma ref_bytes_add [simp]: "ref_bytes len (add_mset d M) = ref_bytes len M + len d"
  by (simp add: ref_bytes_def)

lemma ref_bytes_cong:
  "(\<And>d. d \<in># M \<Longrightarrow> f d = g d) \<Longrightarrow> ref_bytes f M = ref_bytes g M"
  by (simp add: ref_bytes_def cong: image_mset_cong)

lemma unique_bytes_add:
  "unique_bytes len (add_mset d M) = unique_bytes len M + (if d \<in># M then 0 else len d)"
  by (simp add: unique_bytes_def insert_absorb)

lemma unique_bytes_cong:
  "(\<And>d. d \<in># M \<Longrightarrow> f d = g d) \<Longrightarrow> unique_bytes f M = unique_bytes g M"
  by (simp add: unique_bytes_def)

lemma unique_le_ref_bytes: "unique_bytes len M \<le> ref_bytes len M"
proof (induction M)
  case (add d M)
  then show ?case by (simp add: unique_bytes_add)
qed (simp add: unique_bytes_def)

lemma stats_match_total:
  "stats_match st len M \<Longrightarrow> unat (total_bytes st) = ref_bytes len M"
  by (simp add: stats_match_def unat_of_nat_u64)

lemma stats_match_add:
  assumes "stats_match st len M" and "\<And>e. e \<in># M \<Longrightarrow> len' e = len e"
    and "len' d = n" and "ref_bytes len M + n < 2 ^ 64"
  shows "stats_match (if d \<in># M then add_reference (of_nat n) st
                      else add_unique_chunk (of_nat n) st) len' (add_mset d M)"
  using assms ref_bytes_cong [OF assms(2)] unique_bytes_cong [OF assms(2)]
  by (simp add: stats_match_def stats_defs unique_bytes_add)

lemma stats_match_remove:
  assumes "stats_match st len (add_mset d N)" and "\<And>e. e \<in># N \<Longrightarrow> len' e = len e"
  shows "stats_match
           (remove_reference (of_nat (len d))
              (if d \<in># N then st else remove_unique_chunk (of_nat (len d)) st)) len' N"
proof -
  have bounds: "ref_bytes len N + len d < 2 ^ 64" "unique_bytes len (add_mset d N) < 2 ^ 64"
    using assms(1) unique_le_ref_bytes [of len "add_mset d N"] by (simp_all add: stats_match_def)
  have total: "saturating_sub (total_bytes st) (of_nat (len d)) = of_nat (ref_bytes len N)"
    using assms(1) bounds(1)
    by (simp add: stats_match_def saturating_sub_of_nat [of _ "ref_bytes len N + len d"] flip: of_nat_add)
  have stored: "d \<notin># N \<Longrightarrow> saturating_sub (stored_bytes st) (of_nat (len d)) = of_nat (unique_bytes len N)"
    using assms(1) bounds(2)
    by (simp add: stats_match_def unique_bytes_add
        saturating_sub_of_nat [of _ "unique_bytes len N + len d"] flip: of_nat_add)
  show ?thesis
    using assms(1) total stored bounds ref_bytes_cong [OF assms(2)] unique_bytes_cong [OF assms(2)]
    by (simp add: stats_match_def stats_defs unique_bytes_add)
qed

section \<open>Counting on the in-memory map\<close>

lemma increment_match:
  assumes "refs_match (get_ref rc) M" and "\<And>r. get_ref rc d = Some r \<Longrightarrow> cr_size r = n"
  shows "fst (increment d n rc) = Ok (of_nat (Suc (count M d)))"
    and "get_ref (snd (increment d n rc)) =
           (get_ref rc)(d \<mapsto> \<lparr>cr_count = of_nat (Suc (count M d)), cr_size = n\<rparr>)"
proof -
  have "fst (increment d n rc) = Ok (of_nat (Suc (count M d))) \<and>
        get_ref (snd (increment d n rc)) =
           (get_ref rc)(d \<mapsto> \<lparr>cr_count = of_nat (Suc (count M d)), cr_size = n\<rparr>)"
  proof (cases "get_ref rc d")
    case None
    then have "count M d = 0"
      using refs_match_None_iff [OF assms(1)] by (simp add: not_in_iff)
    with None show ?thesis by (simp add: increment_fresh)
  next
    case (Some r)
    with refs_match_Some [OF assms(1) Some] assms(2) [OF Some] show ?thesis
      by (simp add: increment_known add.commute)
  qed
  then show "fst (increment d n rc) = Ok (of_nat (Suc (count M d)))"
    and "get_ref (snd (increment d n rc)) =
           (get_ref rc)(d \<mapsto> \<lparr>cr_count = of_nat (Suc (count M d)), cr_size = n\<rparr>)" by simp_all
qed

lemma increment_distinct:
  "keys_distinct (counts rc) \<Longrightarrow> keys_distinct (counts (snd (increment d n rc)))"
  by (simp add: increment_def or_insert_def Let_def split: option.split)

lemma decrement_distinct:
  "keys_distinct (counts rc) \<Longrightarrow> keys_distinct (counts (snd (decrement d rc)))"
  by (simp add: decrement_def Let_def split: option.split)

lemma decrement_match:
  assumes "refs_match (get_ref rc) (add_mset d N)" and "size (add_mset d N) < 2 ^ 64"
    and "get_ref rc d = Some r"
  shows "fst (decrement d rc) = Ok (of_nat (count N d))"
    and "get_ref (snd (decrement d rc)) =
           (get_ref rc)(d := if d \<in># N then Some \<lparr>cr_count = of_nat (count N d), cr_size = cr_size r\<rparr>
                             else None)"
    and "(of_nat (count N d) :: u64) = 0 \<longleftrightarrow> d \<notin># N"
proof -
  have c: "cr_count r = of_nat (Suc (count N d))"
    using refs_match_Some [OF assms(1,3)] by simp
  have lt: "Suc (count N d) < 2 ^ 64"
    using count_less_64 [OF assms(2), of d] by simp
  show "fst (decrement d rc) = Ok (of_nat (count N d))"
    using c by (simp add: decrement_known [OF assms(3)])
  have zero: "(of_nat (count N d) :: u64) = of_nat 0 \<longleftrightarrow> count N d = 0"
    using lt by (intro of_nat_u64_inj) simp_all
  then show "(of_nat (count N d) :: u64) = 0 \<longleftrightarrow> d \<notin># N"
    by (simp add: not_in_iff)
  have "cr_count r = 1 \<longleftrightarrow> count N d = 0"
    using c zero by simp
  moreover have "\<lparr>cr_count = of_nat (count N d), cr_size = cr_size r\<rparr> =
      r\<lparr>cr_count := of_nat (count N d)\<rparr>"
    by (cases r) simp
  moreover have "count N d = 0 \<longleftrightarrow> d \<notin># N" by (simp add: not_in_iff)
  ultimately show "get_ref (snd (decrement d rc)) =
      (get_ref rc)(d := if d \<in># N then Some \<lparr>cr_count = of_nat (count N d), cr_size = cr_size r\<rparr>
                        else None)"
    using c by (simp only: decrement_known [OF assms(3)]) simp
qed

end
