(* ===== verification/Store_Steps.thy ===== *)
theory Store_Steps
  imports Store_Inv
begin

text \<open>
  The chunk-level steps keep \<open>chunk_inv\<close>: \<open>store_chunk\<close> adds one reference,
  \<open>release_digest\<close> takes one away and collects the blob with the last one.
\<close>

definition chunk_frame :: "'b store \<Rightarrow> 'b store \<Rightarrow> bool" where
  "chunk_frame s s' \<longleftrightarrow> st_manifest s' = st_manifest s \<and> st_codec s' = st_codec s"

lemma chunk_frame_refl [simp]: "chunk_frame s s"
  by (simp add: chunk_frame_def)

lemma chunk_frame_trans: "chunk_frame s t \<Longrightarrow> chunk_frame t u \<Longrightarrow> chunk_frame s u"
  by (simp add: chunk_frame_def)

lemma chunk_invD:
  assumes "chunk_inv E m M s"
  shows "unlocked s" and "codec_ok (st_codec s)" and "size M < 2 ^ 64"
    and "keys_distinct (counts (guarded (st_refcount s)))"
    and "refs_match (get_ref (guarded (st_refcount s))) M"
    and "blobs_match (dp_sha E) (st_codec s) m (get_ref (guarded (st_refcount s)))"
    and "disk_refs (dp_json E) m (get_ref (guarded (st_refcount s)))"
    and "stats_match (guarded (st_stats s)) (plain_len (st_codec s) m) M"
  using assms by (simp_all add: chunk_inv_def)

text \<open>What the invariant says about one referenced chunk.\<close>

lemma chunk_inv_member:
  assumes "chunk_inv E m M s" and "d \<in># M"
  obtains r p where "get_ref (guarded (st_refcount s)) d = Some r" and "is_chunk_digest d"
    and "blob_plain (st_codec s) m d = Some p" and "digest_hex (dp_sha E) p = d"
    and "cr_size r = len64 p" and "cr_count r = of_nat (count M d)"
proof -
  note I = chunk_invD [OF assms(1)]
  obtain r where r: "get_ref (guarded (st_refcount s)) d = Some r" "cr_count r = of_nat (count M d)"
    using refs_match_member [OF I(5) assms(2)] .
  have d: "is_chunk_digest d" by (rule disk_refsD(1) [OF I(7) r(1)])
  obtain p where "blob_plain (st_codec s) m d = Some p" "digest_hex (dp_sha E) p = d"
      "cr_size r = len64 p"
    using blobs_matchD [OF I(6) d r(1)] .
  with r d show ?thesis by (intro that)
qed

lemma chunk_inv_absent:
  assumes "chunk_inv E m M s" and "d \<notin># M" and "is_chunk_digest d"
  shows "m d = None" and "get_ref (guarded (st_refcount s)) d = None"
proof -
  note I = chunk_invD [OF assms(1)]
  show "get_ref (guarded (st_refcount s)) d = None"
    using refs_match_None_iff [OF I(5)] assms(2) by simp
  then show "m d = None" by (rule blobs_match_None [OF I(6) assms(3)])
qed

lemma blob_plain_not_None: "blob_plain c m d = Some p \<Longrightarrow> m d \<noteq> None"
  by (auto simp: blob_plain_def split: option.splits)

lemma chunk_inv_present:
  assumes "chunk_inv E m M s" and "is_chunk_digest d"
  shows "m d \<noteq> None \<longleftrightarrow> d \<in># M"
  using chunk_inv_absent [OF assms(1) _ assms(2)] chunk_inv_member [OF assms(1), of d]
    blob_plain_not_None by metis

context store_env
begin

lemma wp_blob_section:
  assumes "ok (st_backend s)" and "\<not> poisoned (st_blob s)" and "is_chunk_digest d" and "blob \<noteq> []"
    and "\<And>b'. ok b' \<Longrightarrow>
           kv b' = (if kv (st_backend s) d = None then (kv (st_backend s))(d \<mapsto> blob)
                    else kv (st_backend s)) \<Longrightarrow>
           Q (kv (st_backend s) d \<noteq> None) (s\<lparr>st_backend := b'\<rparr>)"
  shows "wp (blob_section E d blob) s Q"
  using assms
  by (auto simp: blob_section_def wp_rules valid_digest intro!: wp_exists wp_put)

lemma wp_refcount_section:
  assumes "ok (st_backend s)" and "\<not> poisoned (st_refcount s)" and "is_chunk_digest d"
    and "refs_match (get_ref (guarded (st_refcount s))) M" and "Suc (size M) < 2 ^ 64"
    and "\<And>r. get_ref (guarded (st_refcount s)) d = Some r \<Longrightarrow> cr_size r = n"
    and "disk_refs (dp_json E) (kv (st_backend s)) (get_ref (guarded (st_refcount s)))"
    and Q: "\<And>b' rc'. ok b' \<Longrightarrow> same_outside is_refcount_key (kv (st_backend s)) (kv b') \<Longrightarrow>
           get_ref rc' = (get_ref (guarded (st_refcount s)))
             (d \<mapsto> \<lparr>cr_count = of_nat (Suc (count M d)), cr_size = n\<rparr>) \<Longrightarrow>
           disk_refs (dp_json E) (kv b') (get_ref rc') \<Longrightarrow>
           (keys_distinct (counts (guarded (st_refcount s))) \<Longrightarrow> keys_distinct (counts rc')) \<Longrightarrow>
           Q () (s\<lparr>st_refcount := (st_refcount s)\<lparr>guarded := rc'\<rparr>, st_backend := b'\<rparr>)"
  shows "wp (refcount_section E d n) s Q"
proof -
  let ?rc = "guarded (st_refcount s)"
  let ?rc' = "snd (increment d n ?rc)"
  note inc = increment_match [OF assms(4,6)]
  have "size_of ?rc' d = Some n"
    using fun_cong [OF inc(2), of d] by (simp add: size_of_def get_ref_def)
  moreover have "(of_nat (Suc (count M d)) :: u64) \<noteq> 0"
    using of_nat_u64_inj [of "Suc (count M d)" 0] count_le_size [of M d] assms(5)
    by (simp del: of_nat_Suc)
  ultimately show ?thesis
    using assms(1-3) inc
    by (auto simp: refcount_section_def wp_seq wp_hold_refcount wp_refcount_value wp_on_backend wp_const
        wp_by_fst_snd [of "increment d n", OF inc(1)] simp del: of_nat_Suc
        intro!: wp_save_refcount [OF _ json assms(7)] Q increment_distinct)
qed

text \<open>
  \<open>store_chunk\<close>: one more reference; the blob is written exactly when the digest is new;
  no other key class is touched.
\<close>

lemma wp_store_chunk:
  assumes inv: "chunk_inv E (kv (st_backend s)) M s" and ok: "ok (st_backend s)"
    and d: "d = digest_hex (dp_sha E) p" and ne: "p \<noteq> []"
    and coll: "\<And>q. blob_plain (st_codec s) (kv (st_backend s)) d = Some q \<Longrightarrow> q = p"
    and refs: "Suc (size M) < 2 ^ 64"
    and total: "unat (total_bytes (guarded (st_stats s))) + length p < 2 ^ 64"
    and Q: "\<And>s'. ok (st_backend s') \<Longrightarrow> chunk_frame s s' \<Longrightarrow>
           chunk_inv E (kv (st_backend s')) (add_mset d M) s' \<Longrightarrow>
           same_outside (\<lambda>k. k = d \<or> is_refcount_key k) (kv (st_backend s)) (kv (st_backend s')) \<Longrightarrow>
           blob_plain (st_codec s) (kv (st_backend s')) d = Some p \<Longrightarrow>
           unat (total_bytes (guarded (st_stats s'))) =
             unat (total_bytes (guarded (st_stats s))) + length p \<Longrightarrow>
           (d \<in># M \<Longrightarrow> stored_bytes (guarded (st_stats s')) = stored_bytes (guarded (st_stats s))) \<Longrightarrow>
           Q (d \<in># M) s'"
  shows "wp (store_chunk E d p) s Q"
proof -
  note I = chunk_invD [OF inv]
  have dd: "is_chunk_digest d" using digest_is_chunk_digest [OF sha] d by simp
  let ?m = "kv (st_backend s)" and ?c = "st_codec s" and ?rc = "guarded (st_refcount s)"
  obtain blob where blob: "encode_opt ?c p = Ok blob" "decode_opt ?c blob = Ok p"
      "p \<noteq> [] \<Longrightarrow> blob \<noteq> []"
    using codec_okE [OF I(2), of p] by metis
  have present: "?m d \<noteq> None \<longleftrightarrow> d \<in># M" by (rule chunk_inv_present [OF inv dd])
  define m1 where "m1 = (if ?m d = None then ?m(d \<mapsto> blob) else ?m)"
  have plain1: "blob_plain ?c m1 d = Some p"
  proof (cases "d \<in># M")
    case True
    then show ?thesis
      using chunk_inv_member [OF inv True] coll present by (metis m1_def)
  next
    case False
    then show ?thesis using present blob by (simp add: m1_def blob_plain_def)
  qed
  have m1_out: "same_outside (\<lambda>k. k = d) ?m m1" by (simp add: m1_def)
  have disk1: "disk_refs (dp_json E) m1 (get_ref ?rc)"
    using I(7) disk_refs_cong [OF m1_out] dd by (metis digest_key_class(2))
  have sz: "cr_size r = len64 p" if "get_ref ?rc d = Some r" for r
    using blobs_matchD [OF I(6) dd that] coll by metis
  show ?thesis
    unfolding store_chunk_def wp_seq wp_encode_blob [OF blob(1)]
  proof (rule wp_blob_section [OF ok _ dd blob(3) [OF ne]], goal_cases)
    case 1
    then show ?case using I(1) by (simp add: unlocked_def)
  next
    case b1: (2 b1)
    then have kv1: "kv b1 = m1" by (simp add: m1_def)
    show ?case
    proof (rule wp_refcount_section [of _ d M], goal_cases)
      case (8 b2 rc')
      let ?s2 = "s\<lparr>st_backend := b1, st_refcount := (st_refcount s)\<lparr>guarded := rc'\<rparr>,
                   st_backend := b2\<rparr>"
      let ?st = "guarded (st_stats s)"
      let ?st' = "if d \<in># M then add_reference (len64 p) ?st else add_unique_chunk (len64 p) ?st"
      let ?s' = "?s2\<lparr>st_stats := (st_stats s)\<lparr>guarded := ?st'\<rparr>\<rparr>"
      have m2: "same_outside is_refcount_key m1 (kv b2)" using 8(2) kv1 by simp
      then have eq2: "is_chunk_digest e \<Longrightarrow> blob_plain ?c (kv b2) e = blob_plain ?c m1 e" for e
        by (auto simp: same_outside_def intro: blob_plain_cong)
      have out: "same_outside (\<lambda>k. k = d \<or> is_refcount_key k) ?m (kv b2)"
        using m1_out m2 by (auto simp: same_outside_def)
      have plain2: "blob_plain ?c (kv b2) d = Some p" using eq2 [OF dd] plain1 by simp
      have plain_old: "blob_plain ?c (kv b2) e = blob_plain ?c ?m e" if "e \<in># M" for e
      proof (cases "e = d")
        case True
        then show ?thesis using chunk_inv_member [OF inv that] coll plain2 by metis
      next
        case False
        have "is_chunk_digest e" using chunk_inv_member [OF inv that] by metis
        then show ?thesis using out False by (auto simp: same_outside_def intro: blob_plain_cong)
      qed
      have len: "plain_len ?c (kv b2) e = plain_len ?c ?m e" if "e \<in># M" for e
        by (rule plain_len_cong [OF plain_old [OF that]])
      have len_d: "plain_len ?c (kv b2) d = length p" by (simp add: plain_len_def plain2)
      have total_eq: "unat (total_bytes ?st) = ref_bytes (plain_len ?c ?m) M"
        by (rule stats_match_total [OF I(8)])
      have stats: "stats_match ?st' (plain_len ?c (kv b2)) (add_mset d M)"
        by (rule stats_match_add [OF I(8) len len_d]) (use total total_eq in simp_all)
      have blobs: "blobs_match (dp_sha E) ?c (kv b2) (get_ref rc')"
      proof (subst 8(3), rule blobs_match_upd [where m = ?m], goal_cases)
        case 1
        then show ?case using I(6) by simp
      next
        case (2 e)
        then show ?case using out by (simp add: same_outside_def)
      qed (use plain2 d in auto)
      have inv': "chunk_inv E (kv b2) (add_mset d M) ?s'"
        using I 8 blobs stats refs refs_match_add [OF I(5), of d "len64 p"]
        by (simp add: chunk_inv_def unlocked_def)
      have total': "unat (total_bytes ?st') = unat (total_bytes ?st) + length p"
        using stats_match_total [OF stats] ref_bytes_cong [OF len] total_eq len_d by simp
      have "Q (d \<in># M) ?s'"
        using 8 inv' out plain2 total'
        by (intro Q) (simp_all add: chunk_frame_def stats_defs)
      then show ?case
        using I(1) present by (simp add: stats_section_def wp_rules unlocked_def)
    qed (use b1 kv1 I dd refs sz disk1 in \<open>simp_all add: unlocked_def\<close>)
  qed
qed

text \<open>\<open>chunk_size\<close>: the recorded size, which is the length of the stored plaintext.\<close>

lemma wp_chunk_size_of:
  assumes inv: "chunk_inv E (kv (st_backend s)) M s" and ok: "ok (st_backend s)" and d: "d \<in># M"
    and Q: "\<And>b'. ok b' \<Longrightarrow> kv b' = kv (st_backend s) \<Longrightarrow>
           Q (of_nat (plain_len (st_codec s) (kv (st_backend s)) d)) (s\<lparr>st_backend := b'\<rparr>)"
  shows "wp (chunk_size_of E d) s Q"
proof -
  note I = chunk_invD [OF inv]
  obtain r p where m: "get_ref (guarded (st_refcount s)) d = Some r" "is_chunk_digest d"
      "blob_plain (st_codec s) (kv (st_backend s)) d = Some p" "cr_size r = len64 p"
    using chunk_inv_member [OF inv d] by metis
  have plain: "plain_len (st_codec s) (kv (st_backend s)) d = length p"
    by (simp add: plain_len_def m(3))
  obtain raw where raw: "kv (st_backend s) d = Some raw" "decode_opt (st_codec s) raw = Ok p"
    using m(3) by (auto simp: blob_plain_def split: option.splits)
  have fetch: "wp (fetch_size E d) s Q"
    unfolding fetch_size_def wp_seq wp_on_backend
  proof (rule wp_get [OF ok valid_digest [OF m(2)]])
    fix b' assume b': "ok b'" "kv b' = kv (st_backend s)"
    have "Q (len64 p) (s\<lparr>st_backend := b'\<rparr>)" using Q [OF b'] plain by simp
    then show "wp (lift (ok_or (NotFound (''chunk '' @ d)) (kv (st_backend s) d))) (s\<lparr>st_backend := b'\<rparr>)
        (\<lambda>a s'. wp (decode_blob a) s' (\<lambda>a s'. wp (ret (len64 a)) s' Q))"
      by (simp add: wp_lift ok_or_def raw wp_decode_blob wp_ret)
  qed
  have "size_of (guarded (st_refcount s)) d = Some (len64 p)"
    using m(1,4) by (simp add: size_of_def get_ref_def)
  moreover have "Q (len64 p) s" using Q [OF ok refl] plain by simp
  ultimately show ?thesis
    using fetch I(1) by (simp add: chunk_size_of_def wp_rules unlocked_def)
qed

text \<open>
  \<open>release_digests\<close>, one digest: one reference less; the blob and the refcount record go
  with the last one; no other key class is touched.
\<close>

lemma wp_release_digest:
  assumes inv: "chunk_inv E (kv (st_backend s)) (add_mset d N) s" and ok: "ok (st_backend s)"
    and Q: "\<And>s'. ok (st_backend s') \<Longrightarrow> chunk_frame s s' \<Longrightarrow>
           chunk_inv E (kv (st_backend s')) N s' \<Longrightarrow>
           same_outside (\<lambda>k. k = d \<or> is_refcount_key k) (kv (st_backend s)) (kv (st_backend s')) \<Longrightarrow>
           kv (st_backend s') d = (if d \<in># N then kv (st_backend s) d else None) \<Longrightarrow>
           gc_chunks (guarded (st_stats s')) =
             (if d \<in># N then gc_chunks (guarded (st_stats s))
              else saturating_add (gc_chunks (guarded (st_stats s))) 1) \<Longrightarrow>
           Q () s'"
  shows "wp (release_digest E d) s Q"
proof -
  note I = chunk_invD [OF inv]
  let ?m = "kv (st_backend s)" and ?c = "st_codec s" and ?rc = "guarded (st_refcount s)"
  let ?n = "plain_len ?c ?m d"
  obtain r p where m: "get_ref ?rc d = Some r" "is_chunk_digest d"
      "blob_plain ?c ?m d = Some p" "digest_hex (dp_sha E) p = d" "cr_size r = len64 p"
    using chunk_inv_member [OF inv, of d] by (metis union_single_eq_member)
  have n: "cr_size r = of_nat ?n" using m(3,5) by (simp add: plain_len_def)
  note dec = decrement_match [OF I(5,3) m(1)]
  let ?rc' = "snd (decrement d ?rc)"
  have final: "Q () (s\<lparr>st_refcount := (st_refcount s)\<lparr>guarded := ?rc'\<rparr>, st_backend := b,
                 st_stats := (st_stats s)\<lparr>guarded := remove_reference (of_nat ?n)
                   (if d \<in># N then guarded (st_stats s)
                    else remove_unique_chunk (of_nat ?n) (guarded (st_stats s)))\<rparr>\<rparr>)"
    (is "Q () ?s'")
    if b: "ok b" "same_outside (\<lambda>k. k = d \<or> is_refcount_key k) ?m (kv b)"
      "kv b d = (if d \<in># N then ?m d else None)"
      "disk_refs (dp_json E) (kv b) (get_ref ?rc')" for b
  proof -
    have same: "kv b e = ?m e" if "e \<in># N" for e
    proof -
      have "is_chunk_digest e" using chunk_inv_member [OF inv, of e] that by auto
      then show ?thesis using b(2,3) that by (cases "e = d") (auto simp: same_outside_def)
    qed
    have plain: "blob_plain ?c (kv b) e = blob_plain ?c ?m e" if "e \<in># N" for e
      by (rule blob_plain_cong [where d = e]) (rule same [OF that])
    have len: "plain_len ?c (kv b) e = plain_len ?c ?m e" if "e \<in># N" for e
      by (rule plain_len_cong [OF plain [OF that]])
    have blobs: "blobs_match (dp_sha E) ?c (kv b) (get_ref ?rc')"
    proof (subst dec(2), rule blobs_match_upd [OF I(6)], goal_cases)
      case (1 e)
      then show ?case using b(2) by (simp add: same_outside_def)
    next
      case 2
      then show ?case using b(3) by (simp split: if_splits)
    next
      case (3 r')
      then have "d \<in># N" by (simp split: if_splits)
      moreover from this have "blob_plain ?c (kv b) d = Some p"
        using m(3) plain by simp
      ultimately show ?case using 3 m(4,5) by auto
    qed
    have "chunk_inv E (kv b) N ?s'"
      using I b(4) blobs decrement_distinct [OF I(4)] refs_match_remove [OF I(5), of "cr_size r"]
        dec(2) stats_match_remove [OF I(8) len]
      by (simp add: chunk_inv_def unlocked_def)
    then show ?thesis
      using b by (intro Q) (auto simp: chunk_frame_def stats_defs)
  qed
  show ?thesis
    unfolding release_digest_def wp_seq
  proof (rule wp_chunk_size_of [OF inv ok], simp, goal_cases)
    case (1 b1)
    have disk1: "disk_refs (dp_json E) (kv b1) (get_ref ?rc)" using I(7) 1 by simp
    show ?case
    proof (cases "d \<in># N")
      case True
      have "wp (save_refcount (dp_json E) (dp_backend E) d (of_nat (count N d)) (of_nat ?n)) b1
          (\<lambda>_ b. Q () (s\<lparr>st_refcount := (st_refcount s)\<lparr>guarded := ?rc'\<rparr>, st_backend := b,
             st_stats := (st_stats s)\<lparr>guarded := remove_reference (of_nat ?n) (guarded (st_stats s))\<rparr>\<rparr>))"
      proof (rule wp_save_refcount [OF _ json disk1 m(2)], goal_cases)
        case (3 b2)
        then show ?case
          using final [of b2] True 1 n dec(2) m(2) by (auto simp: same_outside_def)
      qed (use 1 True dec(3) in auto)
      with True show ?thesis
        using I(1) 1 dec(3)
        by (simp add: wp_rules unlocked_def wp_by_fst_snd [of "decrement d", OF dec(1)])
    next
      case False
      have "wp (seq (be_delete (dp_backend E) d) (\<lambda>_. remove_refcount (dp_json E) (dp_backend E) d)) b1
          (\<lambda>_ b. Q () (s\<lparr>st_refcount := (st_refcount s)\<lparr>guarded := ?rc'\<rparr>, st_backend := b,
             st_stats := (st_stats s)\<lparr>guarded := remove_reference (of_nat ?n)
               (remove_unique_chunk (of_nat ?n) (guarded (st_stats s)))\<rparr>\<rparr>))"
        unfolding wp_seq
      proof (rule wp_delete [OF 1(1) valid_digest [OF m(2)]], goal_cases)
        case b2: (1 b2)
        then have out: "same_outside (\<lambda>k. k = d) ?m (kv b2)" using 1 by simp
        have "disk_refs (dp_json E) (kv b2) (get_ref ?rc)"
          using I(7) disk_refs_cong [OF out] m(2) by (metis digest_key_class(2))
        then show ?case
        proof (rule wp_remove_refcount [OF b2(1) json _ m(2)], goal_cases)
          case (1 b3)
          then show ?case
            using final [of b3] False out b2 dec(2) m(2) by (auto simp: same_outside_def)
        qed
      qed
      with False show ?thesis
        using I(1) 1 dec(3)
        by (simp add: wp_rules unlocked_def wp_by_fst_snd [of "decrement d", OF dec(1)])
    qed
  qed
qed

text \<open>All of \<open>release_digests\<close>: the digests outside \<open>N\<close> are collected, each counted once.\<close>

lemma collected_step:
  "card {e \<in> set (d # ds). e \<notin># N} =
     card {e \<in> set ds. e \<notin># N} + (if d \<in># mset ds + N then 0 else 1)"
proof (cases "d \<in># mset ds + N")
  case True
  then have "{e \<in> set (d # ds). e \<notin># N} = {e \<in> set ds. e \<notin># N}" by auto
  with True show ?thesis by simp
next
  case False
  then have "{e \<in> set (d # ds). e \<notin># N} = insert d {e \<in> set ds. e \<notin># N}" "d \<notin> set ds" by auto
  with False show ?thesis by simp
qed

lemma wp_release_digests:
  assumes "chunk_inv E (kv (st_backend s)) (mset ds + N) s" and "ok (st_backend s)"
    and "\<And>s'. ok (st_backend s') \<Longrightarrow> chunk_frame s s' \<Longrightarrow>
           chunk_inv E (kv (st_backend s')) N s' \<Longrightarrow>
           same_outside (\<lambda>k. k \<in> set ds \<or> is_refcount_key k) (kv (st_backend s)) (kv (st_backend s')) \<Longrightarrow>
           (\<And>d. d \<in># N \<Longrightarrow> kv (st_backend s') d = kv (st_backend s) d) \<Longrightarrow>
           unat (gc_chunks (guarded (st_stats s'))) =
             min (unat (gc_chunks (guarded (st_stats s))) + card {d \<in> set ds. d \<notin># N}) (2 ^ 64 - 1) \<Longrightarrow>
           Q () s'"
  shows "wp (release_digests E ds) s Q"
  using assms
proof (induction ds arbitrary: s)
  case Nil
  have "unat (gc_chunks (guarded (st_stats s))) < 2 ^ 64"
    by (rule unat_u64_lt)
  then show ?case using Nil by (simp add: release_digests_def wp_ret)
next
  case (Cons d ds)
  have inv: "chunk_inv E (kv (st_backend s)) (add_mset d (mset ds + N)) s"
    using Cons.prems(1) by simp
  show ?case
    unfolding release_digests_def for_each.simps wp_seq
  proof (fold release_digests_def, rule wp_release_digest [OF inv Cons.prems(2)])
    fix s1
    assume s1: "ok (st_backend s1)" "chunk_frame s s1"
      "chunk_inv E (kv (st_backend s1)) (mset ds + N) s1"
      "same_outside (\<lambda>k. k = d \<or> is_refcount_key k) (kv (st_backend s)) (kv (st_backend s1))"
      "kv (st_backend s1) d = (if d \<in># mset ds + N then kv (st_backend s) d else None)"
      "gc_chunks (guarded (st_stats s1)) =
         (if d \<in># mset ds + N then gc_chunks (guarded (st_stats s))
          else saturating_add (gc_chunks (guarded (st_stats s))) 1)"
    show "wp (release_digests E ds) s1 Q"
    proof (rule Cons.IH [OF s1(3,1)])
      fix s2
      assume s2: "ok (st_backend s2)" "chunk_frame s1 s2" "chunk_inv E (kv (st_backend s2)) N s2"
        "same_outside (\<lambda>k. k \<in> set ds \<or> is_refcount_key k) (kv (st_backend s1)) (kv (st_backend s2))"
        "\<And>e. e \<in># N \<Longrightarrow> kv (st_backend s2) e = kv (st_backend s1) e"
        "unat (gc_chunks (guarded (st_stats s2))) =
           min (unat (gc_chunks (guarded (st_stats s1))) + card {e \<in> set ds. e \<notin># N}) (2 ^ 64 - 1)"
      have same: "kv (st_backend s2) e = kv (st_backend s) e" if "e \<in># N" for e
      proof -
        have "is_chunk_digest e" using chunk_inv_member [OF Cons.prems(1), of e] that by auto
        then show ?thesis using s2(5) [OF that] s1(4,5) that
          by (cases "e = d") (auto simp: same_outside_def)
      qed
      have gc: "unat (gc_chunks (guarded (st_stats s2))) =
          min (unat (gc_chunks (guarded (st_stats s))) + card {e \<in> set (d # ds). e \<notin># N}) (2 ^ 64 - 1)"
        unfolding collected_step
        using s2(6) s1(6) by (auto simp add: unat_saturating_add min_def)
      show "Q () s2"
        by (rule Cons.prems(3) [OF s2(1) chunk_frame_trans [OF s1(2) s2(2)] s2(3) _ same gc])
          (use s1(4) s2(4) in \<open>auto simp: same_outside_def\<close>)
    qed
  qed
qed

end

end
