(* ===== verification/Store_Ops.thy ===== *)
theory Store_Ops
  imports Store_Steps
begin

text \<open>
  The operations of \<open>ChunkStore\<close> on whole files.  Each keeps \<open>store_inv\<close> and performs
  the expected update of \<open>contents\<close>; the file ends with the equation that streaming ingest
  is buffered ingest.
\<close>

section \<open>What the invariant preserves of a file\<close>

lemma assemble_cong:
  "(\<And>d. d \<in> set ds \<Longrightarrow> blob_plain c m' d = blob_plain c m d) \<Longrightarrow> assemble c m' ds = assemble c m ds"
  by (simp add: assemble_def cong: map_cong)

lemma those_map_Some: "those (map (Some \<circ> f) xs) = Some (map f xs)"
  by (induction xs) simp_all

lemma assemble_digests:
  assumes "\<And>p. p \<in> set chunks \<Longrightarrow> blob_plain c m (dg p) = Some p"
  shows "assemble c m (map dg chunks) = Some (concat chunks)"
proof -
  have "map (blob_plain c m) (map dg chunks) = map (Some \<circ> id) chunks"
    using assms by (induction chunks) simp_all
  then show ?thesis by (simp only: assemble_def those_map_Some) simp
qed

text \<open>The plaintexts on the backend are those of the referenced digests.\<close>

lemma stored_plain_refs:
  assumes "chunk_inv E m M s"
  shows "stored_plain (st_codec s) m = {p. \<exists>d. d \<in># M \<and> blob_plain (st_codec s) m d = Some p}"
  using chunk_inv_present [OF assms] chunk_inv_member [OF assms] blob_plain_not_None
  unfolding stored_plain_def by (metis (lifting))

lemma store_invD:
  assumes "store_inv E kv ok valid s"
  shows "ok (st_backend s)" and "manifest_ok (guarded (st_manifest s))"
    and "disk_manifests (dp_json E) (kv (st_backend s)) (manifest_view (guarded (st_manifest s)))"
    and "\<And>f. f \<in> dom (manifest_view (guarded (st_manifest s))) \<Longrightarrow> valid (manifest_key f)"
    and "chunk_inv E (kv (st_backend s)) (all_refs (files (guarded (st_manifest s)))) s"
  using assms by (simp_all add: store_inv_def)

text \<open>The invariant does not look at the manifest records or at the backend's own state.\<close>

lemma chunk_inv_cong:
  assumes "chunk_inv E m M s" and out: "same_outside is_manifest_key m m'"
    and "st_refcount s' = st_refcount s" and "st_stats s' = st_stats s"
    and "st_blob s' = st_blob s" and "st_codec s' = st_codec s" and "\<not> poisoned (st_manifest s')"
  shows "chunk_inv E m' M s'"
proof -
  note I = chunk_invD [OF assms(1)]
  have same: "m' d = m d" if "is_chunk_digest d" for d
    using out that by (simp add: same_outside_def)
  have plain: "blob_plain c m' d = blob_plain c m d" if "d \<in># M" for c d
    using same chunk_inv_member [OF assms(1) that] blob_plain_cong by metis
  have "stats_match (guarded (st_stats s)) (plain_len (st_codec s) m') M"
    using I(8) ref_bytes_cong [OF plain_len_cong [OF plain]]
      unique_bytes_cong [OF plain_len_cong [OF plain]] by (simp add: stats_match_def)
  moreover have "blobs_match (dp_sha E) (st_codec s) m' (get_ref (guarded (st_refcount s)))"
    using I(6) same unfolding blobs_match_def blob_plain_def by simp
  moreover have "disk_refs (dp_json E) m' (get_ref (guarded (st_refcount s)))"
    using I(7) disk_refs_cong [OF out] refcount_key_not_manifest_key by blast
  ultimately show ?thesis using I assms(3-7) by (simp add: chunk_inv_def unlocked_def)
qed


text \<open>A file whose digests keep their plaintext keeps its contents.\<close>

lemma contents_cong:
  assumes "try_get (guarded (st_manifest s')) f = try_get (guarded (st_manifest s)) f"
    and "st_codec s' = st_codec s"
    and "\<And>d ds. try_get (guarded (st_manifest s)) f = Some ds \<Longrightarrow> d \<in> set ds \<Longrightarrow>
           blob_plain (st_codec s) (kv (st_backend s')) d = blob_plain (st_codec s) (kv (st_backend s)) d"
  shows "contents kv s' f = contents kv s f"
  using assms assemble_cong by (fastforce simp: contents_def split: option.split)

lemma file_refs:
  "try_get m f = Some ds \<Longrightarrow> d \<in> set ds \<Longrightarrow> d \<in># all_refs (files m)"
  unfolding try_get_def by (rule all_refs_member)

lemma replace_refs:
  assumes "keys_distinct al"
  shows "mset ds + all_refs al =
     mset (case map_of al f of None \<Rightarrow> [] | Some old \<Rightarrow> old) + all_refs (AList.update f ds al)"
proof (cases "map_of al f")
  case None
  then show ?thesis by (simp add: all_refs_update_fresh)
next
  case (Some old)
  then show ?thesis
    using all_refs_update_old [OF assms Some, of ds] by (metis add.commute option.case(2))
qed

section \<open>Ingest: storing the chunks\<close>

context store_env
begin

lemma wp_accept:
  "wp (accept E p se) s Q =
     wp (store_chunk E (digest_hex (dp_sha E) p) p) s
       (\<lambda>_. Q \<lparr>se_digests = se_digests se @ [digest_hex (dp_sha E) p],
               se_sizes = se_sizes se @ [len64 p], se_file_bytes = se_file_bytes se + len64 p\<rparr>)"
  by (simp add: accept_def Let_def wp_rules)

lemma wp_accept_all:
  assumes "chunk_inv E (kv (st_backend s)) M s" and "ok (st_backend s)"
    and "inj_on (dp_sha E) U" and "stored_plain (st_codec s) (kv (st_backend s)) \<subseteq> U"
    and "set chunks \<subseteq> U" and "[] \<notin> set chunks" and "size M + length chunks < 2 ^ 64"
    and "unat (total_bytes (guarded (st_stats s))) + length (concat chunks) < 2 ^ 64"
    and "\<And>s'. ok (st_backend s') \<Longrightarrow> chunk_frame s s' \<Longrightarrow>
           chunk_inv E (kv (st_backend s')) (mset (map (digest_hex (dp_sha E)) chunks) + M) s' \<Longrightarrow>
           same_outside (\<lambda>k. is_chunk_digest k \<or> is_refcount_key k)
             (kv (st_backend s)) (kv (st_backend s')) \<Longrightarrow>
           (\<And>d. d \<in># M \<Longrightarrow> blob_plain (st_codec s) (kv (st_backend s')) d =
                            blob_plain (st_codec s) (kv (st_backend s)) d) \<Longrightarrow>
           (\<And>p. p \<in> set chunks \<Longrightarrow>
              blob_plain (st_codec s) (kv (st_backend s')) (digest_hex (dp_sha E) p) = Some p) \<Longrightarrow>
           Q \<lparr>se_digests = se_digests se @ map (digest_hex (dp_sha E)) chunks,
              se_sizes = se_sizes se @ map len64 chunks,
              se_file_bytes = se_file_bytes se + of_nat (length (concat chunks))\<rparr> s'"
  shows "wp (fold_act (accept E) chunks se) s Q"
  using assms
proof (induction chunks arbitrary: s M se)
  case Nil
  then show ?case by (cases se) (simp add: wp_ret)
next
  case (Cons p chunks)
  let ?dg = "digest_hex (dp_sha E)" and ?c = "st_codec s"
  have inU: "q \<in> U" if "d \<in># M" "blob_plain ?c (kv (st_backend s)) d = Some q" for d q
    using Cons.prems(4) that stored_plain_refs [OF Cons.prems(1)] by blast
  have coll: "q = p" if "blob_plain ?c (kv (st_backend s)) (?dg p) = Some q" for q
  proof -
    have dig: "is_chunk_digest (?dg p)" by (rule digest_is_chunk_digest [OF sha])
    then have "?dg p \<in># M"
      using chunk_inv_present [OF Cons.prems(1)] blob_plain_not_None [OF that] by simp
    then have "?dg q = ?dg p" using chunk_inv_member [OF Cons.prems(1)] that by (metis option.inject)
    moreover have "q \<in> U" using Cons.prems(4) dig that by (auto simp: stored_plain_def)
    ultimately show "q = p"
      using Cons.prems(3,5) by (auto simp: digest_hex_eq_iff dest: inj_onD)
  qed
  show ?case
    unfolding fold_act.simps wp_seq wp_accept
  proof (rule wp_store_chunk [OF Cons.prems(1,2) refl _ coll])
    fix s1
    assume s1: "ok (st_backend s1)" "chunk_frame s s1"
      "chunk_inv E (kv (st_backend s1)) (add_mset (?dg p) M) s1"
      "same_outside (\<lambda>k. k = ?dg p \<or> is_refcount_key k) (kv (st_backend s)) (kv (st_backend s1))"
      "blob_plain ?c (kv (st_backend s1)) (?dg p) = Some p"
      "unat (total_bytes (guarded (st_stats s1))) = unat (total_bytes (guarded (st_stats s))) + length p"
    have c1: "st_codec s1 = ?c" using s1(2) by (simp add: chunk_frame_def)
    have old: "blob_plain ?c (kv (st_backend s1)) d = blob_plain ?c (kv (st_backend s)) d"
      if "d \<in># M" for d
    proof (cases "d = ?dg p")
      case True
      then show ?thesis using chunk_inv_member [OF Cons.prems(1) that] coll s1(5) by metis
    next
      case False
      have "is_chunk_digest d" using chunk_inv_member [OF Cons.prems(1) that] by metis
      then show ?thesis using s1(4) False by (auto simp: same_outside_def intro: blob_plain_cong)
    qed
    have out: "same_outside (\<lambda>k. is_chunk_digest k \<or> is_refcount_key k)
        (kv (st_backend s)) (kv (st_backend s1))"
      by (rule same_outside_mono [OF s1(4)]) (auto simp: digest_is_chunk_digest [OF sha])
    have stored: "stored_plain (st_codec s1) (kv (st_backend s1)) \<subseteq> U"
      using Cons.prems(5) s1(5) old inU stored_plain_refs [OF s1(3)] c1 by auto
    show "wp (fold_act (accept E) chunks \<lparr>se_digests = se_digests se @ [?dg p],
            se_sizes = se_sizes se @ [len64 p], se_file_bytes = se_file_bytes se + len64 p\<rparr>) s1 Q"
    proof (rule Cons.IH [OF s1(3,1) Cons.prems(3) stored])
      fix s2
      assume s2: "ok (st_backend s2)" "chunk_frame s1 s2"
        "chunk_inv E (kv (st_backend s2)) (mset (map ?dg chunks) + add_mset (?dg p) M) s2"
        "same_outside (\<lambda>k. is_chunk_digest k \<or> is_refcount_key k) (kv (st_backend s1)) (kv (st_backend s2))"
        "\<And>d. d \<in># add_mset (?dg p) M \<Longrightarrow> blob_plain (st_codec s1) (kv (st_backend s2)) d =
             blob_plain (st_codec s1) (kv (st_backend s1)) d"
        "\<And>p. p \<in> set chunks \<Longrightarrow> blob_plain (st_codec s1) (kv (st_backend s2)) (?dg p) = Some p"
      have "Q \<lparr>se_digests = se_digests se @ map ?dg (p # chunks),
              se_sizes = se_sizes se @ map len64 (p # chunks),
              se_file_bytes = se_file_bytes se + of_nat (length (concat (p # chunks)))\<rparr> s2"
        using s2 s1(5) old c1 out
        by (intro Cons.prems(9) chunk_frame_trans [OF s1(2)] same_outside_trans [OF out s2(4)]) auto
      then show "Q \<lparr>se_digests = se_digests \<lparr>se_digests = se_digests se @ [?dg p],
                   se_sizes = se_sizes se @ [len64 p], se_file_bytes = se_file_bytes se + len64 p\<rparr> @
                   map ?dg chunks,
                 se_sizes = se_sizes \<lparr>se_digests = se_digests se @ [?dg p],
                   se_sizes = se_sizes se @ [len64 p], se_file_bytes = se_file_bytes se + len64 p\<rparr> @
                   map len64 chunks,
                 se_file_bytes = se_file_bytes \<lparr>se_digests = se_digests se @ [?dg p],
                   se_sizes = se_sizes se @ [len64 p], se_file_bytes = se_file_bytes se + len64 p\<rparr> +
                   of_nat (length (concat chunks))\<rparr> s2"
        by (simp add: add.assoc)
    qed (use Cons.prems(5-8) s1(6) in auto)
  qed (use Cons.prems(6-8) in auto)
qed

text \<open>
  \<open>commit\<close>: the manifest is replaced in memory and on the backend, then the references
  of the version it replaces are released.
\<close>

lemma wp_peek_digests:
  "wp (peek_digests f) s Q \<longleftrightarrow>
     \<not> poisoned (st_manifest s) \<and> Q (try_get (guarded (st_manifest s)) f) s"
  by (cases s; cases "st_manifest s") (simp add: peek_digests_def wp_rules)

lemma wp_release_old:
  assumes ok: "ok (st_backend s)" and man: "manifest_ok (guarded (st_manifest s))"
    and disk: "disk_manifests (dp_json E) (kv (st_backend s)) (manifest_view (guarded (st_manifest s)))"
    and keys: "\<And>g. g \<in> dom (manifest_view (guarded (st_manifest s))) \<Longrightarrow> valid (manifest_key g)"
    and inv: "chunk_inv E (kv (st_backend s)) (mset old + all_refs (files (guarded (st_manifest s)))) s"
    and Q: "\<And>s'. store_inv E kv ok valid s' \<Longrightarrow> chunk_frame s s' \<Longrightarrow>
           (\<And>d. d \<in># all_refs (files (guarded (st_manifest s))) \<Longrightarrow> kv (st_backend s') d = kv (st_backend s) d) \<Longrightarrow>
           unat (gc_chunks (guarded (st_stats s'))) =
             min (unat (gc_chunks (guarded (st_stats s))) +
                  card {d \<in> set old. d \<notin># all_refs (files (guarded (st_manifest s)))}) (2 ^ 64 - 1) \<Longrightarrow>
           Q () s'"
  shows "wp (release_digests E old) s Q"
proof (rule wp_release_digests [OF inv ok], goal_cases)
  case (1 s')
  have mf: "guarded (st_manifest s') = guarded (st_manifest s)" using 1(2) by (simp add: chunk_frame_def)
  have "is_chunk_digest d" if "d \<in> set old" for d
    using chunk_inv_member [OF inv] that by (metis in_multiset_in_set union_iff)
  then have "same_outside (\<lambda>k. \<not> is_manifest_key k) (kv (st_backend s)) (kv (st_backend s'))"
    by (intro same_outside_mono [OF 1(4)]) (auto dest: digest_key_class(1) refcount_key_not_manifest_key)
  then have "disk_manifests (dp_json E) (kv (st_backend s')) (manifest_view (guarded (st_manifest s)))"
    using disk disk_manifests_cong by blast
  then have "store_inv E kv ok valid s'" using 1(1,3) man keys by (simp add: store_inv_def mf)
  then show ?case using 1(2,5,6) by (rule Q)
qed

text \<open>The commit.\<close>

lemma wp_commit:
  assumes ok: "ok (st_backend s)" and man: "manifest_ok (guarded (st_manifest s))"
    and disk: "disk_manifests (dp_json E) (kv (st_backend s)) (manifest_view (guarded (st_manifest s)))"
    and keys: "\<And>g. g \<in> dom (manifest_view (guarded (st_manifest s))) \<Longrightarrow> valid (manifest_key g)"
    and inv: "chunk_inv E (kv (st_backend s))
                (mset (se_digests se) + all_refs (files (guarded (st_manifest s)))) s"
    and f: "proper_file_id f" "valid (manifest_key f)"
    and Q: "\<And>s'. store_inv E kv ok valid s' \<Longrightarrow> st_codec s' = st_codec s \<Longrightarrow>
           files (guarded (st_manifest s')) =
             AList.update f (se_digests se) (files (guarded (st_manifest s))) \<Longrightarrow>
           manifest_view (guarded (st_manifest s')) =
             (manifest_view (guarded (st_manifest s)))(f \<mapsto> (se_digests se, se_file_bytes se)) \<Longrightarrow>
           (\<And>d. d \<in># all_refs (files (guarded (st_manifest s'))) \<Longrightarrow>
              kv (st_backend s') d = kv (st_backend s) d) \<Longrightarrow>
           Q (se_digests se) s'"
  shows "wp (commit E f se) s Q"
proof -
  let ?mf = "guarded (st_manifest s)" and ?ds = "se_digests se" and ?n = "se_file_bytes se"
  let ?mf' = "snd (manifest_insert f ?ds ?n ?mf)"
  let ?old = "case try_get ?mf f of None \<Rightarrow> [] | Some old \<Rightarrow> old"
  let ?s1 = "s\<lparr>st_manifest := (st_manifest s)\<lparr>guarded := ?mf'\<rparr>\<rparr>"
  have f0: "f \<noteq> []" using f(1) by (simp add: proper_file_id_def)
  note ins = manifest_insert_Ok [OF f0, of ?ds ?n ?mf]
  note view = manifest_view_insert [OF f0, of ?ds ?n ?mf]
  have unl: "unlocked s" using chunk_invD(1) [OF inv] .
  have digs: "list_all is_chunk_digest ?ds"
    unfolding list_all_iff using chunk_inv_member [OF inv] by (metis in_multiset_in_set union_iff)
  have refs: "mset ?ds + all_refs (files ?mf) = mset ?old + all_refs (files ?mf')"
    unfolding try_get_def ins(2) using man by (intro replace_refs) (simp add: manifest_ok_def)
  have dig: "is_chunk_digest d" if "d \<in># all_refs (files ?mf')" for d
    using chunk_inv_member [OF inv, unfolded refs] that by (metis union_iff)
  have valid: "valid (manifest_key g)" if "g \<in> dom (manifest_view ?mf')" for g
    using that keys f(2) unfolding view by (cases "g = f") auto
  have none: "(case try_get ?mf f of None \<Rightarrow> ret () | Some ds \<Rightarrow> release_digests E ds) = release_digests E ?old"
    by (simp add: release_digests_def split: option.split)
  have "wp (save_manifest (dp_json E) (dp_backend E) f ?ds ?n) (st_backend ?s1)
      (\<lambda>_ b. wp (release_digests E ?old) (?s1\<lparr>st_backend := b\<rparr>) (\<lambda>_ s'. Q ?ds s'))"
  proof (rule wp_save_manifest [OF _ json _ f digs, where fs = "manifest_view ?mf"], goal_cases)
    case (3 b)
    then have b: "ok b" "same_outside is_manifest_key (kv (st_backend s)) (kv b)"
        "disk_manifests (dp_json E) (kv b) (manifest_view ?mf')" using view by simp_all
    show ?case
    proof (rule wp_release_old, goal_cases)
      case 5
      have "chunk_inv E (kv b) (mset ?ds + all_refs (files ?mf)) (?s1\<lparr>st_backend := b\<rparr>)"
        by (rule chunk_inv_cong [OF inv]) (use b unl in \<open>simp_all add: unlocked_def\<close>)
      then show ?case unfolding refs by simp
    next
      case (6 s')
      then have "guarded (st_manifest s') = ?mf'" "st_codec s' = st_codec s" by (simp_all add: chunk_frame_def)
      then show ?case using 6(1,3) b(2) dig ins(2) view by (intro Q) (simp_all add: same_outside_def)
    qed (use b manifest_insert_preserves [OF man] valid in \<open>simp_all add: unlocked_def\<close>)
  qed (use ok disk in simp_all)
  then show ?thesis
    unfolding commit_def using unl
    by (simp add: wp_seq wp_peek_digests wp_on_manifest wp_by_fst_snd [of "manifest_insert f ?ds ?n", OF ins(1)]
        wp_on_backend none wp_ret unlocked_def)
qed

end

section \<open>Ingest: the whole file\<close>

text \<open>
  The two provisos of an ingest.  No two different chunks that are stored or about to be
  stored have the same SHA-256 value; the totals still fit their 64-bit counters.
\<close>

definition collision_free ::
  "'b deps \<Rightarrow> ('b \<Rightarrow> string \<rightharpoonup> bytes) \<Rightarrow> 'b store \<Rightarrow> bytes list \<Rightarrow> bool" where
  "collision_free E kv s chunks \<longleftrightarrow>
     inj_on (dp_sha E) (stored_plain (st_codec s) (kv (st_backend s)) \<union> set chunks)"

definition fits :: "'b store \<Rightarrow> bytes list \<Rightarrow> bool" where
  "fits s chunks \<longleftrightarrow>
     size (all_refs (files (guarded (st_manifest s)))) + length chunks < 2 ^ 64 \<and>
     unat (total_bytes (guarded (st_stats s))) + length (concat chunks) < 2 ^ 64"

text \<open>What an ingest of \<open>chunks\<close> as \<open>f\<close> leaves behind.\<close>

definition ingested ::
  "'b deps \<Rightarrow> ('b \<Rightarrow> string \<rightharpoonup> bytes) \<Rightarrow> ('b \<Rightarrow> bool) \<Rightarrow> (string \<Rightarrow> bool) \<Rightarrow>
     string \<Rightarrow> bytes list \<Rightarrow> 'b store \<Rightarrow> 'b store \<Rightarrow> bool" where
  "ingested E kv ok valid f chunks s s' \<longleftrightarrow>
     store_inv E kv ok valid s' \<and> st_codec s' = st_codec s \<and>
     contents kv s' = (contents kv s)(f \<mapsto> concat chunks) \<and>
     manifest_view (guarded (st_manifest s')) =
       (manifest_view (guarded (st_manifest s)))
         (f \<mapsto> (map (digest_hex (dp_sha E)) chunks, of_nat (length (concat chunks)))) \<and>
     files (guarded (st_manifest s')) =
       AList.update f (map (digest_hex (dp_sha E)) chunks) (files (guarded (st_manifest s))) \<and>
     (\<forall>d. d \<in># all_refs (files (guarded (st_manifest s))) \<longrightarrow>
          d \<in># all_refs (files (guarded (st_manifest s'))) \<longrightarrow>
          blob_plain (st_codec s) (kv (st_backend s')) d = blob_plain (st_codec s) (kv (st_backend s)) d) \<and>
     (\<forall>p \<in> set chunks.
          blob_plain (st_codec s) (kv (st_backend s')) (digest_hex (dp_sha E) p) = Some p)"

context store_env
begin

lemma wp_ingest_chunks:
  assumes inv: "store_inv E kv ok valid s" and f: "proper_file_id f" "valid (manifest_key f)"
    and coll: "collision_free E kv s chunks" and fits: "fits s chunks" and ne: "[] \<notin> set chunks"
    and Q: "\<And>s'. ingested E kv ok valid f chunks s s' \<Longrightarrow>
           Q (map (digest_hex (dp_sha E)) chunks) s'"
  shows "wp (ingest_chunks E f chunks) s Q"
proof -
  note I = store_invD [OF inv]
  let ?dg = "digest_hex (dp_sha E)" and ?c = "st_codec s" and ?mf = "guarded (st_manifest s)"
  let ?M = "all_refs (files ?mf)"
  show ?thesis
    unfolding ingest_chunks_def wp_seq
  proof (rule wp_accept_all [OF I(5,1), where U = "stored_plain ?c (kv (st_backend s)) \<union> set chunks"],
      goal_cases)
    case a: (7 s1)
    let ?se = "\<lparr>se_digests = se_digests session_new @ map ?dg chunks,
                se_sizes = se_sizes session_new @ map len64 chunks,
                se_file_bytes = se_file_bytes session_new + of_nat (length (concat chunks))\<rparr>"
    have se: "se_digests ?se = map ?dg chunks" "se_file_bytes ?se = of_nat (length (concat chunks))"
      by (simp_all add: session_new_def)
    have s1: "st_manifest s1 = st_manifest s" "st_codec s1 = ?c"
      using a(2) by (simp_all add: chunk_frame_def)
    have disk: "disk_manifests (dp_json E) (kv (st_backend s1)) (manifest_view ?mf)"
      using I(3) disk_manifests_cong [OF a(4)] digest_key_class(1) refcount_key_not_manifest_key by blast
    show ?case
    proof (rule wp_commit [OF a(1) _ _ _ _ f], goal_cases)
      case (5 s2)
      then have view: "manifest_view (guarded (st_manifest s2)) =
            (manifest_view ?mf)(f \<mapsto> (map ?dg chunks, of_nat (length (concat chunks))))"
          and files: "files (guarded (st_manifest s2)) = AList.update f (map ?dg chunks) (files ?mf)"
          and c2: "st_codec s2 = ?c"
        using s1 se by simp_all
      have tg: "try_get (guarded (st_manifest s2)) g =
          (if g = f then Some (map ?dg chunks) else try_get ?mf g)" for g
        by (simp add: try_get_def files)
      have same: "blob_plain ?c (kv (st_backend s2)) d = blob_plain ?c (kv (st_backend s1)) d"
        if "try_get (guarded (st_manifest s2)) g = Some ds" "d \<in> set ds" for g d ds
        by (rule blob_plain_cong) (rule 5(5) [OF file_refs [OF that]])
      have "contents kv s2 g = ((contents kv s)(f \<mapsto> concat chunks)) g" for g
      proof (cases "g = f")
        case True
        have "assemble ?c (kv (st_backend s2)) (map ?dg chunks) = Some (concat chunks)"
          by (rule assemble_digests) (use a(6) same [of f] tg in auto)
        with True tg c2 show ?thesis by (simp add: contents_def)
      next
        case False
        have "contents kv s2 g = contents kv s g"
        proof (rule contents_cong [OF _ c2])
          fix d ds assume d: "try_get ?mf g = Some ds" "d \<in> set ds"
          with False have "blob_plain ?c (kv (st_backend s2)) d = blob_plain ?c (kv (st_backend s1)) d"
            using same [of g ds d] tg by simp
          then show "blob_plain ?c (kv (st_backend s2)) d = blob_plain ?c (kv (st_backend s)) d"
            using a(5) file_refs [OF d] by simp
        qed (use tg False in simp)
        then show ?thesis using False by simp
      qed
      moreover have "blob_plain ?c (kv (st_backend s2)) d = blob_plain ?c (kv (st_backend s)) d"
        if "d \<in># ?M" "d \<in># all_refs (files (guarded (st_manifest s2)))" for d
        unfolding a(5) [OF that(1), symmetric]
        by (rule blob_plain_cong) (rule 5(5) [OF that(2)])
      moreover have "blob_plain ?c (kv (st_backend s2)) (?dg p) = Some p" if "p \<in> set chunks" for p
        using a(6) [OF that] same [of f "map ?dg chunks" "?dg p"] tg that by simp
      ultimately show ?case
        using 5(1) c2 view files unfolding se by (intro Q) (auto simp: ingested_def fun_eq_iff)
    qed (use s1 I(2,4) disk a(3) in \<open>simp_all add: session_new_def\<close>)
  qed (use coll fits ne in \<open>simp_all add: collision_free_def fits_def\<close>)
qed

end

section \<open>Delete\<close>

definition deleted ::
  "'b deps \<Rightarrow> ('b \<Rightarrow> string \<rightharpoonup> bytes) \<Rightarrow> ('b \<Rightarrow> bool) \<Rightarrow> (string \<Rightarrow> bool) \<Rightarrow>
     string \<Rightarrow> string list \<Rightarrow> 'b store \<Rightarrow> 'b store \<Rightarrow> bool" where
  "deleted E kv ok valid f ds s s' \<longleftrightarrow>
     store_inv E kv ok valid s' \<and> st_codec s' = st_codec s \<and>
     contents kv s' = (contents kv s)(f := None) \<and>
     manifest_view (guarded (st_manifest s')) = (manifest_view (guarded (st_manifest s)))(f := None) \<and>
     all_refs (files (guarded (st_manifest s))) =
       mset ds + all_refs (files (guarded (st_manifest s'))) \<and>
     (\<forall>d. d \<in># all_refs (files (guarded (st_manifest s'))) \<longrightarrow>
          blob_plain (st_codec s) (kv (st_backend s')) d = blob_plain (st_codec s) (kv (st_backend s)) d) \<and>
     unat (gc_chunks (guarded (st_stats s'))) =
       min (unat (gc_chunks (guarded (st_stats s))) +
            card {d \<in> set ds. d \<notin># all_refs (files (guarded (st_manifest s')))}) (2 ^ 64 - 1)"

lemma try_get_view:
  assumes "manifest_ok m" and "try_get m f = Some ds"
  shows "f \<in> dom (manifest_view m)"
  using manifest_view_digests [OF assms(1), of f] assms(2) by auto

context store_env
begin

lemma wp_delete_file:
  assumes inv: "store_inv E kv ok valid s"
    and ds: "try_get (guarded (st_manifest s)) f = Some ds"
    and Q: "\<And>s'. deleted E kv ok valid f ds s s' \<Longrightarrow> Q () s'"
  shows "wp (delete E f) s Q"
proof -
  note I = store_invD [OF inv]
  let ?c = "st_codec s" and ?mf = "guarded (st_manifest s)"
  let ?mf' = "snd (manifest_remove f ?mf)"
  let ?s1 = "s\<lparr>st_manifest := (st_manifest s)\<lparr>guarded := ?mf'\<rparr>\<rparr>"
  note rem = manifest_remove_Ok [OF ds]
  note view = manifest_view_remove [OF ds]
  have f: "proper_file_id f" "valid (manifest_key f)"
    using try_get_view [OF I(2) ds] I(4) disk_manifestsD(1) [OF I(3)] by auto
  have unl: "unlocked s" using chunk_invD(1) [OF I(5)] .
  have refs: "all_refs (files ?mf) = mset ds + all_refs (files ?mf')"
    unfolding rem(2) using all_refs_delete [of "files ?mf" f ds] ds I(2)
    by (metis add.commute manifest_ok_def try_get_def)
  have tg: "try_get ?mf' g = (if g = f then None else try_get ?mf g)" for g
    by (simp add: try_get_def rem)
  show ?thesis
    unfolding delete_def wp_seq wp_on_manifest wp_by_fst_snd [of "manifest_remove f", OF rem(1)]
      wp_on_backend
  proof (intro conjI)
    show "wp (remove_manifest (dp_json E) (dp_backend E) f) (st_backend ?s1)
        (\<lambda>_ b. wp (release_digests E ds) (?s1\<lparr>st_backend := b\<rparr>) Q)"
    proof (rule wp_remove_manifest [OF _ json _ f, where fs = "manifest_view ?mf"], goal_cases)
      case b: (3 b)
      then have b: "ok b" "same_outside is_manifest_key (kv (st_backend s)) (kv b)"
          "disk_manifests (dp_json E) (kv b) (manifest_view ?mf')" using view by simp_all
      have inv2: "chunk_inv E (kv b) (mset ds + all_refs (files ?mf')) (?s1\<lparr>st_backend := b\<rparr>)"
        unfolding refs [symmetric]
        by (rule chunk_inv_cong [OF I(5)]) (use b unl in \<open>simp_all add: unlocked_def\<close>)
      have valid: "valid (manifest_key g)" if "g \<in> dom (manifest_view ?mf')" for g
        using that I(4) unfolding view by (auto split: if_splits)
      show ?case
      proof (rule wp_release_old, goal_cases)
        case (6 s3)
        have mf: "guarded (st_manifest s3) = ?mf'" and c: "st_codec s3 = ?c"
          using 6(2) by (simp_all add: chunk_frame_def)
        have same: "blob_plain ?c (kv (st_backend s3)) d = blob_plain ?c (kv (st_backend s)) d"
          if "d \<in># all_refs (files ?mf')" for d
        proof (rule blob_plain_cong)
          have "is_chunk_digest d" using chunk_inv_member [OF inv2] that by (metis union_iff)
          then show "kv (st_backend s3) d = kv (st_backend s) d"
            using 6(3) that b(2) by (simp add: same_outside_def)
        qed
        have "contents kv s3 g = ((contents kv s)(f := None)) g" for g
        proof (cases "g = f")
          case True
          then show ?thesis by (simp add: contents_def mf tg)
        next
          case False
          have "contents kv s3 g = contents kv s g"
          proof (rule contents_cong [OF _ c])
            fix d es assume d: "try_get ?mf g = Some es" "d \<in> set es"
            then have "d \<in># all_refs (files ?mf')" using tg [of g] False by (intro file_refs) auto
            then show "blob_plain ?c (kv (st_backend s3)) d = blob_plain ?c (kv (st_backend s)) d"
              by (rule same)
          qed (simp add: mf tg False)
          then show ?thesis using False by simp
        qed
        then show ?case
          using 6(1,4) same refs view c by (intro Q) (auto simp: deleted_def mf)
      qed (use b inv2 manifest_remove_preserves [OF I(2)] valid in simp_all)
    qed (use I(1,3) in simp_all)
  qed (use unl in \<open>simp add: unlocked_def\<close>)
qed

end

text \<open>Deleting a file that is not there is an error and changes nothing.\<close>

lemma delete_missing:
  assumes "try_get (guarded (st_manifest s)) f = None" and "manifest_ok (guarded (st_manifest s))"
    and "\<not> poisoned (st_manifest s)"
  shows "delete E f s = (Err (NotFound (''file '' @ f)), s)"
proof -
  have "map_of (file_bytes (guarded (st_manifest s))) f = None"
    using assms(1,2) by (simp add: manifest_bytes_iff try_get_def)
  then have "AList.delete f (file_bytes (guarded (st_manifest s))) = file_bytes (guarded (st_manifest s))"
    by (intro delete_id) (simp add: map_of_eq_None_iff)
  then have "manifest_remove f (guarded (st_manifest s)) =
      (Err (NotFound (''file '' @ f)), guarded (st_manifest s))"
    using assms(1) by (simp add: manifest_remove_def try_get_def Let_def)
  then show ?thesis
    using assms(3)
    by (cases s; cases "st_manifest s")
      (simp add: delete_def seq_def on_manifest_def zoom_def with_lock_def)
qed

section \<open>Reading\<close>

lemma wp_on_store [wp_rules]:
  "wp (on_store m) ws Q = wp m (snd ws) (\<lambda>x s. Q x (fst ws, s))"
  by (cases ws) (simp add: on_store_def wp_zoom)

lemma wp_on_writer [wp_rules]:
  "wp (on_writer m) ws Q = wp m (fst ws) (\<lambda>x w. Q x (w, snd ws))"
  by (cases ws) (simp add: on_writer_def wp_zoom)

lemma wp_read:
  assumes "wp (read_to_writer E vec_write_all f) ([], s) (\<lambda>_ (out, s'). Q out s')"
  shows "wp (read E f) s Q"
  using assms by (auto simp: wp_iff read_def split: prod.splits)

lemma wp_digests_for_file:
  "wp (digests_for_file f) s Q \<longleftrightarrow>
     \<not> poisoned (st_manifest s) \<and>
     (case try_get (guarded (st_manifest s)) f of None \<Rightarrow> False | Some ds \<Rightarrow> Q ds s)"
  by (cases s; cases "st_manifest s")
    (simp add: digests_for_file_def wp_on_manifest wp_pair manifest_get_try_get split: option.split)

lemma store_backend_upd_id [simp]: "st_backend (s\<lparr>st_backend := b\<rparr>) = b"
  by simp

context store_env
begin

text \<open>A chunk that is there and has its digest is returned; the backend's map stays.\<close>

lemma wp_read_chunk:
  assumes "ok (st_backend s)" and "is_chunk_digest d"
    and "blob_plain (st_codec s) (kv (st_backend s)) d = Some p" and "digest_hex (dp_sha E) p = d"
    and Q: "\<And>b. ok b \<Longrightarrow> kv b = kv (st_backend s) \<Longrightarrow> Q p (s\<lparr>st_backend := b\<rparr>)"
  shows "wp (read_chunk_by_digest E d) s Q"
proof -
  obtain raw where raw: "kv (st_backend s) d = Some raw" "decode_opt (st_codec s) raw = Ok p"
    using assms(3) by (auto simp: blob_plain_def split: option.splits)
  show ?thesis
    unfolding read_chunk_by_digest_def wp_seq wp_on_backend
    by (rule wp_get [OF assms(1) valid_digest [OF assms(2)]])
      (use Q raw assms(4) in \<open>simp add: ok_or_def wp_lift wp_decode_blob wp_ret verify_digest_def\<close>)
qed

text \<open>
  Streaming read: the writer receives the file's chunks one after another.  \<open>W ps w\<close> says that
  the writer \<open>w\<close> has received the chunks \<open>ps\<close>.
\<close>

lemma wp_read_loop:
  assumes ok: "ok (st_backend s)"
    and plain: "\<And>d. d \<in> set ds \<Longrightarrow> \<exists>p. is_chunk_digest d \<and>
           blob_plain (st_codec s) (kv (st_backend s)) d = Some p \<and> digest_hex (dp_sha E) p = d"
    and W: "W [] w" "\<And>ps p w. W ps w \<Longrightarrow> wp (write_all p) w (\<lambda>_ w'. W (ps @ [p]) w')"
    and Q: "\<And>ps w b. those (map (blob_plain (st_codec s) (kv (st_backend s))) ds) = Some ps \<Longrightarrow>
           W ps w \<Longrightarrow> ok b \<Longrightarrow> kv b = kv (st_backend s) \<Longrightarrow> Q () (w, s\<lparr>st_backend := b\<rparr>)"
  shows "wp (for_each ds (\<lambda>digest. seq (on_store (read_chunk_by_digest E digest))
           (\<lambda>chunk. on_writer (write_all chunk)))) (w, s) Q"
proof -
  let ?c = "st_codec s" and ?m = "kv (st_backend s)"
  let ?I = "\<lambda>pre (w', s'). \<exists>b ps. s' = s\<lparr>st_backend := b\<rparr> \<and> ok b \<and> kv b = ?m \<and> W ps w' \<and>
              those (map (blob_plain ?c ?m) pre) = Some ps"
  have snoc: "those (xs @ [Some a]) = map_option (\<lambda>ys. ys @ [a]) (those xs)" for xs :: "bytes option list" and a
    by (induction xs) (auto split: option.split simp: option.map_comp comp_def)
  show ?thesis
  proof (rule wp_for_each [where I = ?I], goal_cases)
    case 1
    show ?case using W(1) ok by (auto intro!: exI [of _ "st_backend s"])
  next
    case (2 pre d todo ws)
    then obtain b ps where ws: "snd ws = s\<lparr>st_backend := b\<rparr>" "ok b" "kv b = ?m" "W ps (fst ws)"
        "those (map (blob_plain ?c ?m) pre) = Some ps" by (cases ws) auto
    obtain p where p: "is_chunk_digest d" "blob_plain ?c ?m d = Some p" "digest_hex (dp_sha E) p = d"
      using plain [of d] 2(1) by auto
    show ?case
      unfolding wp_seq wp_on_store wp_on_writer
    proof (rule wp_read_chunk [OF _ p(1) _ p(3)], goal_cases)
      case (3 b')
      then show ?case
        using ws W(2) [OF ws(4), of p] snoc p(2)
        by (auto elim!: wp_mono)
    qed (use ws p in simp_all)
  next
    case (3 ws)
    then show ?case using Q by (cases ws) auto
  qed
qed

lemma wp_read_named:
  assumes ok: "ok (st_backend s)" and free: "\<not> poisoned (st_manifest s)"
    and ds: "try_get (guarded (st_manifest s)) f = Some ds"
    and plain: "\<And>d. d \<in> set ds \<Longrightarrow> \<exists>p. is_chunk_digest d \<and>
           blob_plain (st_codec s) (kv (st_backend s)) d = Some p \<and> digest_hex (dp_sha E) p = d"
    and W: "W [] w" "\<And>ps p w. W ps w \<Longrightarrow> wp (write_all p) w (\<lambda>_ w'. W (ps @ [p]) w')"
    and Q: "\<And>ps w b. those (map (blob_plain (st_codec s) (kv (st_backend s))) ds) = Some ps \<Longrightarrow>
           W ps w \<Longrightarrow> ok b \<Longrightarrow> kv b = kv (st_backend s) \<Longrightarrow> Q () (w, s\<lparr>st_backend := b\<rparr>)"
  shows "wp (read_to_writer E write_all f) (w, s) Q"
proof -
  have "wp (for_each ds (\<lambda>digest. seq (on_store (read_chunk_by_digest E digest))
      (\<lambda>chunk. on_writer (write_all chunk)))) (w, s) Q"
    by (rule wp_read_loop [where W = W]) (use ok plain W Q in blast)+
  then show ?thesis
    unfolding read_to_writer_def wp_seq wp_on_store wp_digests_for_file using free by (simp add: ds)
qed

lemma wp_read_chunks:
  assumes inv: "store_inv E kv ok valid s"
    and ds: "try_get (guarded (st_manifest s)) f = Some ds"
    and W: "W [] w" "\<And>ps p w. W ps w \<Longrightarrow> wp (write_all p) w (\<lambda>_ w'. W (ps @ [p]) w')"
    and Q: "\<And>ps w b. those (map (blob_plain (st_codec s) (kv (st_backend s))) ds) = Some ps \<Longrightarrow>
           W ps w \<Longrightarrow> ok b \<Longrightarrow> kv b = kv (st_backend s) \<Longrightarrow> Q () (w, s\<lparr>st_backend := b\<rparr>)"
  shows "wp (read_to_writer E write_all f) (w, s) Q"
proof (rule wp_read_named [OF _ _ ds, where W = W])
  note I = store_invD [OF inv]
  show "ok (st_backend s)" by (rule I(1))
  show "\<not> poisoned (st_manifest s)" using chunk_invD(1) [OF I(5)] by (simp add: unlocked_def)
  fix d assume "d \<in> set ds"
  then show "\<exists>p. is_chunk_digest d \<and> blob_plain (st_codec s) (kv (st_backend s)) d = Some p \<and>
      digest_hex (dp_sha E) p = d"
    using chunk_inv_member [OF I(5) file_refs [OF ds]] by metis
qed (use W Q in blast)+

text \<open>The same by bytes: \<open>W out w\<close> says that the writer \<open>w\<close> has received \<open>out\<close>.\<close>

lemma wp_read_to_writer:
  assumes "store_inv E kv ok valid s"
    and ds: "try_get (guarded (st_manifest s)) f = Some ds"
    and W: "W [] w" "\<And>out p w. W out w \<Longrightarrow> wp (write_all p) w (\<lambda>_ w'. W (out @ p) w')"
    and Q: "\<And>out w b. contents kv s f = Some out \<Longrightarrow> W out w \<Longrightarrow> ok b \<Longrightarrow>
           kv b = kv (st_backend s) \<Longrightarrow> Q () (w, s\<lparr>st_backend := b\<rparr>)"
  shows "wp (read_to_writer E write_all f) (w, s) Q"
proof (rule wp_read_chunks [OF assms(1,2), where W = "\<lambda>ps. W (concat ps)"], goal_cases)
  case (3 ps w b)
  then show ?case using Q [of "concat ps"] ds by (simp add: contents_def assemble_def)
qed (use W in simp_all)

lemma wp_read_file:
  assumes "store_inv E kv ok valid s" and "try_get (guarded (st_manifest s)) f = Some ds"
    and "\<And>out b. contents kv s f = Some out \<Longrightarrow> ok b \<Longrightarrow> kv b = kv (st_backend s) \<Longrightarrow>
           Q out (s\<lparr>st_backend := b\<rparr>)"
  shows "wp (read E f) s Q"
  by (rule wp_read, rule wp_read_to_writer [OF assms(1,2), where W = "\<lambda>out w. w = out"])
    (use assms(3) in \<open>auto simp: vec_write_all_def wp_iff\<close>)

end

text \<open>The error branches of a read.\<close>

lemma read_missing:
  assumes "try_get (guarded (st_manifest s)) f = None" and "\<not> poisoned (st_manifest s)"
  shows "read E f s = (Err (NotFound (''file '' @ f)), s)"
  using assms
  by (cases s; cases "st_manifest s")
    (simp add: read_def read_to_writer_def seq_def on_store_def zoom_def digests_for_file_def
      on_manifest_def with_lock_def manifest_get_try_get)

end
