(* ===== verification/Store_Ingest.thy ===== *)
theory Store_Ingest
  imports Store_Ops
begin

text \<open>
  The public ingest entry points.  With a chunker that meets its contract each of them is
  \<open>ingest_chunks\<close> on the chunks of the whole input, buffered or streamed.
\<close>

section \<open>Buffered ingest\<close>

lemma fold_act_append:
  "fold_act f (xs @ ys) v = seq (fold_act f xs v) (\<lambda>v'. fold_act f ys v')"
  by (induction xs arbitrary: v) (simp_all add: seq_assoc)

lemma one_shot_OkE:
  assumes "one_shot K data c = Ok chunks"
  obtains cs c1 ds c2 where "feed K data c = (Ok cs, c1)" and "finish K c1 = (Ok ds, c2)"
    and "chunks = cs @ ds"
  using assms unfolding one_shot_def
  by (auto simp: seq_def ret_def split: prod.splits res.splits)

lemma drive_chunker_eq:
  assumes "one_shot K data c = Ok chunks"
  shows "drive_chunker acc com data K c = seq (fold_act acc chunks session_new) com"
proof -
  obtain cs c1 ds c2 where h: "feed K data c = (Ok cs, c1)" "finish K c1 = (Ok ds, c2)"
      "chunks = cs @ ds"
    using assms by (rule one_shot_OkE)
  then show ?thesis
    by (simp add: drive_chunker_def fold_act_append seq_assoc)
qed

lemma ingest_with_chunker_eq:
  "one_shot K data c = Ok chunks \<Longrightarrow> ingest_with_chunker E f data K c = ingest_chunks E f chunks"
  by (simp add: ingest_with_chunker_def ingest_chunks_def drive_chunker_eq)

lemma ingest_fixed_eq:
  "0 < n \<Longrightarrow> ingest_fixed E f data n = ingest_chunks E f (fixed_chunks n data)"
  by (simp add: ingest_fixed_def ingest_with_chunker_eq [OF one_shot_fixed])

lemma default_chunk_size_pos: "0 < default_chunk_size"
  by (simp add: default_chunk_size_def)

lemma ingest_eq: "ingest E f data = ingest_chunks E f (fixed_chunks default_chunk_size data)"
  by (simp add: ingest_def ingest_fixed_eq default_chunk_size_pos)

lemma ingest_fixed_zero: "ingest_fixed E f data 0 s = (Err zero_chunk_size_error, s)"
  by (simp add: ingest_fixed_def fail_def)

text \<open>Content-defined chunking: the chunk list of a whole file.\<close>

definition cdc_chunks :: "fastcdc \<Rightarrow> bytes \<Rightarrow> bytes list res" where
  "cdc_chunks fcdc data = (if data = [] then Ok [] else chunk_cdc fcdc data)"

definition cdc_default_chunker :: cdc_chunker where
  "cdc_default_chunker = \<lparr>cc_config = cdc_config_default, cc_buffer = []\<rparr>"

lemma cdc_with_defaults_eq: "cdc_with_defaults = Ok cdc_default_chunker"
  by (simp add: cdc_with_defaults_def cdc_chunker_new_def cdc_config_default_def
      cdc_default_chunker_def)

lemma one_shot_cdc: "one_shot (CdcChunker fcdc) data cdc_default_chunker = cdc_chunks fcdc data"
  by (simp add: one_shot_def CdcChunker_def seq_def cdc_feed_def cdc_finish_def cdc_chunks_def
      chunk_cdc_def cdc_default_chunker_def ret_def split: res.split)

lemma cdc_chunks_Ok:
  assumes "fastcdc_ok fcdc cdc_config_default"
  obtains chunks where "cdc_chunks fcdc data = Ok chunks" and "concat chunks = data"
    and "[] \<notin> set chunks" and "\<forall>c \<in> set chunks. length c \<le> 8 * 1024 * 1024"
    and "\<forall>c \<in> set (butlast chunks). 256 * 1024 \<le> length c"
proof (cases "data = []")
  case True
  then show ?thesis by (intro that [of "[]"]) (simp_all add: cdc_chunks_def)
next
  case False
  then show ?thesis
    using chunk_bytes_Ok [OF cdc_defaults_ok assms False]
    by (metis that cdc_chunks_def chunk_cdc_def cdc_config.select_convs(1,3) cdc_config_default_def)
qed

lemma ingest_cdc_eq:
  assumes "cdc_chunks (dp_fastcdc E) data = Ok chunks"
  shows "ingest_cdc E f data = ingest_chunks E f chunks"
  using assms
  by (simp add: ingest_cdc_def cdc_with_defaults_eq ingest_with_chunker_eq one_shot_cdc)

section \<open>Streaming ingest\<close>

lemma accept_callback_fold:
  "\<exists>se'. for_each chunks (accept_callback acc) (se, s) =
     (case fold_act acc chunks se s of
        (Ok se1, s') \<Rightarrow> (Ok (), (se1, s'))
      | (Err e, s') \<Rightarrow> (Err e, (se', s'))
      | (Panic, s') \<Rightarrow> (Panic, (se', s'))
      | (Hang, s') \<Rightarrow> (Hang, (se', s')))"
proof (induction chunks arbitrary: se s)
  case Nil
  then show ?case by (simp add: ret_def)
next
  case (Cons p chunks)
  obtain x s1 where x: "acc p se s = (x, s1)" by fastforce
  show ?case
  proof (cases x)
    case (Ok se1)
    have "accept_callback acc p (se, s) = (Ok (), (se1, s1))"
      by (simp add: accept_callback_def x Ok)
    then show ?thesis
      using Cons.IH [of se1 s1] x Ok by (simp add: seq_def)
  qed (use x in \<open>simp_all add: seq_def accept_callback_def\<close>)
qed

text \<open>
  A reader that delivers \<open>data\<close> gives the same result and the same store as ingesting the
  chunks of \<open>data\<close>, errors included.
\<close>

lemma drive_reader_eq:
  assumes "stream_chunker K cinv pending" and "cinv c" and "delivers rd r data r'"
    and "one_shot K data c = Ok chunks"
  shows "\<exists>r1. drive_reader acc com rd K c (r, s) =
           (fst (seq (fold_act acc chunks session_new) com s),
            (r1, snd (seq (fold_act acc chunks session_new) com s)))"
proof -
  have "\<exists>r1 c1. for_each_chunk rd K (accept_callback acc) (r, c, (session_new, s)) =
      (fst (for_each chunks (accept_callback acc) (session_new, s)),
       (r1, c1, snd (for_each chunks (accept_callback acc) (session_new, s))))"
    by (rule stream_chunker.for_each_chunk_delivers [OF assms(1,3,2,4)])
  then obtain r1 c1 where fe: "for_each_chunk rd K (accept_callback acc) (r, c, (session_new, s)) =
      (fst (for_each chunks (accept_callback acc) (session_new, s)),
       (r1, c1, snd (for_each chunks (accept_callback acc) (session_new, s))))"
    by blast
  obtain x s1 where x: "fold_act acc chunks session_new s = (x, s1)" by fastforce
  show ?thesis
    using accept_callback_fold [of chunks acc session_new s] x fe
    by (cases x)
      (auto simp: drive_reader_def seq_def split: prod.splits)
qed

lemma ingest_reader_eq:
  assumes "stream_chunker K cinv pending" and "cinv c" and "delivers rd r data r'"
    and "one_shot K data c = Ok chunks"
  shows "\<exists>r1. ingest_reader_with_chunker E f rd K c (r, s) =
           (fst (ingest_chunks E f chunks s), (r1, snd (ingest_chunks E f chunks s)))"
  using drive_reader_eq [OF assms] by (simp add: ingest_reader_with_chunker_def ingest_chunks_def)

lemma ingest_reader_fixed_eq:
  assumes "0 < n" and "delivers rd r data r'"
  shows "\<exists>r1. ingest_reader_fixed E f rd n (r, s) =
           (fst (ingest_fixed E f data n s), (r1, snd (ingest_fixed E f data n s)))"
  using ingest_reader_eq [OF fixed.stream_chunker_axioms fixed_inv_new [OF assms(1)] assms(2)
      one_shot_fixed [OF assms(1)]] assms(1)
  by (simp add: ingest_reader_fixed_def ingest_fixed_eq)

lemma ingest_reader_cdc_eq:
  assumes "fastcdc_ok (dp_fastcdc E) cdc_config_default" and "delivers rd r data r'"
  shows "\<exists>r1. ingest_reader_cdc E f rd (r, s) =
           (fst (ingest_cdc E f data s), (r1, snd (ingest_cdc E f data s)))"
proof -
  obtain chunks where ch: "cdc_chunks (dp_fastcdc E) data = Ok chunks"
    using cdc_chunks_Ok [OF assms(1)] by metis
  then have one: "one_shot (CdcChunker (dp_fastcdc E)) data cdc_default_chunker = Ok chunks"
    by (simp add: one_shot_cdc)
  have inv: "cdc_inv (dp_fastcdc E) cdc_default_chunker"
    using assms(1) by (simp add: cdc_inv_def cdc_default_chunker_def cdc_defaults_ok)
  show ?thesis
    using ingest_reader_eq [OF cdc_stream_chunker inv assms(2) one, of E f s]
    by (simp add: ingest_reader_cdc_def cdc_with_defaults_eq ingest_cdc_eq [OF ch])
qed

text \<open>A file opened by path is read as a stream.\<close>

lemma ingest_path_eq:
  assumes "open_file path = Ok r" and "delivers rd r data r'"
  shows "ingest_path E open_file rd f path s = ingest E f data s"
  using ingest_reader_fixed_eq [OF default_chunk_size_pos assms(2), of E f s] assms(1)
  by (auto simp: ingest_path_def from_file_def ingest_def)

lemma ingest_path_cdc_eq:
  assumes "open_file path = Ok r" and "delivers rd r data r'"
    and "fastcdc_ok (dp_fastcdc E) cdc_config_default"
  shows "ingest_path_cdc E open_file rd f path s = ingest_cdc E f data s"
  using ingest_reader_cdc_eq [OF assms(3,2), of f s] assms(1)
  by (auto simp: ingest_path_cdc_def from_file_def)

lemma ingest_path_missing:
  "open_file path = Err e \<Longrightarrow> ingest_path E open_file rd f path s = (Err e, s)"
  by (simp add: ingest_path_def from_file_def)

end
