(* ===== verification/Store_Open.thy ===== *)
theory Store_Open
  imports Store_Ops
begin

text \<open>
  \<open>ChunkStore::open\<close>: loading the records, migrating the refcount records of the old
  wire format (a bare count, read back with size 0), and recomputing the statistics.
\<close>

section \<open>Migrating records without a size\<close>

definition upgrade :: "(string \<rightharpoonup> bytes) \<Rightarrow> string \<Rightarrow> chunk_ref \<Rightarrow> chunk_ref" where
  "upgrade m d r =
     (if cr_size r = 0
      then (case m d of None \<Rightarrow> r | Some raw \<Rightarrow> r\<lparr>cr_size := len64 raw\<rparr>)
      else r)"

definition upgraded :: "(string \<rightharpoonup> bytes) \<Rightarrow> (string \<rightharpoonup> chunk_ref) \<Rightarrow> string \<rightharpoonup> chunk_ref" where
  "upgraded m refs d = map_option (upgrade m d) (refs d)"

lemma upgraded_None [simp]: "upgraded m refs d = None \<longleftrightarrow> refs d = None"
  by (simp add: upgraded_def)

lemma upgraded_dom [simp]: "dom (upgraded m refs) = dom refs"
  by (simp add: dom_def)

lemma upgrade_count [simp]: "cr_count (upgrade m d r) = cr_count r"
  by (simp add: upgrade_def split: option.split)

lemma upgrade_cong: "m' d = m d \<Longrightarrow> upgrade m' d r = upgrade m d r"
  by (simp add: upgrade_def)

text \<open>The entries migrated so far.\<close>

definition upgraded_on ::
  "string set \<Rightarrow> (string \<rightharpoonup> bytes) \<Rightarrow> (string \<rightharpoonup> chunk_ref) \<Rightarrow> string \<rightharpoonup> chunk_ref" where
  "upgraded_on D m refs d = (if d \<in> D then upgraded m refs d else refs d)"

lemma upgraded_on_empty [simp]: "upgraded_on {} m refs = refs"
  by (simp add: fun_eq_iff upgraded_on_def)

lemma upgraded_on_insert:
  "upgraded_on (insert d D) m refs = (upgraded_on D m refs)(d := upgraded m refs d)"
  by (auto simp: fun_eq_iff upgraded_on_def)

lemma upgraded_on_all:
  assumes "\<And>d r. refs d = Some r \<Longrightarrow> cr_size r = 0 \<Longrightarrow> d \<in> D"
  shows "upgraded_on D m refs = upgraded m refs"
proof
  fix d
  show "upgraded_on D m refs d = upgraded m refs d"
    using assms [of d] by (cases "refs d") (auto simp: upgraded_on_def upgraded_def upgrade_def)
qed

lemma backfill_stale:
  assumes "keys_distinct (counts rc)"
  shows "(d, c) \<in> set (map (\<lambda>(digest, meta). (digest, cr_count meta))
           (filter (\<lambda>(_, meta). cr_size meta = 0 \<and> 0 < cr_count meta) (iter_refs rc))) \<longleftrightarrow>
         (\<exists>r. get_ref rc d = Some r \<and> cr_size r = 0 \<and> 0 < cr_count r \<and> c = cr_count r)"
  using assms by (force simp: iter_refs_def get_ref_def)

context store_env
begin

lemma wp_backfill:
  assumes ok: "ok b" and rc: "rc_ok rc" and disk: "disk_refs (dp_json E) (kv b) (get_ref rc)"
    and Q: "\<And>rc' b'. ok b' \<Longrightarrow> same_outside is_refcount_key (kv b) (kv b') \<Longrightarrow> rc_ok rc' \<Longrightarrow>
           get_ref rc' = upgraded (kv b) (get_ref rc) \<Longrightarrow>
           disk_refs (dp_json E) (kv b') (get_ref rc') \<Longrightarrow> Q rc' b'"
  shows "wp (backfill_refcount_sizes E rc) b Q"
proof -
  let ?m = "kv b" and ?refs = "get_ref rc"
  let ?stale = "map (\<lambda>(digest, meta). (digest, cr_count meta))
        (filter (\<lambda>(_, meta). cr_size meta = 0 \<and> 0 < cr_count meta) (iter_refs rc))"
  have distinct: "keys_distinct (counts rc)" using rc by (simp add: rc_ok_def)
  note stale = backfill_stale [OF distinct]
  show ?thesis
    unfolding backfill_refcount_sizes_def
  proof (rule wp_fold_act [where I = "\<lambda>done rc' b'. ok b' \<and>
        same_outside is_refcount_key ?m (kv b') \<and> rc_ok rc' \<and>
        get_ref rc' = upgraded_on (fst ` set done) ?m ?refs \<and>
        disk_refs (dp_json E) (kv b') (get_ref rc')"], goal_cases)
    case 1
    then show ?case using ok rc disk by simp
  next
    case (2 pre x todo rc1 b1)
    obtain d c where x: "x = (d, c)" by fastforce
    have "(d, c) \<in> set ?stale" unfolding 2(1) x by simp
    then obtain r where r: "?refs d = Some r" "cr_size r = 0" "c = cr_count r"
      unfolding stale by blast
    have d: "is_chunk_digest d" and c: "c \<noteq> 0"
      using disk_refsD(1,2) [OF disk r(1)] r(3) by auto
    have same: "kv b1 d = ?m d" using 2(2) d by (simp add: same_outside_def)
    show ?case
      unfolding x backfill_entry_def prod.case wp_seq
    proof (rule wp_get, goal_cases)
      case (3 b2)
      then have b2: "ok b2" "kv b2 = kv b1" by simp_all
      show ?case
      proof (cases "?m d")
        case None
        then have "upgraded ?m ?refs d = ?refs d" by (simp add: upgraded_def upgrade_def r)
        then have "upgraded_on (insert d (fst ` set pre)) ?m ?refs =
            upgraded_on (fst ` set pre) ?m ?refs"
          by (auto simp: fun_eq_iff upgraded_on_def)
        moreover have "get_ref rc1 = upgraded_on (fst ` set pre) ?m ?refs" using 2(2) by blast
        ultimately show ?thesis using None same b2 2(2) by (auto simp: wp_ret)
      next
        case (Some raw)
        have up: "upgraded_on (insert d (fst ` set pre)) ?m ?refs =
            (upgraded_on (fst ` set pre) ?m ?refs)(d \<mapsto> \<lparr>cr_count = c, cr_size = len64 raw\<rparr>)"
          using Some r by (cases r) (simp add: upgraded_on_insert upgraded_def upgrade_def)
        have "wp (save_refcount (dp_json E) (dp_backend E) d c (len64 raw)) b2
            (\<lambda>_ b3. ok b3 \<and> same_outside is_refcount_key ?m (kv b3) \<and>
               rc_ok (rc_set d c (len64 raw) rc1) \<and>
               get_ref (rc_set d c (len64 raw) rc1) =
                 upgraded_on (insert d (fst ` set pre)) ?m ?refs \<and>
               disk_refs (dp_json E) (kv b3) (get_ref (rc_set d c (len64 raw) rc1)))"
        proof (rule wp_save_refcount [OF b2(1) json _ d c, where refs = "get_ref rc1"], goal_cases)
          case (2 b3)
          then show ?case
            using \<open>_ \<and> _\<close> b2 up c by (auto simp: rc_ok_set intro: same_outside_trans)
        qed (use 2(2) b2 in auto)
        with Some same d show ?thesis by (simp add: wp_seq wp_ret)
      qed
    qed (use 2(2) valid_digest [OF d] in simp_all)
  next
    case (3 rc1 b1)
    have "upgraded_on (fst ` set ?stale) ?m ?refs = upgraded ?m ?refs"
    proof (rule upgraded_on_all)
      fix d r assume r: "?refs d = Some r" "cr_size r = 0"
      then have "0 < cr_count r" using rc_ok_count [OF rc] by (simp add: word_greater_zero_iff)
      with r have "(d, cr_count r) \<in> set ?stale" unfolding stale by blast
      then show "d \<in> fst ` set ?stale" by (rule rev_image_eqI) simp
    qed
    with 3 show ?case by (intro Q) auto
  qed
qed

end

section \<open>Recomputing the statistics\<close>

lemma ref_bytes_sum:
  assumes "finite S" and "set_mset M \<subseteq> S"
  shows "ref_bytes len M = (\<Sum>d\<in>S. count M d * len d)"
  using assms(2)
proof (induction M)
  case empty
  then show ?case by (simp add: ref_bytes_def)
next
  case (add x M)
  have "(\<Sum>d\<in>S. count (add_mset x M) d * len d) =
      (\<Sum>d\<in>S. count M d * len d + (if d = x then len d else 0))"
    by (rule sum.cong) auto
  also have "\<dots> = (\<Sum>d\<in>S. count M d * len d) + len x"
    using assms(1) add.prems by (simp add: sum.distrib)
  finally show ?case using add by simp
qed

lemma sum_list_keys:
  fixes g :: "string \<Rightarrow> u64"
  assumes "keys_distinct al" and "\<And>d r. map_of al d = Some r \<Longrightarrow> h (d, r) = g d"
  shows "sum_list (map h al) = (\<Sum>d\<in>dom (map_of al). g d)"
proof -
  have "map h al = map g (map fst al)"
    using assms by (auto intro!: map_cong [OF refl])
  then show ?thesis
    using assms(1) by (simp only: sum_list_distinct_conv_sum_set set_fst_dom)
qed

text \<open>The totals that the loop accumulates are those of the invariant.\<close>

lemma rebuilt_totals:
  assumes "keys_distinct al" and "refs_match (map_of al) M"
    and size: "\<And>d r. map_of al d = Some r \<Longrightarrow> cr_size r = of_nat (len d)"
  shows "sum_list (map (\<lambda>(d, r). cr_size r) al) = of_nat (unique_bytes len M)"
    and "sum_list (map (\<lambda>(d, r). cr_size r * cr_count r) al) = of_nat (ref_bytes len M)"
proof -
  note dom = refs_match_dom [OF assms(2)]
  have "sum_list (map (\<lambda>(d, r). cr_size r) al) = (\<Sum>d\<in>set_mset M. of_nat (len d))"
    unfolding dom [symmetric] by (rule sum_list_keys [OF assms(1)]) (simp add: size)
  then show "sum_list (map (\<lambda>(d, r). cr_size r) al) = of_nat (unique_bytes len M)"
    by (simp add: unique_bytes_def)
  have "sum_list (map (\<lambda>(d, r). cr_size r * cr_count r) al) =
      (\<Sum>d\<in>set_mset M. of_nat (len d) * of_nat (count M d))"
    unfolding dom [symmetric]
    by (rule sum_list_keys [OF assms(1)]) (simp add: size refs_match_Some [OF assms(2)])
  then show "sum_list (map (\<lambda>(d, r). cr_size r * cr_count r) al) = of_nat (ref_bytes len M)"
    by (simp add: ref_bytes_sum [OF finite_set_mset order.refl] mult.commute)
qed

context store_env
begin

lemma wp_rebuild_entry:
  assumes "ok (st_backend s)"
    and zero: "cr_size r = 0 \<Longrightarrow> st_codec s = None \<and> is_chunk_digest d \<and>
           get_ref (guarded (st_refcount s)) d = Some r \<and> \<not> poisoned (st_refcount s) \<and>
           (\<exists>raw. kv (st_backend s) d = Some raw \<and> len64 raw = 0)"
    and Q: "\<And>b. ok b \<Longrightarrow> kv b = kv (st_backend s) \<Longrightarrow>
           Q (st\<lparr>stored_bytes := stored_bytes st + cr_size r,
                total_bytes := total_bytes st + cr_size r * cr_count r\<rparr>) (s\<lparr>st_backend := b\<rparr>)"
  shows "wp (rebuild_entry E (d, r) st) s Q"
proof (cases "cr_size r = 0")
  case False
  then have "0 < cr_size r" by (simp add: word_greater_zero_iff)
  then show ?thesis using Q [OF assms(1) refl] by (simp add: rebuild_entry_def wp_rules)
next
  case True
  then obtain raw where raw: "kv (st_backend s) d = Some raw" "len64 raw = 0"
      and c: "st_codec s = None" and d: "is_chunk_digest d"
      and rc: "get_ref (guarded (st_refcount s)) d = Some r" "\<not> poisoned (st_refcount s)"
    using zero by blast
  have "size_of (guarded (st_refcount s)) d = Some 0"
    using rc(1) True by (simp add: size_of_def get_ref_def)
  moreover have "wp (fetch_size E d) s
      (\<lambda>sz s'. Q (st\<lparr>stored_bytes := stored_bytes st + sz,
                     total_bytes := total_bytes st + sz * cr_count r\<rparr>) s')"
    unfolding fetch_size_def wp_seq wp_on_backend
  proof (rule wp_get [OF assms(1) valid_digest [OF d]], goal_cases)
    case (1 b)
    have "decode_opt (st_codec (s\<lparr>st_backend := b\<rparr>)) raw = Ok raw" by (simp add: c)
    then show ?case
      using Q [OF 1] raw True by (simp add: wp_lift ok_or_def wp_decode_blob wp_ret)
  qed
  ultimately show ?thesis
    using True rc(2) by (simp add: rebuild_entry_def chunk_size_of_def wp_rules)
qed

lemma wp_rebuild_stats:
  assumes ok: "ok (st_backend s)" and un: "unlocked s"
    and zero: "\<And>d r. (d, r) \<in> set (counts (guarded (st_refcount s))) \<Longrightarrow> cr_size r = 0 \<Longrightarrow>
           st_codec s = None \<and> is_chunk_digest d \<and>
           get_ref (guarded (st_refcount s)) d = Some r \<and>
           (\<exists>raw. kv (st_backend s) d = Some raw \<and> len64 raw = 0)"
    and Q: "\<And>b. ok b \<Longrightarrow> kv b = kv (st_backend s) \<Longrightarrow>
           Q () (s\<lparr>st_backend := b, st_stats := (st_stats s)\<lparr>guarded :=
             \<lparr>total_bytes = sum_list (map (\<lambda>(d, r). cr_size r * cr_count r)
                 (counts (guarded (st_refcount s)))),
              stored_bytes = sum_list (map (\<lambda>(d, r). cr_size r)
                 (counts (guarded (st_refcount s)))),
              gc_chunks = 0\<rparr>\<rparr>\<rparr>)"
  shows "wp (rebuild_stats E) s Q"
proof -
  let ?al = "counts (guarded (st_refcount s))"
  let ?I = "\<lambda>done st s'. \<exists>b. ok b \<and> kv b = kv (st_backend s) \<and> s' = s\<lparr>st_backend := b\<rparr> \<and>
      st = \<lparr>total_bytes = sum_list (map (\<lambda>(d, r). cr_size r * cr_count r) done),
           stored_bytes = sum_list (map (\<lambda>(d, r). cr_size r) done), gc_chunks = 0\<rparr>"
  have eta: "s\<lparr>st_refcount := (st_refcount s)\<lparr>guarded := guarded (st_refcount s)\<rparr>\<rparr> = s"
    by (cases s; cases "st_refcount s") simp
  show ?thesis
    unfolding rebuild_stats_def wp_seq wp_on_refcount wp_const eta iter_refs_def
  proof (intro conjI, goal_cases)
    case 2
    show ?case
    proof (rule wp_fold_act [where I = ?I], goal_cases)
      case 1
      then show ?case using ok by (auto simp: stats_default_def intro!: exI [of _ "st_backend s"])
    next
      case (2 pre x todo st s1)
      obtain d r where x: "x = (d, r)" by fastforce
      have mem: "(d, r) \<in> set ?al" unfolding 2(1) x by simp
      obtain b where b: "ok b" "kv b = kv (st_backend s)" "s1 = s\<lparr>st_backend := b\<rparr>"
          "st = \<lparr>total_bytes = sum_list (map (\<lambda>(d, r). cr_size r * cr_count r) pre),
                stored_bytes = sum_list (map (\<lambda>(d, r). cr_size r) pre), gc_chunks = 0\<rparr>"
        using 2(2) by blast
      show ?case
        unfolding x
      proof (rule wp_rebuild_entry, goal_cases)
        case (3 b')
        then show ?case using b by (auto intro!: exI [of _ b'])
      qed (use b zero [OF mem] un in \<open>auto simp: unlocked_def\<close>)
    next
      case (3 st s1)
      then obtain b where "ok b" "kv b = kv (st_backend s)" "s1 = s\<lparr>st_backend := b\<rparr>"
          "st = \<lparr>total_bytes = sum_list (map (\<lambda>(d, r). cr_size r * cr_count r) ?al),
                stored_bytes = sum_list (map (\<lambda>(d, r). cr_size r) ?al), gc_chunks = 0\<rparr>"
        by blast
      then show ?case using Q un by (simp add: wp_on_stats wp_const unlocked_def)
    qed
  qed (use un in \<open>simp add: unlocked_def\<close>)
qed

end

section \<open>Opening a backend\<close>

text \<open>
  A backend \<open>open\<close> can load: manifests \<open>mv\<close> and references \<open>refs\<close>, the latter possibly in
  the old wire format, the references counting the digests of the manifests and every
  referenced blob present.  \<open>c\<close> is the codec the blobs were written with; records without a
  size are only migrated correctly for plain blobs.
\<close>

definition loadable ::
  "'b deps \<Rightarrow> (string \<rightharpoonup> bytes) \<Rightarrow> (string \<Rightarrow> bool) \<Rightarrow> chunk_codec_ops option \<Rightarrow>
     (string \<rightharpoonup> chunk_ref) \<Rightarrow> (string \<rightharpoonup> string list \<times> u64) \<Rightarrow> bool" where
  "loadable E m valid c refs mv \<longleftrightarrow>
     disk_refs (dp_json E) m refs \<and> disk_manifests (dp_json E) m mv \<and>
     (\<forall>f \<in> dom mv. valid (manifest_key f)) \<and> codec_ok c \<and>
     (\<exists>al. keys_distinct al \<and> map_of al = map_option fst \<circ> mv \<and> size (all_refs al) < 2 ^ 64 \<and>
        refs_match refs (all_refs al) \<and> ref_bytes (plain_len c m) (all_refs al) < 2 ^ 64) \<and>
     blobs_match (dp_sha E) c m (upgraded m refs) \<and>
     (\<forall>d r. refs d = Some r \<longrightarrow> cr_size r = 0 \<longrightarrow> c = None)"

definition opened ::
  "'b deps \<Rightarrow> ('b \<Rightarrow> string \<rightharpoonup> bytes) \<Rightarrow> ('b \<Rightarrow> bool) \<Rightarrow> (string \<Rightarrow> bool) \<Rightarrow>
     chunk_codec_ops option \<Rightarrow> (string \<rightharpoonup> chunk_ref) \<Rightarrow> (string \<rightharpoonup> string list \<times> u64) \<Rightarrow>
     'b \<Rightarrow> 'b store \<Rightarrow> bool" where
  "opened E kv ok valid c refs mv b s \<longleftrightarrow>
     store_inv E kv ok valid (s\<lparr>st_codec := c\<rparr>) \<and> st_codec s = None \<and>
     manifest_view (guarded (st_manifest s)) = mv \<and>
     get_ref (guarded (st_refcount s)) = upgraded (kv b) refs \<and>
     same_outside is_refcount_key (kv b) (kv (st_backend s)) \<and>
     gc_chunks (guarded (st_stats s)) = 0"

lemma all_refs_cong:
  assumes "keys_distinct al" and "keys_distinct bl" and "map_of al = map_of bl"
  shows "all_refs al = all_refs bl"
proof -
  have "set al = set bl" using assms by (metis map_of_inject_set distinct_map)
  then have "mset al = mset bl"
    using assms(1,2) by (simp add: set_eq_iff_mset_eq_distinct distinct_map)
  moreover have "all_refs al = (\<Sum>kv\<in>#mset al. mset (snd kv))" for al :: "('a \<times> 'b list) list"
    by (induction al) simp_all
  ultimately show ?thesis by simp
qed

lemma wp_build_store:
  "wp (build_store E m rc) b Q = wp (rebuild_stats E) (fresh_store m rc b) (\<lambda>u s. Q s (st_backend s))"
  by (auto simp: wp_def build_store_def split: prod.splits res.splits)

text \<open>The files that a loadable backend describes.\<close>

definition file_refs_of :: "(string \<rightharpoonup> string list \<times> u64) \<Rightarrow> manifest \<Rightarrow> bool" where
  "file_refs_of mv mf \<longleftrightarrow> manifest_ok mf \<and> manifest_view mf = mv"

lemma loadable_refs:
  assumes "loadable E m valid c refs mv" and "file_refs_of mv mf"
  shows "refs_match refs (all_refs (files mf))" and "size (all_refs (files mf)) < 2 ^ 64"
    and "ref_bytes (plain_len c m) (all_refs (files mf)) < 2 ^ 64"
proof -
  obtain al where al: "keys_distinct al" "map_of al = map_option fst \<circ> mv" "size (all_refs al) < 2 ^ 64"
      "refs_match refs (all_refs al)" "ref_bytes (plain_len c m) (all_refs al) < 2 ^ 64"
    using assms(1) by (auto simp: loadable_def)
  have mf: "manifest_ok mf" "manifest_view mf = mv"
    using assms(2) by (simp_all add: file_refs_of_def)
  have "map_of (files mf) = map_of al"
    using manifest_view_digests [OF mf(1)] mf(2) al(2) by (auto simp: fun_eq_iff try_get_def)
  then have M: "all_refs (files mf) = all_refs al"
    using al(1) mf(1) by (intro all_refs_cong) (simp_all add: manifest_ok_def)
  show "refs_match refs (all_refs (files mf))" and "size (all_refs (files mf)) < 2 ^ 64"
    and "ref_bytes (plain_len c m) (all_refs (files mf)) < 2 ^ 64"
    using al by (simp_all add: M)
qed

lemma refs_match_upgraded: "refs_match refs M \<Longrightarrow> refs_match (upgraded m refs) M"
  by (auto simp: refs_match_def upgraded_def)

context store_env
begin

text \<open>The store that is built from the loaded parts.\<close>

lemma build_store_opened:
  assumes L: "loadable E (kv b) valid c refs mv"
    and b3: "ok b3" "same_outside is_refcount_key (kv b) (kv b3)"
    and rc3: "rc_ok rc3" "get_ref rc3 = upgraded (kv b) refs"
      "disk_refs (dp_json E) (kv b3) (upgraded (kv b) refs)"
    and mf: "file_refs_of mv mf"
    and Q: "\<And>s. opened E kv ok valid c refs mv b s \<Longrightarrow> Q s (st_backend s)"
  shows "wp (build_store E mf rc3) b3 Q"
proof -
  let ?up = "upgraded (kv b) refs" and ?M = "all_refs (files mf)"
  note M = loadable_refs [OF L mf]
  have disk: "disk_refs (dp_json E) (kv b) refs" "disk_manifests (dp_json E) (kv b) mv"
    and keys: "\<And>f. f \<in> dom mv \<Longrightarrow> valid (manifest_key f)"
    and c: "codec_ok c" and blobs: "blobs_match (dp_sha E) c (kv b) ?up"
    and small: "\<And>d r. refs d = Some r \<Longrightarrow> cr_size r = 0 \<Longrightarrow> c = None"
    using L by (auto simp: loadable_def)
  have al: "keys_distinct (counts rc3)" "map_of (counts rc3) = ?up"
    using rc3(1) rc3(2) by (simp_all add: rc_ok_def get_ref_def fun_eq_iff)
  have dig: "is_chunk_digest d" if "?up d = Some r" for d r
    using that disk_refsD(1) [OF disk(1)] by (auto simp: upgraded_def)
  have same: "kv b3 d = kv b d" if "is_chunk_digest d" for d
    using b3(2) that by (simp add: same_outside_def)
  have blob: "\<exists>p. blob_plain c (kv b) d = Some p \<and> digest_hex (dp_sha E) p = d \<and> cr_size r = len64 p"
    if "?up d = Some r" for d r
    using blobs dig [OF that] that by (simp add: blobs_match_def)
  have len: "cr_size r = of_nat (plain_len c (kv b3) d)" if "?up d = Some r" for d r
  proof -
    have "blob_plain c (kv b3) d = blob_plain c (kv b) d"
      by (rule blob_plain_cong) (rule same [OF dig [OF that]])
    then show ?thesis using blob [OF that] by (auto simp: plain_len_def)
  qed
  have eq: "plain_len c (kv b3) d = plain_len c (kv b) d" if d: "d \<in># ?M" for d
  proof -
    obtain r where "?up d = Some r"
      using refs_match_member [OF refs_match_upgraded [OF M(1)] d] by metis
    then show ?thesis by (intro plain_len_cong blob_plain_cong same dig)
  qed
  note totals = rebuilt_totals [OF al(1), of ?M "plain_len c (kv b3)", unfolded al(2),
      OF refs_match_upgraded [OF M(1)] len]
  have zero: "c = None \<and> is_chunk_digest d \<and> get_ref rc3 d = Some r \<and>
      (\<exists>raw. kv b3 d = Some raw \<and> len64 raw = 0)"
    if "(d, r) \<in> set (counts rc3)" "cr_size r = 0" for d r
  proof -
    have r: "?up d = Some r" using that(1) al by (metis map_of_eq_Some_iff)
    then obtain r0 where r0: "refs d = Some r0" "r = upgrade (kv b) d r0"
      by (auto simp: upgraded_def)
    then have "cr_size r0 = 0" using that(2) by (auto simp: upgrade_def split: if_splits)
    then have "c = None" using small r0(1) by blast
    moreover have "\<exists>raw. kv b3 d = Some raw \<and> len64 raw = 0"
      using blob [OF r] that(2) \<open>c = None\<close> same [OF dig [OF r]]
      by (auto simp: blob_plain_def split: option.splits)
    ultimately show ?thesis using r dig rc3(2) by simp
  qed
  show ?thesis
    unfolding wp_build_store
  proof (rule wp_rebuild_stats, goal_cases)
    case (4 b4)
    let ?s = "fresh_store mf rc3 b3\<lparr>st_backend := b4, st_stats := new_mutex
        \<lparr>total_bytes = of_nat (ref_bytes (plain_len c (kv b3)) ?M),
         stored_bytes = of_nat (unique_bytes (plain_len c (kv b3)) ?M), gc_chunks = 0\<rparr>\<rparr>"
    have kv4: "kv b4 = kv b3" and ok4: "ok b4" using 4 by (simp_all add: fresh_store_def)
    have "blobs_match (dp_sha E) c (kv b3) ?up"
      using blobs same by (simp add: blobs_match_def blob_plain_def)
    moreover have "disk_manifests (dp_json E) (kv b3) mv"
      using disk(2) disk_manifests_cong [OF b3(2)] refcount_key_not_manifest_key by blast
    ultimately have "opened E kv ok valid c refs mv b ?s"
      using kv4 ok4 b3 rc3 c mf keys M eq ref_bytes_cong [OF eq] al(1) refs_match_upgraded [OF M(1)]
      by (auto simp: opened_def store_inv_def chunk_inv_def unlocked_def fresh_store_def
          stats_match_def file_refs_of_def)
    then show ?case using Q [of ?s] totals by (simp add: fresh_store_def new_mutex_def)
  qed (use b3(1) zero in \<open>auto simp: fresh_store_def unlocked_def\<close>)
qed

lemma wp_open_store:
  assumes ok: "ok b" and L: "loadable E (kv b) valid c refs mv"
    and Q: "\<And>s. opened E kv ok valid c refs mv b s \<Longrightarrow> Q s (st_backend s)"
  shows "wp (open_store E) b Q"
proof -
  have disk: "disk_refs (dp_json E) (kv b) refs" "disk_manifests (dp_json E) (kv b) mv"
    and keys: "\<And>f. f \<in> dom mv \<Longrightarrow> valid (manifest_key f)"
    using L by (auto simp: loadable_def)
  show ?thesis
    unfolding open_store_def wp_seq
  proof (rule wp_load_manifests [OF ok disk(2) keys])
    fix mf b1 assume b1: "ok b1" "kv b1 = kv b" and mf: "manifest_ok mf" "manifest_view mf = mv"
    then have disk1: "disk_refs (dp_json E) (kv b1) refs" using disk(1) by simp
    show "wp (load_refcounts (dp_json E) (dp_backend E)) b1
        (\<lambda>rc b2. wp (backfill_refcount_sizes E rc) b2 (\<lambda>rc b3. wp (build_store E mf rc) b3 Q))"
    proof (rule wp_load_refcounts [OF b1(1) disk1])
      fix rc b2 assume b2: "ok b2" "kv b2 = kv b1" and rc: "rc_ok rc" "get_ref rc = refs"
      then have disk2: "disk_refs (dp_json E) (kv b2) (get_ref rc)" using disk1 by simp
      show "wp (backfill_refcount_sizes E rc) b2 (\<lambda>rc b3. wp (build_store E mf rc) b3 Q)"
        by (rule wp_backfill [OF b2(1) rc(1) disk2], rule build_store_opened [OF L])
          (use b1 b2 rc mf Q in \<open>auto simp: file_refs_of_def\<close>)
    qed
  qed
qed

end

text \<open>What the reopened store says of a file.\<close>

lemma opened_contents:
  assumes L: "loadable E (kv b) valid c refs mv" and s: "opened E kv ok valid c refs mv b s"
  shows "contents kv (s\<lparr>st_codec := c\<rparr>) f =
           (case mv f of None \<Rightarrow> None | Some (ds, n) \<Rightarrow> assemble c (kv b) ds)"
proof -
  have inv: "store_inv E kv ok valid (s\<lparr>st_codec := c\<rparr>)"
    and mv: "manifest_view (guarded (st_manifest s)) = mv"
    and out: "same_outside is_refcount_key (kv b) (kv (st_backend s))"
    using s by (simp_all add: opened_def)
  have tg: "try_get (guarded (st_manifest s)) f = map_option fst (mv f)"
    using manifest_view_digests [OF store_invD(2) [OF inv], of f] mv by simp
  have "assemble c (kv (st_backend s)) ds = assemble c (kv b) ds" if mvf: "mv f = Some (ds, n)" for ds n
  proof (rule assemble_cong)
    fix d assume "d \<in> set ds"
    then have "is_chunk_digest d"
      using L disk_manifestsD(2) [where fs = mv, OF _ mvf] by (auto simp: loadable_def list_all_iff)
    then show "blob_plain c (kv (st_backend s)) d = blob_plain c (kv b) d"
      using out by (intro blob_plain_cong) (simp add: same_outside_def)
  qed
  then show ?thesis by (auto simp: contents_def tg split: option.split)
qed

text \<open>A store at rest leaves a loadable backend.\<close>

lemma upgraded_id:
  assumes "\<And>d r. refs d = Some r \<Longrightarrow> cr_size r = 0 \<Longrightarrow> \<exists>raw. m d = Some raw \<and> len64 raw = 0"
  shows "upgraded m refs = refs"
proof
  fix d
  show "upgraded m refs d = refs d"
  proof (cases "refs d")
    case (Some r)
    then show ?thesis using assms [OF Some] by (cases r) (auto simp: upgraded_def upgrade_def)
  qed (simp add: upgraded_def)
qed

definition sized_refs :: "'b store \<Rightarrow> bool" where
  "sized_refs s \<longleftrightarrow> (\<forall>d r. get_ref (guarded (st_refcount s)) d = Some r \<longrightarrow> cr_size r \<noteq> 0)"

lemma store_inv_upgraded:
  assumes inv: "store_inv E kv ok valid s" and c: "st_codec s = None \<or> sized_refs s"
  shows "upgraded (kv (st_backend s)) (get_ref (guarded (st_refcount s))) =
           get_ref (guarded (st_refcount s))"
proof (rule upgraded_id)
  fix d r assume r: "get_ref (guarded (st_refcount s)) d = Some r" "cr_size r = 0"
  note I = chunk_invD [OF store_invD(5) [OF inv]]
  have none: "st_codec s = None" using c r by (auto simp: sized_refs_def)
  obtain p where "blob_plain None (kv (st_backend s)) d = Some p" "cr_size r = len64 p"
    using blobs_matchD [OF I(6) disk_refsD(1) [OF I(7) r(1)] r(1)] none by metis
  then show "\<exists>raw. kv (st_backend s) d = Some raw \<and> len64 raw = 0"
    using r(2) by (auto simp: blob_plain_def split: option.splits)
qed

lemma store_inv_loadable:
  assumes inv: "store_inv E kv ok valid s" and c: "st_codec s = None \<or> sized_refs s"
  shows "loadable E (kv (st_backend s)) valid (st_codec s) (get_ref (guarded (st_refcount s)))
           (manifest_view (guarded (st_manifest s)))"
proof -
  note S = store_invD [OF inv]
  note I = chunk_invD [OF S(5)]
  have "map_of (files (guarded (st_manifest s))) =
      map_option fst \<circ> manifest_view (guarded (st_manifest s))"
    using manifest_view_digests [OF S(2)] by (simp add: fun_eq_iff try_get_def)
  moreover have "keys_distinct (files (guarded (st_manifest s)))"
    using S(2) by (simp add: manifest_ok_def)
  ultimately show ?thesis
    using S(3,4) I(2,3,5,6,7,8) c store_inv_upgraded [OF inv c]
    unfolding loadable_def by (auto simp: stats_match_def sized_refs_def)
qed

end
