(* ===== verification/Store_Fsck.thy ===== *)
theory Store_Fsck
  imports Store_Ops
begin

text \<open>
  \<open>fsck\<close>: what it reports and what a repair deletes, on any store whose backend can list its
  keys, whether or not the store is consistent.
\<close>

locale listing_env =
  store_env E kv ok valid + listing_backend "dp_backend E" kv ok valid
  for E :: "'b deps" and kv :: "'b \<Rightarrow> string \<rightharpoonup> bytes" and ok :: "'b \<Rightarrow> bool"
    and valid :: "string \<Rightarrow> bool"

text \<open>Blobs with the name of a digest that nothing refers to.\<close>

definition strays :: "(string \<rightharpoonup> bytes) \<Rightarrow> (string \<rightharpoonup> chunk_ref) \<Rightarrow> string set" where
  "strays m refs = {k. m k \<noteq> None \<and> is_chunk_digest k \<and> refs k = None}"

definition fsck_result ::
  "bool \<Rightarrow> (string \<rightharpoonup> bytes) \<Rightarrow> ref_count \<Rightarrow> fsck_report \<Rightarrow> (string \<rightharpoonup> bytes) \<Rightarrow> bool" where
  "fsck_result repair m rc rep m' \<longleftrightarrow>
     missing_blobs rep = filter (\<lambda>d. m d = None) (map fst (counts rc)) \<and>
     distinct (orphan_blobs rep) \<and> set (orphan_blobs rep) = strays m (get_ref rc) \<and>
     repaired rep = (if repair then of_nat (length (orphan_blobs rep)) else 0) \<and>
     m' = (if repair then m |` (- strays m (get_ref rc)) else m)"

context listing_env
begin

lemma wp_check_blobs:
  assumes "ok (st_backend s)" and "\<And>d. d \<in> set ds \<Longrightarrow> is_chunk_digest d"
    and Q: "\<And>b. ok b \<Longrightarrow> kv b = kv (st_backend s) \<Longrightarrow>
           Q (filter (\<lambda>d. kv (st_backend s) d = None) ds) (s\<lparr>st_backend := b\<rparr>)"
  shows "wp (fold_act (check_blob E) ds []) s Q"
proof (rule wp_fold_act [where I = "\<lambda>done missing s'. \<exists>b. ok b \<and> kv b = kv (st_backend s) \<and>
      s' = s\<lparr>st_backend := b\<rparr> \<and> missing = filter (\<lambda>d. kv (st_backend s) d = None) done"], goal_cases)
  case 1
  then show ?case using assms(1) by (auto intro!: exI [of _ "st_backend s"])
next
  case (2 pre d todo missing s1)
  then obtain b where b: "ok b" "kv b = kv (st_backend s)" "s1 = s\<lparr>st_backend := b\<rparr>"
      "missing = filter (\<lambda>d. kv (st_backend s) d = None) pre" by blast
  have "is_chunk_digest d" using assms(2) 2(1) by simp
  then show ?case
    unfolding check_blob_def wp_seq wp_on_backend wp_ret
    by (intro wp_exists) (use b in \<open>auto simp: valid_digest\<close>)
next
  case (3 missing s1)
  then show ?case using Q by blast
qed

lemma wp_collect_orphans:
  assumes "ok b"
    and Q: "\<And>keys b'. ok b' \<Longrightarrow> kv b' = kv b \<Longrightarrow> distinct keys \<Longrightarrow>
           set keys = {k. kv b k \<noteq> None \<and> is_chunk_digest k \<and> k \<notin> live} \<Longrightarrow> Q keys b'"
  shows "wp (collect_orphans (dp_backend E) live) b Q"
  unfolding collect_orphans_def wp_seq
  by (rule wp_list_keys [OF assms(1)])
    (use Q in \<open>auto simp: wp_ret starts_with_def dom_def\<close>)

lemma wp_repair_blobs:
  assumes "ok (st_backend s)" and "\<And>d. d \<in> set ds \<Longrightarrow> is_chunk_digest d"
    and Q: "\<And>b. ok b \<Longrightarrow> kv b = kv (st_backend s) |` (- set ds) \<Longrightarrow>
           Q (of_nat (length ds)) (s\<lparr>st_backend := b\<rparr>)"
  shows "wp (fold_act (repair_blob E) ds 0) s Q"
proof (rule wp_fold_act [where I = "\<lambda>done n s'. \<exists>b. ok b \<and> kv b = kv (st_backend s) |` (- set done) \<and>
      s' = s\<lparr>st_backend := b\<rparr> \<and> n = of_nat (length done)"], goal_cases)
  case 1
  then show ?case using assms(1) by (auto intro!: exI [of _ "st_backend s"])
next
  case (2 pre d todo n s1)
  then obtain b where b: "ok b" "kv b = kv (st_backend s) |` (- set pre)" "s1 = s\<lparr>st_backend := b\<rparr>"
      "n = of_nat (length pre)" by blast
  have "is_chunk_digest d" using assms(2) 2(1) by simp
  moreover have "(m |` (- A))(d := None) = m |` (- insert d A)" for m :: "string \<rightharpoonup> bytes" and A
    by (auto simp: fun_eq_iff restrict_map_def)
  ultimately show ?case
    unfolding repair_blob_def wp_seq wp_on_backend wp_ret
    by (intro wp_delete) (use b in \<open>auto simp: valid_digest\<close>)
next
  case (3 n s1)
  then show ?case using Q by blast
qed

lemma wp_fsck:
  assumes ok: "ok (st_backend s)" and un: "\<not> poisoned (st_refcount s)"
    and digs: "\<And>d r. get_ref (guarded (st_refcount s)) d = Some r \<Longrightarrow> is_chunk_digest d"
    and dist: "keys_distinct (counts (guarded (st_refcount s)))"
    and Q: "\<And>rep b. ok b \<Longrightarrow>
           fsck_result repair (kv (st_backend s)) (guarded (st_refcount s)) rep (kv b) \<Longrightarrow>
           Q rep (s\<lparr>st_backend := b\<rparr>)"
  shows "wp (fsck E repair) s Q"
proof -
  let ?rc = "guarded (st_refcount s)" and ?m = "kv (st_backend s)"
  have live: "map fst (rc_iter ?rc) = map fst (counts ?rc)"
    by (simp add: rc_iter_def case_prod_beta')
  have dom: "d \<in> set (map fst (counts ?rc)) \<longleftrightarrow> get_ref ?rc d \<noteq> None" for d
    unfolding set_fst_dom by (simp add: get_ref_def domIff)
  have eta: "s\<lparr>st_refcount := (st_refcount s)\<lparr>guarded := ?rc\<rparr>\<rparr> = s"
    by (cases s; cases "st_refcount s") simp
  show ?thesis
    unfolding fsck_def wp_seq wp_on_refcount wp_const eta live
  proof (rule conjI [OF un], rule wp_check_blobs [OF ok])
    fix d assume "d \<in> set (map fst (counts ?rc))"
    then show "is_chunk_digest d" using dom digs by blast
  next
    fix b1 assume b1: "ok b1" "kv b1 = ?m"
    let ?missing = "filter (\<lambda>d. ?m d = None) (map fst (counts ?rc))"
    show "wp (on_backend (collect_orphans (dp_backend E) (set (map fst (counts ?rc))))) (s\<lparr>st_backend := b1\<rparr>)
      (\<lambda>orphans s'. wp (if repair then fold_act (repair_blob E) orphans 0 else ret 0) s'
         (\<lambda>n s'. wp (ret \<lparr>missing_blobs = ?missing, orphan_blobs = orphans, repaired = n\<rparr>) s' Q))"
      unfolding wp_on_backend
    proof (rule wp_collect_orphans, goal_cases)
      case (2 keys b2)
      then have b2: "ok b2" "kv b2 = ?m" and keys: "distinct keys" "set keys = strays ?m (get_ref ?rc)"
        using b1 dom by (auto simp: strays_def)
      show ?case
      proof (cases repair)
        case True
        have "wp (fold_act (repair_blob E) keys 0) (s\<lparr>st_backend := b2\<rparr>)
            (\<lambda>n s'. Q \<lparr>missing_blobs = ?missing, orphan_blobs = keys, repaired = n\<rparr> s')"
        proof (rule wp_repair_blobs, goal_cases)
          case (3 b3)
          then have "fsck_result repair ?m ?rc
              \<lparr>missing_blobs = ?missing, orphan_blobs = keys, repaired = of_nat (length keys)\<rparr> (kv b3)"
            using True keys b2 by (simp add: fsck_result_def)
          then show ?case using Q 3 by simp
        qed (use b2 keys in \<open>auto simp: strays_def\<close>)
        with True show ?thesis by (simp add: wp_ret)
      next
        case False
        have "fsck_result repair ?m ?rc
            \<lparr>missing_blobs = ?missing, orphan_blobs = keys, repaired = 0\<rparr> (kv b2)"
          using False keys b2 by (simp add: fsck_result_def)
        with False b2 show ?thesis by (simp add: wp_ret Q)
      qed
    qed (use b1 in simp)
  qed
qed

end

text \<open>The invariant sees a backend only through its map.\<close>

lemma store_inv_kv:
  assumes "store_inv E kv ok valid (s\<lparr>st_backend := b\<rparr>)" and "ok b'" and "kv b' = kv b"
  shows "store_inv E kv ok valid (s\<lparr>st_backend := b'\<rparr>)"
  using assms by (simp add: store_inv_def chunk_inv_def unlocked_def)

lemma restrict_map_compl_empty [simp]: "m |` (- {}) = m"
  by (simp add: restrict_map_def)

text \<open>
  Whenever the references, the records and the blobs agree there is nothing to report and
  nothing to repair, whatever the references count.
\<close>

lemma chunk_inv_no_strays:
  assumes inv: "chunk_inv E m M s"
  shows "strays m (get_ref (guarded (st_refcount s))) = {}"
    and "filter (\<lambda>d. m d = None) (map fst (counts (guarded (st_refcount s)))) = []"
proof -
  note I = chunk_invD [OF inv]
  show "strays m (get_ref (guarded (st_refcount s))) = {}"
    using blobs_match_None [OF I(6)] by (auto simp: strays_def)
  have "m d \<noteq> None" if d: "d \<in> set (map fst (counts (guarded (st_refcount s))))" for d
  proof -
    obtain r where r: "get_ref (guarded (st_refcount s)) d = Some r"
      using d unfolding set_fst_dom by (auto simp: get_ref_def)
    then show ?thesis
      using blobs_matchD [OF I(6) disk_refsD(1) [OF I(7) r] r] blob_plain_not_None by metis
  qed
  then show "filter (\<lambda>d. m d = None) (map fst (counts (guarded (st_refcount s)))) = []"
    by (auto simp: filter_empty_conv)
qed

lemma chunk_inv_fsck_clean:
  assumes "chunk_inv E m M s"
    and "fsck_result repair m (guarded (st_refcount s)) rep m'"
  shows "rep = \<lparr>missing_blobs = [], orphan_blobs = [], repaired = 0\<rparr>" and "m' = m"
  using assms(2) chunk_inv_no_strays [OF assms(1)]
  by (auto simp: fsck_result_def split: if_splits)

lemmas fsck_result_clean = chunk_inv_fsck_clean [OF store_invD(5)]

context listing_env
begin

lemma wp_fsck_clean:
  assumes "ok (st_backend s)" and inv: "chunk_inv E (kv (st_backend s)) M s"
    and Q: "\<And>b. ok b \<Longrightarrow> kv b = kv (st_backend s) \<Longrightarrow>
           Q \<lparr>missing_blobs = [], orphan_blobs = [], repaired = 0\<rparr> (s\<lparr>st_backend := b\<rparr>)"
  shows "wp (fsck E repair) s Q"
proof (rule wp_fsck [OF assms(1)], goal_cases)
  case (4 rep b)
  then show ?case using chunk_inv_fsck_clean [OF inv] Q by simp
qed (use chunk_invD [OF inv] disk_refsD(1) in \<open>auto simp: unlocked_def\<close>)

end

end
