(* ===== verification/Store_Trace.thy ===== *)
theory Store_Trace
  imports Store_Ingest Store_Open Store_Fsck
begin

text \<open>
  The abstract specification of a store, a finite map from file ids to bytes, and the
  simulation that any sequence of operations on \<open>ChunkStore\<close>, restarts included, behaves as
  the same sequence on the map.
\<close>

section \<open>Operations, concretely and abstractly\<close>

datatype store_op =
    OpIngest string bytes nat
  | OpIngestCdc string bytes
  | OpRead string
  | OpDelete string
  | OpFsck bool
  | OpReopen

datatype outcome = Digests "string list" | Contents bytes | Report fsck_report | Done

text \<open>Dropping the store and opening its backend again, with the same codec.\<close>

definition reopen :: "'b deps \<Rightarrow> ('b store, unit) act" where
  "reopen E s =
     (case (case st_codec s of None \<Rightarrow> open_store E | Some c \<Rightarrow> open_with_codec E c) (st_backend s) of
        (Ok s', b) \<Rightarrow> (Ok (), s')
      | (Err e, b) \<Rightarrow> (Err e, s\<lparr>st_backend := b\<rparr>)
      | (Panic, b) \<Rightarrow> (Panic, s\<lparr>st_backend := b\<rparr>)
      | (Hang, b) \<Rightarrow> (Hang, s\<lparr>st_backend := b\<rparr>))"

definition as_outcome :: "('a \<Rightarrow> outcome) \<Rightarrow> ('s, 'a) act \<Rightarrow> ('s, outcome) act" where
  "as_outcome f m = seq m (\<lambda>a. ret (f a))"

fun run_op :: "'b deps \<Rightarrow> store_op \<Rightarrow> ('b store, outcome) act" where
  "run_op E (OpIngest f data n) = as_outcome Digests (ingest_fixed E f data n)"
| "run_op E (OpIngestCdc f data) = as_outcome Digests (ingest_cdc E f data)"
| "run_op E (OpRead f) = as_outcome Contents (read E f)"
| "run_op E (OpDelete f) = as_outcome (\<lambda>_. Done) (delete E f)"
| "run_op E (OpFsck repair) = as_outcome Report (fsck E repair)"
| "run_op E OpReopen = as_outcome (\<lambda>_. Done) (reopen E)"

text \<open>The caller sees every outcome and goes on after an error.\<close>

primrec run_ops :: "'b deps \<Rightarrow> store_op list \<Rightarrow> 'b store \<Rightarrow> outcome res list \<times> 'b store" where
  "run_ops E [] s = ([], s)"
| "run_ops E (op # ops) s =
     (case run_op E op s of (r, s1) \<Rightarrow>
        (case run_ops E ops s1 of (rs, s2) \<Rightarrow> (r # rs, s2)))"

text \<open>The specification.\<close>

fun spec_op ::
  "hash_fun \<Rightarrow> fastcdc \<Rightarrow> store_op \<Rightarrow> (string \<rightharpoonup> bytes) \<Rightarrow> outcome res \<times> (string \<rightharpoonup> bytes)" where
  "spec_op sha fcdc (OpIngest f data n) fs =
     (if n = 0 then (Err zero_chunk_size_error, fs)
      else (Ok (Digests (map (digest_hex sha) (fixed_chunks n data))), fs(f \<mapsto> data)))"
| "spec_op sha fcdc (OpIngestCdc f data) fs =
     (case cdc_chunks fcdc data of
        Ok chunks \<Rightarrow> (Ok (Digests (map (digest_hex sha) chunks)), fs(f \<mapsto> data))
      | Err e \<Rightarrow> (Err e, fs) | Panic \<Rightarrow> (Panic, fs) | Hang \<Rightarrow> (Hang, fs))"
| "spec_op sha fcdc (OpRead f) fs =
     (case fs f of None \<Rightarrow> (Err (NotFound (''file '' @ f)), fs) | Some data \<Rightarrow> (Ok (Contents data), fs))"
| "spec_op sha fcdc (OpDelete f) fs =
     (case fs f of None \<Rightarrow> (Err (NotFound (''file '' @ f)), fs) | Some data \<Rightarrow> (Ok Done, fs(f := None)))"
| "spec_op sha fcdc (OpFsck repair) fs =
     (Ok (Report \<lparr>missing_blobs = [], orphan_blobs = [], repaired = 0\<rparr>), fs)"
| "spec_op sha fcdc OpReopen fs = (Ok Done, fs)"

primrec spec_ops ::
  "hash_fun \<Rightarrow> fastcdc \<Rightarrow> store_op list \<Rightarrow> (string \<rightharpoonup> bytes) \<Rightarrow>
     outcome res list \<times> (string \<rightharpoonup> bytes)" where
  "spec_ops sha fcdc [] fs = ([], fs)"
| "spec_ops sha fcdc (op # ops) fs =
     (case spec_op sha fcdc op fs of (r, fs1) \<Rightarrow>
        (case spec_ops sha fcdc ops fs1 of (rs, fs2) \<Rightarrow> (r # rs, fs2)))"

section \<open>Provisos of a sequence\<close>

fun op_chunks :: "fastcdc \<Rightarrow> store_op \<Rightarrow> bytes list" where
  "op_chunks fcdc (OpIngest f data n) = (if n = 0 then [] else fixed_chunks n data)"
| "op_chunks fcdc (OpIngestCdc f data) = (case cdc_chunks fcdc data of Ok cs \<Rightarrow> cs | _ \<Rightarrow> [])"
| "op_chunks fcdc _ = []"

fun op_file_ok :: "(string \<Rightarrow> bool) \<Rightarrow> store_op \<Rightarrow> bool" where
  "op_file_ok valid (OpIngest f data n) = (proper_file_id f \<and> valid (manifest_key f))"
| "op_file_ok valid (OpIngestCdc f data) = (proper_file_id f \<and> valid (manifest_key f))"
| "op_file_ok valid _ = True"

text \<open>
  \<open>U\<close> contains every chunk the store holds or will be given; SHA-256 does not collide on it.
  The remaining budgets keep the 64-bit counters from wrapping.
\<close>

definition within ::
  "'b deps \<Rightarrow> ('b \<Rightarrow> string \<rightharpoonup> bytes) \<Rightarrow> bytes set \<Rightarrow> bytes list \<Rightarrow> 'b store \<Rightarrow> bool" where
  "within E kv U chunks s \<longleftrightarrow>
     stored_plain (st_codec s) (kv (st_backend s)) \<subseteq> U \<and> set chunks \<subseteq> U \<and> fits s chunks"

lemma store_inv_total:
  "store_inv E kv ok valid s \<Longrightarrow>
     unat (total_bytes (guarded (st_stats s))) =
       ref_bytes (plain_len (st_codec s) (kv (st_backend s))) (all_refs (files (guarded (st_manifest s))))"
  using chunk_invD(8) [OF store_invD(5)] by (rule stats_match_total)

lemma ref_bytes_plus [simp]: "ref_bytes len (M + N) = ref_bytes len M + ref_bytes len N"
  by (simp add: ref_bytes_def)

lemma ref_bytes_mono: "(\<And>d. d \<in># M \<Longrightarrow> f d \<le> g d) \<Longrightarrow> ref_bytes f M \<le> ref_bytes g M"
  unfolding ref_bytes_def by (rule sum_mset_mono) auto

lemma ref_bytes_map:
  "(\<And>p. p \<in> set ps \<Longrightarrow> len (dg p) = length p) \<Longrightarrow>
     ref_bytes len (mset (map dg ps)) = length (concat ps)"
  by (induction ps) (simp_all add: ref_bytes_def)

abbreviation store_refs :: "'b store \<Rightarrow> string multiset" where
  "store_refs s \<equiv> all_refs (files (guarded (st_manifest s)))"

abbreviation store_plain ::
  "('b \<Rightarrow> string \<rightharpoonup> bytes) \<Rightarrow> 'b store \<Rightarrow> string \<rightharpoonup> bytes" where
  "store_plain kv s \<equiv> blob_plain (st_codec s) (kv (st_backend s))"

lemma store_inv_stored:
  "store_inv E kv ok valid s \<Longrightarrow>
     stored_plain (st_codec s) (kv (st_backend s)) = {p. \<exists>d. d \<in># store_refs s \<and> store_plain kv s d = Some p}"
  by (rule stored_plain_refs [OF store_invD(5)])

text \<open>A chunk no file refers to is not on the backend.\<close>

lemma store_inv_unreferenced:
  assumes "store_inv E kv ok valid s" and "d \<notin># store_refs s" and "is_chunk_digest d"
  shows "store_plain kv s d = None"
  using chunk_inv_absent(1) [OF store_invD(5) [OF assms(1)] assms(2,3)] by (simp add: blob_plain_def)

lemma store_ref_digest:
  "store_inv E kv ok valid s \<Longrightarrow> d \<in># store_refs s \<Longrightarrow> is_chunk_digest d"
  using chunk_inv_member [OF store_invD(5)] by metis

section \<open>The provisos after each operation\<close>

lemma ingested_refs:
  assumes s: "store_inv E kv ok valid s" and i: "ingested E kv ok valid f chunks s s'"
  shows "\<exists>old. mset (map (digest_hex (dp_sha E)) chunks) + store_refs s = mset old + store_refs s'"
  using replace_refs [of "files (guarded (st_manifest s))" "map (digest_hex (dp_sha E)) chunks" f]
    store_invD(2) [OF s] i
  by (fastforce simp: ingested_def manifest_ok_def)

lemma within_ingested:
  assumes s: "store_inv E kv ok valid s" and i: "ingested E kv ok valid f chunks s s'"
    and w: "within E kv U (chunks @ rest) s"
  shows "within E kv U rest s'"
proof -
  let ?dg = "digest_hex (dp_sha E)"
  have s': "store_inv E kv ok valid s'" and c: "st_codec s' = st_codec s"
    and new: "\<And>p. p \<in> set chunks \<Longrightarrow> store_plain kv s' (?dg p) = Some p"
    and keep: "\<And>d. d \<in># store_refs s \<Longrightarrow> d \<in># store_refs s' \<Longrightarrow> store_plain kv s' d = store_plain kv s d"
    using i by (simp_all add: ingested_def)
  obtain old where refs: "mset (map ?dg chunks) + store_refs s = mset old + store_refs s'"
    using ingested_refs [OF s i] by blast
  have "stored_plain (st_codec s') (kv (st_backend s')) \<subseteq> U"
  proof
    fix p assume "p \<in> stored_plain (st_codec s') (kv (st_backend s'))"
    then obtain d where d: "d \<in># store_refs s'" "store_plain kv s' d = Some p"
      unfolding store_inv_stored [OF s'] by blast
    then have "d \<in> ?dg ` set chunks \<or> d \<in># store_refs s"
      using refs by (metis image_set in_multiset_in_set mset_map set_mset_mset union_iff)
    then show "p \<in> U"
    proof
      assume "d \<in> ?dg ` set chunks"
      then show ?thesis using new d(2) w by (auto simp: within_def)
    next
      assume "d \<in># store_refs s"
      then have "p \<in> stored_plain (st_codec s) (kv (st_backend s))"
        unfolding store_inv_stored [OF s] using keep d by auto
      then show ?thesis using w by (auto simp: within_def)
    qed
  qed
  moreover have "fits s' rest"
  proof -
    let ?len = "plain_len (st_codec s) (kv (st_backend s))"
    let ?len' = "plain_len (st_codec s') (kv (st_backend s'))"
    have "size (store_refs s') \<le> length chunks + size (store_refs s)"
      using arg_cong [OF refs, of size] by simp
    moreover have "ref_bytes ?len' (store_refs s') \<le> length (concat chunks) + ref_bytes ?len (store_refs s)"
    proof -
      have le: "?len' d \<le> ?len d" if d: "d \<in># store_refs s" for d
      proof (cases "d \<in># store_refs s'")
        case True
        then show ?thesis using keep [OF d True] by (simp add: plain_len_def)
      next
        case False
        then show ?thesis
          using store_inv_unreferenced [OF s' False store_ref_digest [OF s d]]
          by (simp add: plain_len_def)
      qed
      have "ref_bytes ?len' (store_refs s') \<le> ref_bytes ?len' (mset (map ?dg chunks) + store_refs s)"
        unfolding refs by simp
      also have "\<dots> = length (concat chunks) + ref_bytes ?len' (store_refs s)"
        using ref_bytes_map [of chunks ?len' ?dg] new by (simp add: plain_len_def)
      also have "\<dots> \<le> length (concat chunks) + ref_bytes ?len (store_refs s)"
        using ref_bytes_mono [OF le] by simp
      finally show ?thesis .
    qed
    ultimately show ?thesis
      using w store_inv_total [OF s] store_inv_total [OF s'] by (simp add: within_def fits_def)
  qed
  ultimately show ?thesis using w by (simp add: within_def)
qed

text \<open>The other operations never add a reference or a plaintext.\<close>

lemma within_shrink:
  assumes s: "store_inv E kv ok valid s" and s': "store_inv E kv ok valid s'"
    and refs: "store_refs s = N + store_refs s'"
    and keep: "\<And>d. d \<in># store_refs s' \<Longrightarrow> store_plain kv s' d = store_plain kv s d"
    and w: "within E kv U rest s"
  shows "within E kv U rest s'"
proof -
  have "stored_plain (st_codec s') (kv (st_backend s')) \<subseteq> stored_plain (st_codec s) (kv (st_backend s))"
    unfolding store_inv_stored [OF s] store_inv_stored [OF s'] refs using keep by auto
  moreover have "ref_bytes (plain_len (st_codec s') (kv (st_backend s'))) (store_refs s') \<le>
      ref_bytes (plain_len (st_codec s) (kv (st_backend s))) (store_refs s)"
    using ref_bytes_mono [of "store_refs s'" "plain_len (st_codec s') (kv (st_backend s'))"
        "plain_len (st_codec s) (kv (st_backend s))"] keep refs
    by (simp add: plain_len_def)
  ultimately show ?thesis
    using w store_inv_total [OF s] store_inv_total [OF s'] refs
    by (simp add: within_def fits_def subset_trans)
qed

section \<open>The simulation\<close>

lemma wp_as_outcome [wp_rules]: "wp (as_outcome f m) s Q = wp m s (\<lambda>a. Q (f a))"
  by (simp add: as_outcome_def wp_seq wp_ret)

lemma contents_Some:
  assumes inv: "store_inv E kv ok valid s" and ds: "try_get (guarded (st_manifest s)) f = Some ds"
  shows "\<exists>out. contents kv s f = Some out"
proof -
  have "\<forall>d \<in> set ds. store_plain kv s d \<noteq> None"
    using chunk_inv_member [OF store_invD(5) [OF inv] file_refs [OF ds]] by (metis option.distinct(1))
  then have "\<exists>ps. those (map (store_plain kv s) ds) = Some ps"
    by (induction ds) auto
  then show ?thesis by (auto simp: contents_def ds assemble_def)
qed

lemma contents_None_iff:
  assumes "store_inv E kv ok valid s"
  shows "contents kv s f = None \<longleftrightarrow> try_get (guarded (st_manifest s)) f = None"
proof (cases "try_get (guarded (st_manifest s)) f")
  case None
  then show ?thesis by (simp add: contents_def)
next
  case (Some ds)
  then show ?thesis using contents_Some [OF assms Some] by auto
qed

lemma within_collision_free:
  assumes "within E kv U (chunks @ rest) s" and "inj_on (dp_sha E) U"
  shows "collision_free E kv s chunks" and "fits s chunks"
  using assms by (auto simp: within_def collision_free_def fits_def elim: inj_on_subset)

text \<open>A change of the backend's own state keeps everything the specification sees.\<close>

lemma same_map_keeps:
  assumes "store_inv E kv ok valid s" and "ok b" and "kv b = kv (st_backend s)"
  shows "store_inv E kv ok valid (s\<lparr>st_backend := b\<rparr>)" and "contents kv (s\<lparr>st_backend := b\<rparr>) = contents kv s"
    and "within E kv U rest s \<Longrightarrow> within E kv U rest (s\<lparr>st_backend := b\<rparr>)"
proof -
  show "store_inv E kv ok valid (s\<lparr>st_backend := b\<rparr>)"
    using store_inv_kv [of E kv ok valid "st_backend s" s b] assms by simp
  show "contents kv (s\<lparr>st_backend := b\<rparr>) = contents kv s"
    by (rule ext) (simp add: contents_def assms(3) cong: option.case_cong)
  show "within E kv U rest s \<Longrightarrow> within E kv U rest (s\<lparr>st_backend := b\<rparr>)"
    using assms(3) by (simp add: within_def fits_def)
qed

text \<open>No stored chunk is empty, so every refcount record carries a size.\<close>

lemma nonempty_sized:
  assumes inv: "store_inv E kv ok valid s" and U: "within E kv U rest s" "[] \<notin> U"
  shows "sized_refs s"
  unfolding sized_refs_def
proof (intro allI impI notI)
  fix d r
  assume r: "get_ref (guarded (st_refcount s)) d = Some r" "cr_size r = 0"
  note S = store_invD(5) [OF inv] note I = chunk_invD [OF S]
  have d: "d \<in># store_refs s" using refs_match_None_iff [OF I(5), of d] r(1) by auto
  then obtain p where p: "store_plain kv s d = Some p" "cr_size r = len64 p"
    using chunk_inv_member [OF S d] r(1) by (metis option.inject)
  have "length p \<le> ref_bytes (plain_len (st_codec s) (kv (st_backend s))) (store_refs s)"
    using p(1) d by (metis multi_member_split le_add2 plain_len_def option.case(2) ref_bytes_add)
  also have "\<dots> < 2 ^ 64" using I(8) by (simp add: stats_match_def)
  finally have "p = []" using r(2) p(2) of_nat_u64_inj [of "length p" 0] by simp
  then have "[] \<in> stored_plain (st_codec s) (kv (st_backend s))"
    unfolding store_inv_stored [OF inv] using d p(1) by auto
  with U show False by (auto simp: within_def)
qed

context store_env
begin

lemma wp_reopen:
  assumes inv: "store_inv E kv ok valid s" and c: "st_codec s = None \<or> sized_refs s"
    and Q: "\<And>s'. store_inv E kv ok valid s' \<Longrightarrow> contents kv s' = contents kv s \<Longrightarrow>
           st_codec s' = st_codec s \<Longrightarrow> store_refs s' = store_refs s \<Longrightarrow>
           (\<And>d. is_chunk_digest d \<Longrightarrow> kv (st_backend s') d = kv (st_backend s) d) \<Longrightarrow>
           get_ref (guarded (st_refcount s')) = get_ref (guarded (st_refcount s)) \<Longrightarrow>
           manifest_view (guarded (st_manifest s')) = manifest_view (guarded (st_manifest s)) \<Longrightarrow>
           guarded (st_stats s') = (guarded (st_stats s))\<lparr>gc_chunks := 0\<rparr> \<Longrightarrow> Q () s'"
  shows "wp (reopen E) s Q"
proof -
  let ?refs = "get_ref (guarded (st_refcount s))" and ?mv = "manifest_view (guarded (st_manifest s))"
  note L = store_inv_loadable [OF inv c]
  have main: "Q () (s'\<lparr>st_codec := st_codec s\<rparr>)"
    if o: "opened E kv ok valid (st_codec s) ?refs ?mv (st_backend s) s'" for s'
  proof -
    let ?s' = "s'\<lparr>st_codec := st_codec s\<rparr>"
    have inv': "store_inv E kv ok valid ?s'" and mv: "manifest_view (guarded (st_manifest s')) = ?mv"
      and out: "same_outside is_refcount_key (kv (st_backend s)) (kv (st_backend s'))"
      and refs: "get_ref (guarded (st_refcount s')) = ?refs" and gc: "gc_chunks (guarded (st_stats s')) = 0"
      using o store_inv_upgraded [OF inv c] by (simp_all add: opened_def)
    have same: "kv (st_backend s') d = kv (st_backend s) d" if "is_chunk_digest d" for d
      using out that by (simp add: same_outside_def)
    have "map_of (files (guarded (st_manifest s'))) = map_of (files (guarded (st_manifest s)))"
      using manifest_view_digests [OF store_invD(2) [OF inv]]
        manifest_view_digests [OF store_invD(2) [OF inv']] mv
      by (simp add: fun_eq_iff try_get_def)
    then have M: "store_refs ?s' = store_refs s"
      using store_invD(2) [OF inv] store_invD(2) [OF inv']
      by (intro all_refs_cong) (simp_all add: manifest_ok_def)
    have len: "plain_len (st_codec s) (kv (st_backend s')) d = plain_len (st_codec s) (kv (st_backend s)) d"
      if "d \<in># store_refs s" for d
      by (intro plain_len_cong blob_plain_cong same store_ref_digest [OF inv that])
    have "total_bytes (guarded (st_stats s')) = total_bytes (guarded (st_stats s))"
        "stored_bytes (guarded (st_stats s')) = stored_bytes (guarded (st_stats s))"
      using chunk_invD(8) [OF store_invD(5) [OF inv]] chunk_invD(8) [OF store_invD(5) [OF inv']] M
        ref_bytes_cong [OF len] unique_bytes_cong [OF len]
      by (simp_all add: stats_match_def)
    then have "guarded (st_stats ?s') = (guarded (st_stats s))\<lparr>gc_chunks := 0\<rparr>"
      using gc by (cases "guarded (st_stats s')"; cases "guarded (st_stats s)") simp
    moreover have "contents kv ?s' = contents kv s"
    proof
      fix f
      have "contents kv ?s' f = (case ?mv f of None \<Rightarrow> None
          | Some (ds, n) \<Rightarrow> assemble (st_codec s) (kv (st_backend s)) ds)"
        by (rule opened_contents [OF L o])
      also have "\<dots> = contents kv s f"
        using manifest_view_digests [OF store_invD(2) [OF inv], of f, symmetric]
        by (auto simp: contents_def split: option.split)
      finally show "contents kv ?s' f = contents kv s f" .
    qed
    ultimately show ?thesis
      using inv' M same refs mv by (intro Q) simp_all
  qed
  have "wp (open_store E) (st_backend s) (\<lambda>s' b. b = st_backend s' \<and>
      opened E kv ok valid (st_codec s) ?refs ?mv (st_backend s) s')"
    by (rule wp_open_store [OF store_invD(1) [OF inv] L]) simp
  then obtain s' where o: "open_store E (st_backend s) = (Ok s', st_backend s')"
      "opened E kv ok valid (st_codec s) ?refs ?mv (st_backend s) s'"
    by (auto simp: wp_iff)
  have "st_codec s' = None" using o(2) by (simp add: opened_def)
  then have "st_codec s = None \<Longrightarrow> s'\<lparr>st_codec := st_codec s\<rparr> = s'" by (cases s') simp
  then show ?thesis
    using main [OF o(2)] o(1)
    by (cases "st_codec s") (simp_all add: wp_iff reopen_def open_with_codec_def seq_def ret_def)
qed

end

text \<open>
  One operation: from related states, the outcome of the specification, and related states
  again, with the provisos of the operations still to come.
\<close>

definition related ::
  "'b deps \<Rightarrow> ('b \<Rightarrow> string \<rightharpoonup> bytes) \<Rightarrow> ('b \<Rightarrow> bool) \<Rightarrow> (string \<Rightarrow> bool) \<Rightarrow>
     bytes set \<Rightarrow> bytes list \<Rightarrow> 'b store \<Rightarrow> (string \<rightharpoonup> bytes) \<Rightarrow> bool" where
  "related E kv ok valid U todo s fs \<longleftrightarrow>
     store_inv E kv ok valid s \<and> contents kv s = fs \<and> within E kv U todo s"

definition refines_op ::
  "'b deps \<Rightarrow> ('b \<Rightarrow> string \<rightharpoonup> bytes) \<Rightarrow> ('b \<Rightarrow> bool) \<Rightarrow> (string \<Rightarrow> bool) \<Rightarrow>
     bytes set \<Rightarrow> bytes list \<Rightarrow> store_op \<Rightarrow> 'b store \<Rightarrow> (string \<rightharpoonup> bytes) \<Rightarrow> bool" where
  "refines_op E kv ok valid U rest op s fs \<longleftrightarrow>
     (\<exists>s'. run_op E op s = (fst (spec_op (dp_sha E) (dp_fastcdc E) op fs), s') \<and>
        related E kv ok valid U rest s' (snd (spec_op (dp_sha E) (dp_fastcdc E) op fs)))"

lemma refines_opI:
  assumes "wp (run_op E op) s (\<lambda>a s'. spec_op (dp_sha E) (dp_fastcdc E) op fs = (Ok a, fs') \<and>
             related E kv ok valid U rest s' fs')"
  shows "refines_op E kv ok valid U rest op s fs"
  using assms by (auto simp: wp_iff refines_op_def)

lemma within_suffix: "within E kv U (chunks @ rest) s \<Longrightarrow> within E kv U rest s"
  by (simp add: within_def fits_def)

context store_env
begin

lemma ingest_refines:
  assumes R: "related E kv ok valid U (chunks @ rest) s fs" and U: "inj_on (dp_sha E) U"
    and f: "proper_file_id f" "valid (manifest_key f)" and data: "concat chunks = data"
    and ne: "[] \<notin> set chunks"
  shows "wp (as_outcome Digests (ingest_chunks E f chunks)) s
           (\<lambda>a s'. a = Digests (map (digest_hex (dp_sha E)) chunks) \<and>
              related E kv ok valid U rest s' (fs(f \<mapsto> data)))"
proof -
  have inv: "store_inv E kv ok valid s" and w: "within E kv U (chunks @ rest) s"
    and fs: "contents kv s = fs" using R by (simp_all add: related_def)
  show ?thesis
    unfolding wp_as_outcome
    by (rule wp_ingest_chunks [OF inv f within_collision_free [OF w U]])
      (use within_ingested [OF inv _ w] fs data ne in \<open>auto simp: related_def ingested_def\<close>)
qed

lemma read_refines:
  assumes R: "related E kv ok valid U rest s fs"
  shows "refines_op E kv ok valid U rest (OpRead f) s fs"
proof (cases "fs f")
  case None
  then have "try_get (guarded (st_manifest s)) f = None" "\<not> poisoned (st_manifest s)"
    using R contents_None_iff [of E kv ok valid s f] chunk_invD(1) [OF store_invD(5), of E kv ok valid s]
    by (auto simp: related_def unlocked_def)
  then have "run_op E (OpRead f) s = (Err (NotFound (''file '' @ f)), s)"
    by (simp add: as_outcome_def seq_def read_missing)
  then show ?thesis using None R by (simp add: refines_op_def)
next
  case (Some data)
  have inv: "store_inv E kv ok valid s" and fs: "contents kv s = fs" and w: "within E kv U rest s"
    using R by (simp_all add: related_def)
  obtain ds where ds: "try_get (guarded (st_manifest s)) f = Some ds"
    using Some fs contents_None_iff [OF inv, of f] by auto
  show ?thesis
  proof (rule refines_opI [where fs' = fs], simp only: run_op.simps wp_as_outcome,
      rule wp_read_file [OF inv ds], goal_cases)
    case (1 out b)
    then show ?case
      using same_map_keeps [OF inv 1(2,3)] Some fs w by (simp add: related_def)
  qed
qed

lemma delete_refines:
  assumes R: "related E kv ok valid U rest s fs"
  shows "refines_op E kv ok valid U rest (OpDelete f) s fs"
proof -
  have inv: "store_inv E kv ok valid s" and fs: "contents kv s = fs" and w: "within E kv U rest s"
    using R by (simp_all add: related_def)
  note none = contents_None_iff [OF inv, of f]
  show ?thesis
  proof (cases "fs f")
    case None
    then have "run_op E (OpDelete f) s = (Err (NotFound (''file '' @ f)), s)"
      using none fs store_invD(2) [OF inv] chunk_invD(1) [OF store_invD(5) [OF inv]]
      by (simp add: as_outcome_def seq_def delete_missing unlocked_def)
    then show ?thesis using None R by (simp add: refines_op_def)
  next
    case (Some data)
    then obtain ds where ds: "try_get (guarded (st_manifest s)) f = Some ds"
      using fs none by auto
    show ?thesis
    proof (rule refines_opI [where fs' = "fs(f := None)"], simp only: run_op.simps wp_as_outcome,
        rule wp_delete_file [OF inv ds])
      fix s' assume d: "deleted E kv ok valid f ds s s'"
      have "within E kv U rest s'"
        by (rule within_shrink [OF inv _ _ _ w, of s' "mset ds"]) (use d in \<open>simp_all add: deleted_def\<close>)
      with d Some fs show "spec_op (dp_sha E) (dp_fastcdc E) (OpDelete f) fs = (Ok Done, fs(f := None)) \<and>
          related E kv ok valid U rest s' (fs(f := None))"
        by (simp add: related_def deleted_def)
    qed
  qed
qed

lemma reopen_refines:
  assumes R: "related E kv ok valid U rest s fs" and U: "[] \<notin> U"
  shows "refines_op E kv ok valid U rest OpReopen s fs"
proof -
  have inv: "store_inv E kv ok valid s" and fs: "contents kv s = fs" and w: "within E kv U rest s"
    using R by (simp_all add: related_def)
  show ?thesis
  proof (rule refines_opI [where fs' = fs], simp only: run_op.simps wp_as_outcome,
      rule wp_reopen [OF inv disjI2 [OF nonempty_sized [OF inv w U]]])
    fix s'
    assume s': "store_inv E kv ok valid s'" "contents kv s' = contents kv s" "st_codec s' = st_codec s"
      "store_refs s' = store_refs s" "\<And>d. is_chunk_digest d \<Longrightarrow> kv (st_backend s') d = kv (st_backend s) d"
    have "within E kv U rest s'"
    proof (rule within_shrink [OF inv s'(1) _ _ w, of "{#}"])
      fix d assume "d \<in># store_refs s'"
      then have "kv (st_backend s') d = kv (st_backend s) d"
        by (intro s'(5) store_ref_digest [OF s'(1)])
      then show "store_plain kv s' d = store_plain kv s d" by (simp add: s'(3) blob_plain_def)
    qed (use s' in simp)
    then show "spec_op (dp_sha E) (dp_fastcdc E) OpReopen fs = (Ok Done, fs) \<and>
        related E kv ok valid U rest s' fs"
      using s' fs by (simp add: related_def)
  qed
qed

lemma run_op_refines_no_fsck:
  assumes R: "related E kv ok valid U (op_chunks (dp_fastcdc E) op @ rest) s fs"
    and U: "inj_on (dp_sha E) U" "[] \<notin> U" and f: "op_file_ok valid op"
    and cdc: "fastcdc_ok (dp_fastcdc E) cdc_config_default" and op: "\<And>repair. op \<noteq> OpFsck repair"
  shows "refines_op E kv ok valid U rest op s fs"
proof (cases op)
  case (OpIngest f data n)
  show ?thesis
  proof (cases "n = 0")
    case True
    have "within E kv U rest s" using R within_suffix by (auto simp: related_def)
    then show ?thesis
      using R True OpIngest
      by (simp add: refines_op_def as_outcome_def seq_def ingest_fixed_zero related_def)
  next
    case False
    have "wp (as_outcome Digests (ingest_chunks E f (fixed_chunks n data))) s
           (\<lambda>a s'. a = Digests (map (digest_hex (dp_sha E)) (fixed_chunks n data)) \<and>
              related E kv ok valid U rest s' (fs(f \<mapsto> data)))"
      by (rule ingest_refines [OF _ U(1)])
        (use R f OpIngest False in \<open>simp_all add: concat_fixed_chunks fixed_chunks_nonempty\<close>)
    then show ?thesis
      by (intro refines_opI [where fs' = "fs(f \<mapsto> data)"])
        (use False OpIngest in \<open>auto simp: ingest_fixed_eq wp_iff\<close>)
  qed
next
  case (OpIngestCdc f data)
  obtain chunks where ch: "cdc_chunks (dp_fastcdc E) data = Ok chunks" "concat chunks = data"
      "[] \<notin> set chunks"
    using cdc_chunks_Ok [OF cdc] by metis
  have "wp (as_outcome Digests (ingest_chunks E f chunks)) s
         (\<lambda>a s'. a = Digests (map (digest_hex (dp_sha E)) chunks) \<and>
            related E kv ok valid U rest s' (fs(f \<mapsto> data)))"
    by (rule ingest_refines [OF _ U(1)]) (use R f OpIngestCdc ch in simp_all)
  then show ?thesis
    by (intro refines_opI [where fs' = "fs(f \<mapsto> data)"])
      (use OpIngestCdc ch in \<open>auto simp: ingest_cdc_eq wp_iff\<close>)
qed (use R U op read_refines delete_refines reopen_refines in simp_all)

end

context listing_env
begin

lemma fsck_refines:
  assumes R: "related E kv ok valid U rest s fs"
  shows "refines_op E kv ok valid U rest (OpFsck repair) s fs"
proof -
  have inv: "store_inv E kv ok valid s" and fs: "contents kv s = fs" and w: "within E kv U rest s"
    using R by (simp_all add: related_def)
  show ?thesis
  proof (rule refines_opI [where fs' = fs], simp only: run_op.simps wp_as_outcome,
      rule wp_fsck_clean [OF store_invD(1,5) [OF inv]], goal_cases)
    case (1 b)
    then show ?case
      using same_map_keeps [OF inv 1] fs w by (simp add: related_def)
  qed
qed

lemma run_op_refines:
  assumes R: "related E kv ok valid U (op_chunks (dp_fastcdc E) op @ rest) s fs"
    and U: "inj_on (dp_sha E) U" "[] \<notin> U" and f: "op_file_ok valid op"
    and cdc: "fastcdc_ok (dp_fastcdc E) cdc_config_default"
  shows "refines_op E kv ok valid U rest op s fs"
proof (cases op)
  case (OpFsck repair)
  then show ?thesis using R fsck_refines by simp
qed (rule run_op_refines_no_fsck [OF assms]; simp)+

lemma run_ops_refines:
  assumes "related E kv ok valid U (concat (map (op_chunks (dp_fastcdc E)) ops)) s fs"
    and "inj_on (dp_sha E) U" and "[] \<notin> U" and "list_all (op_file_ok valid) ops"
    and "fastcdc_ok (dp_fastcdc E) cdc_config_default"
  shows "\<exists>s'. run_ops E ops s = (fst (spec_ops (dp_sha E) (dp_fastcdc E) ops fs), s') \<and>
     related E kv ok valid U [] s' (snd (spec_ops (dp_sha E) (dp_fastcdc E) ops fs))"
  using assms
proof (induction ops arbitrary: s fs)
  case Nil
  then show ?case by simp
next
  case (Cons op ops)
  have "refines_op E kv ok valid U (concat (map (op_chunks (dp_fastcdc E)) ops)) op s fs"
    by (rule run_op_refines) (use Cons.prems in simp_all)
  then obtain s1 where s1: "run_op E op s = (fst (spec_op (dp_sha E) (dp_fastcdc E) op fs), s1)"
      "related E kv ok valid U (concat (map (op_chunks (dp_fastcdc E)) ops)) s1
         (snd (spec_op (dp_sha E) (dp_fastcdc E) op fs))"
    by (auto simp: refines_op_def)
  from Cons.IH [OF s1(2) Cons.prems(2,3) _ Cons.prems(5)] Cons.prems(4) s1(1)
  show ?case by (auto simp: split_def)
qed

end

end
