(* ===== verification/Store_Faults.thy ===== *)
theory Store_Faults
  imports Store_Trace
begin

text \<open>
  What the store does when things are wrong: a backend that returns other bytes than were
  written, and two file ids that the code accepts although it cannot commit them.
\<close>

section \<open>Integrity of what is read\<close>

text \<open>These hold on every backend and in every state: no contract is assumed.\<close>

lemma read_chunk_verified:
  assumes "read_chunk_by_digest E d s = (Ok p, s')"
  shows "digest_hex (dp_sha E) p = d" and "st_manifest s' = st_manifest s"
  using assms
  by (auto simp: read_chunk_by_digest_def seq_def lift_def ok_or_def decode_blob_def ret_def
      on_backend_def zoom_def verify_digest_def Let_def
      split: prod.splits res.splits option.splits if_splits)

lemma read_step_Ok:
  assumes "seq (on_store (read_chunk_by_digest E d)) (\<lambda>chunk. on_writer (vec_write_all chunk)) (out0, s)
             = (Ok u, ws)"
  obtains p s1 where "read_chunk_by_digest E d s = (Ok p, s1)" and "ws = (out0 @ p, s1)"
  using assms
  by (auto simp: seq_def on_store_def on_writer_def zoom_def vec_write_all_def
      split: prod.splits res.splits)

lemma read_loop_verified:
  assumes "for_each ds (\<lambda>digest. seq (on_store (read_chunk_by_digest E digest))
             (\<lambda>chunk. on_writer (vec_write_all chunk))) (out0, s) = (Ok (), (out, s'))"
  shows "\<exists>ps. out = out0 @ concat ps \<and> map (digest_hex (dp_sha E)) ps = ds"
  using assms
proof (induction ds arbitrary: out0 s)
  case Nil
  then show ?case by (simp add: ret_def)
next
  case (Cons d ds)
  then obtain u ws where "seq (on_store (read_chunk_by_digest E d))
          (\<lambda>chunk. on_writer (vec_write_all chunk)) (out0, s) = (Ok u, ws)"
      and rest: "for_each ds (\<lambda>digest. seq (on_store (read_chunk_by_digest E digest))
             (\<lambda>chunk. on_writer (vec_write_all chunk))) ws = (Ok (), (out, s'))"
    unfolding for_each.simps by (blast dest: seq_OkD)
  then obtain p s1 where p: "read_chunk_by_digest E d s = (Ok p, s1)" and ws: "ws = (out0 @ p, s1)"
    by (blast elim: read_step_Ok)
  note rest = rest [unfolded ws]
  obtain ps where "out = (out0 @ p) @ concat ps" "map (digest_hex (dp_sha E)) ps = ds"
    using Cons.IH [OF rest] by blast
  with read_chunk_verified(1) [OF p] show ?case
    by (intro exI [of _ "p # ps"]) simp
qed

lemma digests_for_file_Ok:
  "digests_for_file f s = (Ok ds, s') \<Longrightarrow> try_get (guarded (st_manifest s)) f = Some ds \<and> s' = s"
  by (cases s; cases "st_manifest s")
    (auto simp: digests_for_file_def on_manifest_def zoom_def with_lock_def manifest_get_try_get
      split: if_splits option.splits)

lemma read_verified:
  assumes "read E f s = (Ok out, s')"
  shows "\<exists>ds ps. try_get (guarded (st_manifest s)) f = Some ds \<and>
           map (digest_hex (dp_sha E)) ps = ds \<and> out = concat ps"
proof -
  from assms have "read_to_writer E vec_write_all f ([], s) = (Ok (), (out, s'))"
    by (auto simp: read_def split: prod.splits elim!: bind_res.elims)
  then obtain ds where ds: "on_store (digests_for_file f) ([], s) = (Ok ds, ([], s))"
      "try_get (guarded (st_manifest s)) f = Some ds"
      and loop: "for_each ds (\<lambda>digest. seq (on_store (read_chunk_by_digest E digest))
             (\<lambda>chunk. on_writer (vec_write_all chunk))) ([], s) = (Ok (), (out, s'))"
    unfolding read_to_writer_def
    by (auto dest!: seq_OkD digests_for_file_Ok simp: on_store_def zoom_def split: prod.splits)
  show ?thesis using read_loop_verified [OF loop] ds(2) by auto
qed

text \<open>A blob with the wrong bytes makes the read fail, and names both digests.\<close>

context store_env
begin

lemma read_chunk_corrupted:
  assumes "ok (st_backend s)" and "is_chunk_digest d"
    and "blob_plain (st_codec s) (kv (st_backend s)) d = Some p" and "digest_hex (dp_sha E) p \<noteq> d"
  shows "fst (read_chunk_by_digest E d s) = Err (DigestMismatch d (digest_hex (dp_sha E) p))"
proof -
  obtain raw where raw: "kv (st_backend s) d = Some raw" "decode_opt (st_codec s) raw = Ok p"
    using assms(3) by (auto simp: blob_plain_def split: option.splits)
  obtain b where "be_get (dp_backend E) d (st_backend s) = (Ok (Some raw), b)"
    using get_law [OF assms(1) valid_digest [OF assms(2)]] raw(1) by auto
  then show ?thesis
    using raw(2) assms(4)
    by (simp add: read_chunk_by_digest_def seq_def on_backend_def zoom_def lift_def ok_or_def
        decode_blob_def verify_digest_def)
qed

lemma read_chunk_missing:
  assumes "ok (st_backend s)" and "is_chunk_digest d" and "kv (st_backend s) d = None"
  shows "fst (read_chunk_by_digest E d s) = Err (NotFound (''chunk '' @ d))"
proof -
  obtain b where "be_get (dp_backend E) d (st_backend s) = (Ok None, b)"
    using get_law [OF assms(1) valid_digest [OF assms(2)]] assms(3) by auto
  then show ?thesis
    by (simp add: read_chunk_by_digest_def seq_def on_backend_def zoom_def lift_def ok_or_def)
qed

end

section \<open>File ids that cannot be committed\<close>

text \<open>The store after the chunks of an ingest and before its commit.\<close>

definition chunks_stored ::
  "'b deps \<Rightarrow> ('b \<Rightarrow> string \<rightharpoonup> bytes) \<Rightarrow> ('b \<Rightarrow> bool) \<Rightarrow>
     bytes list \<Rightarrow> 'b store \<Rightarrow> 'b store \<Rightarrow> bool" where
  "chunks_stored E kv ok chunks s s1 \<longleftrightarrow>
     ok (st_backend s1) \<and> st_manifest s1 = st_manifest s \<and> st_codec s1 = st_codec s \<and>
     chunk_inv E (kv (st_backend s1)) (mset (map (digest_hex (dp_sha E)) chunks) + store_refs s) s1 \<and>
     (\<forall>p \<in> set chunks. store_plain kv s1 (digest_hex (dp_sha E) p) = Some p)"

definition index_error :: "string \<Rightarrow> chunk_store_error" where
  "index_error e = BackendError (''invalid index JSON at '' @ MANIFEST_INDEX_KEY @ '': '' @ e)"

lemma commit_empty_id:
  assumes "\<not> poisoned (st_manifest s)"
  shows "commit E [] se s = (Err (InvalidArgument ''file_id cannot be empty''), s)"
  using assms
  by (cases s; cases "st_manifest s")
    (simp add: commit_def seq_def peek_digests_def on_manifest_def zoom_def with_lock_def
      manifest_insert_def)

context store_env
begin

lemma accept_all_stored:
  assumes inv: "store_inv E kv ok valid s" and coll: "collision_free E kv s chunks"
    and fits: "fits s chunks" and ne: "[] \<notin> set chunks"
  obtains se s1 where "fold_act (accept E) chunks session_new s = (Ok se, s1)"
    and "se_digests se = map (digest_hex (dp_sha E)) chunks" and "chunks_stored E kv ok chunks s s1"
proof -
  note S = store_invD [OF inv]
  have "wp (fold_act (accept E) chunks session_new) s (\<lambda>se s1.
      se_digests se = map (digest_hex (dp_sha E)) chunks \<and> chunks_stored E kv ok chunks s s1)"
    by (rule wp_accept_all [OF S(5,1),
          where U = "stored_plain (st_codec s) (kv (st_backend s)) \<union> set chunks"])
      (use coll fits ne in \<open>simp_all add: collision_free_def fits_def chunks_stored_def
        chunk_frame_def session_new_def\<close>)
  then show ?thesis using that by (auto elim: wpE)
qed

lemma ingest_empty_id:
  assumes inv: "store_inv E kv ok valid s" and "collision_free E kv s chunks" and "fits s chunks"
    and "[] \<notin> set chunks"
  obtains s1 where
    "ingest_chunks E [] chunks s = (Err (InvalidArgument ''file_id cannot be empty''), s1)"
    and "chunks_stored E kv ok chunks s s1"
proof -
  obtain se s1 where 1: "fold_act (accept E) chunks session_new s = (Ok se, s1)"
      "chunks_stored E kv ok chunks s s1"
    using accept_all_stored [OF assms] by metis
  have "\<not> poisoned (st_manifest s1)"
    using 1(2) by (auto simp: chunks_stored_def unlocked_def dest: chunk_invD(1))
  then have "commit E [] se s1 = (Err (InvalidArgument ''file_id cannot be empty''), s1)"
    by (rule commit_empty_id)
  then have "ingest_chunks E [] chunks s = (Err (InvalidArgument ''file_id cannot be empty''), s1)"
    by (simp add: ingest_chunks_def seq_Ok [where m = "fold_act (accept E) chunks session_new", OF 1(1)])
  then show ?thesis using 1(2) by (intro that)
qed

text \<open>
  A file called \<^verbatim>\<open>__index__\<close>: its record is written over the index of all files, and
  from then on the index cannot be parsed.
\<close>

lemma read_index_broken:
  assumes "ok b" and "kv b MANIFEST_INDEX_KEY = Some v" and "from_slice_strings (dp_json E) v = Inl e"
  obtains b' where "read_string_list (dp_json E) (dp_backend E) MANIFEST_INDEX_KEY b = (Err (index_error e), b')"
    and "ok b'" and "kv b' = kv b"
proof -
  obtain b' where b': "be_get (dp_backend E) MANIFEST_INDEX_KEY b = (Ok (Some v), b')" "ok b'" "kv b' = kv b"
    using get_law [OF assms(1) valid_manifest_index] assms(2) by auto
  then have "read_string_list (dp_json E) (dp_backend E) MANIFEST_INDEX_KEY b = (Err (index_error e), b')"
    using assms(3) by (simp add: read_string_list_def seq_def lift_def index_error_def)
  then show ?thesis using b' that by blast
qed

lemma save_manifest_index:
  assumes b: "ok b" and typed: "json_typed (dp_json E)" and ds: "list_all is_chunk_digest ds"
  obtains v e b' where "save_manifest (dp_json E) (dp_backend E) ''__index__'' ds n b = (Err (index_error e), b')"
    and "ok b'" and "kv b' = (kv b)(MANIFEST_INDEX_KEY \<mapsto> v)"
    and "from_slice_strings (dp_json E) v = Inl e"
proof -
  obtain v where v: "to_vec_manifest (dp_json E) \<lparr>mr_digests = ds, mr_file_bytes = n\<rparr> = Inr v" "v \<noteq> []"
    using json by (rule json_ok_manifestE)
  then obtain e where e: "from_slice_strings (dp_json E) v = Inl e"
    using typed by (auto simp: json_typed_def)
  have key: "manifest_key ''__index__'' = MANIFEST_INDEX_KEY" by (simp add: manifest_key_eq_index)
  obtain b1 where b1: "be_put (dp_backend E) MANIFEST_INDEX_KEY v b = (Ok (), b1)" "ok b1"
      "kv b1 = (kv b)(MANIFEST_INDEX_KEY \<mapsto> v)"
    using put_law [OF b valid_manifest_index v(2)] by blast
  obtain b2 where b2: "read_string_list (dp_json E) (dp_backend E) MANIFEST_INDEX_KEY b1 =
        (Err (index_error e), b2)" "ok b2" "kv b2 = kv b1"
    using read_index_broken [of b1 v e] b1 e by auto
  have "for_each ds (\<lambda>d. lift (validate_digest d)) b = (Ok (), b)"
    using ds by (induction ds) (simp_all add: ret_def seq_def lift_def validate_digest_cases)
  then have "save_manifest (dp_json E) (dp_backend E) ''__index__'' ds n b = (Err (index_error e), b2)"
    using v(1) b1(1) b2(1) by (simp add: save_manifest_def key seq_def lift_def)
  then show ?thesis using that [of e b2 v] b1 b2 e by simp
qed

lemma open_index_broken:
  assumes "ok b" and "kv b MANIFEST_INDEX_KEY = Some v" and "from_slice_strings (dp_json E) v = Inl e"
  shows "fst (open_store E b) = Err (index_error e)"
proof -
  obtain b' where "read_string_list (dp_json E) (dp_backend E) MANIFEST_INDEX_KEY b = (Err (index_error e), b')"
    using read_index_broken [OF assms] by blast
  then show ?thesis by (simp add: open_store_def load_manifests_def seq_def)
qed

lemma ingest_index_id:
  assumes inv: "store_inv E kv ok valid s" and "collision_free E kv s chunks" and "fits s chunks"
    and typed: "json_typed (dp_json E)" and ne: "[] \<notin> set chunks"
  obtains e s' where "ingest_chunks E ''__index__'' chunks s = (Err (index_error e), s')"
    and "fst (open_store E (st_backend s')) = Err (index_error e)"
proof -
  obtain se s1 where 1: "fold_act (accept E) chunks session_new s = (Ok se, s1)"
      "se_digests se = map (digest_hex (dp_sha E)) chunks" "chunks_stored E kv ok chunks s s1"
    using accept_all_stored [OF assms(1-3) ne] .
  let ?mf = "snd (manifest_insert ''__index__'' (se_digests se) (se_file_bytes se) (guarded (st_manifest s1)))"
  let ?s2 = "s1\<lparr>st_manifest := (st_manifest s1)\<lparr>guarded := ?mf\<rparr>\<rparr>"
  have un: "\<not> poisoned (st_manifest s1)" and ok1: "ok (st_backend s1)"
    using 1(3) by (auto simp: chunks_stored_def unlocked_def dest: chunk_invD(1))
  have digs: "list_all is_chunk_digest (se_digests se)"
    using digest_is_chunk_digest [OF sha] 1(2) by (simp add: list_all_iff)
  obtain v e b where b: "save_manifest (dp_json E) (dp_backend E) ''__index__'' (se_digests se)
        (se_file_bytes se) (st_backend s1) = (Err (index_error e), b)" "ok b"
      "kv b = (kv (st_backend s1))(MANIFEST_INDEX_KEY \<mapsto> v)" "from_slice_strings (dp_json E) v = Inl e"
    using save_manifest_index [OF ok1 typed digs] by metis
  have "commit E ''__index__'' se s1 = (Err (index_error e), ?s2\<lparr>st_backend := b\<rparr>)"
    using un b(1)
    by (cases s1; cases "st_manifest s1")
      (simp add: commit_def seq_def peek_digests_def on_manifest_def zoom_def with_lock_def
        manifest_insert_def on_backend_def)
  then have "ingest_chunks E ''__index__'' chunks s = (Err (index_error e), ?s2\<lparr>st_backend := b\<rparr>)"
    by (simp add: ingest_chunks_def seq_Ok [where m = "fold_act (accept E) chunks session_new", OF 1(1)])
  moreover have "fst (open_store E (st_backend (?s2\<lparr>st_backend := b\<rparr>))) = Err (index_error e)"
    unfolding store_backend_upd_id by (rule open_index_broken [OF b(2) _ b(4)]) (simp add: b(3))
  ultimately show ?thesis by (rule that)
qed

end

end
