(* ===== verification/Store_Accounts.thy ===== *)
theory Store_Accounts
  imports Store_Trace
begin

text \<open>
  What the counters and reference counts of a consistent store say about its files: the
  statistics are exact, a digest's count is its number of occurrences in the manifests, and a
  store with no file holds no blob.
\<close>

lemma ref_bytes_all_refs:
  "ref_bytes len (all_refs al) = sum_list (map (\<lambda>(f, ds). sum_list (map len ds)) al)"
proof -
  have "ref_bytes len (mset ds) = sum_list (map len ds)" for ds :: "string list"
    by (simp add: ref_bytes_def flip: mset_map sum_mset_sum_list)
  then show ?thesis by (induction al) (simp_all add: ref_bytes_def [of len "{#}"] case_prod_beta')
qed

lemma sum_list_over_keys:
  assumes "keys_distinct al" and "\<And>k v. map_of al k = Some v \<Longrightarrow> h (k, v) = g k"
  shows "sum_list (map h al) = (\<Sum>k\<in>dom (map_of al). g k :: nat)"
proof -
  have "map h al = map g (map fst al)"
    using assms by (auto intro!: map_cong [OF refl])
  then show ?thesis
    using assms(1) by (simp only: sum_list_distinct_conv_sum_set set_fst_dom)
qed

lemma those_length:
  "those (map plain ds) = Some ps \<Longrightarrow>
     length (concat ps) = sum_list (map (\<lambda>d. case plain d of None \<Rightarrow> 0 | Some p \<Rightarrow> length p) ds)"
  by (induction ds arbitrary: ps) (auto split: option.splits)

lemma contents_length:
  assumes "try_get (guarded (st_manifest s)) f = Some ds" and "contents kv s f = Some out"
  shows "length out = sum_list (map (plain_len (st_codec s) (kv (st_backend s))) ds)"
  using assms those_length [of "store_plain kv s" ds]
  by (auto simp: contents_def assemble_def plain_len_def [abs_def])

lemma store_total_bytes:
  assumes inv: "store_inv E kv ok valid s"
  shows "unat (total_bytes (guarded (st_stats s))) =
           (\<Sum>f\<in>dom (contents kv s). length (the (contents kv s f)))"
proof -
  let ?al = "files (guarded (st_manifest s))"
  let ?len = "plain_len (st_codec s) (kv (st_backend s))"
  have dist: "keys_distinct ?al" using store_invD(2) [OF inv] by (simp add: manifest_ok_def)
  have dom: "dom (contents kv s) = dom (map_of ?al)"
    by (rule set_eqI) (simp only: domIff contents_None_iff [OF inv] try_get_def)
  have "unat (total_bytes (guarded (st_stats s))) = sum_list (map (\<lambda>(f, ds). sum_list (map ?len ds)) ?al)"
    unfolding store_inv_total [OF inv] by (rule ref_bytes_all_refs)
  also have "\<dots> = (\<Sum>f\<in>dom (map_of ?al). length (the (contents kv s f)))"
  proof (rule sum_list_over_keys [OF dist])
    fix f ds assume "map_of ?al f = Some ds"
    then have ds: "try_get (guarded (st_manifest s)) f = Some ds" by (simp add: try_get_def)
    then obtain out where out: "contents kv s f = Some out" using contents_Some [OF inv] by blast
    with contents_length [OF ds out]
    show "(case (f, ds) of (f, ds) \<Rightarrow> sum_list (map ?len ds)) = length (the (contents kv s f))" by simp
  qed
  finally show ?thesis by (simp add: dom)
qed

lemma store_stored_bytes:
  assumes inv: "store_inv E kv ok valid s"
  shows "unat (stored_bytes (guarded (st_stats s))) =
           (\<Sum>d\<in>{d. is_chunk_digest d \<and> kv (st_backend s) d \<noteq> None}.
              plain_len (st_codec s) (kv (st_backend s)) d)"
proof -
  note S = store_invD(5) [OF inv]
  have "set_mset (store_refs s) = {d. is_chunk_digest d \<and> kv (st_backend s) d \<noteq> None}"
    using chunk_inv_present [OF S] store_ref_digest [OF inv] by blast
  moreover have lt: "unique_bytes (plain_len (st_codec s) (kv (st_backend s))) (store_refs s) < 2 ^ 64"
    by (rule le_less_trans [OF unique_le_ref_bytes])
      (use chunk_invD(8) [OF S] in \<open>simp add: stats_match_def\<close>)
  moreover have "unat (stored_bytes (guarded (st_stats s))) =
      unique_bytes (plain_len (st_codec s) (kv (st_backend s))) (store_refs s)"
    using chunk_invD(8) [OF S] unat_of_nat_u64 [OF lt] by (simp only: stats_match_def)
  ultimately show ?thesis by (simp add: unique_bytes_def)
qed

lemma store_stats_Ok:
  assumes "store_inv E kv ok valid s"
  shows "store_stats s = (Ok (guarded (st_stats s)), s)"
  using chunk_invD(1) [OF store_invD(5) [OF assms]]
  by (cases s; cases "st_stats s") (simp add: unlocked_def store_stats_def on_stats_def zoom_def with_lock_def)

lemma stored_le_total:
  assumes "store_inv E kv ok valid s"
  shows "stored_bytes (guarded (st_stats s)) \<le> total_bytes (guarded (st_stats s))"
proof -
  note M = chunk_invD(8) [OF store_invD(5) [OF assms]]
  let ?len = "plain_len (st_codec s) (kv (st_backend s))" and ?M = "store_refs s"
  have lt: "ref_bytes ?len ?M < 2 ^ 64" using M by (simp add: stats_match_def)
  then have "(of_nat (unique_bytes ?len ?M) :: u64) \<le> of_nat (ref_bytes ?len ?M)"
    using unique_le_ref_bytes [of ?len ?M] by (simp add: word_le_nat_alt unat_of_nat_u64)
  then show ?thesis using M by (simp only: stats_match_def)
qed

lemma store_refcount:
  assumes inv: "store_inv E kv ok valid s"
  shows "fst (chunk_refcount d s) =
           Ok (if d \<in># store_refs s then Some (of_nat (count (store_refs s) d)) else None)"
proof -
  note I = chunk_invD [OF store_invD(5) [OF inv]]
  have "rc_get (guarded (st_refcount s)) d =
      (if d \<in># store_refs s then Some (of_nat (count (store_refs s) d)) else None)"
    using refs_match_None_iff [OF I(5), of d] refs_match_Some [OF I(5), of d]
    by (cases "get_ref (guarded (st_refcount s)) d") (auto simp: rc_get_def get_ref_def)
  then show ?thesis
    using I(1) by (simp add: chunk_refcount_def on_refcount_def zoom_def with_lock_def unlocked_def)
qed

lemma count_all_refs:
  "count (all_refs al) d = sum_list (map (\<lambda>(f, ds). count_list ds d) al)"
proof -
  have "count (mset ds) d = count_list ds d" for ds by (induction ds) simp_all
  then show ?thesis by (induction al) (simp_all add: case_prod_beta')
qed

lemma empty_store_reclaimed:
  assumes inv: "store_inv E kv ok valid s" and empty: "contents kv s = Map.empty"
    and d: "is_chunk_digest d"
  shows "kv (st_backend s) d = None"
    and "total_bytes (guarded (st_stats s)) = 0" and "stored_bytes (guarded (st_stats s)) = 0"
proof -
  have "map_of (files (guarded (st_manifest s))) f = None" for f
    using contents_None_iff [OF inv, of f] empty by (simp add: try_get_def)
  then have "files (guarded (st_manifest s)) = []"
    by (metis map_of_eq_empty_iff ext)
  then have M: "store_refs s = {#}" by simp
  note I = chunk_invD [OF store_invD(5) [OF inv]]
  show "kv (st_backend s) d = None"
    using chunk_inv_present [OF store_invD(5) [OF inv] d] M by simp
  show "total_bytes (guarded (st_stats s)) = 0" and "stored_bytes (guarded (st_stats s)) = 0"
    using I(8) by (simp_all add: M stats_match_def ref_bytes_def unique_bytes_def)
qed

text \<open>A new file made of chunks that are stored already.\<close>

lemma duplicate_ingest:
  assumes sha: "sha_ok (dp_sha E)" and inv: "store_inv E kv ok valid s"
    and new: "contents kv s g = None"
    and dup: "\<forall>p \<in> set chunks. store_plain kv s (digest_hex (dp_sha E) p) = Some p"
    and i: "ingested E kv ok valid g chunks s s'"
  shows "is_chunk_digest d \<Longrightarrow> kv (st_backend s') d = None \<longleftrightarrow> kv (st_backend s) d = None"
    and "stored_bytes (guarded (st_stats s')) = stored_bytes (guarded (st_stats s))"
    and "unat (total_bytes (guarded (st_stats s'))) =
           unat (total_bytes (guarded (st_stats s))) + length (concat chunks)"
proof -
  let ?dg = "digest_hex (dp_sha E)"
  have inv': "store_inv E kv ok valid s'" and c: "st_codec s' = st_codec s"
    and cont: "contents kv s' = (contents kv s)(g \<mapsto> concat chunks)"
    and files: "files (guarded (st_manifest s')) =
        AList.update g (map ?dg chunks) (files (guarded (st_manifest s)))"
    and keep: "\<And>d. d \<in># store_refs s \<Longrightarrow> d \<in># store_refs s' \<Longrightarrow> store_plain kv s' d = store_plain kv s d"
    using i by (simp_all add: ingested_def)
  have refs: "store_refs s' = store_refs s + mset (map ?dg chunks)"
    unfolding files using contents_None_iff [OF inv, of g] new
    by (intro all_refs_update_fresh) (simp add: try_get_def)
  have "?dg p \<in># store_refs s" if "p \<in> set chunks" for p
  proof -
    have "kv (st_backend s) (?dg p) \<noteq> None" using dup that blob_plain_not_None by blast
    then show ?thesis
      using chunk_inv_present [OF store_invD(5) [OF inv] digest_is_chunk_digest [OF sha]] by blast
  qed
  then have set: "set_mset (store_refs s') = set_mset (store_refs s)"
    unfolding refs by auto
  show "kv (st_backend s') d = None \<longleftrightarrow> kv (st_backend s) d = None" if "is_chunk_digest d"
    using chunk_inv_present [OF store_invD(5) [OF inv] that]
      chunk_inv_present [OF store_invD(5) [OF inv'] that] set by blast
  have "plain_len (st_codec s') (kv (st_backend s')) d = plain_len (st_codec s) (kv (st_backend s)) d"
    if "d \<in># store_refs s" for d
    using keep [OF that] that set by (simp add: plain_len_def)
  then have "unique_bytes (plain_len (st_codec s') (kv (st_backend s'))) (store_refs s') =
      unique_bytes (plain_len (st_codec s) (kv (st_backend s))) (store_refs s)"
    unfolding unique_bytes_def set by simp
  then show "stored_bytes (guarded (st_stats s')) = stored_bytes (guarded (st_stats s))"
    using chunk_invD(8) [OF store_invD(5) [OF inv]] chunk_invD(8) [OF store_invD(5) [OF inv']]
    by (simp add: stats_match_def)
  have fin: "finite (dom (contents kv s))"
  proof (rule finite_subset)
    show "dom (contents kv s) \<subseteq> dom (map_of (files (guarded (st_manifest s))))"
      using contents_None_iff [OF inv] by (auto simp: try_get_def dom_def)
  qed (rule finite_dom_map_of)
  have "g \<notin> dom (contents kv s)" using new by (simp add: domIff)
  then have "(\<Sum>f\<in>dom (contents kv s'). length (the (contents kv s' f))) =
      length (concat chunks) + (\<Sum>f\<in>dom (contents kv s). length (the (contents kv s f)))"
    using fin by (simp add: cont) (auto intro!: sum.cong)
  then show "unat (total_bytes (guarded (st_stats s'))) =
      unat (total_bytes (guarded (st_stats s))) + length (concat chunks)"
    using store_total_bytes [OF inv] store_total_bytes [OF inv'] by simp
qed

end
