(* ===== verification/Fs_Backend.thy ===== *)
theory Fs_Backend
  imports Backend Persistence_Laws
begin

text \<open>
  \<^verbatim>\<open>core/src/store/fs_backend.rs\<close>: keys as relative paths under a root directory, each
  value written to a temporary file and renamed into place.

  The file system is a finite map from absolute paths, lists of names, to files and
  directories, with the POSIX behaviour of the \<^verbatim>\<open>std::fs\<close> calls the backend makes; there are
  no symbolic links, the device does not fail, and no name is refused for its length or for a
  NUL byte in it.  The backend is then a \<open>listing_backend\<close> on
  every set of keys whose paths do not run through each other (\<open>key_space\<close>).
\<close>

section \<open>Paths\<close>

datatype component = RootDir | CurDir | ParentDir | Normal string

fun split_slash :: "string \<Rightarrow> string list" where
  "split_slash [] = [[]]"
| "split_slash (c # s) =
     (if c = CHR ''/'' then [] # split_slash s
      else (case split_slash s of [] \<Rightarrow> [[c]] | seg # segs \<Rightarrow> (c # seg) # segs))"

fun join_slash :: "string list \<Rightarrow> string" where
  "join_slash [] = []"
| "join_slash [s] = s"
| "join_slash (s # t # ss) = s @ CHR ''/'' # join_slash (t # ss)"

text \<open>
  \<^verbatim>\<open>Path::components\<close> on Unix: repeated and trailing separators and inner dots
  disappear, a leading dot stays.
\<close>

definition path_components :: "string \<Rightarrow> component list" where
  "path_components s =
     (if take 1 s = ''/'' then [RootDir]
      else if hd (split_slash s) = ''.'' then [CurDir] else []) @
     map (\<lambda>x. if x = ''..'' then ParentDir else Normal x)
       (filter (\<lambda>x. x \<noteq> [] \<and> x \<noteq> ''.'') (split_slash s))"

fun normals :: "component list \<Rightarrow> string list" where
  "normals [] = []"
| "normals (Normal n # cs) = n # normals cs"
| "normals (c # cs) = normals cs"

section \<open>The file system\<close>

datatype node = File bytes | Dir

type_synonym path = "string list"
type_synonym nodes = "(path \<times> node) list"

definition is_file :: "nodes \<Rightarrow> path \<Rightarrow> bool" where
  "is_file ns p = (case map_of ns p of Some (File d) \<Rightarrow> True | _ \<Rightarrow> False)"

definition is_dir :: "nodes \<Rightarrow> path \<Rightarrow> bool" where
  "is_dir ns p \<longleftrightarrow> map_of ns p = Some Dir"

definition path_exists :: "nodes \<Rightarrow> path \<Rightarrow> bool" where
  "path_exists ns p \<longleftrightarrow> map_of ns p \<noteq> None"

definition ancestors :: "path \<Rightarrow> path list" where
  "ancestors p = map (\<lambda>n. take n p) [0..<Suc (length p)]"

definition add_dir :: "path \<Rightarrow> nodes \<Rightarrow> nodes" where
  "add_dir q ns = (case map_of ns q of None \<Rightarrow> AList.update q Dir ns | Some n \<Rightarrow> ns)"

definition create_dir_all :: "path \<Rightarrow> (nodes, unit) act" where
  "create_dir_all p ns =
     (if is_file ns p then (Err (IoError ''File exists (os error 17)''), ns)
      else if list_ex (is_file ns) (ancestors p) then (Err (IoError ''Not a directory (os error 20)''), ns)
      else (Ok (), fold add_dir (ancestors p) ns))"

text \<open>\<^verbatim>\<open>File::create\<close>, \<^verbatim>\<open>write_all\<close> and \<^verbatim>\<open>sync_all\<close> of one new file.\<close>

definition write_file :: "path \<Rightarrow> bytes \<Rightarrow> (nodes, unit) act" where
  "write_file p data ns =
     (if is_dir ns p then (Err (IoError ''Is a directory (os error 21)''), ns)
      else if \<not> is_dir ns (butlast p) then (Err (IoError ''No such file or directory (os error 2)''), ns)
      else (Ok (), AList.update p (File data) ns))"

text \<open>
  A path as the system calls get it: a trailing separator or dot asks for a directory.  Which
  error number a call then fails with is not distinguished.
\<close>

type_synonym os_path = "path \<times> bool"

definition names_dir :: "string \<Rightarrow> bool" where
  "names_dir key \<longleftrightarrow> last (split_slash key) \<in> {[], ''.''}"

definition is_file_at :: "nodes \<Rightarrow> os_path \<Rightarrow> bool" where
  "is_file_at ns path \<longleftrightarrow> \<not> snd path \<and> is_file ns (fst path)"

definition exists_at :: "nodes \<Rightarrow> os_path \<Rightarrow> bool" where
  "exists_at ns path \<longleftrightarrow> (if snd path then is_dir ns (fst path) else path_exists ns (fst path))"

text \<open>\<^verbatim>\<open>fs::rename\<close> of a file.\<close>

definition rename :: "path \<Rightarrow> os_path \<Rightarrow> (nodes, unit) act" where
  "rename src path ns =
     (let dst = fst path in
      if snd path then (Err (IoError ''Not a directory (os error 20)''), ns)
      else if is_dir ns dst then (Err (IoError ''Is a directory (os error 21)''), ns)
      else (case map_of ns src of
              None \<Rightarrow> (Err (IoError ''No such file or directory (os error 2)''), ns)
            | Some n \<Rightarrow> (Ok (), AList.update dst n (AList.delete src ns))))"

definition read_file :: "path \<Rightarrow> (nodes, bytes) act" where
  "read_file p ns =
     (case map_of ns p of
        Some (File d) \<Rightarrow> (Ok d, ns)
      | Some Dir \<Rightarrow> (Err (IoError ''Is a directory (os error 21)''), ns)
      | None \<Rightarrow> (Err (IoError ''No such file or directory (os error 2)''), ns))"

definition remove_file :: "path \<Rightarrow> (nodes, unit) act" where
  "remove_file p ns =
     (case map_of ns p of
        Some (File d) \<Rightarrow> (Ok (), AList.delete p ns)
      | Some Dir \<Rightarrow> (Err (IoError ''Is a directory (os error 21)''), ns)
      | None \<Rightarrow> (Err (IoError ''No such file or directory (os error 2)''), ns))"

text \<open>\<^verbatim>\<open>read_dir\<close>: the paths of the entries, in no particular order.\<close>

definition read_dir :: "nodes \<Rightarrow> path \<Rightarrow> path list" where
  "read_dir ns d = filter (\<lambda>p. p \<noteq> [] \<and> butlast p = d) (map fst ns)"

section \<open>The backend\<close>

text \<open>The tmp counter is the static \<^verbatim>\<open>WRITE_TMP_COUNTER\<close>.\<close>

record fs_backend =
  fb_root :: path
  fb_nodes :: nodes
  fb_tmp_counter :: u64

definition on_fs :: "(nodes, 'a) act \<Rightarrow> (fs_backend, 'a) act" where
  "on_fs m = zoom fb_nodes (\<lambda>ns b. b\<lparr>fb_nodes := ns\<rparr>) m"

text \<open>\<^verbatim>\<open>FsBackend::new\<close> on a file system.\<close>

definition fs_new :: "path \<Rightarrow> u64 \<Rightarrow> (nodes, fs_backend) act" where
  "fs_new root counter =
     seq (create_dir_all root) (\<lambda>_ ns.
       (Ok \<lparr>fb_root = root, fb_nodes = ns, fb_tmp_counter = counter\<rparr>, ns))"

definition key_to_path :: "path \<Rightarrow> string \<Rightarrow> os_path res" where
  "key_to_path root key =
     (if key = [] then Err (InvalidArgument ''key cannot be empty'')
      else if CHR 0x5C \<in> set key then Err (InvalidArgument ''key cannot contain backslashes'')
      else if list_ex (\<lambda>c. case c of Normal n \<Rightarrow> False | CurDir \<Rightarrow> False | _ \<Rightarrow> True) (path_components key)
      then Err (InvalidArgument (''invalid key path component in '' @ key))
      else (let path = root @ normals (path_components key) in
            if take (length root) path \<noteq> root
            then Err (InvalidArgument (''key escapes backend root: '' @ key))
            else Ok (path, names_dir key)))"

definition tmp_name :: "string \<Rightarrow> u64 \<Rightarrow> string" where
  "tmp_name file_name unique = file_name @ ''.'' @ show_nat (unat unique) @ ''.tmp''"

definition write_atomic :: "os_path \<Rightarrow> bytes \<Rightarrow> (fs_backend, unit) act" where
  "write_atomic at data =
     (let path = fst at in
     seq (if path = [] then ret () else on_fs (create_dir_all (butlast path))) (\<lambda>_.
     seq (lift (if path = [] then Err (InvalidArgument ''path has no file name'') else Ok (last path))) (\<lambda>file_name.
     seq (\<lambda>b. (Ok (fb_tmp_counter b), b\<lparr>fb_tmp_counter := fb_tmp_counter b + 1\<rparr>)) (\<lambda>unique.
     let tmp = butlast path @ [tmp_name file_name unique] in
     seq (on_fs (write_file tmp data)) (\<lambda>_.
     on_fs (rename tmp at))))))"

definition fs_path :: "string \<Rightarrow> (fs_backend, os_path) act" where
  "fs_path key b = (key_to_path (fb_root b) key, b)"

definition fs_get :: "string \<Rightarrow> (fs_backend, bytes option) act" where
  "fs_get key =
     seq (fs_path key) (\<lambda>path b.
       if \<not> is_file_at (fb_nodes b) path then (Ok None, b)
       else seq (on_fs (read_file (fst path))) (\<lambda>d. ret (Some d)) b)"

definition fs_put :: "string \<Rightarrow> bytes \<Rightarrow> (fs_backend, unit) act" where
  "fs_put key data = seq (fs_path key) (\<lambda>path. write_atomic path data)"

definition fs_exists :: "string \<Rightarrow> (fs_backend, bool) act" where
  "fs_exists key = seq (fs_path key) (\<lambda>path b. (Ok (exists_at (fb_nodes b) path), b))"

definition fs_delete :: "string \<Rightarrow> (fs_backend, unit) act" where
  "fs_delete key =
     seq (fs_path key) (\<lambda>path b.
       if exists_at (fb_nodes b) path then on_fs (remove_file (fst path)) b else (Ok (), b))"

definition chunk_exists :: "string \<Rightarrow> (fs_backend, bool) act" where
  "chunk_exists digest = seq (fs_path digest) (\<lambda>path b. (Ok (is_file_at (fb_nodes b) path), b))"

text \<open>The root may be gone, or no directory: then \<^verbatim>\<open>read_dir\<close> fails and the \<^verbatim>\<open>?\<close> returns its error.\<close>

definition read_dir_checked :: "path \<Rightarrow> (nodes, path list) act" where
  "read_dir_checked d ns =
     (case map_of ns d of
        Some Dir \<Rightarrow> (Ok (read_dir ns d), ns)
      | Some (File data) \<Rightarrow> (Err (IoError ''Not a directory (os error 20)''), ns)
      | None \<Rightarrow> (Err (IoError ''No such file or directory (os error 2)''), ns))"

definition chunk_blob_count :: "(fs_backend, nat) act" where
  "chunk_blob_count =
     seq (\<lambda>b. on_fs (read_dir_checked (fb_root b)) b) (\<lambda>entries b.
       (Ok (length (filter (\<lambda>p. is_file (fb_nodes b) p \<and> is_chunk_digest (last p)) entries)), b))"

text \<open>
  \<^verbatim>\<open>collect_keys\<close> recurses into the subdirectories; the fuel bounds the depth, and running
  out of it would be a call that does not return.
\<close>

definition rel_key :: "path \<Rightarrow> path \<Rightarrow> string" where
  "rel_key root p = map (\<lambda>c. if c = CHR 0x5C then CHR ''/'' else c) (join_slash (drop (length root) p))"

fun collect_keys :: "nat \<Rightarrow> nodes \<Rightarrow> path \<Rightarrow> path \<Rightarrow> string \<Rightarrow> string list \<Rightarrow> string list res" where
  "collect_keys 0 ns dir root pre out = Hang"
| "collect_keys (Suc n) ns dir root pre out =
     (if \<not> is_dir ns dir then Ok out
      else fold (\<lambda>p r. bind_res r (\<lambda>out.
             if is_dir ns p then collect_keys n ns p root pre out
             else if take (length root) p \<noteq> root then Err (BackendError ''key outside backend root'')
             else Ok (if starts_with (rel_key root p) pre then out @ [rel_key root p] else out)))
           (read_dir ns dir) (Ok out))"

definition max_depth :: "nodes \<Rightarrow> nat" where
  "max_depth ns = fold max (map (length \<circ> fst) ns) 0"

definition fs_list_keys :: "string \<Rightarrow> (fs_backend, string list option) act" where
  "fs_list_keys prefix =
     seq (\<lambda>b. (collect_keys (max_depth (fb_nodes b) + 2) (fb_nodes b) (fb_root b) (fb_root b) prefix [], b))
       (\<lambda>keys. ret (Some keys))"

definition FsBackend :: "fs_backend backend_ops" where
  "FsBackend =
     \<lparr>be_get = fs_get, be_put = fs_put, be_exists = fs_exists, be_delete = fs_delete,
      be_list_keys = fs_list_keys\<rparr>"

section \<open>Keys and their paths\<close>

lemma split_slash_ne [simp]: "split_slash s \<noteq> []"
  by (induction s) (auto split: list.split)

lemma split_slash_length: "0 < length (split_slash s)"
  by simp

lemma join_slash_Cons: "ss \<noteq> [] \<Longrightarrow> join_slash (s # ss) = s @ CHR ''/'' # join_slash ss"
  by (cases ss) simp_all

lemma join_split [simp]: "join_slash (split_slash s) = s"
proof (induction s)
  case (Cons c s)
  obtain seg segs where s: "split_slash s = seg # segs" by (cases "split_slash s") auto
  show ?case
  proof (cases "c = CHR ''/''")
    case True
    then show ?thesis using Cons by (simp add: join_slash_Cons)
  next
    case False
    then show ?thesis using Cons s by (cases segs) simp_all
  qed
qed simp

lemma split_slash_inj [simp]: "split_slash s = split_slash t \<longleftrightarrow> s = t"
  by (metis join_split)

lemma split_no_slash: "CHR ''/'' \<notin> set s \<Longrightarrow> split_slash s = [s]"
  by (induction s) auto

lemma split_append_slash:
  "CHR ''/'' \<notin> set s \<Longrightarrow> split_slash (s @ CHR ''/'' # t) = s # split_slash t"
  by (induction s) auto

lemma hd_split: "take 1 s = ''/'' \<Longrightarrow> hd (split_slash s) = []"
  by (cases s) auto

lemma set_split: "seg \<in> set (split_slash s) \<Longrightarrow> set seg \<subseteq> set s"
proof (induction s arbitrary: seg)
  case (Cons c s)
  then show ?case by (fastforce split: if_splits list.splits)
qed simp

text \<open>A key is canonical when it is the only way to write its path.\<close>

definition plain_name :: "string \<Rightarrow> bool" where
  "plain_name n \<longleftrightarrow> n \<noteq> [] \<and> n \<noteq> ''.'' \<and> n \<noteq> ''..'' \<and> CHR 0x5C \<notin> set n"

definition canonical :: "string \<Rightarrow> bool" where
  "canonical k \<longleftrightarrow> list_all plain_name (split_slash k)"

lemma no_backslash_split:
  "list_all (\<lambda>n. CHR 0x5C \<notin> set n) (split_slash k) \<Longrightarrow> CHR 0x5C \<notin> set k"
  by (induction k) (auto split: if_splits list.splits)

lemma normals_map_Normal [simp]: "normals (map Normal ns) = ns"
  by (induction ns) simp_all

lemma canonical_components:
  assumes "canonical k"
  shows "path_components k = map Normal (split_slash k)" and "\<not> names_dir k"
proof -
  have all: "plain_name n" if "n \<in> set (split_slash k)" for n
    using assms that by (simp add: canonical_def list_all_iff)
  have "plain_name (hd (split_slash k))" by (rule all) simp
  then have "take 1 k \<noteq> ''/''" "hd (split_slash k) \<noteq> ''.''"
    using hd_split [of k] by (auto simp: plain_name_def)
  moreover have "filter (\<lambda>x. x \<noteq> [] \<and> x \<noteq> ''.'') (split_slash k) = split_slash k"
    using all by (auto simp: filter_id_conv plain_name_def)
  moreover have "map (\<lambda>x. if x = ''..'' then ParentDir else Normal x) (split_slash k) =
      map Normal (split_slash k)"
    using all by (auto simp: plain_name_def)
  ultimately show "path_components k = map Normal (split_slash k)"
    by (simp add: path_components_def)
  have "plain_name (last (split_slash k))" by (rule all) simp
  then show "\<not> names_dir k" by (simp add: names_dir_def plain_name_def)
qed

lemma canonical_path: "canonical k \<Longrightarrow> key_to_path root k = Ok (root @ split_slash k, False)"
proof -
  assume c: "canonical k"
  have "list_all plain_name (split_slash k)" using c by (simp add: canonical_def)
  then have "CHR 0x5C \<notin> set k"
    by (intro no_backslash_split) (auto simp: list_all_iff plain_name_def)
  moreover have "k \<noteq> []" using c by (auto simp: canonical_def plain_name_def)
  ultimately show ?thesis
    by (simp add: key_to_path_def canonical_components [OF c] list_ex_iff Let_def)
qed

text \<open>The key read back from a path.\<close>

lemma rel_key_canonical: "canonical k \<Longrightarrow> rel_key root (root @ split_slash k) = k"
proof -
  assume "canonical k"
  then have "CHR 0x5C \<notin> set k"
    by (intro no_backslash_split) (auto simp: canonical_def list_all_iff plain_name_def)
  then have "map (\<lambda>c. if c = CHR 0x5C then CHR ''/'' else c) k = k"
    by (induction k) auto
  then show ?thesis by (simp add: rel_key_def)
qed

section \<open>The tree invariant\<close>

lemma ancestors_iff: "q \<in> set (ancestors p) \<longleftrightarrow> (\<exists>r. p = q @ r)"
proof
  assume "q \<in> set (ancestors p)"
  then have "\<exists>n. q = take n p" by (auto simp: ancestors_def intro: exI [of _ "length p"])
  then show "\<exists>r. p = q @ r" by (metis append_take_drop_id)
next
  assume "\<exists>r. p = q @ r"
  then obtain r where "p = q @ r" ..
  then have "q = take (length q) p" "length q < Suc (length p)" by auto
  then show "q \<in> set (ancestors p)"
    unfolding ancestors_def set_map by (intro image_eqI [of _ _ "length q"]) auto
qed

lemma map_of_fold_add_dir:
  "map_of (fold add_dir qs ns) p =
     (if p \<in> set qs \<and> map_of ns p = None then Some Dir else map_of ns p)"
  by (induction qs arbitrary: ns) (auto simp: add_dir_def split: option.split)

lemma distinct_fold_add_dir: "keys_distinct ns \<Longrightarrow> keys_distinct (fold add_dir qs ns)"
  by (induction qs arbitrary: ns) (auto simp: add_dir_def split: option.split)

text \<open>
  The keys \<open>V\<close> of a store can be laid out as paths when each is canonical, none runs through
  another, and none is the name of a temporary file.
\<close>

definition ends_tmp :: "string \<Rightarrow> bool" where
  "ends_tmp n \<longleftrightarrow> (\<exists>m. n = m @ ''.tmp'')"

locale key_space =
  fixes V :: "string \<Rightarrow> bool"
  assumes canonical: "V k \<Longrightarrow> canonical k"
    and apart: "V k \<Longrightarrow> V k' \<Longrightarrow> split_slash k' = split_slash k @ r \<Longrightarrow> r = []"
    and no_tmp: "V k \<Longrightarrow> n \<in> set (split_slash k) \<Longrightarrow> \<not> ends_tmp n"

definition fs_kv :: "fs_backend \<Rightarrow> string \<rightharpoonup> bytes" where
  "fs_kv b k =
     (if canonical k
      then (case map_of (fb_nodes b) (fb_root b @ split_slash k) of Some (File d) \<Rightarrow> Some d | _ \<Rightarrow> None)
      else None)"

text \<open>
  What is below the root: files at the paths of keys, directories on the way to them; the root
  and everything above it are directories.
\<close>

definition tree_ok :: "(string \<Rightarrow> bool) \<Rightarrow> path \<Rightarrow> nodes \<Rightarrow> bool" where
  "tree_ok V root ns \<longleftrightarrow>
     (\<forall>q \<in> set (ancestors root). map_of ns q = Some Dir) \<and>
     (\<forall>c d. c \<noteq> [] \<longrightarrow> map_of ns (root @ c) = Some (File d) \<longrightarrow> (\<exists>k. V k \<and> c = split_slash k)) \<and>
     (\<forall>c. c \<noteq> [] \<longrightarrow> map_of ns (root @ c) = Some Dir \<longrightarrow>
        (\<exists>k r. V k \<and> r \<noteq> [] \<and> split_slash k = c @ r)) \<and>
     (\<forall>c. c \<noteq> [] \<longrightarrow> map_of ns (root @ c) \<noteq> None \<longrightarrow> map_of ns (root @ butlast c) = Some Dir)"

definition fs_ok :: "(string \<Rightarrow> bool) \<Rightarrow> fs_backend \<Rightarrow> bool" where
  "fs_ok V b \<longleftrightarrow> keys_distinct (fb_nodes b) \<and> tree_ok V (fb_root b) (fb_nodes b)"

lemma tree_okD:
  assumes "tree_ok V root ns"
  shows "q \<in> set (ancestors root) \<Longrightarrow> map_of ns q = Some Dir"
    and "c \<noteq> [] \<Longrightarrow> map_of ns (root @ c) = Some (File d) \<Longrightarrow> \<exists>k. V k \<and> c = split_slash k"
    and "c \<noteq> [] \<Longrightarrow> map_of ns (root @ c) = Some Dir \<Longrightarrow> \<exists>k r. V k \<and> r \<noteq> [] \<and> split_slash k = c @ r"
    and "c \<noteq> [] \<Longrightarrow> map_of ns (root @ c) \<noteq> None \<Longrightarrow> map_of ns (root @ butlast c) = Some Dir"
  using assms unfolding tree_ok_def by blast+

lemma ancestors_append:
  "set (ancestors (root @ c)) = set (ancestors root) \<union> {root @ take n c | n. True}"
proof -
  have "q \<in> set (ancestors (root @ c)) \<longleftrightarrow> q \<in> set (ancestors root) \<or> (\<exists>n. q = root @ take n c)" for q
  proof
    assume "q \<in> set (ancestors (root @ c))"
    then obtain r where r: "root @ c = q @ r" using ancestors_iff by metis
    then obtain us where "root = q @ us \<or> q = root @ us \<and> c = us @ r"
      by (auto simp: append_eq_append_conv2)
    then show "q \<in> set (ancestors root) \<or> (\<exists>n. q = root @ take n c)"
      by (auto simp: ancestors_iff intro: exI [of _ "length us"])
  next
    assume "q \<in> set (ancestors root) \<or> (\<exists>n. q = root @ take n c)"
    moreover have "root @ c = (root @ take n c) @ drop n c" for n by simp
    ultimately show "q \<in> set (ancestors (root @ c))"
      unfolding ancestors_iff by (metis append.assoc)
  qed
  then show ?thesis by blast
qed

context key_space
begin

lemma no_dir:
  assumes "tree_ok V root ns" and "V k"
  shows "map_of ns (root @ split_slash k) \<noteq> Some Dir"
proof
  assume "map_of ns (root @ split_slash k) = Some Dir"
  then obtain k' r where "V k'" "r \<noteq> []" "split_slash k' = split_slash k @ r"
    using tree_okD(3) [OF assms(1), of "split_slash k"] by auto
  then show False using apart [OF assms(2)] by blast
qed

lemma fs_kv_valid:
  assumes "fs_ok V b" and "V k"
  shows "map_of (fb_nodes b) (fb_root b @ split_slash k) = map_option File (fs_kv b k)"
  using no_dir [of "fb_root b" "fb_nodes b" k] canonical [OF assms(2)] assms
  by (auto simp: fs_kv_def fs_ok_def split: option.splits node.splits)

lemma path_valid: "V k \<Longrightarrow> fs_path k b = (Ok (fb_root b @ split_slash k, False), b)"
  by (simp add: fs_path_def canonical_path canonical)

lemma fs_get_law:
  assumes "fs_ok V b" and "V k"
  shows "fs_get k b = (Ok (fs_kv b k), b)"
  using fs_kv_valid [OF assms]
  by (cases "fs_kv b k")
    (simp_all add: fs_get_def seq_def path_valid [OF assms(2)] is_file_at_def is_file_def on_fs_def zoom_def
      read_file_def ret_def)

lemma fs_exists_law:
  assumes "fs_ok V b" and "V k"
  shows "fs_exists k b = (Ok (fs_kv b k \<noteq> None), b)"
  using fs_kv_valid [OF assms]
  by (cases "fs_kv b k")
    (simp_all add: fs_exists_def seq_def path_valid [OF assms(2)] exists_at_def path_exists_def)

text \<open>Removing the file of a key.\<close>

lemma tree_ok_remove:
  assumes ok: "tree_ok V root ns" and k: "V k" and m: "map_of ns' = (map_of ns)(root @ split_slash k := None)"
  shows "tree_ok V root ns'"
proof -
  let ?p = "root @ split_slash k"
  have nodir: "map_of ns ?p \<noteq> Some Dir" by (rule no_dir [OF ok k])
  have p: "?p \<notin> set (ancestors root)" by (auto simp: ancestors_iff)
  have par: "map_of ns' (root @ butlast c) = Some Dir" if "c \<noteq> []" "map_of ns' (root @ c) \<noteq> None" for c
  proof -
    have "map_of ns (root @ butlast c) = Some Dir"
      using tree_okD(4) [OF ok that(1)] that(2) m by (auto split: if_splits)
    then show ?thesis using nodir m by auto
  qed
  show ?thesis
    unfolding tree_ok_def
  proof (intro conjI allI impI ballI)
    fix q assume "q \<in> set (ancestors root)"
    then show "map_of ns' q = Some Dir" using tree_okD(1) [OF ok] p m by auto
  next
    fix c d assume "c \<noteq> []" "map_of ns' (root @ c) = Some (File d)"
    then show "\<exists>k. V k \<and> c = split_slash k" using tree_okD(2) [OF ok] m by (auto split: if_splits)
  next
    fix c assume "c \<noteq> []" "map_of ns' (root @ c) = Some Dir"
    then show "\<exists>k r. V k \<and> r \<noteq> [] \<and> split_slash k = c @ r"
      using tree_okD(3) [OF ok] m by (auto split: if_splits)
  qed (rule par)
qed

lemma fs_delete_law:
  assumes ok: "fs_ok V b" and k: "V k"
  shows "\<exists>b'. fs_delete k b = (Ok (), b') \<and> fs_ok V b' \<and> fs_kv b' = (fs_kv b)(k := None)"
proof (cases "fs_kv b k")
  case None
  then have "fs_delete k b = (Ok (), b)"
    using fs_kv_valid [OF ok k]
    by (simp add: fs_delete_def seq_def path_valid [OF k] exists_at_def path_exists_def)
  then show ?thesis using ok None by (auto simp: fun_eq_iff)
next
  case (Some d)
  let ?p = "fb_root b @ split_slash k"
  let ?b = "b\<lparr>fb_nodes := AList.delete ?p (fb_nodes b)\<rparr>"
  have "fs_delete k b = (Ok (), ?b)"
    using fs_kv_valid [OF ok k] Some
    by (simp add: fs_delete_def seq_def path_valid [OF k] exists_at_def path_exists_def on_fs_def zoom_def
        remove_file_def)
  moreover have "fs_ok V ?b"
    using ok tree_ok_remove [OF _ k, of "fb_root b" "fb_nodes b"] by (simp add: fs_ok_def)
  moreover have "fs_kv ?b = (fs_kv b)(k := None)"
    using canonical [OF k] by (auto simp: fs_kv_def fun_eq_iff)
  ultimately show ?thesis by blast
qed

text \<open>Writing the file of a key: the directories on the way, the temporary file, the rename.\<close>

lemma no_file_above:
  assumes ok: "tree_ok V root ns" and k: "V k" and q: "q \<in> set (ancestors (root @ butlast (split_slash k)))"
  shows "map_of ns q = None \<or> map_of ns q = Some Dir"
proof (cases "q \<in> set (ancestors root)")
  case True
  then show ?thesis using tree_okD(1) [OF ok] by simp
next
  case False
  then obtain n where n: "q = root @ take n (butlast (split_slash k))"
    using q by (auto simp: ancestors_append)
  have "map_of ns q \<noteq> Some (File d)" for d
  proof
    assume "map_of ns q = Some (File d)"
    moreover have "take n (butlast (split_slash k)) \<noteq> []"
      using False by (auto simp: n ancestors_iff)
    ultimately obtain k' where k': "V k'" "take n (butlast (split_slash k)) = split_slash k'"
      using tree_okD(2) [OF ok] n by metis
    have "split_slash k = split_slash k' @ (drop n (butlast (split_slash k)) @ [last (split_slash k)])"
      unfolding k'(2) [symmetric] by (simp flip: append_assoc)
    then show False using apart [OF k'(1) k] by blast
  qed
  then show ?thesis by (cases "map_of ns q") (metis node.exhaust not_Some_eq)+
qed

lemma tree_ok_insert:
  assumes ok: "tree_ok V root ns" and k: "V k"
    and m: "\<And>q. map_of ns' q =
      (if q = root @ split_slash k then Some (File data)
       else if q \<in> set (ancestors (root @ butlast (split_slash k))) \<and> map_of ns q = None then Some Dir
       else map_of ns q)"
  shows "tree_ok V root ns'"
proof -
  let ?c = "split_slash k"
  let ?qs = "set (ancestors (root @ butlast ?c))"
  have c: "?c = butlast ?c @ [last ?c]" by simp
  have p: "root @ ?c \<notin> set (ancestors root)" by (auto simp: ancestors_iff)
  have dir: "map_of ns' q = Some Dir" if "q \<in> ?qs" for q
  proof -
    have "q \<noteq> root @ ?c"
    proof
      assume "q = root @ ?c"
      then have "length ?c \<le> length (butlast ?c)"
        using that by (auto simp: ancestors_iff dest: arg_cong [where f = length])
      then show False using split_slash_length [of k] unfolding length_butlast by linarith
    qed
    then show ?thesis using no_file_above [OF ok k that] that m by auto
  qed
  have keep: "map_of ns' q = Some Dir" if "map_of ns q = Some Dir" for q
    using that no_dir [OF ok k] m [of q] by auto
  have new: "\<exists>r. butlast ?c = c @ r" if "root @ c \<in> ?qs" "c \<noteq> []" for c
    using that by (auto simp: ancestors_iff append_eq_append_conv2)
  show ?thesis
    unfolding tree_ok_def
  proof (intro conjI allI impI ballI)
    fix q assume "q \<in> set (ancestors root)"
    then show "map_of ns' q = Some Dir" by (intro keep tree_okD(1) [OF ok])
  next
    fix c d assume "c \<noteq> []" "map_of ns' (root @ c) = Some (File d)"
    then show "\<exists>k. V k \<and> c = split_slash k"
      using tree_okD(2) [OF ok] k m by (auto split: if_splits)
  next
    fix c assume h: "c \<noteq> []" "map_of ns' (root @ c) = Some Dir"
    show "\<exists>k r. V k \<and> r \<noteq> [] \<and> split_slash k = c @ r"
    proof (cases "root @ c \<in> ?qs")
      case True
      then obtain r where "butlast ?c = c @ r" using new h(1) by blast
      then have "?c = c @ (r @ [last ?c])" by (subst c) simp
      then show ?thesis using k by blast
    next
      case False
      then show ?thesis using h m tree_okD(3) [OF ok h(1)] by (auto split: if_splits)
    qed
  next
    fix c assume h: "c \<noteq> []" "map_of ns' (root @ c) \<noteq> None"
    show "map_of ns' (root @ butlast c) = Some Dir"
    proof (cases "c = ?c \<or> root @ c \<in> ?qs")
      case True
      then have "root @ butlast c \<in> ?qs"
        using new h(1) by (auto simp: ancestors_iff) (metis append.assoc append_butlast_last_id)
      then show ?thesis by (rule dir)
    next
      case False
      then show ?thesis using h m by (intro keep tree_okD(4) [OF ok h(1)]) (auto split: if_splits)
    qed
  qed
qed

lemma fs_kv_insert:
  assumes k: "V k" and "fb_root b' = fb_root b"
    and "\<And>q. map_of (fb_nodes b') q =
      (if q = fb_root b @ split_slash k then Some (File data)
       else if q \<in> set (ancestors (fb_root b @ butlast (split_slash k))) \<and>
               map_of (fb_nodes b) q = None then Some Dir
       else map_of (fb_nodes b) q)"
  shows "fs_kv b' = (fs_kv b)(k \<mapsto> data)"
  using canonical [OF k] assms(2,3) by (auto simp: fs_kv_def fun_eq_iff)

lemma tmp_free:
  assumes ok: "tree_ok V root ns" and t: "ends_tmp t"
  shows "map_of ns (root @ c @ [t]) = None"
proof (rule ccontr)
  assume "map_of ns (root @ c @ [t]) \<noteq> None"
  then obtain n where "map_of ns (root @ (c @ [t])) = Some n" by auto
  then have "\<exists>k. V k \<and> t \<in> set (split_slash k)"
  proof (cases n)
    case (File d)
    then obtain k where k: "V k" "c @ [t] = split_slash k"
      using tree_okD(2) [OF ok, of "c @ [t]" d] \<open>map_of ns _ = Some n\<close> by auto
    have "t \<in> set (c @ [t])" by simp
    then show ?thesis using k by metis
  next
    case Dir
    then obtain k r where k: "V k" "split_slash k = (c @ [t]) @ r"
      using tree_okD(3) [OF ok, of "c @ [t]"] \<open>map_of ns _ = Some n\<close> by auto
    have "t \<in> set ((c @ [t]) @ r)" by simp
    then show ?thesis using k by metis
  qed
  then show False using no_tmp t by blast
qed

lemma tmp_name_tmp: "ends_tmp (tmp_name f u)"
  unfolding ends_tmp_def tmp_name_def by (metis append.assoc)

lemma fs_put_law:
  assumes ok: "fs_ok V b" and k: "V k"
  shows "\<exists>b'. fs_put k data b = (Ok (), b') \<and> fs_ok V b' \<and> fs_kv b' = (fs_kv b)(k \<mapsto> data)"
proof -
  let ?root = "fb_root b" and ?ns = "fb_nodes b" and ?c = "split_slash k"
  let ?p = "?root @ ?c" and ?u = "fb_tmp_counter b"
  let ?qs = "ancestors (?root @ butlast ?c)"
  let ?t = "?root @ butlast ?c @ [tmp_name (last ?c) ?u]"
  have tree: "tree_ok V ?root ?ns" using ok by (simp add: fs_ok_def)
  have bl: "butlast ?p = ?root @ butlast ?c" "last ?p = last ?c" by (simp_all add: butlast_append)
  let ?ns1 = "fold add_dir ?qs ?ns"
  have ns1: "map_of ?ns1 q = (if q \<in> set ?qs \<and> map_of ?ns q = None then Some Dir else map_of ?ns q)" for q
    by (rule map_of_fold_add_dir)
  have nofile: "\<not> is_file ?ns q" if "q \<in> set ?qs" for q
    using no_file_above [OF tree k that] by (auto simp: is_file_def)
  have self: "?root @ butlast ?c \<in> set ?qs" by (auto simp: ancestors_iff)
  have mk: "create_dir_all (butlast ?p) ?ns = (Ok (), ?ns1)"
    using nofile self by (auto simp: create_dir_all_def bl list_ex_iff)
  have t_new: "map_of ?ns ?t = None" by (rule tmp_free [OF tree tmp_name_tmp])
  have t_qs: "?t \<notin> set ?qs" by (auto simp: ancestors_iff dest: arg_cong [where f = length])
  have t1: "map_of ?ns1 ?t = None" using t_new t_qs by (simp add: ns1)
  have par: "map_of ?ns1 (butlast ?t) = Some Dir"
    using no_file_above [OF tree k self] self by (auto simp: ns1 butlast_append)
  let ?ns2 = "AList.update ?t (File data) ?ns1"
  have wr: "write_file ?t data ?ns1 = (Ok (), ?ns2)"
    using t1 par by (simp add: write_file_def is_dir_def)
  have pt: "?p \<noteq> ?t"
  proof
    assume "?p = ?t"
    then have "last ?c = tmp_name (last ?c) ?u" using bl by (metis last_appendR last_snoc not_Cons_self2 snoc_eq_iff_butlast)
    then show False using no_tmp [OF k, of "last ?c"] tmp_name_tmp by (metis last_in_set split_slash_ne)
  qed
  have p_qs: "?p \<notin> set ?qs"
  proof
    assume "?p \<in> set ?qs"
    then have "length ?c \<le> length (butlast ?c)" by (auto simp: ancestors_iff dest: arg_cong [where f = length])
    then show False using split_slash_length [of k] unfolding length_butlast by linarith
  qed
  let ?ns3 = "AList.update ?p (File data) (AList.delete ?t ?ns2)"
  have "map_of ?ns2 ?p \<noteq> Some Dir" using no_dir [OF tree k] p_qs pt by (simp add: ns1)
  then have rn: "rename ?t (?p, False) ?ns2 = (Ok (), ?ns3)"
    by (simp add: rename_def is_dir_def)
  let ?b' = "b\<lparr>fb_nodes := ?ns3, fb_tmp_counter := ?u + 1\<rparr>"
  have m3: "map_of ?ns3 q = (if q = ?p then Some (File data)
       else if q \<in> set ?qs \<and> map_of ?ns q = None then Some Dir else map_of ?ns q)" for q
    using t1 by (auto simp: ns1)
  have "fs_put k data b = (Ok (), ?b')"
    using mk wr rn bl
    by (simp add: fs_put_def write_atomic_def seq_def path_valid [OF k] on_fs_def zoom_def lift_def Let_def)
  moreover have "fs_ok V ?b'"
    using ok tree_ok_insert [OF tree k m3] by (simp add: fs_ok_def distinct_fold_add_dir)
  moreover have "fs_kv ?b' = (fs_kv b)(k \<mapsto> data)"
  proof (rule fs_kv_insert [OF k])
    have "fb_nodes ?b' = ?ns3" by simp
    then show "map_of (fb_nodes ?b') q = (if q = ?p then Some (File data)
       else if q \<in> set ?qs \<and> map_of ?ns q = None then Some Dir else map_of ?ns q)" for q
      using m3 [of q] by (simp only:)
  qed simp
  ultimately show ?thesis by blast
qed

end

section \<open>Listing\<close>

text \<open>The reference: the files below a directory.\<close>

primrec files_below :: "nat \<Rightarrow> nodes \<Rightarrow> path \<Rightarrow> path list" where
  "files_below 0 ns dir = []"
| "files_below (Suc n) ns dir =
     concat (map (\<lambda>p. if is_dir ns p then files_below n ns p else [p]) (read_dir ns dir))"

lemma fold_collect:
  assumes "\<And>p out. p \<in> set ps \<Longrightarrow> step p out = Ok (out @ f p)"
  shows "fold (\<lambda>p r. bind_res r (step p)) ps (Ok out) = Ok (out @ concat (map f ps))"
  using assms by (induction ps arbitrary: out) simp_all

lemma read_dir_iff: "p \<in> set (read_dir ns d) \<longleftrightarrow> p \<noteq> [] \<and> butlast p = d \<and> map_of ns p \<noteq> None"
  by (auto simp: read_dir_def map_of_eq_None_iff)

lemma read_dir_entry: "p \<in> set (read_dir ns d) \<Longrightarrow> p = d @ [last p]"
  by (metis append_butlast_last_id read_dir_iff)

lemma fold_max_start: "m \<le> fold max xs m" for m :: nat
proof (induction xs arbitrary: m)
  case (Cons x xs)
  show ?case using Cons [of "max x m"] by simp
qed simp

lemma fold_max_elem: "x \<in> set xs \<Longrightarrow> x \<le> fold max xs m" for m :: nat
proof (induction xs arbitrary: m)
  case (Cons y xs)
  then show ?case using fold_max_start [of "max y m" xs] by auto
qed simp

lemma max_depth_le: "map_of ns p = Some n \<Longrightarrow> length p \<le> max_depth ns"
  unfolding max_depth_def by (rule fold_max_elem) (force dest: map_of_SomeD)

lemma collect_keys_eq:
  assumes "is_dir ns (root @ c)" and "max_depth ns < n + length (root @ c)"
  shows "collect_keys n ns (root @ c) root pre out =
           Ok (out @ filter (\<lambda>k. starts_with k pre) (map (rel_key root) (files_below n ns (root @ c))))"
  using assms
proof (induction n arbitrary: c out)
  case 0
  then show ?case using max_depth_le [of ns "root @ c"] by (simp add: is_dir_def)
next
  case (Suc n)
  let ?f = "\<lambda>p. if is_dir ns p
      then filter (\<lambda>k. starts_with k pre) (map (rel_key root) (files_below n ns p))
      else filter (\<lambda>k. starts_with k pre) (map (rel_key root) [p])"
  have step: "(if is_dir ns p then collect_keys n ns p root pre out
        else if take (length root) p \<noteq> root then Err (BackendError ''key outside backend root'')
        else Ok (if starts_with (rel_key root p) pre then out @ [rel_key root p] else out)) = Ok (out @ ?f p)"
    if p: "p \<in> set (read_dir ns (root @ c))" for p out
  proof -
    have eq: "p = root @ (c @ [last p])" using read_dir_entry [OF p] by simp
    have len: "length p = Suc (length root + length c)" by (subst eq) simp
    show ?thesis
    proof (cases "is_dir ns p")
      case True
      have "collect_keys n ns p root pre out =
          Ok (out @ filter (\<lambda>k. starts_with k pre) (map (rel_key root) (files_below n ns p)))"
        using Suc.IH [of "c @ [last p]" out, folded eq] True Suc.prems(2) len by simp
      then show ?thesis using True by simp
    next
      case False
      have "take (length root) p = root" by (subst eq) simp
      then show ?thesis using False by simp
    qed
  qed
  have "collect_keys (Suc n) ns (root @ c) root pre out =
      Ok (out @ concat (map ?f (read_dir ns (root @ c))))"
    unfolding collect_keys.simps using Suc.prems(1)
    by (simp only: not_True_eq_False if_False) (rule fold_collect, rule step)
  also have "concat (map ?f (read_dir ns (root @ c))) =
      filter (\<lambda>k. starts_with k pre) (map (rel_key root) (files_below (Suc n) ns (root @ c)))"
    by (simp add: filter_concat map_concat comp_def if_distrib [of "map f" for f] if_distrib [of "filter f" for f])
  finally show ?case .
qed

lemma files_below_extend: "p \<in> set (files_below n ns d) \<Longrightarrow> \<exists>r. r \<noteq> [] \<and> p = d @ r"
proof (induction n arbitrary: d p)
  case (Suc n)
  then obtain e where e: "e \<in> set (read_dir ns d)"
      "p \<in> set (if is_dir ns e then files_below n ns e else [e])" by auto
  have "\<exists>r. p = e @ r" using e(2) Suc.IH [of p e] by (auto split: if_splits)
  then show ?case using read_dir_entry [OF e(1)] by (metis append_assoc append_is_Nil_conv not_Cons_self2)
qed simp

lemma distinct_concat_disjoint:
  assumes "distinct xs" and "\<And>x. x \<in> set xs \<Longrightarrow> distinct (f x)"
    and "\<And>x y. x \<in> set xs \<Longrightarrow> y \<in> set xs \<Longrightarrow> x \<noteq> y \<Longrightarrow> set (f x) \<inter> set (f y) = {}"
  shows "distinct (concat (map f xs))"
  using assms
proof (induction xs)
  case (Cons x xs)
  have "set (f x) \<inter> set (f y) = {}" if "y \<in> set xs" for y
    using Cons.prems(1,3) that by auto
  then have "set (f x) \<inter> set (concat (map f xs)) = {}" by auto
  then show ?case using Cons by simp
qed simp

lemma files_below_disjoint:
  assumes "p \<in> set (read_dir ns d)" and "q \<in> set (read_dir ns d)"
    and "x \<in> set (if is_dir ns p then files_below n ns p else [p])"
    and "x \<in> set (if is_dir ns q then files_below n ns q else [q])"
  shows "p = q"
proof -
  have below: "\<exists>r. x = e @ r" if "x \<in> set (if is_dir ns e then files_below n ns e else [e])" for e
    using that files_below_extend [of x n ns e] by (auto split: if_splits)
  obtain r r' where "p @ r = q @ r'" using below [OF assms(3)] below [OF assms(4)] by metis
  moreover have "length p = length q"
    using read_dir_entry [OF assms(1)] read_dir_entry [OF assms(2)] by (metis length_append_singleton)
  ultimately show ?thesis by simp
qed

lemma distinct_files_below:
  assumes "keys_distinct ns"
  shows "distinct (files_below n ns d)"
proof (induction n arbitrary: d)
  case (Suc n)
  have "distinct (read_dir ns d)" using assms by (simp add: read_dir_def)
  then show ?case
    unfolding files_below.simps
  proof (rule distinct_concat_disjoint)
    show "distinct (if is_dir ns p then files_below n ns p else [p])" for p using Suc.IH by simp
    show "set (if is_dir ns p then files_below n ns p else [p]) \<inter>
        set (if is_dir ns q then files_below n ns q else [q]) = {}"
      if "p \<in> set (read_dir ns d)" "q \<in> set (read_dir ns d)" "p \<noteq> q" for p q
      using files_below_disjoint [OF that(1,2)] that(3) by blast
  qed
qed simp

lemma files_below_file: "p \<in> set (files_below n ns d) \<Longrightarrow> map_of ns p \<noteq> None \<and> \<not> is_dir ns p"
proof (induction n arbitrary: d)
  case (Suc n)
  then obtain e where e: "e \<in> set (read_dir ns d)"
      "p \<in> set (if is_dir ns e then files_below n ns e else [e])" by auto
  then show ?case using Suc.IH [of e] read_dir_iff [of e ns d] by (auto split: if_splits)
qed simp

lemma tree_ok_above:
  assumes "tree_ok V root ns" and "r \<noteq> []" and "map_of ns (root @ c @ r) \<noteq> None"
  shows "is_dir ns (root @ c)"
  using assms(2,3)
proof (induction r rule: rev_induct)
  case (snoc x r)
  have "map_of ns (root @ c @ r) = Some Dir"
    using tree_okD(4) [OF assms(1), of "c @ r @ [x]"] snoc.prems by (simp add: butlast_append)
  then show ?case using snoc.IH by (cases "r = []") (simp_all add: is_dir_def)
qed simp

lemma files_below_all:
  assumes "tree_ok V root ns" and "max_depth ns < n + length (root @ c)"
    and "r \<noteq> []" and "map_of ns (root @ c @ r) = Some (File d)"
  shows "root @ c @ r \<in> set (files_below n ns (root @ c))"
  using assms(2-)
proof (induction n arbitrary: c r)
  case 0
  then show ?case using max_depth_le [OF 0(3)] by simp
next
  case (Suc n)
  obtain x r' where r: "r = x # r'" using Suc.prems(2) by (cases r) auto
  let ?e = "root @ c @ [x]"
  have e: "map_of ns ?e \<noteq> None \<and> is_dir ns ?e = (r' \<noteq> [])"
    using tree_ok_above [OF assms(1), of r' "c @ [x]"] Suc.prems(3) r
    by (cases "r' = []") (auto simp: is_dir_def)
  then have "?e \<in> set (read_dir ns (root @ c))" by (simp add: read_dir_iff butlast_append)
  moreover have "root @ c @ r \<in> set (if is_dir ns ?e then files_below n ns ?e else [?e])"
    using Suc.IH [of "c @ [x]" r'] Suc.prems r e by (cases "r' = []") auto
  ultimately show ?case by (simp only: files_below.simps set_concat set_map) blast
qed

context key_space
begin

lemma fs_list_law:
  assumes ok: "fs_ok V b"
  shows "\<exists>ks. fs_list_keys pre b = (Ok (Some ks), b) \<and> distinct ks \<and>
     set ks = {k \<in> dom (fs_kv b). starts_with k pre}"
proof -
  let ?ns = "fb_nodes b" and ?root = "fb_root b"
  obtain n where n: "n = max_depth ?ns + 2" by simp
  let ?ps = "files_below n ?ns ?root"
  let ?ks = "filter (\<lambda>k. starts_with k pre) (map (rel_key ?root) ?ps)"
  have tree: "tree_ok V ?root ?ns" and dist: "keys_distinct ?ns" using ok by (simp_all add: fs_ok_def)
  have "is_dir ?ns (?root @ [])"
    using tree_okD(1) [OF tree, of ?root] by (simp add: is_dir_def ancestors_iff)
  then have run: "fs_list_keys pre b = (Ok (Some ?ks), b)"
    using collect_keys_eq [of ?ns ?root "[]" n pre "[]"]
    by (simp add: fs_list_keys_def seq_def ret_def n del: collect_keys.simps files_below.simps)
  have path: "\<exists>k d. V k \<and> p = ?root @ split_slash k \<and> map_of ?ns p = Some (File d)"
    if "p \<in> set ?ps" for p
  proof -
    obtain r where r: "r \<noteq> []" "p = ?root @ r" using files_below_extend [OF \<open>p \<in> set ?ps\<close>] by blast
    obtain d where d: "map_of ?ns p = Some (File d)"
      using files_below_file [OF \<open>p \<in> set ?ps\<close>] by (metis is_dir_def node.exhaust not_Some_eq)
    then show ?thesis using tree_okD(2) [OF tree r(1), of d] r(2) by auto
  qed
  have file_in: "?root @ split_slash k \<in> set ?ps" if "map_of ?ns (?root @ split_slash k) = Some (File d)" for k d
    using files_below_all [OF tree, of n "[]" "split_slash k" d] that by (simp add: n)
  have key: "rel_key ?root (?root @ split_slash k) = k" if "V k" for k
    using rel_key_canonical canonical that by simp
  have "inj_on (rel_key ?root) (set ?ps)"
    by (rule inj_onI) (metis path key)
  then have "distinct ?ks" using distinct_files_below [OF dist] by (simp add: distinct_map)
  moreover have "k \<in> set (map (rel_key ?root) ?ps) \<longleftrightarrow> k \<in> dom (fs_kv b)" for k
  proof
    assume "k \<in> set (map (rel_key ?root) ?ps)"
    then obtain p where p: "p \<in> set ?ps" "k = rel_key ?root p" by auto
    then obtain k' d where k': "V k'" "p = ?root @ split_slash k'" "map_of ?ns p = Some (File d)"
      using path by blast
    then have "k = k'" using p key by simp
    then show "k \<in> dom (fs_kv b)" using fs_kv_valid [OF ok k'(1)] k' by auto
  next
    assume "k \<in> dom (fs_kv b)"
    then obtain d where d: "map_of ?ns (?root @ split_slash k) = Some (File d)" and c: "canonical k"
      by (auto simp: fs_kv_def split: if_splits option.splits node.splits)
    have "?root @ split_slash k \<in> set ?ps" by (rule file_in [OF d])
    then show "k \<in> set (map (rel_key ?root) ?ps)"
      unfolding set_map using rel_key_canonical [OF c, of ?root] by (metis imageI)
  qed
  then have "set ?ks = {k \<in> dom (fs_kv b). starts_with k pre}" by auto
  ultimately show ?thesis using run by blast
qed

end

end
