(* ===== verification/Fs_Store.thy ===== *)
theory Fs_Store
  imports Fs_Backend Store_Trace
begin

text \<open>
  The store on \<^verbatim>\<open>FsBackend\<close>: which file ids can be kept side by side on a file system
  (\<open>file_space\<close>), that the keys of such a store are then a \<open>key_space\<close>, so that
  \<^verbatim>\<open>FsBackend\<close> meets the contract of \<open>listing_backend\<close> and \<open>store_backend\<close> on them,
  and what happens to the keys outside it: rejected, aliased or in each other's way.
\<close>

sublocale key_space \<subseteq> fs: listing_backend FsBackend fs_kv "fs_ok V" V
proof (unfold_locales, goal_cases)
  case (1 b k)
  then show ?case by (simp add: FsBackend_def fs_get_law)
next
  case (2 b k v)
  then show ?case using fs_put_law by (simp add: FsBackend_def)
next
  case (3 b k)
  then show ?case by (simp add: FsBackend_def fs_exists_law)
next
  case (4 b k)
  then show ?case using fs_delete_law by (simp add: FsBackend_def)
next
  case (5 b prefix)
  then show ?case using fs_list_law [of b prefix] by (auto simp: FsBackend_def)
qed

section \<open>The keys of a store\<close>

text \<open>File ids that can be laid out beside each other below the manifest directory.\<close>

locale file_space =
  fixes F :: "string \<Rightarrow> bool"
  assumes id_canonical: "F f \<Longrightarrow> canonical f"
    and id_apart: "F f \<Longrightarrow> F f' \<Longrightarrow> split_slash f' = split_slash f @ r \<Longrightarrow> r = []"
    and id_not_index: "F f \<Longrightarrow> hd (split_slash f) \<noteq> ''__index__''"
    and id_no_tmp: "F f \<Longrightarrow> n \<in> set (split_slash f) \<Longrightarrow> \<not> ends_tmp n"

definition fs_keys :: "(string \<Rightarrow> bool) \<Rightarrow> string \<Rightarrow> bool" where
  "fs_keys F k \<longleftrightarrow>
     is_chunk_digest k \<or> (\<exists>d. is_chunk_digest d \<and> k = refcount_key d) \<or>
     k = REFCOUNT_INDEX_KEY \<or> k = MANIFEST_INDEX_KEY \<or> (\<exists>f. F f \<and> k = manifest_key f)"

lemma digest_chars: "is_chunk_digest d \<Longrightarrow> c \<in> set d \<Longrightarrow> is_ascii_hexdigit c"
  by (simp add: is_chunk_digest_def list_all_iff)

lemma digest_not_in:
  "is_chunk_digest d \<Longrightarrow> \<not> is_ascii_hexdigit c \<Longrightarrow> c \<notin> set d"
  using digest_chars by blast

lemma digest_split [simp]: "is_chunk_digest d \<Longrightarrow> split_slash d = [d]"
  by (rule split_no_slash, rule digest_not_in) (simp_all add: is_ascii_hexdigit_def)

lemma digest_plain [simp]: "is_chunk_digest d \<Longrightarrow> plain_name d"
  using digest_not_in [of d "CHR 0x5C"] digest_not_in [of d "CHR ''.''"]
  by (auto simp: plain_name_def is_ascii_hexdigit_def chunk_digest_Nil)

lemma digest_not_tmp [simp]: "is_chunk_digest d \<Longrightarrow> \<not> ends_tmp d"
  using digest_not_in [of d "CHR ''.''"] by (auto simp: ends_tmp_def is_ascii_hexdigit_def)

lemma key_splits [simp]:
  "split_slash (manifest_key f) = ''_manifest'' # split_slash f"
  "split_slash (refcount_key d) = ''_refcount'' # split_slash d"
  "split_slash MANIFEST_INDEX_KEY = [''_manifest'', ''__index__'']"
  "split_slash REFCOUNT_INDEX_KEY = [''_refcount'', ''__index__'']"
  by (simp_all add: key_defs)

lemma fixed_names [simp]:
  "plain_name ''_manifest''" "plain_name ''_refcount''" "plain_name ''__index__''"
  "\<not> is_chunk_digest ''_manifest''" "\<not> is_chunk_digest ''_refcount''"
  "\<not> is_chunk_digest ''__index__''"
  "\<not> ends_tmp ''_manifest''" "\<not> ends_tmp ''_refcount''" "\<not> ends_tmp ''__index__''"
  by (auto simp: plain_name_def is_chunk_digest_def ends_tmp_def dest: arg_cong [where f = last])

text \<open>The names on the path of a key, by the kind of the key.\<close>

lemma fs_keys_cases:
  assumes "fs_keys F k"
  obtains (digest) "is_chunk_digest k" "split_slash k = [k]"
  | (refcount) d where "is_chunk_digest d" "split_slash k = [''_refcount'', d]"
  | (refcount_index) "split_slash k = [''_refcount'', ''__index__'']"
  | (manifest_index) "split_slash k = [''_manifest'', ''__index__'']"
  | (manifest) f where "F f" "split_slash k = ''_manifest'' # split_slash f"
  using assms unfolding fs_keys_def by auto

context file_space
begin

lemma fs_key_names:
  assumes "fs_keys F k" and "n \<in> set (split_slash k)"
  shows "plain_name n \<and> \<not> ends_tmp n"
  using assms(1)
proof (cases rule: fs_keys_cases)
  case (manifest f)
  then show ?thesis
    using assms(2) id_canonical [of f] id_no_tmp [of f n] by (auto simp: canonical_def list_all_iff)
qed (use assms(2) in auto)

lemma fs_keys_apart:
  assumes "fs_keys F k" and "fs_keys F k'" and "split_slash k' = split_slash k @ r"
  shows "r = []"
  using assms(1)
proof (cases rule: fs_keys_cases)
  case (manifest f)
  from assms(2) show ?thesis
  proof (cases rule: fs_keys_cases)
    case (manifest f')
    then show ?thesis using assms(3) \<open>F f\<close> \<open>split_slash k = _\<close> id_apart by auto
  next
    case manifest_index
    then have "[''__index__''] = split_slash f @ r"
      using assms(3) \<open>split_slash k = _\<close> by simp
    then show ?thesis using id_not_index [OF \<open>F f\<close>] split_slash_ne [of f]
      by (cases "split_slash f") auto
  qed (use assms(3) \<open>split_slash k = _\<close> in auto)
next
  case manifest_index
  from assms(2) show ?thesis
  proof (cases rule: fs_keys_cases)
    case (manifest f)
    then have "split_slash f = ''__index__'' # r" using assms(3) \<open>split_slash k = _\<close> by simp
    then show ?thesis using id_not_index [OF \<open>F f\<close>] by simp
  qed (use assms(3) \<open>split_slash k = _\<close> in auto)
next
  case digest
  from assms(2) show ?thesis
    by (cases rule: fs_keys_cases) (use assms(3) digest in auto)
next
  case (refcount d)
  from assms(2) show ?thesis
    by (cases rule: fs_keys_cases) (use assms(3) refcount in auto)
next
  case refcount_index
  from assms(2) show ?thesis
    by (cases rule: fs_keys_cases) (use assms(3) refcount_index in auto)
qed

end

sublocale file_space \<subseteq> ks: key_space "fs_keys F"
proof
  show "canonical k" if "fs_keys F k" for k
    using fs_key_names [OF that] by (auto simp: canonical_def list_all_iff)
qed (use fs_keys_apart fs_key_names in blast)+

sublocale file_space \<subseteq> st: store_backend FsBackend fs_kv "fs_ok (fs_keys F)" "fs_keys F"
  by unfold_locales (auto simp: fs_keys_def)

text \<open>Names without a separator, and not of the form of a temporary file.\<close>

definition flat_id :: "string \<Rightarrow> bool" where
  "flat_id f \<longleftrightarrow> plain_name f \<and> CHR ''/'' \<notin> set f \<and> f \<noteq> ''__index__'' \<and>
     drop (length f - 4) f \<noteq> ''.tmp''"

lemma flat_id_split: "flat_id f \<Longrightarrow> split_slash f = [f]"
  by (simp add: flat_id_def split_no_slash)

interpretation flat: file_space flat_id
proof
  show "canonical f" if "flat_id f" for f
    using that by (simp add: canonical_def flat_id_split) (simp add: flat_id_def)
  show "\<not> ends_tmp n" if "flat_id f" "n \<in> set (split_slash f)" for f n
    using that by (auto simp: flat_id_split) (auto simp: flat_id_def ends_tmp_def)
qed (auto simp: flat_id_split flat_id_def)

section \<open>A fresh directory\<close>

text \<open>\<^verbatim>\<open>FsBackend::new\<close> on a root below which nothing exists.\<close>

lemma fs_new_empty:
  assumes "fs_new root c ns = (Ok b, ns')" and "keys_distinct ns"
    and "\<forall>p. p \<noteq> [] \<longrightarrow> map_of ns (root @ p) = None"
  shows "fs_ok V b \<and> fs_kv b = Map.empty"
proof -
  have mk: "create_dir_all root ns = (Ok (), ns')" and b: "b = \<lparr>fb_root = root, fb_nodes = ns', fb_tmp_counter = c\<rparr>"
    using assms(1) by (auto simp: fs_new_def seq_def split: prod.splits res.splits)
  then have nofile: "\<not> is_file ns q" if "q \<in> set (ancestors root)" for q
    using that by (auto simp: create_dir_all_def list_ex_iff split: if_splits)
  have ns': "ns' = fold add_dir (ancestors root) ns"
    using mk by (auto simp: create_dir_all_def split: if_splits)
  have above: "map_of ns' q = Some Dir" if "q \<in> set (ancestors root)" for q
    using nofile [OF that] that
    by (auto simp: ns' map_of_fold_add_dir is_file_def split: option.splits node.splits)
  have below: "map_of ns' (root @ p) = None" if "p \<noteq> []" for p
    using assms(3) that by (auto simp: ns' map_of_fold_add_dir ancestors_iff)
  have "tree_ok V root ns'"
    using above below by (auto simp: tree_ok_def)
  moreover have "fs_kv b = Map.empty"
    using below by (auto simp: fs_kv_def b fun_eq_iff)
  ultimately show ?thesis
    using assms(2) by (simp add: fs_ok_def b ns' distinct_fold_add_dir)
qed

section \<open>Opening an empty backend\<close>

lemma loadable_empty:
  assumes "kv b = Map.empty"
  shows "loadable E (kv b) valid None Map.empty Map.empty"
  unfolding loadable_def assms
  by (auto simp: disk_refs_empty disk_manifests_empty refs_match_def blobs_match_def ref_bytes_def
      upgraded_def intro!: exI [of _ "[]"])

context store_env
begin

lemma open_empty:
  assumes ok: "ok b" and kv: "kv b = Map.empty"
  obtains s where "open_store E b = (Ok s, st_backend s)" and "store_inv E kv ok valid s"
    and "contents kv s = Map.empty" and "stored_plain (st_codec s) (kv (st_backend s)) = {}"
    and "\<And>chunks. fits s chunks \<longleftrightarrow> length chunks < 2 ^ 64 \<and> length (concat chunks) < 2 ^ 64"
proof -
  note L = loadable_empty [of kv b E valid, OF kv]
  have "wp (open_store E) b (\<lambda>s b'. opened E kv ok valid None Map.empty Map.empty b s \<and> b' = st_backend s)"
    by (rule wp_open_store [OF ok L]) simp
  then obtain s where s: "open_store E b = (Ok s, st_backend s)"
      "opened E kv ok valid None Map.empty Map.empty b s"
    by (auto simp: wp_iff)
  have c: "st_codec s = None" and inv': "store_inv E kv ok valid (s\<lparr>st_codec := None\<rparr>)"
    and mv: "manifest_view (guarded (st_manifest s)) = Map.empty"
    using s(2) by (simp_all add: opened_def)
  have same: "s\<lparr>st_codec := None\<rparr> = s" using c by simp
  have inv: "store_inv E kv ok valid s" using inv' by (simp only: same)
  have fs: "contents kv s = Map.empty"
    using opened_contents [of E kv b valid None Map.empty Map.empty ok s, OF L s(2)]
    by (simp add: same fun_eq_iff)
  have "try_get (guarded (st_manifest s)) f = None" for f
    using manifest_view_digests [OF store_invD(2) [OF inv], of f] mv by simp
  then have "map_of (files (guarded (st_manifest s))) = Map.empty"
    by (simp add: try_get_def fun_eq_iff)
  then have files: "files (guarded (st_manifest s)) = []" by simp
  have M: "all_refs (files (guarded (st_manifest s))) = {#}" by (simp add: files)
  have "is_chunk_digest d \<Longrightarrow> kv (st_backend s) d = None" for d
    using chunk_inv_absent(1) [OF store_invD(5) [OF inv], of d] M by simp
  then have plain: "stored_plain (st_codec s) (kv (st_backend s)) = {}"
    by (auto simp: stored_plain_def blob_plain_def)
  have "unat (total_bytes (guarded (st_stats s))) = 0"
    using store_inv_total [OF inv] M by (simp add: ref_bytes_def)
  then have "fits s chunks \<longleftrightarrow> length chunks < 2 ^ 64 \<and> length (concat chunks) < 2 ^ 64" for chunks
    by (simp add: fits_def M)
  then show thesis using that [OF s(1) inv fs plain] by blast
qed

end

section \<open>The store on a file system\<close>

context file_space
begin

lemma fs_listing_env:
  assumes "dp_backend E = FsBackend" and "json_ok (dp_json E)" and "sha_ok (dp_sha E)"
  shows "listing_env E fs_kv (fs_ok (fs_keys F)) (fs_keys F)"
proof -
  have "store_backend (dp_backend E) fs_kv (fs_ok (fs_keys F)) (fs_keys F)"
    unfolding assms(1) by (rule st.store_backend_axioms)
  moreover have "listing_backend (dp_backend E) fs_kv (fs_ok (fs_keys F)) (fs_keys F)"
    unfolding assms(1) by (rule ks.fs.listing_backend_axioms)
  ultimately show ?thesis
    using assms(2,3) by (simp add: listing_env_def store_env_def store_env_axioms_def)
qed

end

text \<open>
  From \<^verbatim>\<open>FsBackend::new\<close> and \<^verbatim>\<open>ChunkStore::open\<close> through a sequence of
  operations.
\<close>

definition fs_session :: "fs_backend deps \<Rightarrow> path \<Rightarrow> u64 \<Rightarrow> store_op list \<Rightarrow>
    (nodes, outcome res list \<times> (string \<rightharpoonup> bytes)) act" where
  "fs_session E root c ops =
     seq (fs_new root c) (\<lambda>b ns.
       case open_store E b of
         (Ok s, b') \<Rightarrow> (case run_ops E ops s of
                          (rs, s') \<Rightarrow> (Ok (rs, contents fs_kv s'), fb_nodes (st_backend s')))
       | (Err e, b') \<Rightarrow> (Err e, fb_nodes b')
       | (Panic, b') \<Rightarrow> (Panic, fb_nodes b')
       | (Hang, b') \<Rightarrow> (Hang, fb_nodes b'))"

context file_space
begin

lemma session_refines:
  assumes E: "dp_backend E = FsBackend" "json_ok (dp_json E)" "sha_ok (dp_sha E)"
      "fastcdc_ok (dp_fastcdc E) cdc_config_default"
    and U: "inj_on (dp_sha E) U" "[] \<notin> U" "set chunks \<subseteq> U"
      "chunks = concat (map (op_chunks (dp_fastcdc E)) ops)"
      "length chunks < 2 ^ 64" "length (concat chunks) < 2 ^ 64"
    and ids: "list_all (op_file_ok (fs_keys F)) ops"
    and fresh: "fs_new root c ns = (Ok b, ns')" "keys_distinct ns"
      "\<forall>p. p \<noteq> [] \<longrightarrow> map_of ns (root @ p) = None"
  shows "\<exists>ns''. fs_session E root c ops ns =
           (Ok (spec_ops (dp_sha E) (dp_fastcdc E) ops Map.empty), ns'')"
proof -
  note env = fs_listing_env [OF E(1-3)]
  note st = listing_env.axioms(1) [OF env]
  have b: "fs_ok (fs_keys F) b" "fs_kv b = Map.empty"
    using fs_new_empty [OF fresh, of "fs_keys F"] by simp_all
  obtain s where s: "open_store E b = (Ok s, st_backend s)"
      "store_inv E fs_kv (fs_ok (fs_keys F)) (fs_keys F) s" "contents fs_kv s = Map.empty"
      "stored_plain (st_codec s) (fs_kv (st_backend s)) = {}"
      "fits s chunks \<longleftrightarrow> length chunks < 2 ^ 64 \<and> length (concat chunks) < 2 ^ 64"
    by (rule store_env.open_empty [OF st b]) blast
  have "related E fs_kv (fs_ok (fs_keys F)) (fs_keys F) U
      (concat (map (op_chunks (dp_fastcdc E)) ops)) s Map.empty"
    using s U by (simp add: related_def within_def)
  from listing_env.run_ops_refines [OF env this U(1,2) ids E(4)] show ?thesis
    using s(1) fresh(1) by (auto simp: fs_session_def seq_def related_def split: prod.splits)
qed

end

section \<open>Confinement\<close>

text \<open>Every path a key is given lies at or below the root and climbs nowhere.\<close>

lemma key_to_path_Ok:
  assumes "key_to_path root key = Ok (path, t)"
  shows "path = root @ normals (path_components key)"
    and "''..'' \<notin> set (split_slash key)" and "take 1 key \<noteq> ''/''" and "CHR 0x5C \<notin> set key"
    and "t = names_dir key"
proof -
  have c: "\<not> list_ex (\<lambda>c. case c of Normal n \<Rightarrow> False | CurDir \<Rightarrow> False | _ \<Rightarrow> True) (path_components key)"
    using assms by (auto simp: key_to_path_def split: if_splits)
  then show "take 1 key \<noteq> ''/''" by (auto simp: path_components_def)
  show "''..'' \<notin> set (split_slash key)"
  proof
    assume "''..'' \<in> set (split_slash key)"
    then have "ParentDir \<in> set (path_components key)" by (force simp: path_components_def)
    then show False using c by (auto simp: list_ex_iff)
  qed
qed (use assms in \<open>auto simp: key_to_path_def Let_def split: if_splits\<close>)

definition strictly_below :: "path \<Rightarrow> path \<Rightarrow> bool" where
  "strictly_below root q \<longleftrightarrow> take (length root) q = root \<and> length root < length q"

lemma strictly_below_append [simp]: "strictly_below root (root @ p) \<longleftrightarrow> p \<noteq> []"
  by (auto simp: strictly_below_def)

text \<open>Nothing outside the root changes.\<close>

definition agree_outside :: "path \<Rightarrow> nodes \<Rightarrow> nodes \<Rightarrow> bool" where
  "agree_outside root ns ns' \<longleftrightarrow> (\<forall>q. \<not> strictly_below root q \<longrightarrow> map_of ns' q = map_of ns q)"

lemma agree_outside_refl [simp]: "agree_outside root ns ns"
  by (simp add: agree_outside_def)

lemma agree_outside_trans:
  "agree_outside root ns ns1 \<Longrightarrow> agree_outside root ns1 ns2 \<Longrightarrow> agree_outside root ns ns2"
  by (simp add: agree_outside_def)

lemma agree_update: "p \<noteq> [] \<Longrightarrow> agree_outside root ns (AList.update (root @ p) n ns)"
  by (auto simp: agree_outside_def)

lemma agree_delete: "p \<noteq> [] \<Longrightarrow> agree_outside root ns (AList.delete (root @ p) ns)"
  by (auto simp: agree_outside_def)

lemma agree_create_dir_all:
  assumes "\<forall>q \<in> set (ancestors root). map_of ns q = Some Dir"
  shows "agree_outside root ns (snd (create_dir_all (root @ c) ns))"
proof -
  have "map_of (fold add_dir (ancestors (root @ c)) ns) q = map_of ns q" if "\<not> strictly_below root q" for q
  proof (cases "q \<in> set (ancestors (root @ c)) \<and> map_of ns q = None")
    case True
    then have "q \<notin> set (ancestors root)" using assms by auto
    then obtain n where "q = root @ take n c" using True by (auto simp: ancestors_append)
    moreover from this have "take n c \<noteq> []" using \<open>q \<notin> set (ancestors root)\<close> by (auto simp: ancestors_iff)
    ultimately show ?thesis using that by simp
  qed (auto simp: map_of_fold_add_dir)
  then show ?thesis by (simp add: create_dir_all_def agree_outside_def)
qed

lemma agree_write_file: "p \<noteq> [] \<Longrightarrow> agree_outside root ns (snd (write_file (root @ p) data ns))"
  by (simp add: write_file_def agree_update)

lemma agree_rename:
  assumes "p \<noteq> []" and "p' \<noteq> []"
  shows "agree_outside root ns (snd (rename (root @ p) (root @ p', t) ns))"
  using agree_outside_trans [OF agree_delete [OF assms(1)] agree_update [OF assms(2)]]
  by (auto simp: rename_def Let_def split: option.split)

lemma agree_remove_file: "p \<noteq> [] \<Longrightarrow> agree_outside root ns (snd (remove_file (root @ p) ns))"
  by (auto simp: remove_file_def agree_delete split: option.split node.split)

lemma agree_seq:
  assumes "agree_outside root ns (fb_nodes (snd (m b)))"
    and "\<And>x b'. m b = (Ok x, b') \<Longrightarrow> agree_outside root (fb_nodes b') (fb_nodes (snd (f x b')))"
  shows "agree_outside root ns (fb_nodes (snd (seq m f b)))"
  using assms agree_outside_trans by (fastforce simp: seq_def split: prod.split res.split)

lemma on_fs_nodes [simp]: "fb_nodes (snd (on_fs m b)) = snd (m (fb_nodes b))"
  by (simp add: on_fs_def zoom_def split: prod.split)

lemma agree_write_atomic:
  assumes "\<forall>q \<in> set (ancestors root). map_of (fb_nodes b) q = Some Dir" and "p \<noteq> []"
  shows "agree_outside root (fb_nodes b) (fb_nodes (snd (write_atomic (root @ p, t) data b)))"
proof -
  have bl: "butlast (root @ p) = root @ butlast p" using assms(2) by (simp add: butlast_append)
  show ?thesis
    unfolding write_atomic_def Let_def fst_conv
    by (intro agree_seq)
      (auto simp: assms bl agree_create_dir_all agree_write_file agree_rename lift_def)
qed

lemma fs_put_outside:
  assumes "\<forall>q \<in> set (ancestors (fb_root b)). map_of (fb_nodes b) q = Some Dir"
    and "normals (path_components key) \<noteq> []"
  shows "agree_outside (fb_root b) (fb_nodes b) (fb_nodes (snd (fs_put key data b)))"
proof (cases "key_to_path (fb_root b) key")
  case (Ok at)
  obtain path t where at: "at = (path, t)" by (cases at)
  have "path = fb_root b @ normals (path_components key)"
    using key_to_path_Ok(1) Ok at by simp
  then show ?thesis
    using agree_write_atomic [OF assms, of t data] Ok at by (simp add: fs_put_def seq_def fs_path_def)
qed (simp_all add: fs_put_def seq_def fs_path_def)

lemma fs_delete_outside:
  assumes "normals (path_components key) \<noteq> []"
  shows "agree_outside (fb_root b) (fb_nodes b) (fb_nodes (snd (fs_delete key b)))"
proof (cases "key_to_path (fb_root b) key")
  case (Ok at)
  obtain path t where at: "at = (path, t)" by (cases at)
  have "path = fb_root b @ normals (path_components key)"
    using key_to_path_Ok(1) Ok at by simp
  then show ?thesis
    using agree_remove_file [OF assms] Ok at by (simp add: fs_delete_def seq_def fs_path_def)
qed (simp_all add: fs_delete_def seq_def fs_path_def)

lemma fs_put_same_path:
  "key_to_path (fb_root b) k' = key_to_path (fb_root b) k \<Longrightarrow> fs_put k' data b = fs_put k data b"
  by (simp add: fs_put_def seq_def fs_path_def)

lemma seq_root:
  assumes "fb_root (snd (m b)) = r"
    and "\<And>x b'. m b = (Ok x, b') \<Longrightarrow> fb_root b' = r \<Longrightarrow> fb_root (snd (f x b')) = r"
  shows "fb_root (snd (seq m f b)) = r"
  using assms by (fastforce simp: seq_def split: prod.split res.split)

lemma on_fs_root [simp]: "fb_root (snd (on_fs m b)) = fb_root b"
  by (simp add: on_fs_def zoom_def split: prod.split)

lemma fs_put_root [simp]: "fb_root (snd (fs_put key data b)) = fb_root b"
  unfolding fs_put_def write_atomic_def Let_def
  by (intro seq_root) (auto simp: fs_path_def lift_def ret_def)

text \<open>The path of a key that goes on where another key ends.\<close>

lemma split_append: "split_slash (k @ CHR ''/'' # x) = split_slash k @ split_slash x"
  by (induction k) (auto split: list.split)

lemma fs_get_same_path:
  "key_to_path (fb_root b) k' = key_to_path (fb_root b) k \<Longrightarrow> fs_get k' b = fs_get k b"
  by (simp add: fs_get_def seq_def fs_path_def)

lemma fs_get_file:
  "fs_get k b = (Ok (Some d), b) \<Longrightarrow> key_to_path (fb_root b) k = Ok (p, t) \<Longrightarrow>
     map_of (fb_nodes b) p = Some (File d)"
  by (auto simp: fs_get_def seq_def fs_path_def is_file_at_def is_file_def on_fs_def zoom_def
      read_file_def ret_def split: if_splits option.splits node.splits)

lemma key_to_path_refused:
  assumes "key = [] \<or> CHR 0x5C \<in> set key \<or> take 1 key = ''/'' \<or> ''..'' \<in> set (split_slash key)"
  shows "\<exists>e. key_to_path root key = Err (InvalidArgument e)"
  using key_to_path_Ok [of root key] assms
  by (cases "key_to_path root key") (auto simp: key_to_path_def Let_def split: if_splits)

lemma fold_add_dir_id: "(\<And>q. q \<in> set qs \<Longrightarrow> map_of ns q = Some Dir) \<Longrightarrow> fold add_dir qs ns = ns"
  by (induction qs) (simp_all add: add_dir_def)

lemma create_dir_all_present:
  assumes "\<And>q. q \<in> set (ancestors p) \<Longrightarrow> map_of ns q = Some Dir"
  shows "create_dir_all p ns = (Ok (), ns)"
proof -
  have "p \<in> set (ancestors p)" by (simp add: ancestors_iff)
  then show ?thesis
    using assms by (auto simp: create_dir_all_def list_ex_iff is_file_def fold_add_dir_id)
qed

text \<open>
  A key without a name, \<^verbatim>\<open>.\<close> or \<^verbatim>\<open>./\<close>, denotes the root: a write then
  reaches one path outside, the temporary file beside the root, and a delete none.
\<close>

definition beside_root :: "fs_backend \<Rightarrow> path" where
  "beside_root b = butlast (fb_root b) @ [tmp_name (last (fb_root b)) (fb_tmp_counter b)]"

lemma beside_root_not_root: "fb_root b \<noteq> [] \<Longrightarrow> beside_root b \<noteq> fb_root b"
proof
  assume "fb_root b \<noteq> []" "beside_root b = fb_root b"
  then have "tmp_name (last (fb_root b)) (fb_tmp_counter b) = last (fb_root b)"
    unfolding beside_root_def by (metis last_snoc)
  then show False by (simp add: tmp_name_def)
qed

lemma key_to_path_root:
  assumes "normals (path_components key) = []" and "key_to_path root key = Ok at"
  shows "fst at = root"
proof (cases at)
  case (Pair path t)
  then show ?thesis using key_to_path_Ok(1) [of root key path t] assms by simp
qed

lemma fs_put_root_key:
  assumes dirs: "\<forall>q \<in> set (ancestors (fb_root b)). map_of (fb_nodes b) q = Some Dir"
    and root: "normals (path_components key) = []" and q: "fb_root b = [] \<or> q \<noteq> beside_root b"
  shows "map_of (fb_nodes (snd (fs_put key data b))) q = map_of (fb_nodes b) q"
proof (cases "key_to_path (fb_root b) key")
  case (Ok at)
  then have at: "fst at = fb_root b" by (rule key_to_path_root [OF root])
  show ?thesis
  proof (cases "fb_root b = []")
    case True
    then show ?thesis using Ok at by (simp add: fs_put_def seq_def fs_path_def write_atomic_def lift_def ret_def)
  next
    case False
    have "create_dir_all (butlast (fb_root b)) (fb_nodes b) = (Ok (), fb_nodes b)"
      using dirs False by (intro create_dir_all_present) (metis ancestors_iff append_assoc append_butlast_last_id)
    moreover have "map_of (fb_nodes b) (fb_root b) = Some Dir" using dirs by (simp add: ancestors_iff)
    ultimately show ?thesis
      using Ok at q False beside_root_not_root [OF False]
      by (simp add: fs_put_def seq_def fs_path_def write_atomic_def lift_def Let_def on_fs_def zoom_def
          write_file_def rename_def is_dir_def flip: beside_root_def)
  qed
qed (simp_all add: fs_put_def seq_def fs_path_def)

lemma fs_delete_root_key:
  assumes "map_of (fb_nodes b) (fb_root b) = Some Dir" and "normals (path_components key) = []"
  shows "fb_nodes (snd (fs_delete key b)) = fb_nodes b"
proof (cases "key_to_path (fb_root b) key")
  case (Ok at)
  then have "fst at = fb_root b" by (rule key_to_path_root [OF assms(2)])
  then show ?thesis
    using Ok assms(1)
    by (simp add: fs_delete_def seq_def fs_path_def on_fs_def zoom_def remove_file_def)
qed (simp_all add: fs_delete_def seq_def fs_path_def)

text \<open>Reading changes nothing.\<close>

lemma fs_reads_keep: "snd (fs_get key b) = b" "snd (fs_exists key b) = b"
  by (simp_all add: fs_get_def fs_exists_def seq_def fs_path_def on_fs_def zoom_def read_file_def ret_def
      split: res.split option.split node.split)

lemma create_dir_all_through:
  assumes "is_file ns p"
  shows "\<exists>e. create_dir_all (p @ r) ns = (Err (IoError e), ns)"
  using assms by (auto simp: create_dir_all_def list_ex_iff ancestors_iff)

lemma show_nat_simps:
  "n < 10 \<Longrightarrow> show_nat n = [digit_char n]" "digit_char 0 = CHR ''0''"
  by (simp_all add: show_nat.simps digit_char_def)

lemma digit_char_no_sep: "n < 10 \<Longrightarrow> digit_char n \<noteq> CHR ''/'' \<and> digit_char n \<noteq> CHR 0x5C"
  by (auto simp: digit_char_def less_Suc_eq numeral_eq_Suc)

lemma show_nat_no_sep: "c \<in> set (show_nat n) \<Longrightarrow> c \<noteq> CHR ''/'' \<and> c \<noteq> CHR 0x5C"
proof (induction n rule: show_nat.induct)
  case (1 n)
  have "c = digit_char n \<and> n < 10 \<or> \<not> n < 10 \<and> (c \<in> set (show_nat (n div 10)) \<or> c = digit_char (n mod 10))"
    using 1(2) show_nat.simps [of n] by (auto split: if_splits)
  then show ?case using 1(1) digit_char_no_sep [of n] digit_char_no_sep [of "n mod 10"] by auto
qed

lemma tmp_name_canonical:
  assumes "canonical name" and "CHR ''/'' \<notin> set name"
  shows "canonical (tmp_name name u) \<and> split_slash (tmp_name name u) = [tmp_name name u]"
proof -
  have p: "plain_name name" using assms by (simp add: canonical_def split_no_slash)
  have "CHR ''/'' \<notin> set (tmp_name name u)"
    using assms(2) show_nat_no_sep by (auto simp: tmp_name_def)
  then have s: "split_slash (tmp_name name u) = [tmp_name name u]" by (rule split_no_slash)
  have "plain_name (tmp_name name u)"
    using p show_nat_no_sep by (auto simp: tmp_name_def plain_name_def Cons_eq_append_conv append_eq_Cons_conv)
  then show ?thesis using s by (simp add: canonical_def)
qed

end
