(* ===== verification/Store_Live.thy ===== *)
theory Store_Live
  imports Store_Accounts Fs_Store
begin

text \<open>
  The reference for the accounts of a store: the chunks every file was last stored as, a function
  of the operations alone.  A store that starts on an empty backend keeps a manifest of their
  digests through any sequence of operations, and so its counts, its blobs and its byte totals
  are functions of that map.
\<close>

section \<open>The chunks of the files\<close>

fun live_op :: "fastcdc \<Rightarrow> store_op \<Rightarrow> (string \<rightharpoonup> bytes list) \<Rightarrow> (string \<rightharpoonup> bytes list)" where
  "live_op fcdc (OpIngest f data n) L = (if n = 0 then L else L(f \<mapsto> fixed_chunks n data))"
| "live_op fcdc (OpIngestCdc f data) L = (case cdc_chunks fcdc data of Ok cs \<Rightarrow> L(f \<mapsto> cs) | _ \<Rightarrow> L)"
| "live_op fcdc (OpDelete f) L = L(f := None)"
| "live_op fcdc _ L = L"

primrec live_ops :: "fastcdc \<Rightarrow> store_op list \<Rightarrow> (string \<rightharpoonup> bytes list) \<Rightarrow> (string \<rightharpoonup> bytes list)" where
  "live_ops fcdc [] L = L"
| "live_ops fcdc (op # ops) L = live_ops fcdc ops (live_op fcdc op L)"

text \<open>All the chunks, and the bytes and occurrences they add up to.\<close>

definition live_chunks :: "(string \<rightharpoonup> bytes list) \<Rightarrow> bytes set" where
  "live_chunks L = (\<Union>cs \<in> ran L. set cs)"

definition live_bytes :: "(string \<rightharpoonup> bytes list) \<Rightarrow> nat" where
  "live_bytes L = (\<Sum>f \<in> dom L. length (concat (the (L f))))"

definition live_count :: "(string \<rightharpoonup> bytes list) \<Rightarrow> bytes \<Rightarrow> nat" where
  "live_count L p = (\<Sum>f \<in> dom L. count_list (the (L f)) p)"

lemma live_chunksI: "L f = Some cs \<Longrightarrow> p \<in> set cs \<Longrightarrow> p \<in> live_chunks L"
  by (auto simp: live_chunks_def ran_def)

lemma live_chunks_op: "live_chunks (live_op fcdc op L) \<subseteq> live_chunks L \<union> set (op_chunks fcdc op)"
  by (cases op) (auto simp: live_chunks_def ran_def split: if_splits res.splits)

lemma live_chunks_ops:
  "live_chunks (live_ops fcdc ops L) \<subseteq> live_chunks L \<union> set (concat (map (op_chunks fcdc) ops))"
proof (induction ops arbitrary: L)
  case (Cons op ops)
  then show ?case using Cons [of "live_op fcdc op L"] live_chunks_op [of fcdc op L] by auto
qed simp

text \<open>The files themselves are the concatenations, as the specification of \<open>Store_Trace\<close> has them.\<close>

lemma live_op_spec:
  assumes "fastcdc_ok fcdc cdc_config_default"
  shows "map_option concat \<circ> live_op fcdc op L = snd (spec_op sha fcdc op (map_option concat \<circ> L))"
proof (cases op)
  case (OpIngestCdc f data)
  obtain chunks where "cdc_chunks fcdc data = Ok chunks" "concat chunks = data"
    by (rule cdc_chunks_Ok [OF assms])
  then show ?thesis using OpIngestCdc by (auto simp: fun_eq_iff)
qed (auto simp: fun_eq_iff concat_fixed_chunks split: option.split)

lemma live_ops_spec:
  "fastcdc_ok fcdc cdc_config_default \<Longrightarrow>
     map_option concat \<circ> live_ops fcdc ops L = snd (spec_ops sha fcdc ops (map_option concat \<circ> L))"
  by (induction ops arbitrary: L) (simp_all add: live_op_spec [where sha = sha] case_prod_beta')

lemma live_bytes_spec:
  assumes "fastcdc_ok fcdc cdc_config_default" and "fs = snd (spec_ops sha fcdc ops Map.empty)"
  shows "live_bytes (live_ops fcdc ops Map.empty) = (\<Sum>f \<in> dom fs. length (the (fs f)))"
proof -
  have "map_option concat \<circ> Map.empty = Map.empty" by auto
  then have fs: "fs = map_option concat \<circ> live_ops fcdc ops Map.empty"
    using live_ops_spec [OF assms(1), of ops Map.empty sha] assms(2) by simp
  then have "dom fs = dom (live_ops fcdc ops Map.empty)" by (auto simp: dom_def)
  then show ?thesis unfolding live_bytes_def fs by (auto intro!: sum.cong)
qed

section \<open>The manifests follow\<close>

definition tracks :: "hash_fun \<Rightarrow> (string \<rightharpoonup> bytes list) \<Rightarrow> 'b store \<Rightarrow> bool" where
  "tracks sha L s \<longleftrightarrow>
     (\<forall>f. try_get (guarded (st_manifest s)) f = map_option (map (digest_hex sha)) (L f))"

lemma tracks_frame: "tracks sha L s \<Longrightarrow> tracks sha L (s\<lparr>st_backend := b\<rparr>)"
  by (simp add: tracks_def)

lemma tracks_ingested:
  "tracks (dp_sha E) L s \<Longrightarrow> ingested E kv ok valid f chunks s s' \<Longrightarrow> tracks (dp_sha E) (L(f \<mapsto> chunks)) s'"
  by (simp add: tracks_def ingested_def try_get_def update_conv')

lemma tracks_view:
  assumes "manifest_ok (guarded (st_manifest s))"
  shows "tracks sha L s \<longleftrightarrow>
    (\<forall>f. map_option fst (manifest_view (guarded (st_manifest s)) f) = map_option (map (digest_hex sha)) (L f))"
  using manifest_view_digests [OF assms] by (simp add: tracks_def)

lemma tracks_deleted:
  assumes "store_inv E kv ok valid s" and "tracks sha L s" and "deleted E kv ok valid f ds s s'"
  shows "tracks sha (L(f := None)) s'"
  using assms store_invD(2) [of E kv ok valid s] store_invD(2) [of E kv ok valid s']
  by (auto simp: tracks_view deleted_def)

context listing_env
begin

lemma run_op_tracks:
  assumes R: "related E kv ok valid U (op_chunks (dp_fastcdc E) op @ rest) s fs"
    and U: "inj_on (dp_sha E) U" "[] \<notin> U" and f: "op_file_ok valid op"
    and cdc: "fastcdc_ok (dp_fastcdc E) cdc_config_default" and L: "tracks (dp_sha E) L s"
  shows "tracks (dp_sha E) (live_op (dp_fastcdc E) op L) (snd (run_op E op s))"
proof -
  have inv: "store_inv E kv ok valid s" and w: "within E kv U (op_chunks (dp_fastcdc E) op @ rest) s"
    using R by (simp_all add: related_def)
  note W = store_invD [OF inv]
  have unl: "unlocked s" using chunk_invD(1) [OF W(5)] .
  have ing: "wp (as_outcome Digests (ingest_chunks E g chunks)) s (\<lambda>_. tracks (dp_sha E) (L(g \<mapsto> chunks)))"
    if "within E kv U (chunks @ rest) s" "[] \<notin> set chunks" "proper_file_id g" "valid (manifest_key g)" for g chunks
    unfolding wp_as_outcome
    by (rule wp_ingest_chunks [OF inv that(3,4) within_collision_free [OF that(1) U(1)] that(2)])
      (rule tracks_ingested [OF L])
  show ?thesis
  proof (cases op)
    case (OpIngest g data n)
    show ?thesis
    proof (cases "n = 0")
      case False
      then show ?thesis
        using ing [of "fixed_chunks n data" g] w f OpIngest
        by (auto simp: ingest_fixed_eq wp_iff fixed_chunks_nonempty)
    qed (use L OpIngest in \<open>simp add: as_outcome_def seq_def ingest_fixed_zero\<close>)
  next
    case (OpIngestCdc g data)
    obtain chunks where ch: "cdc_chunks (dp_fastcdc E) data = Ok chunks" "[] \<notin> set chunks"
      using cdc_chunks_Ok [OF cdc] by metis
    then show ?thesis
      using ing [of chunks g] w f OpIngestCdc by (auto simp: ingest_cdc_eq wp_iff)
  next
    case (OpRead g)
    show ?thesis
    proof (cases "try_get (guarded (st_manifest s)) g")
      case None
      then show ?thesis
        using L unl OpRead by (simp add: as_outcome_def seq_def read_missing unlocked_def)
    next
      case (Some ds)
      have "wp (as_outcome Contents (read E g)) s (\<lambda>_. tracks (dp_sha E) L)"
        unfolding wp_as_outcome by (rule wp_read_file [OF inv Some]) (rule tracks_frame [OF L])
      then show ?thesis using OpRead by (auto simp: wp_iff)
    qed
  next
    case (OpDelete g)
    show ?thesis
    proof (cases "try_get (guarded (st_manifest s)) g")
      case None
      then have "L(g := None) = L" using L by (auto simp: tracks_def fun_eq_iff)
      then show ?thesis
        using L unl OpDelete None W(2) by (simp add: as_outcome_def seq_def delete_missing unlocked_def)
    next
      case (Some ds)
      have "wp (as_outcome (\<lambda>_. Done) (delete E g)) s (\<lambda>_. tracks (dp_sha E) (L(g := None)))"
        unfolding wp_as_outcome by (rule wp_delete_file [OF inv Some]) (rule tracks_deleted [OF inv L])
      then show ?thesis using OpDelete by (auto simp: wp_iff)
    qed
  next
    case (OpFsck repair)
    have "wp (as_outcome Report (fsck E repair)) s (\<lambda>_. tracks (dp_sha E) L)"
      unfolding wp_as_outcome by (rule wp_fsck_clean [OF W(1,5)]) (rule tracks_frame [OF L])
    then show ?thesis using OpFsck by (auto simp: wp_iff)
  next
    case OpReopen
    have "within E kv U rest s" using w by (rule within_suffix)
    then have sized: "sized_refs s" using nonempty_sized [OF inv _ U(2)] by blast
    have "wp (as_outcome (\<lambda>_. Done) (reopen E)) s (\<lambda>_. tracks (dp_sha E) L)"
      unfolding wp_as_outcome
      by (rule wp_reopen [OF inv disjI2 [OF sized]])
        (use L W(2) in \<open>auto simp: tracks_view dest: store_invD(2)\<close>)
    then show ?thesis using OpReopen by (auto simp: wp_iff)
  qed
qed

lemma run_ops_tracks:
  assumes "related E kv ok valid U (concat (map (op_chunks (dp_fastcdc E)) ops)) s fs"
    and "inj_on (dp_sha E) U" and "[] \<notin> U" and "list_all (op_file_ok valid) ops"
    and "fastcdc_ok (dp_fastcdc E) cdc_config_default" and "tracks (dp_sha E) L s"
  shows "tracks (dp_sha E) (live_ops (dp_fastcdc E) ops L) (snd (run_ops E ops s))"
  using assms
proof (induction ops arbitrary: s fs L)
  case (Cons op ops)
  have R: "related E kv ok valid U (op_chunks (dp_fastcdc E) op @ concat (map (op_chunks (dp_fastcdc E)) ops)) s fs"
    using Cons.prems(1) by simp
  obtain s1 fs1 where s1: "snd (run_op E op s) = s1"
      "related E kv ok valid U (concat (map (op_chunks (dp_fastcdc E)) ops)) s1 fs1"
    using run_op_refines [OF R Cons.prems(2,3) _ Cons.prems(5)] Cons.prems(4) by (auto simp: refines_op_def)
  have "tracks (dp_sha E) (live_op (dp_fastcdc E) op L) s1"
    using run_op_tracks [OF R Cons.prems(2,3) _ Cons.prems(5,6)] Cons.prems(4) s1(1) by simp
  from Cons.IH [OF s1(2) Cons.prems(2,3) _ Cons.prems(5) this] Cons.prems(4) s1(1)
  show ?case by (simp add: case_prod_beta')
qed simp

end

section \<open>What they determine\<close>

lemma store_refs_live:
  assumes "keys_distinct al" and "\<And>f. map_of al f = map_option (map dg) (L f)" and "inj_on dg U"
    and "live_chunks L \<subseteq> U"
  shows "finite (dom L)" and "p \<in> U \<Longrightarrow> count (all_refs al) (dg p) = live_count L p"
    and "set_mset (all_refs al) = dg ` live_chunks L"
    and "(\<And>p. p \<in> live_chunks L \<Longrightarrow> len (dg p) = length p) \<Longrightarrow> ref_bytes len (all_refs al) = live_bytes L"
proof -
  have dom: "dom (map_of al) = dom L" using assms(2) by (auto simp: dom_def)
  then show "finite (dom L)" using finite_dom_map_of [of al] by simp
  have U: "set cs \<subseteq> U" if "L f = Some cs" for f cs
    using live_chunksI [of L f cs] that assms(4) by blast
  show "count (all_refs al) (dg p) = live_count L p" if p: "p \<in> U"
  proof -
    have "count_list (map dg cs) (dg p) = count_list cs p" if "set cs \<subseteq> U" for cs
      using that p inj_on_eq_iff [OF assms(3)] by (induction cs) auto
    then show ?thesis
      unfolding count_all_refs live_count_def dom [symmetric]
      using assms(1,2) U by (intro sum_list_over_keys) auto
  qed
  have "set_mset (all_refs al) = (\<Union>(f, ds) \<in> set al. set ds)" by (induction al) auto
  also have "\<dots> = (\<Union>ds \<in> ran (map_of al). set ds)"
    using assms(1) by (auto simp: ran_def dest: map_of_SomeD)
  also have "\<dots> = dg ` live_chunks L"
    using assms(2) by (fastforce simp: live_chunks_def ran_def)
  finally show "set_mset (all_refs al) = dg ` live_chunks L" .
  assume len: "\<And>p. p \<in> live_chunks L \<Longrightarrow> len (dg p) = length p"
  have "sum_list (map len (map dg cs)) = length (concat cs)" if "L f = Some cs" for f cs
  proof -
    have "\<forall>p \<in> set cs. len (dg p) = length p" using len live_chunksI [of L f cs] that by blast
    then show ?thesis by (induction cs) simp_all
  qed
  then show "ref_bytes len (all_refs al) = live_bytes L"
    unfolding ref_bytes_all_refs live_bytes_def dom [symmetric]
    using assms(1,2) by (intro sum_list_over_keys) auto
qed

text \<open>The byte totals, the counts and the blobs of a store that tracks \<open>L\<close>.\<close>

lemma live_accounts:
  assumes inv: "store_inv E kv ok valid s" and U: "inj_on (dp_sha E) U" "live_chunks L \<subseteq> U"
    and w: "within E kv U rest s" and L: "tracks (dp_sha E) L s"
  shows "unat (total_bytes (guarded (st_stats s))) = live_bytes L"
    and "unat (stored_bytes (guarded (st_stats s))) = (\<Sum>p \<in> live_chunks L. length p)"
    and "p \<in> U \<Longrightarrow> count (store_refs s) (digest_hex (dp_sha E) p) = live_count L p"
    and "set_mset (store_refs s) = digest_hex (dp_sha E) ` live_chunks L"
proof -
  let ?dg = "digest_hex (dp_sha E)" and ?len = "plain_len (st_codec s) (kv (st_backend s))"
  note S = store_invD(5) [OF inv]
  have inj: "inj_on ?dg U" using U(1) by (auto simp: inj_on_def digest_hex_eq_iff)
  have dist: "keys_distinct (files (guarded (st_manifest s)))"
    using store_invD(2) [OF inv] by (simp add: manifest_ok_def)
  have map: "map_of (files (guarded (st_manifest s))) f = map_option (map ?dg) (L f)" for f
    using L by (simp add: tracks_def try_get_def)
  note R = store_refs_live [OF dist map inj U(2)]
  show "p \<in> U \<Longrightarrow> count (store_refs s) (?dg p) = live_count L p" and refs: "set_mset (store_refs s) = ?dg ` live_chunks L"
    by (rule R(2), assumption) (rule R(3))
  have len: "?len (?dg p) = length p" if p: "p \<in> live_chunks L" for p
  proof -
    have "?dg p \<in># store_refs s" using refs p by simp
    then obtain q where q: "store_plain kv s (?dg p) = Some q" "?dg q = ?dg p" "is_chunk_digest (?dg p)"
      using chunk_inv_member [OF S] by metis
    then have "q \<in> U" using w by (auto simp: within_def stored_plain_def)
    then have "q = p" using q(2) inj p U(2) by (auto simp: inj_on_def)
    then show ?thesis using q(1) by (simp add: plain_len_def)
  qed
  show "unat (total_bytes (guarded (st_stats s))) = live_bytes L"
    unfolding store_inv_total [OF inv] by (rule R(4)) (rule len)
  have "inj_on ?dg (live_chunks L)" using inj U(2) by (rule inj_on_subset)
  then have unique: "unique_bytes ?len (store_refs s) = (\<Sum>p \<in> live_chunks L. length p)"
    unfolding unique_bytes_def refs using len by (simp add: sum.reindex)
  have "unique_bytes ?len (store_refs s) < 2 ^ 64"
    by (rule le_less_trans [OF unique_le_ref_bytes]) (use chunk_invD(8) [OF S] in \<open>simp add: stats_match_def\<close>)
  from unat_of_nat_u64 [OF this]
  show "unat (stored_bytes (guarded (st_stats s))) = (\<Sum>p \<in> live_chunks L. length p)"
    using chunk_invD(8) [OF S] unique by (simp only: stats_match_def)
qed

section \<open>From an empty backend\<close>

lemma op_chunks_nonempty:
  assumes "fastcdc_ok fcdc cdc_config_default"
  shows "[] \<notin> set (op_chunks fcdc op)"
proof (cases op)
  case (OpIngestCdc f data)
  obtain chunks where "cdc_chunks fcdc data = Ok chunks" "[] \<notin> set chunks"
    by (rule cdc_chunks_Ok [OF assms])
  then show ?thesis using OpIngestCdc by simp
qed (simp_all add: fixed_chunks_nonempty)

context listing_env
begin

lemma session_tracks:
  assumes b: "ok b" "kv b = Map.empty" and cdc: "fastcdc_ok (dp_fastcdc E) cdc_config_default"
    and chunks: "chunks = concat (map (op_chunks (dp_fastcdc E)) ops)" and inj: "inj_on (dp_sha E) (set chunks)"
    and fits: "length chunks < 2 ^ 64" "length (concat chunks) < 2 ^ 64"
    and ids: "list_all (op_file_ok valid) ops"
  obtains s where "open_store E b = (Ok s, st_backend s)"
    and "store_inv E kv ok valid (snd (run_ops E ops s))"
    and "within E kv (set chunks) [] (snd (run_ops E ops s))"
    and "tracks (dp_sha E) (live_ops (dp_fastcdc E) ops Map.empty) (snd (run_ops E ops s))"
    and "live_chunks (live_ops (dp_fastcdc E) ops Map.empty) \<subseteq> set chunks"
proof -
  obtain s where s: "open_store E b = (Ok s, st_backend s)" "store_inv E kv ok valid s"
      "contents kv s = Map.empty" "stored_plain (st_codec s) (kv (st_backend s)) = {}"
      "fits s chunks \<longleftrightarrow> length chunks < 2 ^ 64 \<and> length (concat chunks) < 2 ^ 64"
    by (rule open_empty [OF b]) blast
  have R: "related E kv ok valid (set chunks) (concat (map (op_chunks (dp_fastcdc E)) ops)) s Map.empty"
    using s fits chunks by (simp add: related_def within_def)
  have ne: "[] \<notin> set chunks" using op_chunks_nonempty [OF cdc] chunks by auto
  have "tracks (dp_sha E) Map.empty s"
    using contents_None_iff [OF s(2)] s(3) by (simp add: tracks_def)
  from run_ops_tracks [OF R inj ne ids cdc this] run_ops_refines [OF R inj ne ids cdc]
    live_chunks_ops [of "dp_fastcdc E" ops Map.empty] chunks s(1)
  show thesis by (intro that [of s]) (auto simp: related_def live_chunks_def)
qed

end

end
