(* ===== verification/Sample.thy ===== *)
theory Sample
  imports Store_Faults Store_Live
begin

text \<open>
  Concrete instances of the four things the store is compiled against, on which the
  hypotheses of the theorems are shown to hold: the repository's own \<open>MemoryBackend\<close>, an
  invertible byte encoding in the place of JSON, an injective 32-byte digest of short inputs
  in the place of SHA-256, and a chunker that cuts at the maximum size in the place of
  FastCDC.
\<close>

section \<open>An invertible encoding\<close>

definition put_nat :: "nat \<Rightarrow> bytes" where
  "put_nat n = replicate n 1 @ [0]"

fun get_nat :: "bytes \<Rightarrow> nat \<times> bytes" where
  "get_nat [] = (0, [])"
| "get_nat (b # bs) = (if b = 0 then (0, bs) else case get_nat bs of (n, rest) \<Rightarrow> (Suc n, rest))"

definition put_string :: "string \<Rightarrow> bytes" where
  "put_string s = put_nat (length s) @ map (\<lambda>c. of_nat (of_char c)) s"

definition get_string :: "bytes \<Rightarrow> string \<times> bytes" where
  "get_string bs =
     (case get_nat bs of (n, rest) \<Rightarrow> (map (\<lambda>b. char_of (unat b)) (take n rest), drop n rest))"

fun put_strings :: "string list \<Rightarrow> bytes" where
  "put_strings [] = [0]"
| "put_strings (s # ss) = 1 # put_string s @ put_strings ss"

fun get_strings :: "nat \<Rightarrow> bytes \<Rightarrow> string list \<times> bytes" where
  "get_strings 0 bs = ([], bs)"
| "get_strings (Suc k) [] = ([], [])"
| "get_strings (Suc k) (b # bs) =
     (if b = 0 then ([], bs)
      else case get_string bs of (s, rest) \<Rightarrow>
             (case get_strings k rest of (ss, rest') \<Rightarrow> (s # ss, rest')))"

definition put_word :: "u64 \<Rightarrow> bytes" where
  "put_word w = put_nat (unat w)"

definition get_word :: "bytes \<Rightarrow> u64 \<times> bytes" where
  "get_word bs = (case get_nat bs of (n, rest) \<Rightarrow> (of_nat n, rest))"

lemma get_put_nat [simp]: "get_nat (put_nat n @ bs) = (n, bs)"
  by (induction n) (simp_all add: put_nat_def)

lemma get_put_word [simp]: "get_word (put_word w @ bs) = (w, bs)"
  by (simp add: get_word_def put_word_def)

lemma char_byte [simp]: "char_of (unat (of_nat (of_char c :: nat) :: byte)) = c"
  using nat_of_char_less_256 [of c] by (simp add: unat_of_nat)

lemma get_put_string [simp]: "get_string (put_string s @ bs) = (s, bs)"
  by (simp add: get_string_def put_string_def comp_def)

lemma get_put_strings: "length ss < k \<Longrightarrow> get_strings k (put_strings ss @ bs) = (ss, bs)"
proof (induction ss arbitrary: k)
  case Nil
  then show ?case by (cases k) simp_all
next
  case (Cons s ss)
  then show ?case by (cases k) simp_all
qed

lemma length_put_strings: "length ss < length (put_strings ss)"
  by (induction ss) simp_all

lemma get_put_strings' [simp]:
  "get_strings (length (put_strings ss @ bs)) (put_strings ss @ bs) = (ss, bs)"
  by (rule get_put_strings) (use length_put_strings [of ss] in simp)

text \<open>A leading byte tells the three kinds of value apart, as the braces of JSON do.\<close>

definition sample_json :: json_ops where
  "sample_json =
     \<lparr>to_vec_manifest = (\<lambda>r. Inr (2 # put_strings (mr_digests r) @ put_word (mr_file_bytes r))),
      from_slice_manifest = (\<lambda>bs.
        if take 1 bs = [2]
        then (case get_strings (length bs - 1) (drop 1 bs) of (ds, rest) \<Rightarrow>
                Inr \<lparr>mr_digests = ds, mr_file_bytes = fst (get_word rest)\<rparr>)
        else Inl ''expected struct ManifestRecord''),
      to_vec_refcount = (\<lambda>r. Inr (1 # put_word (rr_count r) @ put_word (rr_size r))),
      from_slice_refcount = (\<lambda>bs.
        if take 1 bs = [1]
        then (case get_word (drop 1 bs) of (c, rest) \<Rightarrow>
                Inr (Record \<lparr>rr_count = c, rr_size = fst (get_word rest)\<rparr>))
        else if take 1 bs = [0] then Inr (Legacy (fst (get_word (drop 1 bs))))
        else Inl ''data did not match any variant of untagged enum RefCountWire''),
      to_vec_strings = (\<lambda>ss. Inr (3 # put_strings ss)),
      from_slice_strings = (\<lambda>bs.
        if take 1 bs = [3] then Inr (fst (get_strings (length bs - 1) (drop 1 bs)))
        else Inl ''expected a sequence'')\<rparr>"

lemma get_put_word_end [simp]: "get_word (put_word w) = (w, [])"
  using get_put_word [of w "[]"] by simp

lemma get_put_strings_end [simp]: "get_strings (length (put_strings ss)) (put_strings ss) = (ss, [])"
  using get_put_strings' [of ss "[]"] by simp

lemma sample_json_ok: "json_ok sample_json"
  using get_put_strings' by (simp add: json_ok_def sample_json_def)

lemma sample_json_typed: "json_typed sample_json"
  by (simp add: json_typed_def sample_json_def)

section \<open>A digest\<close>

definition sample_sha :: hash_fun where
  "sample_sha data = take 32 (of_nat (length data) # data @ replicate 32 0)"

lemma sample_sha_ok: "sha_ok sample_sha"
  by (auto simp: sha_ok_def sample_sha_def min_def)

lemma sample_sha_inj: "inj_on sample_sha {data. length data \<le> 31}"
proof (rule inj_onI)
  fix x y :: bytes
  assume xy: "x \<in> {data. length data \<le> 31}" "y \<in> {data. length data \<le> 31}"
    and eq: "sample_sha x = sample_sha y"
  have "(of_nat (length x) :: byte) = of_nat (length y)"
    using eq by (simp add: sample_sha_def)
  then have "unat (of_nat (length x) :: byte) = unat (of_nat (length y) :: byte)" by simp
  then have len: "length x = length y" using xy by (simp add: unat_of_nat)
  have "take (length x) (drop 1 (sample_sha x)) = x" "take (length y) (drop 1 (sample_sha y)) = y"
    using xy by (simp_all add: sample_sha_def min_def)
  then show "x = y" using eq len by simp
qed

section \<open>A content-defined chunker\<close>

fun max_cuts :: "nat \<Rightarrow> nat \<Rightarrow> nat \<Rightarrow> nat \<Rightarrow> (nat \<times> nat) list" where
  "max_cuts 0 p mx left = []"
| "max_cuts (Suc k) p mx left =
     (if left = 0 then [] else if left \<le> mx then [(p, left)]
      else (p, mx) # max_cuts k (p + mx) mx (left - mx))"

definition sample_fastcdc :: fastcdc where
  "sample_fastcdc data mn av mx = Some (max_cuts (length data) 0 mx (length data))"

lemma max_cuts_contiguous:
  "left \<le> k \<Longrightarrow> 0 < mx \<Longrightarrow> contiguous p (max_cuts k p mx left) (p + left)"
proof (induction k arbitrary: p left)
  case (Suc k)
  show ?case
  proof (cases "left \<le> mx")
    case False
    then have "contiguous (p + mx) (max_cuts k (p + mx) mx (left - mx)) (p + mx + (left - mx))"
      using Suc.prems by (intro Suc.IH) simp_all
    then show ?thesis using False Suc.prems by simp
  qed simp
qed simp

lemma max_cuts_le: "e \<in> set (max_cuts k p mx left) \<Longrightarrow> snd e \<le> mx"
  by (induction k arbitrary: p left) (auto split: if_splits)

lemma max_cuts_butlast: "e \<in> set (butlast (max_cuts k p mx left)) \<Longrightarrow> snd e = mx"
  by (induction k arbitrary: p left) (auto split: if_splits)

lemma sample_fastcdc_ok: "cdc_config_ok config \<Longrightarrow> fastcdc_ok sample_fastcdc config"
  using max_cuts_contiguous [where p = 0]
  by (auto simp: fastcdc_ok_def sample_fastcdc_def cdc_config_ok_def dest: max_cuts_le max_cuts_butlast)

section \<open>The store on them\<close>

definition sample_deps :: "memory_backend deps" where
  "sample_deps = \<lparr>dp_backend = MemoryBackend, dp_json = sample_json, dp_sha = sample_sha,
                  dp_fastcdc = sample_fastcdc\<rparr>"

text \<open>Any lawful JSON and any 32-byte digest give an environment over \<open>MemoryBackend\<close>.\<close>

lemma memory_listing_env:
  assumes "dp_backend E = MemoryBackend" and "json_ok (dp_json E)" and "sha_ok (dp_sha E)"
  shows "listing_env E memory_kv memory_ok (\<lambda>_. True)"
  unfolding listing_env_def store_env_def store_env_axioms_def assms(1)
  using assms(2,3) mem.store_backend_axioms mem.listing_backend_axioms by blast

interpretation sample: listing_env sample_deps memory_kv memory_ok "\<lambda>_. True"
  by (rule memory_listing_env) (simp_all add: sample_deps_def sample_json_ok sample_sha_ok)

definition empty_store :: "memory_backend store" where
  "empty_store = fresh_store manifest_new ref_count_new memory_new"

lemma fresh_store_inv:
  assumes "ok b" and "kv b = Map.empty"
  shows "store_inv E kv ok valid (fresh_store manifest_new ref_count_new b)"
proof -
  have "refs_match Map.empty {#}" by (simp add: refs_match_def)
  moreover have "blobs_match (dp_sha E) None Map.empty Map.empty" by (simp add: blobs_match_def)
  moreover have "stats_match stats_default len {#}" for len
    by (simp add: stats_match_def stats_default_def ref_bytes_def unique_bytes_def)
  moreover have "get_ref ref_count_new = Map.empty" "files manifest_new = []"
      "counts ref_count_new = []"
    by (simp_all add: fun_eq_iff get_ref_def ref_count_new_def manifest_new_def)
  ultimately show ?thesis
    using assms by (simp add: store_inv_def chunk_inv_def fresh_store_def unlocked_def
        manifest_ok_new disk_refs_empty disk_manifests_empty)
qed

lemma empty_store_inv: "store_inv sample_deps memory_kv memory_ok (\<lambda>_. True) empty_store"
  unfolding empty_store_def by (rule fresh_store_inv) (simp_all add: memory_new_ok memory_new_kv)

lemma empty_store_simps [simp]:
  "st_codec empty_store = None" "memory_kv (st_backend empty_store) = Map.empty"
  "guarded (st_manifest empty_store) = manifest_new" "guarded (st_stats empty_store) = stats_default"
  "contents memory_kv empty_store = Map.empty" "stored_plain c Map.empty = {}"
  by (simp_all add: empty_store_def fresh_store_def memory_new_kv contents_def fun_eq_iff
      stored_plain_def blob_plain_def)

lemma sample_deps_simps [simp]:
  "dp_backend sample_deps = MemoryBackend" "dp_json sample_deps = sample_json"
  "dp_sha sample_deps = sample_sha" "dp_fastcdc sample_deps = sample_fastcdc"
  by (simp_all add: sample_deps_def)

lemma empty_store_fits [simp]:
  "fits empty_store chunks \<longleftrightarrow> length chunks < 2 ^ 64 \<and> length (concat chunks) < 2 ^ 64"
  by (simp add: fits_def manifest_new_def stats_default_def)

text \<open>Inputs below 32 bytes, of which only finitely many chunks come into play.\<close>

definition short :: "bytes set" where
  "short = {p. length p \<le> 31 \<and> p \<noteq> []}"

lemma short_iff [simp]: "p \<in> short \<longleftrightarrow> length p \<le> 31 \<and> p \<noteq> []"
  by (simp add: short_def)

lemma short_inj: "inj_on sample_sha short"
  by (rule inj_on_subset [OF sample_sha_inj]) (auto simp: short_def)

lemma empty_store_collision_free:
  "set chunks \<subseteq> short \<Longrightarrow> collision_free sample_deps memory_kv empty_store chunks"
  by (simp add: collision_free_def inj_on_subset [OF short_inj])

lemma sample_chunks:
  "fixed_chunks 2 [9] = [[9]]" "fixed_chunks 2 [1, 2, 3] = [[1, 2], [3]]" "fixed_chunks 2 [1, 2, 1, 2] = [[1, 2], [1, 2]]"
  by (simp_all add: fixed_chunks_def full_chunks_def rest_bytes_def upt_rec)

text \<open>A store with one file of two chunks.\<close>

definition one_file :: "memory_backend store" where
  "one_file = snd (ingest_fixed sample_deps ''f'' [1, 2, 3] 2 empty_store)"

lemma one_file_ingested:
  "ingested sample_deps memory_kv memory_ok (\<lambda>_. True) ''f'' [[1, 2], [3]] empty_store one_file"
proof -
  have "wp (ingest_chunks sample_deps ''f'' [[1, 2], [3]]) empty_store (\<lambda>_ s'.
      ingested sample_deps memory_kv memory_ok (\<lambda>_. True) ''f'' [[1, 2], [3]] empty_store s')"
    by (rule sample.wp_ingest_chunks [OF empty_store_inv])
      (simp_all add: empty_store_collision_free proper_file_id_def short_def)
  then show ?thesis
    by (auto simp: one_file_def ingest_fixed_eq sample_chunks elim!: wpE)
qed

lemma one_file_inv: "store_inv sample_deps memory_kv memory_ok (\<lambda>_. True) one_file"
  and one_file_contents: "contents memory_kv one_file = [''f'' \<mapsto> [1, 2, 3]]"
  and one_file_codec: "st_codec one_file = None"
  and one_file_within: "length (concat chunks) < 2 ^ 32 \<Longrightarrow> length chunks < 2 ^ 32 \<Longrightarrow>
         set chunks \<subseteq> short \<Longrightarrow> within sample_deps memory_kv short chunks one_file"
proof -
  note i = one_file_ingested
  show "store_inv sample_deps memory_kv memory_ok (\<lambda>_. True) one_file"
    and "contents memory_kv one_file = [''f'' \<mapsto> [1, 2, 3]]" and "st_codec one_file = None"
    using i by (simp_all add: ingested_def)
  assume "length (concat chunks) < 2 ^ 32" "length chunks < 2 ^ 32" "set chunks \<subseteq> short"
  then have "within sample_deps memory_kv short ([[1, 2], [3]] @ chunks) empty_store"
    by (simp add: within_def short_def)
  then show "within sample_deps memory_kv short chunks one_file"
    by (rule within_ingested [OF empty_store_inv i])
qed

lemma one_file_digests:
  "try_get (guarded (st_manifest one_file)) ''f'' = Some (map (digest_hex sample_sha) [[1, 2], [3]])"
  using one_file_ingested by (simp add: ingested_def try_get_def manifest_new_def)

text \<open>A sequence of operations with its specified outcomes.\<close>

definition sample_ops :: "store_op list" where
  "sample_ops =
     [OpIngest ''f'' [1, 2, 3] 2, OpRead ''f'', OpReopen, OpRead ''f'', OpIngest ''f'' [1, 2, 1, 2] 2,
      OpRead ''f'', OpDelete ''f'', OpRead ''f'', OpIngest ''g'' [] 0, OpFsck True]"

definition sample_outcomes :: "outcome res list" where
  "sample_outcomes =
     [Ok (Digests (map (digest_hex sample_sha) [[1, 2], [3]])), Ok (Contents [1, 2, 3]), Ok Done,
      Ok (Contents [1, 2, 3]), Ok (Digests (map (digest_hex sample_sha) [[1, 2], [1, 2]])),
      Ok (Contents [1, 2, 1, 2]), Ok Done, Err (NotFound ''file f''), Err zero_chunk_size_error,
      Ok (Report \<lparr>missing_blobs = [], orphan_blobs = [], repaired = 0\<rparr>)]"

lemma sample_ops_spec:
  "spec_ops sample_sha sample_fastcdc sample_ops Map.empty = (sample_outcomes, Map.empty)"
  by (simp add: sample_ops_def sample_outcomes_def sample_chunks)

lemma sample_ops_provisos:
  "within sample_deps memory_kv short (concat (map (op_chunks sample_fastcdc) sample_ops)) empty_store"
  "list_all (op_file_ok (\<lambda>_. True)) sample_ops"
  "[] \<notin> short"
  "fastcdc_ok sample_fastcdc cdc_config_default"
  by (simp_all add: sample_ops_def within_def sample_chunks proper_file_id_def
      sample_fastcdc_ok cdc_defaults_ok)

text \<open>Files that share a chunk, one of which is replaced, with a restart in between.\<close>

definition shared_ops :: "store_op list" where
  "shared_ops =
     [OpIngest ''f'' [9] 2, OpIngest ''g'' [1, 2, 3] 2, OpReopen, OpIngest ''f'' [1, 2, 1, 2] 2]"

lemma shared_ops_live:
  "live_ops sample_fastcdc shared_ops Map.empty =
     [''g'' \<mapsto> [[1, 2], [3]], ''f'' \<mapsto> [[1, 2], [1, 2]]]"
  by (simp add: shared_ops_def sample_chunks fun_upd_twist)

lemma shared_ops_live_chunks:
  "(\<Union>cs \<in> ran [''g'' \<mapsto> [[1, 2], [3]], ''f'' \<mapsto> [[1, 2], [1, 2]]]. set cs) = {[1, 2], [3 :: 8 word]}"
  by auto

lemma shared_ops_spec:
  "snd (spec_ops sample_sha sample_fastcdc shared_ops Map.empty) = [''g'' \<mapsto> [1, 2, 3], ''f'' \<mapsto> [1, 2, 1, 2]]"
  by (simp add: shared_ops_def fun_upd_twist)

lemma shared_ops_provisos:
  "concat (map (op_chunks sample_fastcdc) shared_ops) = [[9], [1, 2], [3], [1, 2], [1, 2]]"
  "inj_on (dp_sha sample_deps) (set (concat (map (op_chunks (dp_fastcdc sample_deps)) shared_ops)))"
  "list_all (op_file_ok (\<lambda>_. True)) shared_ops" "fastcdc_ok sample_fastcdc cdc_config_default"
proof -
  show chunks: "concat (map (op_chunks sample_fastcdc) shared_ops) = [[9], [1, 2], [3], [1, 2], [1, 2]]"
    by (simp add: shared_ops_def sample_chunks)
  show "inj_on (dp_sha sample_deps) (set (concat (map (op_chunks (dp_fastcdc sample_deps)) shared_ops)))"
    unfolding sample_deps_simps chunks by (rule inj_on_subset [OF short_inj]) (simp add: short_def)
  show "list_all (op_file_ok (\<lambda>_. True)) shared_ops" "fastcdc_ok sample_fastcdc cdc_config_default"
    by (simp_all add: shared_ops_def proper_file_id_def sample_fastcdc_ok cdc_defaults_ok)
qed

lemma one_file_plain:
  "p \<in> set [[1, 2], [3]] \<Longrightarrow> store_plain memory_kv one_file (digest_hex sample_sha p) = Some p"
  using one_file_ingested by (auto simp: ingested_def)

lemma one_file_provisos:
  assumes "set chunks \<subseteq> short" and "length (concat chunks) < 2 ^ 32" and "length chunks < 2 ^ 32"
  shows "collision_free sample_deps memory_kv one_file chunks" and "fits one_file chunks"
  using within_collision_free [of sample_deps memory_kv short chunks "[]" one_file]
    one_file_within [of chunks] assms by (simp_all add: short_inj)

text \<open>The same store after a crash that left a blob nothing refers to.\<close>

definition orphan_digest :: string where
  "orphan_digest = digest_hex sample_sha [9]"

definition with_orphan :: "memory_backend store" where
  "with_orphan = one_file\<lparr>st_backend := snd (memory_put orphan_digest [9] (st_backend one_file))\<rparr>"

lemma orphan_digest_new: "is_chunk_digest orphan_digest" "orphan_digest \<notin># store_refs one_file"
proof -
  show "is_chunk_digest orphan_digest"
    unfolding orphan_digest_def by (rule digest_is_chunk_digest [OF sample_sha_ok])
  have "store_refs one_file = mset (map (digest_hex sample_sha) [[1, 2], [3]])"
    using one_file_ingested by (simp add: ingested_def manifest_new_def)
  then show "orphan_digest \<notin># store_refs one_file"
    by (simp add: orphan_digest_def digest_hex_eq_iff sample_sha_def)
qed

lemma with_orphan_backend:
  "memory_ok (st_backend with_orphan)"
  "memory_kv (st_backend with_orphan) = (memory_kv (st_backend one_file))(orphan_digest \<mapsto> [9])"
  "st_manifest with_orphan = st_manifest one_file" "st_refcount with_orphan = st_refcount one_file"
  "st_codec with_orphan = st_codec one_file"
proof -
  obtain b where b: "memory_put orphan_digest [9] (st_backend one_file) = (Ok (), b)" "memory_ok b"
      "memory_kv b = (memory_kv (st_backend one_file))(orphan_digest \<mapsto> [9])"
    using mem.put_law [OF store_invD(1) [OF one_file_inv], of "[9]" orphan_digest]
    by (auto simp: MemoryBackend_def)
  then show "memory_ok (st_backend with_orphan)"
    and "memory_kv (st_backend with_orphan) = (memory_kv (st_backend one_file))(orphan_digest \<mapsto> [9])"
    by (simp_all add: with_orphan_def)
qed (simp_all add: with_orphan_def)

lemma orphan_strays:
  "strays (memory_kv (st_backend with_orphan)) (get_ref (guarded (st_refcount with_orphan))) = {orphan_digest}"
proof -
  have "strays (memory_kv (st_backend one_file)) (get_ref (guarded (st_refcount one_file))) = {}"
    by (rule chunk_inv_no_strays(1) [OF store_invD(5) [OF one_file_inv]])
  moreover have "get_ref (guarded (st_refcount one_file)) orphan_digest = None"
    using chunk_inv_absent(2) [OF store_invD(5) [OF one_file_inv] orphan_digest_new(2,1)] .
  ultimately show ?thesis
    using orphan_digest_new(1) by (auto simp: strays_def with_orphan_backend)
qed

lemma orphan_removed:
  "memory_kv (st_backend with_orphan) |` (- {orphan_digest}) = memory_kv (st_backend one_file)"
  using chunk_inv_absent(1) [OF store_invD(5) [OF one_file_inv] orphan_digest_new(2,1)]
  by (auto simp: with_orphan_backend restrict_map_def fun_eq_iff)

text \<open>The same store with the blob of the second chunk overwritten.\<close>

definition corrupted :: "memory_backend store" where
  "corrupted = one_file\<lparr>st_backend :=
     snd (memory_put (digest_hex sample_sha [3]) [4] (st_backend one_file))\<rparr>"

lemma corrupted_backend:
  "memory_ok (st_backend corrupted)"
  "memory_kv (st_backend corrupted) =
     (memory_kv (st_backend one_file))(digest_hex sample_sha [3] \<mapsto> [4])"
  "st_codec corrupted = None"
proof -
  obtain b where "memory_put (digest_hex sample_sha [3]) [4] (st_backend one_file) = (Ok (), b)"
      "memory_ok b"
      "memory_kv b = (memory_kv (st_backend one_file))(digest_hex sample_sha [3] \<mapsto> [4])"
    using mem.put_law [OF store_invD(1) [OF one_file_inv], of "[4]" "digest_hex sample_sha [3]"]
    by (auto simp: MemoryBackend_def)
  then show "memory_ok (st_backend corrupted)"
    and "memory_kv (st_backend corrupted) =
      (memory_kv (st_backend one_file))(digest_hex sample_sha [3] \<mapsto> [4])"
    by (simp_all add: corrupted_def)
qed (simp add: corrupted_def one_file_codec)

section \<open>A backend written by an older version\<close>

text \<open>One file of one chunk; the refcount record is a bare count.\<close>

definition old_digest :: string where
  "old_digest = digest_hex sample_sha [7]"

definition old_kv :: "string \<rightharpoonup> bytes" where
  "old_kv = [old_digest \<mapsto> [7], refcount_key old_digest \<mapsto> 0 # put_word 1,
             REFCOUNT_INDEX_KEY \<mapsto> 3 # put_strings [old_digest],
             manifest_key ''f'' \<mapsto> 2 # put_strings [old_digest] @ put_word 1,
             MANIFEST_INDEX_KEY \<mapsto> 3 # put_strings [''f'']]"

definition old_refs :: "string \<rightharpoonup> chunk_ref" where
  "old_refs = [old_digest \<mapsto> \<lparr>cr_count = 1, cr_size = 0\<rparr>]"

definition old_files :: "string \<rightharpoonup> string list \<times> u64" where
  "old_files = [''f'' \<mapsto> ([old_digest], 1)]"

definition old_backend :: memory_backend where
  "old_backend = \<lparr>mem_data = new_mutex
     [(MANIFEST_INDEX_KEY, 3 # put_strings [''f'']),
      (manifest_key ''f'', 2 # put_strings [old_digest] @ put_word 1),
      (REFCOUNT_INDEX_KEY, 3 # put_strings [old_digest]),
      (refcount_key old_digest, 0 # put_word 1), (old_digest, [7])]\<rparr>"

lemma old_digest_ok: "is_chunk_digest old_digest"
  unfolding old_digest_def by (rule digest_is_chunk_digest [OF sample_sha_ok])

lemma old_keys_distinct:
  "distinct [MANIFEST_INDEX_KEY, manifest_key ''f'', REFCOUNT_INDEX_KEY, refcount_key old_digest, old_digest]"
proof -
  note cls = digest_key_class [OF old_digest_ok]
  have "MANIFEST_INDEX_KEY \<noteq> manifest_key ''f''" using manifest_key_eq_index [of "''f''"] by auto
  moreover have "REFCOUNT_INDEX_KEY \<noteq> refcount_key old_digest"
    using refcount_key_not_index [OF old_digest_ok] by metis
  moreover have "k \<notin> {REFCOUNT_INDEX_KEY, refcount_key old_digest, old_digest}"
    if "is_manifest_key k" for k
    using that cls(1) refcount_key_class(3,4) by blast
  moreover have "k \<noteq> old_digest" if "is_refcount_key k" for k using that cls(2) by blast
  ultimately show ?thesis by simp
qed

lemma old_backend_kv: "memory_ok old_backend" "memory_kv old_backend = old_kv"
  using old_keys_distinct
  by (simp_all add: old_backend_def memory_ok_def memory_kv_def old_kv_def fun_eq_iff)

lemma old_kv_lookups:
  "old_kv old_digest = Some [7]"
  "old_kv (refcount_key old_digest) = Some (0 # put_word 1)"
  "old_kv REFCOUNT_INDEX_KEY = Some (3 # put_strings [old_digest])"
  "old_kv (manifest_key ''f'') = Some (2 # put_strings [old_digest] @ put_word 1)"
  "old_kv MANIFEST_INDEX_KEY = Some (3 # put_strings [''f''])"
  using old_keys_distinct by (auto simp: old_kv_def)

lemma old_loadable:
  "loadable sample_deps (memory_kv old_backend) (\<lambda>_. True) None old_refs old_files"
proof -
  have refs: "disk_refs sample_json old_kv old_refs"
    by (auto simp: disk_refs_def index_lists_def old_kv_lookups old_refs_def old_digest_ok
        parse_refcount_record_def sample_json_def simp del: put_strings.simps
        intro!: exI [of _ "[old_digest]"])
  have files: "disk_manifests sample_json old_kv old_files"
  proof -
    have "index_lists sample_json old_kv MANIFEST_INDEX_KEY [''f'']"
      by (simp add: index_lists_def old_kv_lookups sample_json_def del: put_strings.simps)
    moreover have "from_slice_manifest sample_json (2 # put_strings [old_digest] @ put_word 1) =
        Inr \<lparr>mr_digests = [old_digest], mr_file_bytes = 1\<rparr>"
      using get_put_strings' [of "[old_digest]" "put_word 1"]
      by (simp add: sample_json_def del: put_strings.simps)
    ultimately show ?thesis
      by (auto simp: disk_manifests_def old_files_def old_kv_lookups proper_file_id_def old_digest_ok
          intro!: exI [of _ "[''f'']"])
  qed
  have "map_of [(''f'', [old_digest])] = map_option fst \<circ> old_files"
    by (simp add: fun_eq_iff old_files_def)
  moreover have "refs_match old_refs {#old_digest#}"
    by (auto simp: refs_match_def old_refs_def)
  moreover have "ref_bytes (plain_len None old_kv) {#old_digest#} < 2 ^ 64"
    by (simp add: ref_bytes_def plain_len_def blob_plain_def old_kv_lookups)
  moreover have "blobs_match sample_sha None old_kv (upgraded old_kv old_refs)"
    by (auto simp: blobs_match_def upgraded_def upgrade_def old_refs_def blob_plain_def
        old_kv_lookups old_kv_def old_digest_def split: if_splits)
  ultimately show ?thesis
    using refs files unfolding loadable_def old_backend_kv
    by (auto intro!: exI [of _ "[(''f'', [old_digest])]"])
qed

section \<open>The store on a file system\<close>

definition fs_sample_deps :: "fs_backend deps" where
  "fs_sample_deps = \<lparr>dp_backend = FsBackend, dp_json = sample_json, dp_sha = sample_sha,
                     dp_fastcdc = sample_fastcdc\<rparr>"

lemma fs_sample_deps_simps [simp]:
  "dp_backend fs_sample_deps = FsBackend" "dp_json fs_sample_deps = sample_json"
  "dp_sha fs_sample_deps = sample_sha" "dp_fastcdc fs_sample_deps = sample_fastcdc"
  by (simp_all add: fs_sample_deps_def)

text \<open>A directory \<^verbatim>\<open>/r\<close> just created, and the key \<^verbatim>\<open>a\<close> written below it.\<close>

definition fs_empty :: fs_backend where
  "fs_empty = \<lparr>fb_root = [''r''], fb_nodes = [([], Dir), ([''r''], Dir)], fb_tmp_counter = 0\<rparr>"

definition fs_one :: fs_backend where
  "fs_one = snd (fs_put (manifest_key ''a'') [1] fs_empty)"

lemma fs_empty_new: "fst (fs_new [''r''] 0 []) = Ok fs_empty"
  by (simp add: fs_new_def seq_def create_dir_all_def ancestors_def is_file_def add_dir_def fs_empty_def)

lemma fs_empty_ok: "fs_ok (fs_keys flat_id) fs_empty" "fs_kv fs_empty = Map.empty"
  using fs_new_empty [of "[''r'']" 0 "[]" fs_empty "snd (fs_new [''r''] 0 [])"] fs_empty_new
  by (metis map_of.simps(1) prod.collapse distinct.simps(1) list.map(1))+

lemma flat_a: "fs_keys flat_id (manifest_key ''a'')"
  by (auto simp: fs_keys_def flat_id_def plain_name_def)

lemma fs_one_ok: "fs_ok (fs_keys flat_id) fs_one" "fs_kv fs_one = [manifest_key ''a'' \<mapsto> [1]]"
  "fb_root fs_one = [''r'']"
proof -
  obtain b where "fs_put (manifest_key ''a'') [1] fs_empty = (Ok (), b)" "fs_ok (fs_keys flat_id) b"
      "fs_kv b = (fs_kv fs_empty)(manifest_key ''a'' \<mapsto> [1])"
    using flat.ks.fs_put_law [OF fs_empty_ok(1) flat_a, of "[1]"] by blast
  then show "fs_ok (fs_keys flat_id) fs_one" "fs_kv fs_one = [manifest_key ''a'' \<mapsto> [1]]"
    by (simp_all add: fs_one_def fs_empty_ok)
qed (simp add: fs_put_root fs_one_def fs_empty_def)

end
