(* ===== verification/Std_Io.thy ===== *)
theory Std_Io
  imports Chunk_Prelude
begin

text \<open>
  What the bindings use of the Rust standard library: \<^verbatim>\<open>Write::write_all\<close> over a
  \<^verbatim>\<open>write\<close> that may write less than it is given, \<^verbatim>\<open>Vec<u8>\<close> with its
  capacity, C strings, and the UTF-8 check of \<^verbatim>\<open>CStr::to_str\<close>.
\<close>

section \<open>\<open>Write::write_all\<close>\<close>

text \<open>
  A writer is given by its \<^verbatim>\<open>write\<close>: the number of bytes taken, or nothing when the
  call was interrupted and has to be repeated.  A count above the length of the buffer makes
  \<^verbatim>\<open>&buf[n..]\<close> panic.
\<close>

type_synonym 'w write_fn = "bytes \<Rightarrow> ('w, nat option) act"

definition write_zero_error :: chunk_store_error where
  "write_zero_error = IoError ''failed to write whole buffer''"

partial_function (option) write_all_loop ::
  "'w write_fn \<Rightarrow> bytes \<Rightarrow> 'w \<Rightarrow> (unit res \<times> 'w) option" where
  "write_all_loop write buf w =
     (if buf = [] then Some (Ok (), w)
      else (case write buf w of
              (Err e, w') \<Rightarrow> Some (Err e, w')
            | (Panic, w') \<Rightarrow> Some (Panic, w')
            | (Hang, w') \<Rightarrow> Some (Hang, w')
            | (Ok x, w') \<Rightarrow>
                (case x of
                   None \<Rightarrow> write_all_loop write buf w'
                 | Some n \<Rightarrow>
                     if n = 0 then Some (Err write_zero_error, w')
                     else if length buf < n then Some (Panic, w')
                     else write_all_loop write (drop n buf) w')))"

definition write_all :: "'w write_fn \<Rightarrow> bytes \<Rightarrow> ('w, unit) act" where
  "write_all write buf w =
     (case write_all_loop write buf w of None \<Rightarrow> (Hang, w) | Some x \<Rightarrow> x)"

lemma write_all_Nil [simp]: "write_all write [] w = (Ok (), w)"
  by (simp add: write_all_def write_all_loop.simps)

lemma write_all_Err:
  "buf \<noteq> [] \<Longrightarrow> write buf w = (Err e, w') \<Longrightarrow> write_all write buf w = (Err e, w')"
  by (simp add: write_all_def write_all_loop.simps)

lemma write_all_whole:
  "buf \<noteq> [] \<Longrightarrow> write buf w = (Ok (Some (length buf)), w') \<Longrightarrow> write_all write buf w = (Ok (), w')"
  by (simp add: write_all_def write_all_loop.simps)

lemma write_all_over:
  "buf \<noteq> [] \<Longrightarrow> write buf w = (Ok (Some n), w') \<Longrightarrow> length buf < n \<Longrightarrow>
     write_all write buf w = (Panic, w')"
  by (auto simp: write_all_def write_all_loop.simps)

text \<open>
  A writer that makes progress: each call appends at least one byte, or is interrupted while
  the writer's patience, a natural number, shrinks.  Then the loop ends with the whole buffer
  appended.
\<close>

definition progresses :: "'w write_fn \<Rightarrow> ('w \<Rightarrow> bytes) \<Rightarrow> ('w \<Rightarrow> nat) \<Rightarrow> bool" where
  "progresses write out patience \<longleftrightarrow>
     (\<forall>buf w. buf \<noteq> [] \<longrightarrow>
        (\<exists>n w'. write buf w = (Ok (Some n), w') \<and> 0 < n \<and> n \<le> length buf \<and>
                out w' = out w @ take n buf) \<or>
        (\<exists>w'. write buf w = (Ok None, w') \<and> patience w' < patience w \<and> out w' = out w))"

lemma write_all_progresses:
  assumes "progresses write out patience"
  shows "\<exists>w'. write_all write buf w = (Ok (), w') \<and> out w' = out w @ buf"
proof -
  have "\<exists>w'. write_all_loop write buf w = Some (Ok (), w') \<and> out w' = out w @ buf"
  proof (induction "(length buf, patience w)" arbitrary: buf w
      rule: wf_induct_rule [OF wf_lex_prod [OF wf_less_than wf_less_than]])
    case 1
    show ?case
    proof (cases "buf = []")
      case True
      then show ?thesis by (simp add: write_all_loop.simps)
    next
      case False
      consider n w' where "write buf w = (Ok (Some n), w')" "0 < n" "n \<le> length buf"
          "out w' = out w @ take n buf"
        | w' where "write buf w = (Ok None, w')" "patience w' < patience w" "out w' = out w"
        using assms False unfolding progresses_def by blast
      then show ?thesis
      proof cases
        case (1 n w')
        then obtain w'' where "write_all_loop write (drop n buf) w' = Some (Ok (), w'')"
            "out w'' = out w' @ drop n buf"
          using "1.hyps" [of "drop n buf" w'] False by auto
        then show ?thesis
          using 1 False by (subst write_all_loop.simps) simp
      next
        case (2 w')
        then obtain w'' where "write_all_loop write buf w' = Some (Ok (), w'')" "out w'' = out w' @ buf"
          using "1.hyps" [of buf w'] by auto
        then show ?thesis
          using 2 False by (subst write_all_loop.simps) simp
      qed
    qed
  qed
  then show ?thesis by (auto simp: write_all_def)
qed

section \<open>\<open>Vec<u8>\<close> with its capacity\<close>

text \<open>
  The amortised growth of \<^verbatim>\<open>Vec<u8>\<close>: at least doubled, at least eight.  A vector is
  its contents and its capacity.
\<close>

type_synonym vec = "bytes \<times> nat"

definition vec_new :: vec where
  "vec_new = ([], 0)"

definition vec_grow :: "nat \<Rightarrow> nat \<Rightarrow> nat \<Rightarrow> nat" where
  "vec_grow cap len extra = (if extra \<le> cap - len then cap else max 8 (max (cap * 2) (len + extra)))"

definition vec_extend :: "bytes \<Rightarrow> (vec, unit) act" where
  "vec_extend chunk = (\<lambda>(out, cap). (Ok (), (out @ chunk, vec_grow cap (length out) (length chunk))))"

text \<open>The capacity after a sequence of extensions.\<close>

definition vec_cap :: "nat list \<Rightarrow> nat" where
  "vec_cap ns = fst (fold (\<lambda>n (cap, len). (vec_grow cap len n, len + n)) ns (0, 0))"

section \<open>Strings across the C boundary\<close>

text \<open>\<^verbatim>\<open>CString::new\<close>: the text must not contain a NUL byte.\<close>

fun nul_position :: "string \<Rightarrow> nat option" where
  "nul_position [] = None"
| "nul_position (c # s) = (if c = CHR 0x00 then Some 0 else map_option Suc (nul_position s))"

definition cstring_new :: "string \<Rightarrow> string + string" where
  "cstring_new s =
     (case nul_position s of
        None \<Rightarrow> Inr s
      | Some n \<Rightarrow> Inl (''nul byte found in provided data at position: '' @ show_nat n))"

lemma nul_position_None [simp]: "nul_position s = None \<longleftrightarrow> CHR 0x00 \<notin> set s"
  by (induction s) auto

lemma cstring_new_Inr: "CHR 0x00 \<notin> set s \<Longrightarrow> cstring_new s = Inr s"
  by (simp add: cstring_new_def flip: nul_position_None)

text \<open>
  \<^verbatim>\<open>str::from_utf8\<close>: the index of the first invalid sequence and its length, none when
  the input ends in the middle of a sequence.
\<close>

definition is_cont :: "nat \<Rightarrow> bool" where
  "is_cont b \<longleftrightarrow> 0x80 \<le> b \<and> b \<le> 0xBF"

definition utf8_width :: "nat \<Rightarrow> nat" where
  "utf8_width b =
     (if 0xC2 \<le> b \<and> b \<le> 0xDF then 2 else if 0xE0 \<le> b \<and> b \<le> 0xEF then 3
      else if 0xF0 \<le> b \<and> b \<le> 0xF4 then 4 else 0)"

definition second_ok :: "nat \<Rightarrow> nat \<Rightarrow> bool" where
  "second_ok b c \<longleftrightarrow>
     (if b = 0xE0 then 0xA0 \<le> c \<and> c \<le> 0xBF else if b = 0xED then 0x80 \<le> c \<and> c \<le> 0x9F
      else if b = 0xF0 then 0x90 \<le> c \<and> c \<le> 0xBF else if b = 0xF4 then 0x80 \<le> c \<and> c \<le> 0x8F
      else is_cont c)"

fun utf8_sequence :: "nat \<Rightarrow> nat list \<Rightarrow> nat option option" where
  "utf8_sequence b rest =
     (if b < 0x80 then None
      else if utf8_width b = 0 then Some (Some 1)
      else (case rest of
              [] \<Rightarrow> Some None
            | c # rest \<Rightarrow>
                if \<not> second_ok b c then Some (Some 1)
                else if utf8_width b = 2 then None
                else (case rest of
                        [] \<Rightarrow> Some None
                      | d # rest \<Rightarrow>
                          if \<not> is_cont d then Some (Some 2)
                          else if utf8_width b = 3 then None
                          else (case rest of
                                  [] \<Rightarrow> Some None
                                | e # rest \<Rightarrow> if is_cont e then None else Some (Some 3)))))"

declare utf8_sequence.simps [simp del]

function utf8_error :: "nat \<Rightarrow> nat list \<Rightarrow> (nat \<times> nat option) option" where
  "utf8_error i [] = None"
| "utf8_error i (b # rest) =
     (case utf8_sequence b rest of
        Some len \<Rightarrow> Some (i, len)
      | None \<Rightarrow> utf8_error (i + max 1 (utf8_width b)) (drop (utf8_width b - 1) rest))"
  by pat_completeness auto
termination
  by (relation "measure (length \<circ> snd)") auto

definition to_str :: "string \<Rightarrow> string + string" where
  "to_str s =
     (case utf8_error 0 (map of_char s) of
        None \<Rightarrow> Inr s
      | Some (i, Some n) \<Rightarrow>
          Inl (''invalid utf-8 sequence of '' @ show_nat n @ '' bytes from index '' @ show_nat i)
      | Some (i, None) \<Rightarrow> Inl (''incomplete utf-8 byte sequence from index '' @ show_nat i))"

lemma utf8_error_ascii: "list_all (\<lambda>b. b < 0x80) bs \<Longrightarrow> utf8_error i bs = None"
  by (induction bs arbitrary: i) (simp_all add: utf8_sequence.simps utf8_width_def)

lemma to_str_ascii: "list_all (\<lambda>c. of_char c < (0x80 :: nat)) s \<Longrightarrow> to_str s = Inr s"
  by (simp add: to_str_def utf8_error_ascii list_all_iff)

lemma to_str_Inr: "to_str s = Inr t \<Longrightarrow> t = s"
  by (auto simp: to_str_def split: option.splits prod.splits)

end
