(* ===== verification/Ffi_Memory.thy ===== *)
theory Ffi_Memory
  imports Std_Io Backend
begin

text \<open>
  \<^verbatim>\<open>core/src/ffi/types.rs\<close> and the memory that crosses the C boundary: pointers, the
  buffers and strings the library hands out, and the backend built from the caller's table of
  callbacks (\<^verbatim>\<open>CallbackBackend\<close> of \<^verbatim>\<open>ffi/store_ffi.rs\<close>).

  A step whose behaviour Rust leaves undefined (freeing with the wrong capacity, reading a
  buffer that is not there) sets the flag \<open>hp_undefined\<close> and promises nothing more.
\<close>

section \<open>Pointers\<close>

datatype ptr = Ptr (addr: nat)

instantiation ptr :: zero
begin

definition zero_ptr :: ptr where
  "zero_ptr = Ptr 0"

instance ..

end

instantiation ptr :: linorder
begin

definition less_eq_ptr :: "ptr \<Rightarrow> ptr \<Rightarrow> bool" where
  "less_eq_ptr p q \<longleftrightarrow> addr p \<le> addr q"

definition less_ptr :: "ptr \<Rightarrow> ptr \<Rightarrow> bool" where
  "less_ptr p q \<longleftrightarrow> addr p < addr q"

instance
  by standard (auto simp: less_eq_ptr_def less_ptr_def intro: ptr.expand)

end

text \<open>What a vector without a buffer points to.\<close>

definition dangling :: ptr where
  "dangling = Ptr 1"

type_synonym c_int = "32 word"

definition CHUNKSTORE_OK :: c_int where "CHUNKSTORE_OK = 0"
definition CHUNKSTORE_ERR :: c_int where "CHUNKSTORE_ERR = -1"

lemma c_codes [simp]: "CHUNKSTORE_ERR \<noteq> CHUNKSTORE_OK" "CHUNKSTORE_OK \<noteq> CHUNKSTORE_ERR"
  by (simp_all add: CHUNKSTORE_OK_def CHUNKSTORE_ERR_def)

section \<open>The heap of the library\<close>

text \<open>A live buffer is a vector: its bytes and its capacity.\<close>

record heap =
  hp_next :: ptr
  hp_bytes :: "(ptr \<times> vec) list"
  hp_strings :: "(ptr \<times> string) list"
  hp_undefined :: bool

definition heap_new :: heap where
  "heap_new = \<lparr>hp_next = Ptr 2, hp_bytes = [], hp_strings = [], hp_undefined = False\<rparr>"

definition undefined_behaviour :: "(heap, 'a) act" where
  "undefined_behaviour h = (Hang, h\<lparr>hp_undefined := True\<rparr>)"

definition fresh_ptr :: "(heap, ptr) act" where
  "fresh_ptr h = (Ok (hp_next h), h\<lparr>hp_next := Ptr (Suc (addr (hp_next h)))\<rparr>)"

text \<open>Giving a vector or a string away (\<^verbatim>\<open>mem::forget\<close>, \<^verbatim>\<open>into_raw\<close>).\<close>

definition leak_vec :: "vec \<Rightarrow> (heap, ptr) act" where
  "leak_vec v =
     (if snd v = 0 then ret dangling
      else seq fresh_ptr (\<lambda>p h. (Ok p, h\<lparr>hp_bytes := (p, v) # hp_bytes h\<rparr>)))"

definition leak_string :: "string \<Rightarrow> (heap, ptr) act" where
  "leak_string s = seq fresh_ptr (\<lambda>p h. (Ok p, h\<lparr>hp_strings := (p, s) # hp_strings h\<rparr>))"

definition chunkstore_bytes_alloc :: "nat \<Rightarrow> (heap, ptr) act" where
  "chunkstore_bytes_alloc len = (if len = 0 then ret 0 else leak_vec (replicate len 0, len))"

text \<open>
  \<^verbatim>\<open>Vec::from_raw_parts(ptr, len, len)\<close> is defined only for a buffer of that capacity.
\<close>

definition chunkstore_bytes_free :: "ptr \<Rightarrow> nat \<Rightarrow> (heap, unit) act" where
  "chunkstore_bytes_free p len h =
     (if p = 0 \<or> len = 0 then (Ok (), h)
      else (case map_of (hp_bytes h) p of
              None \<Rightarrow> undefined_behaviour h
            | Some (data, cap) \<Rightarrow>
                if cap = len then (Ok (), h\<lparr>hp_bytes := AList.delete p (hp_bytes h)\<rparr>)
                else undefined_behaviour h))"

definition chunkstore_string_free :: "ptr \<Rightarrow> (heap, unit) act" where
  "chunkstore_string_free p h =
     (if p = 0 then (Ok (), h)
      else (case map_of (hp_strings h) p of
              None \<Rightarrow> undefined_behaviour h
            | Some s \<Rightarrow> (Ok (), h\<lparr>hp_strings := AList.delete p (hp_strings h)\<rparr>)))"

text \<open>\<^verbatim>\<open>slice::from_raw_parts(ptr, len)\<close> on a buffer of the heap.\<close>

definition slice_from_raw :: "ptr \<Rightarrow> nat \<Rightarrow> (heap, bytes) act" where
  "slice_from_raw p len h =
     (case map_of (hp_bytes h) p of
        Some (data, cap) \<Rightarrow> if len \<le> length data then (Ok (take len data), h) else undefined_behaviour h
      | None \<Rightarrow> undefined_behaviour h)"

text \<open>Live pointers are distinct, below the next one, and neither null nor dangling.\<close>

definition heap_ok :: "heap \<Rightarrow> bool" where
  "heap_ok h \<longleftrightarrow>
     \<not> hp_undefined h \<and> dangling < hp_next h \<and>
     keys_distinct (hp_bytes h) \<and> keys_distinct (hp_strings h) \<and>
     (\<forall>p \<in> dom (map_of (hp_bytes h)) \<union> dom (map_of (hp_strings h)). dangling < p \<and> p < hp_next h)"

lemma heap_new_ok [simp]: "heap_ok heap_new"
  by (simp add: heap_ok_def heap_new_def dangling_def less_ptr_def)

lemma heap_ok_live:
  assumes "heap_ok h" and "map_of (hp_bytes h) p = Some v \<or> map_of (hp_strings h) p = Some t"
  shows "dangling < p" and "p < hp_next h" and "p \<noteq> 0"
proof -
  have "p \<in> dom (map_of (hp_bytes h)) \<union> dom (map_of (hp_strings h))" using assms(2) by blast
  then show "dangling < p" and "p < hp_next h" using assms(1) by (auto simp only: heap_ok_def)
  then show "p \<noteq> 0" by (auto simp: zero_ptr_def dangling_def less_ptr_def)
qed

lemma heap_ok_fresh:
  assumes "heap_ok h"
  shows "map_of (hp_bytes h) (hp_next h) = None" and "map_of (hp_strings h) (hp_next h) = None"
  using assms by (auto simp: heap_ok_def domIff dest: less_imp_neq)

lemma ptr_less_next [simp]: "p < hp_next h \<Longrightarrow> p < Ptr (Suc (addr (hp_next h)))"
  by (simp add: less_ptr_def)

lemma next_less [simp]: "hp_next h < Ptr (Suc (addr (hp_next h)))"
  by (simp add: less_ptr_def)

lemma leak_string_law:
  assumes "heap_ok h"
  shows "\<exists>p h'. leak_string s h = (Ok p, h') \<and> heap_ok h' \<and> p \<noteq> 0 \<and>
     map_of (hp_strings h) p = None \<and>
     map_of (hp_strings h') = (map_of (hp_strings h))(p \<mapsto> s) \<and> hp_bytes h' = hp_bytes h"
proof -
  let ?p = "hp_next h"
  let ?h = "h\<lparr>hp_next := Ptr (Suc (addr ?p)), hp_strings := (?p, s) # hp_strings h\<rparr>"
  note f = heap_ok_fresh [OF assms]
  have "?p \<notin> fst ` set (hp_strings h)" using f(2) by (simp add: map_of_eq_None_iff)
  then have "heap_ok ?h"
    using assms unfolding heap_ok_def by (auto intro: less_trans)
  moreover have "?p \<noteq> 0"
    using assms by (auto simp: heap_ok_def zero_ptr_def dangling_def less_ptr_def)
  moreover have "leak_string s h = (Ok ?p, ?h)"
    by (simp add: leak_string_def seq_def fresh_ptr_def)
  ultimately show ?thesis using f by (intro exI [of _ ?p] exI [of _ ?h]) simp
qed

lemma leak_vec_law:
  assumes "heap_ok h"
  shows "\<exists>p h'. leak_vec (data, cap) h = (Ok p, h') \<and> heap_ok h' \<and> p \<noteq> 0 \<and>
     map_of (hp_bytes h) p = None \<and> (cap = 0 \<longrightarrow> h' = h) \<and>
     map_of (hp_bytes h') = (if cap = 0 then map_of (hp_bytes h)
                             else (map_of (hp_bytes h))(p \<mapsto> (data, cap))) \<and>
     hp_strings h' = hp_strings h"
proof (cases "cap = 0")
  case True
  have "map_of (hp_bytes h) dangling = None"
    using assms by (force simp: heap_ok_def domIff)
  moreover have "dangling \<noteq> 0" by (simp add: dangling_def zero_ptr_def)
  ultimately show ?thesis
    using assms True by (simp add: leak_vec_def ret_def)
next
  case False
  let ?p = "hp_next h"
  let ?h = "h\<lparr>hp_next := Ptr (Suc (addr ?p)), hp_bytes := (?p, (data, cap)) # hp_bytes h\<rparr>"
  note f = heap_ok_fresh [OF assms]
  have "?p \<notin> fst ` set (hp_bytes h)" using f(1) by (simp add: map_of_eq_None_iff)
  then have "heap_ok ?h"
    using assms unfolding heap_ok_def by (auto intro: less_trans)
  moreover have "?p \<noteq> 0"
    using assms by (auto simp: heap_ok_def zero_ptr_def dangling_def less_ptr_def)
  moreover have "leak_vec (data, cap) h = (Ok ?p, ?h)"
    using False by (simp add: leak_vec_def seq_def fresh_ptr_def)
  ultimately show ?thesis using f False by (intro exI [of _ ?p] exI [of _ ?h]) simp
qed

lemma bytes_free_law:
  assumes "heap_ok h" and "map_of (hp_bytes h) p = Some (data, cap)" and "cap \<noteq> 0"
  shows "chunkstore_bytes_free p cap h = (Ok (), h\<lparr>hp_bytes := AList.delete p (hp_bytes h)\<rparr>)"
    and "heap_ok (h\<lparr>hp_bytes := AList.delete p (hp_bytes h)\<rparr>)"
proof -
  have "p \<noteq> 0" using heap_ok_live(3) [OF assms(1)] assms(2) by blast
  then show "chunkstore_bytes_free p cap h = (Ok (), h\<lparr>hp_bytes := AList.delete p (hp_bytes h)\<rparr>)"
    using assms(2,3) by (simp add: chunkstore_bytes_free_def)
  show "heap_ok (h\<lparr>hp_bytes := AList.delete p (hp_bytes h)\<rparr>)"
    using assms(1) by (auto simp: heap_ok_def)
qed

text \<open>A null pointer or an empty length frees nothing; another capacity is undefined.\<close>

lemma bytes_free_undefined:
  assumes "map_of (hp_bytes h) p = Some (data, cap)" and "cap \<noteq> len" and "p \<noteq> 0" and "len \<noteq> 0"
  shows "chunkstore_bytes_free p len h = (Hang, h\<lparr>hp_undefined := True\<rparr>)"
  using assms by (simp add: chunkstore_bytes_free_def undefined_behaviour_def)

section \<open>Callbacks\<close>

text \<open>
  The callbacks act on the caller's own state and, through
  \<^verbatim>\<open>chunkstore_bytes_alloc\<close>, on the heap.  \<open>get\<close> returns its code and what it left in
  \<^verbatim>\<open>*out_data\<close> and \<^verbatim>\<open>*out_len\<close>.
\<close>

record 'u c_world =
  cw_user :: 'u
  cw_heap :: heap

record 'u callbacks =
  cb_get :: "(string \<Rightarrow> 'u c_world \<Rightarrow> (c_int \<times> ptr \<times> nat) \<times> 'u c_world) option"
  cb_put :: "(string \<Rightarrow> bytes \<Rightarrow> 'u c_world \<Rightarrow> c_int \<times> 'u c_world) option"
  cb_exists :: "(string \<Rightarrow> 'u c_world \<Rightarrow> c_int \<times> 'u c_world) option"
  cb_delete :: "(string \<Rightarrow> 'u c_world \<Rightarrow> c_int \<times> 'u c_world) option"

definition on_heap :: "(heap, 'a) act \<Rightarrow> ('u c_world, 'a) act" where
  "on_heap m = zoom cw_heap (\<lambda>h w. w\<lparr>cw_heap := h\<rparr>) m"

text \<open>Calling into C returns whatever it returns.\<close>

definition call :: "('w \<Rightarrow> 'a \<times> 'w) \<Rightarrow> ('w, 'a) act" where
  "call f w = (case f w of (x, w') \<Rightarrow> (Ok x, w'))"

definition cstr :: "string \<Rightarrow> string res" where
  "cstr key = map_err InvalidArgument (cstring_new key)"

definition callback_of :: "string \<Rightarrow> 'f option \<Rightarrow> 'f res" where
  "callback_of name cb =
     (case cb of None \<Rightarrow> Err (BackendError (''backend '' @ name @ '' callback missing'')) | Some f \<Rightarrow> Ok f)"

definition callback_get :: "'u callbacks \<Rightarrow> string \<Rightarrow> ('u c_world, bytes option) act" where
  "callback_get C key =
     seq (lift (callback_of ''get'' (cb_get C))) (\<lambda>get.
     seq (lift (cstr key)) (\<lambda>c_key.
     seq (call (get c_key)) (\<lambda>(rc, out_data, out_len).
     if rc \<noteq> CHUNKSTORE_OK then fail (BackendError (''get failed for key '' @ key))
     else if out_data = 0 \<or> out_len = 0 then ret None
     else seq (on_heap (slice_from_raw out_data out_len)) (\<lambda>data.
          seq (on_heap (chunkstore_bytes_free out_data out_len)) (\<lambda>_.
          ret (Some data))))))"

definition callback_put :: "'u callbacks \<Rightarrow> string \<Rightarrow> bytes \<Rightarrow> ('u c_world, unit) act" where
  "callback_put C key data =
     seq (lift (callback_of ''put'' (cb_put C))) (\<lambda>put.
     seq (lift (cstr key)) (\<lambda>c_key.
     seq (call (put c_key data)) (\<lambda>rc.
     if rc \<noteq> CHUNKSTORE_OK then fail (BackendError (''put failed for key '' @ key)) else ret ())))"

definition callback_exists :: "'u callbacks \<Rightarrow> string \<Rightarrow> ('u c_world, bool) act" where
  "callback_exists C key =
     seq (lift (callback_of ''exists'' (cb_exists C))) (\<lambda>found.
     seq (lift (cstr key)) (\<lambda>c_key.
     seq (call (found c_key)) (\<lambda>rc.
     if rc = 1 then ret True else if rc = 0 then ret False
     else fail (BackendError (''exists failed for key '' @ key)))))"

definition callback_delete :: "'u callbacks \<Rightarrow> string \<Rightarrow> ('u c_world, unit) act" where
  "callback_delete C key =
     seq (lift (callback_of ''delete'' (cb_delete C))) (\<lambda>del.
     seq (lift (cstr key)) (\<lambda>c_key.
     seq (call (del c_key)) (\<lambda>rc.
     if rc \<noteq> CHUNKSTORE_OK then fail (BackendError (''delete failed for key '' @ key)) else ret ())))"

text \<open>The implementation does not override the trait's \<^verbatim>\<open>list_keys\<close>.\<close>

definition CallbackBackend :: "'u callbacks \<Rightarrow> 'u c_world backend_ops" where
  "CallbackBackend C =
     \<lparr>be_get = callback_get C, be_put = callback_put C, be_exists = callback_exists C,
      be_delete = callback_delete C, be_list_keys = default_list_keys\<rparr>"

end
