(* ===== verification/Ffi.thy ===== *)
theory Ffi
  imports Ffi_Memory Fs_Backend Store
begin

text \<open>
  \<^verbatim>\<open>core/src/ffi/store_ffi.rs\<close>: the C API.  A process has the caller's world
  (callbacks' state and heap), a file system, and the live store handles; every
  \<^verbatim>\<open>extern "C"\<close> function is an action on it.  A Rust panic in such a function aborts
  the process (\<open>Panic\<close>), undefined behaviour is the flag of the heap.

  C arguments: a string argument is none for null, or the bytes before the NUL; a buffer is none
  for null, or the bytes the caller owns there; an output pointer is whether it is non-null, and
  the result says what was written through it.
\<close>

section \<open>Stores behind handles\<close>

record ffi_env =
  fe_json :: json_ops
  fe_sha :: hash_fun
  fe_fastcdc :: fastcdc
  fe_to_string :: "string list \<Rightarrow> string + string"
  fe_resolve :: "string \<Rightarrow> path"

datatype 'u ffi_store =
    Callback "'u callbacks" "'u c_world store"
  | Fs "fs_backend store"

text \<open>The handles share the caller's world, the file system and the counter of temporary names.\<close>

record 'u process =
  pr_world :: "'u c_world"
  pr_nodes :: nodes
  pr_tmp :: u64
  pr_stores :: "(ptr \<times> 'u ffi_store) list"

definition callback_deps :: "ffi_env \<Rightarrow> 'u callbacks \<Rightarrow> 'u c_world deps" where
  "callback_deps F C =
     \<lparr>dp_backend = arc_backend (CallbackBackend C), dp_json = fe_json F, dp_sha = fe_sha F,
      dp_fastcdc = fe_fastcdc F\<rparr>"

definition fs_deps :: "ffi_env \<Rightarrow> fs_backend deps" where
  "fs_deps F =
     \<lparr>dp_backend = FsBackend, dp_json = fe_json F, dp_sha = fe_sha F, dp_fastcdc = fe_fastcdc F\<rparr>"

text \<open>
  \<^verbatim>\<open>&mut *(store as *mut FfiStore)\<close> and the \<^verbatim>\<open>match\<close> of every method of
  \<^verbatim>\<open>FfiStore\<close>: the store runs on the process's current world or file system.  \<open>'x\<close> is
  what else the call acts on, a reader or a writer.
\<close>

definition attach_fs :: "'u process \<Rightarrow> fs_backend \<Rightarrow> fs_backend" where
  "attach_fs p b = b\<lparr>fb_nodes := pr_nodes p, fb_tmp_counter := pr_tmp p\<rparr>"

definition mark_undefined :: "'u process \<Rightarrow> 'u process" where
  "mark_undefined p =
     p\<lparr>pr_world := (pr_world p)\<lparr>cw_heap := (cw_heap (pr_world p))\<lparr>hp_undefined := True\<rparr>\<rparr>\<rparr>"

definition with_handle ::
  "ptr \<Rightarrow> ('u callbacks \<Rightarrow> ('x \<times> 'u c_world store, 'a) act) \<Rightarrow> ('x \<times> fs_backend store, 'a) act \<Rightarrow>
     ('x \<times> 'u process, 'a) act" where
  "with_handle h on_callback on_files = (\<lambda>(x, p).
     case map_of (pr_stores p) h of
       None \<Rightarrow> (Hang, (x, mark_undefined p))
     | Some (Callback C s) \<Rightarrow>
         (case on_callback C (x, s\<lparr>st_backend := pr_world p\<rparr>) of
            (r, (x', s')) \<Rightarrow>
              (r, (x', p\<lparr>pr_world := st_backend s',
                         pr_stores := AList.update h (Callback C s') (pr_stores p)\<rparr>)))
     | Some (Fs s) \<Rightarrow>
         (case on_files (x, s\<lparr>st_backend := attach_fs p (st_backend s)\<rparr>) of
            (r, (x', s')) \<Rightarrow>
              (r, (x', p\<lparr>pr_nodes := fb_nodes (st_backend s'), pr_tmp := fb_tmp_counter (st_backend s'),
                         pr_stores := AList.update h (Fs s') (pr_stores p)\<rparr>))))"

text \<open>Calls that act on the process alone.\<close>

definition plain :: "('s, 'a) act \<Rightarrow> (unit \<times> 's, 'a) act" where
  "plain m = (\<lambda>(u, s). case m s of (r, s') \<Rightarrow> (r, (u, s')))"

definition on_handle ::
  "ptr \<Rightarrow> ('u callbacks \<Rightarrow> ('u c_world store, 'a) act) \<Rightarrow> (fs_backend store, 'a) act \<Rightarrow>
     ('u process, 'a) act" where
  "on_handle h on_callback on_files p =
     (case with_handle h (\<lambda>C. plain (on_callback C)) (plain on_files) ((), p) of (r, (u, p')) \<Rightarrow> (r, p'))"

section \<open>The methods of \<open>FfiStore\<close>\<close>

text \<open>\<^verbatim>\<open>std::fs::File\<close> opened by path, on the file system of the process.\<close>

datatype os_file = OpenFile bytes | OpenDir

definition os_open :: "ffi_env \<Rightarrow> nodes \<Rightarrow> string \<Rightarrow> os_file res" where
  "os_open F ns path =
     (case map_of ns (fe_resolve F path) of
        Some (File d) \<Rightarrow> Ok (OpenFile d)
      | Some Dir \<Rightarrow> Ok OpenDir
      | None \<Rightarrow> Err (IoError ''No such file or directory (os error 2)''))"

fun os_read :: "os_file reader" where
  "os_read n (OpenFile d) = (Ok (take n d), OpenFile (drop n d))"
| "os_read n OpenDir = (Err (IoError ''Is a directory (os error 21)''), OpenDir)"

definition ffi_ingest :: "ffi_env \<Rightarrow> ptr \<Rightarrow> string \<Rightarrow> bytes \<Rightarrow> ('u process, string list) act" where
  "ffi_ingest F h f data =
     on_handle h (\<lambda>C. ingest (callback_deps F C) f data) (ingest (fs_deps F) f data)"

definition ffi_ingest_cdc :: "ffi_env \<Rightarrow> ptr \<Rightarrow> string \<Rightarrow> bytes \<Rightarrow> ('u process, string list) act" where
  "ffi_ingest_cdc F h f data =
     on_handle h (\<lambda>C. ingest_cdc (callback_deps F C) f data) (ingest_cdc (fs_deps F) f data)"

definition ffi_ingest_fixed ::
  "ffi_env \<Rightarrow> ptr \<Rightarrow> string \<Rightarrow> bytes \<Rightarrow> nat \<Rightarrow> ('u process, string list) act" where
  "ffi_ingest_fixed F h f data n =
     on_handle h (\<lambda>C. ingest_fixed (callback_deps F C) f data n) (ingest_fixed (fs_deps F) f data n)"

definition ffi_ingest_reader_fixed ::
  "ffi_env \<Rightarrow> ptr \<Rightarrow> string \<Rightarrow> 'r reader \<Rightarrow> nat \<Rightarrow> ('r \<times> 'u process, string list) act" where
  "ffi_ingest_reader_fixed F h f rd n =
     with_handle h (\<lambda>C. ingest_reader_fixed (callback_deps F C) f rd n)
       (ingest_reader_fixed (fs_deps F) f rd n)"

definition ffi_ingest_reader_cdc ::
  "ffi_env \<Rightarrow> ptr \<Rightarrow> string \<Rightarrow> 'r reader \<Rightarrow> ('r \<times> 'u process, string list) act" where
  "ffi_ingest_reader_cdc F h f rd =
     with_handle h (\<lambda>C. ingest_reader_cdc (callback_deps F C) f rd) (ingest_reader_cdc (fs_deps F) f rd)"

definition ffi_ingest_path :: "ffi_env \<Rightarrow> ptr \<Rightarrow> string \<Rightarrow> string \<Rightarrow> ('u process, string list) act" where
  "ffi_ingest_path F h f path p =
     on_handle h (\<lambda>C. ingest_path (callback_deps F C) (os_open F (pr_nodes p)) os_read f path)
       (ingest_path (fs_deps F) (os_open F (pr_nodes p)) os_read f path) p"

definition ffi_ingest_path_cdc :: "ffi_env \<Rightarrow> ptr \<Rightarrow> string \<Rightarrow> string \<Rightarrow> ('u process, string list) act" where
  "ffi_ingest_path_cdc F h f path p =
     on_handle h (\<lambda>C. ingest_path_cdc (callback_deps F C) (os_open F (pr_nodes p)) os_read f path)
       (ingest_path_cdc (fs_deps F) (os_open F (pr_nodes p)) os_read f path) p"

text \<open>\<^verbatim>\<open>ChunkStore::read\<close> with the capacity of the vector it fills.\<close>

definition read_vec :: "'b deps \<Rightarrow> string \<Rightarrow> ('b store, vec) act" where
  "read_vec E f s =
     (case read_to_writer E vec_extend f (vec_new, s) of
        (r, (out, s')) \<Rightarrow> (bind_res r (\<lambda>_. Ok out), s'))"

definition ffi_read :: "ffi_env \<Rightarrow> ptr \<Rightarrow> string \<Rightarrow> ('u process, vec) act" where
  "ffi_read F h f = on_handle h (\<lambda>C. read_vec (callback_deps F C) f) (read_vec (fs_deps F) f)"

definition ffi_read_to_writer ::
  "ffi_env \<Rightarrow> ptr \<Rightarrow> string \<Rightarrow> 'w write_fn \<Rightarrow> ('w \<times> 'u process, unit) act" where
  "ffi_read_to_writer F h f wr =
     with_handle h (\<lambda>C. read_to_writer (callback_deps F C) (write_all wr) f)
       (read_to_writer (fs_deps F) (write_all wr) f)"

definition ffi_delete :: "ffi_env \<Rightarrow> ptr \<Rightarrow> string \<Rightarrow> ('u process, unit) act" where
  "ffi_delete F h f = on_handle h (\<lambda>C. delete (callback_deps F C) f) (delete (fs_deps F) f)"

definition ffi_stats :: "ptr \<Rightarrow> ('u process, stats) act" where
  "ffi_stats h = on_handle h (\<lambda>C. store_stats) store_stats"

section \<open>Results of a C call\<close>

text \<open>
  The return code and what was written through the output pointers: the pointer (a string of
  digests or a buffer), the length, the statistics and the error string.
\<close>

record c_store_stats =
  cs_total_bytes :: u64
  cs_stored_bytes :: u64
  cs_savings_pct :: f64
  cs_gc_chunks :: u64

record c_result =
  c_rc :: c_int
  c_out :: "ptr option"
  c_len :: "nat option"
  c_stats :: "c_store_stats option"
  c_err :: "ptr option"

definition returned :: "c_int \<Rightarrow> c_result" where
  "returned rc = \<lparr>c_rc = rc, c_out = None, c_len = None, c_stats = None, c_err = None\<rparr>"

definition in_heap :: "(heap, 'a) act \<Rightarrow> ('u process, 'a) act" where
  "in_heap m = zoom (\<lambda>p. cw_heap (pr_world p))
     (\<lambda>h p. p\<lparr>pr_world := (pr_world p)\<lparr>cw_heap := h\<rparr>\<rparr>) m"

definition write_ffi_error :: "bool \<Rightarrow> string \<Rightarrow> ('u process, ptr option) act" where
  "write_ffi_error out_err message =
     (if \<not> out_err then ret None
      else (case cstring_new message of
              Inl e \<Rightarrow> ret None
            | Inr c \<Rightarrow> seq (in_heap (leak_string c)) (\<lambda>p. ret (Some p))))"

definition error_result :: "bool \<Rightarrow> string \<Rightarrow> ('u process, c_result) act" where
  "error_result out_err message =
     seq (write_ffi_error out_err message) (\<lambda>e.
     ret ((returned CHUNKSTORE_ERR)\<lparr>c_err := e\<rparr>))"

definition digests_to_json_cstring :: "ffi_env \<Rightarrow> string list \<Rightarrow> string res" where
  "digests_to_json_cstring F digests =
     bind_res (map_err (\<lambda>e. InvalidArgument (''digest json: '' @ e)) (fe_to_string F digests))
       (\<lambda>json. map_err InvalidArgument (cstring_new json))"

text \<open>\<^verbatim>\<open>match result { Ok(v) => .., Err(e) => .. }\<close>.\<close>

definition match_result ::
  "('s, 'a) act \<Rightarrow> ('a \<Rightarrow> ('s, 'b) act) \<Rightarrow> (chunk_store_error \<Rightarrow> ('s, 'b) act) \<Rightarrow> ('s, 'b) act" where
  "match_result m on_ok on_err s =
     (case m s of
        (Ok a, s') \<Rightarrow> on_ok a s'
      | (Err e, s') \<Rightarrow> on_err e s'
      | (Panic, s') \<Rightarrow> (Panic, s')
      | (Hang, s') \<Rightarrow> (Hang, s'))"

definition report :: "bool \<Rightarrow> chunk_store_error \<Rightarrow> ('u process, c_result) act" where
  "report out_err e = error_result out_err (show_error e)"

text \<open>The tail shared by the functions that return digests.\<close>

definition digests_result ::
  "ffi_env \<Rightarrow> bool \<Rightarrow> string list \<Rightarrow> ('u process, c_result) act" where
  "digests_result F out_err digests =
     (case digests_to_json_cstring F digests of
        Ok json \<Rightarrow>
          seq (in_heap (leak_string json)) (\<lambda>p.
          ret ((returned CHUNKSTORE_OK)\<lparr>c_out := Some p\<rparr>))
      | Err e \<Rightarrow> report out_err e
      | Panic \<Rightarrow> lift Panic
      | Hang \<Rightarrow> lift Hang)"

text \<open>\<^verbatim>\<open>slice::from_raw_parts(data, len)\<close> on the caller's buffer.\<close>

definition c_slice :: "bytes option \<Rightarrow> nat \<Rightarrow> ('u process, bytes) act" where
  "c_slice data len p =
     (if len = 0 then (Ok [], p)
      else (case data of
              Some d \<Rightarrow> if len \<le> length d then (Ok (take len d), p) else (Hang, mark_undefined p)
            | None \<Rightarrow> (Hang, mark_undefined p)))"

section \<open>Creating and destroying\<close>

text \<open>\<^verbatim>\<open>Box::into_raw(Box::new(..))\<close>.\<close>

definition leak_store :: "'u ffi_store \<Rightarrow> ('u process, ptr) act" where
  "leak_store st =
     seq (in_heap fresh_ptr) (\<lambda>h p. (Ok h, p\<lparr>pr_stores := (h, st) # pr_stores p\<rparr>))"

definition on_world :: "('u c_world, 'a) act \<Rightarrow> ('u process, 'a) act" where
  "on_world m = zoom pr_world (\<lambda>w p. p\<lparr>pr_world := w\<rparr>) m"

definition chunkstore_create :: "ffi_env \<Rightarrow> 'u callbacks option \<Rightarrow> ('u process, ptr) act" where
  "chunkstore_create F callbacks =
     (case callbacks of
        None \<Rightarrow> ret 0
      | Some C \<Rightarrow>
          match_result (on_world (open_store (callback_deps F C)))
            (\<lambda>s. leak_store (Callback C s)) (\<lambda>_. ret 0))"

definition open_files :: "ffi_env \<Rightarrow> path \<Rightarrow> ('u process, fs_backend store) act" where
  "open_files F root p =
     (case fs_new root (pr_tmp p) (pr_nodes p) of
        (Ok b, ns) \<Rightarrow>
          (case open_store (fs_deps F) b of
             (r, b') \<Rightarrow> (r, p\<lparr>pr_nodes := fb_nodes b', pr_tmp := fb_tmp_counter b'\<rparr>))
      | (Err e, ns) \<Rightarrow> (Err e, p\<lparr>pr_nodes := ns\<rparr>)
      | (Panic, ns) \<Rightarrow> (Panic, p\<lparr>pr_nodes := ns\<rparr>)
      | (Hang, ns) \<Rightarrow> (Hang, p\<lparr>pr_nodes := ns\<rparr>))"

definition chunkstore_open_fs :: "ffi_env \<Rightarrow> string option \<Rightarrow> ('u process, ptr) act" where
  "chunkstore_open_fs F root =
     (case root of
        None \<Rightarrow> ret 0
      | Some r \<Rightarrow>
          (case to_str r of
             Inl e \<Rightarrow> ret 0
           | Inr path \<Rightarrow>
               match_result (open_files F (fe_resolve F path)) (\<lambda>s. leak_store (Fs s)) (\<lambda>_. ret 0)))"

definition chunkstore_destroy :: "ptr \<Rightarrow> ('u process, unit) act" where
  "chunkstore_destroy h p =
     (if h = 0 then (Ok (), p)
      else (case map_of (pr_stores p) h of
              None \<Rightarrow> (Hang, mark_undefined p)
            | Some st \<Rightarrow> (Ok (), p\<lparr>pr_stores := AList.delete h (pr_stores p)\<rparr>)))"

section \<open>Ingest\<close>

text \<open>\<^verbatim>\<open>match CStr::from_ptr(file_id).to_str()\<close>.\<close>

definition with_str ::
  "bool \<Rightarrow> string \<Rightarrow> (string \<Rightarrow> ('s, c_result) act) \<Rightarrow> (string \<Rightarrow> ('s, c_result) act) \<Rightarrow> ('s, c_result) act" where
  "with_str out_err s fail_with body =
     (case to_str s of Inl e \<Rightarrow> fail_with e | Inr t \<Rightarrow> body t)"

definition ingest_impl ::
  "ptr \<Rightarrow> string option \<Rightarrow> bytes option \<Rightarrow> nat \<Rightarrow> bool \<Rightarrow>
     (string \<Rightarrow> bytes \<Rightarrow> ('u process, string list) act) \<Rightarrow> ('u process, c_result) act" where
  "ingest_impl h file_id data len out_err f =
     (case file_id of
        None \<Rightarrow> ret (returned CHUNKSTORE_ERR)
      | Some fid \<Rightarrow>
          if h = 0 then ret (returned CHUNKSTORE_ERR)
          else if 0 < len \<and> data = None then ret (returned CHUNKSTORE_ERR)
          else with_str out_err fid (error_result out_err) (\<lambda>name.
               seq (c_slice data len) (\<lambda>d.
               match_result (f name d) (\<lambda>_. ret (returned CHUNKSTORE_OK)) (report out_err))))"

definition ingest_with_digests_impl ::
  "ffi_env \<Rightarrow> ptr \<Rightarrow> string option \<Rightarrow> bytes option \<Rightarrow> nat \<Rightarrow> bool \<Rightarrow> bool \<Rightarrow>
     (string \<Rightarrow> bytes \<Rightarrow> ('u process, string list) act) \<Rightarrow> ('u process, c_result) act" where
  "ingest_with_digests_impl F h file_id data len out_json out_err f =
     (case file_id of
        None \<Rightarrow> ret (returned CHUNKSTORE_ERR)
      | Some fid \<Rightarrow>
          if h = 0 \<or> \<not> out_json then ret (returned CHUNKSTORE_ERR)
          else if 0 < len \<and> data = None then ret (returned CHUNKSTORE_ERR)
          else with_str out_err fid (error_result out_err) (\<lambda>name.
               seq (c_slice data len) (\<lambda>d.
               match_result (f name d) (digests_result F out_err) (report out_err))))"

definition chunkstore_ingest ::
  "ffi_env \<Rightarrow> ptr \<Rightarrow> string option \<Rightarrow> bytes option \<Rightarrow> nat \<Rightarrow> bool \<Rightarrow> ('u process, c_result) act" where
  "chunkstore_ingest F h file_id data len out_err =
     ingest_impl h file_id data len out_err (ffi_ingest F h)"

definition chunkstore_ingest_cdc ::
  "ffi_env \<Rightarrow> ptr \<Rightarrow> string option \<Rightarrow> bytes option \<Rightarrow> nat \<Rightarrow> bool \<Rightarrow> ('u process, c_result) act" where
  "chunkstore_ingest_cdc F h file_id data len out_err =
     ingest_impl h file_id data len out_err (ffi_ingest_cdc F h)"

definition chunkstore_ingest_with_digests ::
  "ffi_env \<Rightarrow> ptr \<Rightarrow> string option \<Rightarrow> bytes option \<Rightarrow> nat \<Rightarrow> bool \<Rightarrow> bool \<Rightarrow> ('u process, c_result) act" where
  "chunkstore_ingest_with_digests F h file_id data len out_json out_err =
     ingest_with_digests_impl F h file_id data len out_json out_err (ffi_ingest F h)"

definition chunkstore_ingest_fixed ::
  "ffi_env \<Rightarrow> ptr \<Rightarrow> string option \<Rightarrow> bytes option \<Rightarrow> nat \<Rightarrow> nat \<Rightarrow> bool \<Rightarrow> bool \<Rightarrow>
     ('u process, c_result) act" where
  "chunkstore_ingest_fixed F h file_id data len chunk_sz out_json out_err =
     ingest_with_digests_impl F h file_id data len out_json out_err
       (\<lambda>f d. ffi_ingest_fixed F h f d chunk_sz)"

definition chunkstore_ingest_cdc_with_digests ::
  "ffi_env \<Rightarrow> ptr \<Rightarrow> string option \<Rightarrow> bytes option \<Rightarrow> nat \<Rightarrow> bool \<Rightarrow> bool \<Rightarrow> ('u process, c_result) act" where
  "chunkstore_ingest_cdc_with_digests F h file_id data len out_json out_err =
     ingest_with_digests_impl F h file_id data len out_json out_err (ffi_ingest_cdc F h)"

text \<open>
  \<^verbatim>\<open>FfiReadSource\<close>: the callback returns its code, what it left in the buffer and
  \<^verbatim>\<open>*out_len\<close>.
\<close>

type_synonym 'r read_callback = "nat \<Rightarrow> 'r \<Rightarrow> (c_int \<times> bytes \<times> nat) \<times> 'r"

definition ffi_read_source :: "'r read_callback \<Rightarrow> 'r reader" where
  "ffi_read_source read_cb cap =
     (if cap = 0 then ret []
      else seq (call (read_cb cap)) (\<lambda>(rc, buf, out_len).
           if rc \<noteq> CHUNKSTORE_OK then fail (IoError ''chunkstore read callback failed'')
           else if cap < out_len then fail (IoError ''chunkstore read callback overflow'')
           else ret (take out_len buf)))"

definition on_process :: "('u process, 'a) act \<Rightarrow> ('x \<times> 'u process, 'a) act" where
  "on_process m = zoom snd (\<lambda>p (x, _). (x, p)) m"

definition chunkstore_ingest_reader ::
  "ffi_env \<Rightarrow> ptr \<Rightarrow> string option \<Rightarrow> 'r read_callback option \<Rightarrow> nat \<Rightarrow> c_int \<Rightarrow> bool \<Rightarrow> bool \<Rightarrow>
     ('r \<times> 'u process, c_result) act" where
  "chunkstore_ingest_reader F h file_id read_cb chunk_sz use_cdc out_json out_err =
     (case (file_id, read_cb) of
        (Some fid, Some cb) \<Rightarrow>
          if h = 0 \<or> \<not> out_json then ret (returned CHUNKSTORE_ERR)
          else with_str out_err fid (\<lambda>e. on_process (error_result out_err e)) (\<lambda>name.
               match_result
                 (if use_cdc \<noteq> 0 then ffi_ingest_reader_cdc F h name (ffi_read_source cb)
                  else ffi_ingest_reader_fixed F h name (ffi_read_source cb)
                         (if chunk_sz = 0 then default_chunk_size else chunk_sz))
                 (\<lambda>ds. on_process (digests_result F out_err ds))
                 (\<lambda>e. on_process (report out_err e)))
      | _ \<Rightarrow> ret (returned CHUNKSTORE_ERR))"

definition chunkstore_ingest_path ::
  "ffi_env \<Rightarrow> ptr \<Rightarrow> string option \<Rightarrow> string option \<Rightarrow> c_int \<Rightarrow> bool \<Rightarrow> bool \<Rightarrow>
     ('u process, c_result) act" where
  "chunkstore_ingest_path F h file_id path use_cdc out_json out_err =
     (case (file_id, path) of
        (Some fid, Some pth) \<Rightarrow>
          if h = 0 \<or> \<not> out_json then ret (returned CHUNKSTORE_ERR)
          else with_str out_err fid (error_result out_err) (\<lambda>name.
               with_str out_err pth (error_result out_err) (\<lambda>pth.
               match_result
                 (if use_cdc \<noteq> 0 then ffi_ingest_path_cdc F h name pth else ffi_ingest_path F h name pth)
                 (digests_result F out_err) (report out_err)))
      | _ \<Rightarrow> ret (returned CHUNKSTORE_ERR))"

section \<open>Read, delete, statistics\<close>

text \<open>The vector is forgotten and its pointer and length, not its capacity, handed out.\<close>

definition chunkstore_read ::
  "ffi_env \<Rightarrow> ptr \<Rightarrow> string option \<Rightarrow> bool \<Rightarrow> bool \<Rightarrow> bool \<Rightarrow> ('u process, c_result) act" where
  "chunkstore_read F h file_id out_data out_len out_err =
     (case file_id of
        None \<Rightarrow> ret (returned CHUNKSTORE_ERR)
      | Some fid \<Rightarrow>
          if h = 0 \<or> \<not> out_data \<or> \<not> out_len then ret (returned CHUNKSTORE_ERR)
          else with_str out_err fid (error_result out_err) (\<lambda>name.
               match_result (ffi_read F h name)
                 (\<lambda>v. seq (in_heap (leak_vec v)) (\<lambda>p.
                      ret ((returned CHUNKSTORE_OK)\<lparr>c_out := Some p, c_len := Some (length (fst v))\<rparr>)))
                 (report out_err)))"

text \<open>\<^verbatim>\<open>FfiWriteTarget\<close>: the callback takes the whole buffer or fails.\<close>

definition ffi_write_target :: "(bytes \<Rightarrow> 'w \<Rightarrow> c_int \<times> 'w) \<Rightarrow> 'w write_fn" where
  "ffi_write_target write_cb buf =
     (if buf = [] then ret (Some 0)
      else seq (call (write_cb buf)) (\<lambda>rc.
           if rc = CHUNKSTORE_OK then ret (Some (length buf))
           else fail (IoError ''chunkstore write callback failed'')))"

definition chunkstore_read_to_writer ::
  "ffi_env \<Rightarrow> ptr \<Rightarrow> string option \<Rightarrow> (bytes \<Rightarrow> 'w \<Rightarrow> c_int \<times> 'w) option \<Rightarrow> bool \<Rightarrow>
     ('w \<times> 'u process, c_result) act" where
  "chunkstore_read_to_writer F h file_id write_cb out_err =
     (case (file_id, write_cb) of
        (Some fid, Some cb) \<Rightarrow>
          if h = 0 then ret (returned CHUNKSTORE_ERR)
          else with_str out_err fid (\<lambda>e. on_process (error_result out_err e)) (\<lambda>name.
               match_result (ffi_read_to_writer F h name (ffi_write_target cb))
                 (\<lambda>_. ret (returned CHUNKSTORE_OK)) (\<lambda>e. on_process (report out_err e)))
      | _ \<Rightarrow> ret (returned CHUNKSTORE_ERR))"

definition chunkstore_delete ::
  "ffi_env \<Rightarrow> ptr \<Rightarrow> string option \<Rightarrow> bool \<Rightarrow> ('u process, c_result) act" where
  "chunkstore_delete F h file_id out_err =
     (case file_id of
        None \<Rightarrow> ret (returned CHUNKSTORE_ERR)
      | Some fid \<Rightarrow>
          if h = 0 then ret (returned CHUNKSTORE_ERR)
          else with_str out_err fid (error_result out_err) (\<lambda>name.
               match_result (ffi_delete F h name) (\<lambda>_. ret (returned CHUNKSTORE_OK)) (report out_err)))"

definition chunkstore_stats :: "ptr \<Rightarrow> bool \<Rightarrow> bool \<Rightarrow> ('u process, c_result) act" where
  "chunkstore_stats h out_stats out_err =
     (if h = 0 \<or> \<not> out_stats then ret (returned CHUNKSTORE_ERR)
      else match_result (ffi_stats h)
             (\<lambda>st. ret ((returned CHUNKSTORE_OK)
                \<lparr>c_stats := Some \<lparr>cs_total_bytes = total_bytes st, cs_stored_bytes = stored_bytes st,
                    cs_savings_pct = savings_pct st, cs_gc_chunks = gc_chunks st\<rparr>\<rparr>))
             (report out_err))"

end
