(* ===== verification/Ffi_Callbacks.thy ===== *)
theory Ffi_Callbacks
  imports Ffi_Memory Persistence_Laws
begin

text \<open>
  The contract between the library and the callbacks of a C caller, and that under it
  \<^verbatim>\<open>CallbackBackend\<close> meets the contract of a backend: every buffer \<open>get\<close> hands over is
  copied and freed exactly once, so a call leaves the live allocations as they were.
\<close>

section \<open>The contract of the callbacks\<close>

text \<open>\<open>p\<close> is a new buffer of exactly the bytes \<open>v\<close>, as \<^verbatim>\<open>chunkstore_bytes_alloc\<close> makes it.\<close>

definition given :: "ptr \<Rightarrow> bytes \<Rightarrow> heap \<Rightarrow> heap \<Rightarrow> bool" where
  "given p v h h' \<longleftrightarrow>
     heap_ok h' \<and> map_of (hp_bytes h) p = None \<and>
     map_of (hp_bytes h') = (map_of (hp_bytes h))(p \<mapsto> (v, length v)) \<and>
     map_of (hp_strings h') = map_of (hp_strings h)"

definition get_ok ::
  "(string \<Rightarrow> 'u c_world \<Rightarrow> (c_int \<times> ptr \<times> nat) \<times> 'u c_world) \<Rightarrow>
     ('u \<Rightarrow> string \<rightharpoonup> bytes) \<Rightarrow> ('u \<Rightarrow> bool) \<Rightarrow> (string \<Rightarrow> bool) \<Rightarrow> bool" where
  "get_ok get kv ok valid \<longleftrightarrow>
     (\<forall>k w. valid k \<longrightarrow> ok (cw_user w) \<longrightarrow> heap_ok (cw_heap w) \<longrightarrow>
        (\<exists>p n w'. get k w = ((CHUNKSTORE_OK, p, n), w') \<and> ok (cw_user w') \<and>
           kv (cw_user w') = kv (cw_user w) \<and>
           (case kv (cw_user w) k of
              None \<Rightarrow> (p = 0 \<or> n = 0) \<and> cw_heap w' = cw_heap w
            | Some v \<Rightarrow> v \<noteq> [] \<and> n = length v \<and> given p v (cw_heap w) (cw_heap w'))))"

text \<open>The other callbacks report success and leave the heap alone.\<close>

definition put_ok ::
  "(string \<Rightarrow> bytes \<Rightarrow> 'u c_world \<Rightarrow> c_int \<times> 'u c_world) \<Rightarrow>
     ('u \<Rightarrow> string \<rightharpoonup> bytes) \<Rightarrow> ('u \<Rightarrow> bool) \<Rightarrow> (string \<Rightarrow> bool) \<Rightarrow> bool" where
  "put_ok put kv ok valid \<longleftrightarrow>
     (\<forall>k v w. valid k \<longrightarrow> v \<noteq> [] \<longrightarrow> ok (cw_user w) \<longrightarrow>
        (\<exists>u. put k v w = (CHUNKSTORE_OK, w\<lparr>cw_user := u\<rparr>) \<and> ok u \<and> kv u = (kv (cw_user w))(k \<mapsto> v)))"

definition exists_ok ::
  "(string \<Rightarrow> 'u c_world \<Rightarrow> c_int \<times> 'u c_world) \<Rightarrow>
     ('u \<Rightarrow> string \<rightharpoonup> bytes) \<Rightarrow> ('u \<Rightarrow> bool) \<Rightarrow> (string \<Rightarrow> bool) \<Rightarrow> bool" where
  "exists_ok found kv ok valid \<longleftrightarrow>
     (\<forall>k w. valid k \<longrightarrow> ok (cw_user w) \<longrightarrow>
        (\<exists>u. found k w = (if kv (cw_user w) k = None then 0 else 1, w\<lparr>cw_user := u\<rparr>) \<and>
             ok u \<and> kv u = kv (cw_user w)))"

definition delete_ok ::
  "(string \<Rightarrow> 'u c_world \<Rightarrow> c_int \<times> 'u c_world) \<Rightarrow>
     ('u \<Rightarrow> string \<rightharpoonup> bytes) \<Rightarrow> ('u \<Rightarrow> bool) \<Rightarrow> (string \<Rightarrow> bool) \<Rightarrow> bool" where
  "delete_ok del kv ok valid \<longleftrightarrow>
     (\<forall>k w. valid k \<longrightarrow> ok (cw_user w) \<longrightarrow>
        (\<exists>u. del k w = (CHUNKSTORE_OK, w\<lparr>cw_user := u\<rparr>) \<and> ok u \<and> kv u = (kv (cw_user w))(k := None)))"

definition callbacks_ok ::
  "'u callbacks \<Rightarrow> ('u \<Rightarrow> string \<rightharpoonup> bytes) \<Rightarrow> ('u \<Rightarrow> bool) \<Rightarrow> (string \<Rightarrow> bool) \<Rightarrow> bool" where
  "callbacks_ok C kv ok valid \<longleftrightarrow>
     (\<exists>get put found del. cb_get C = Some get \<and> cb_put C = Some put \<and> cb_exists C = Some found \<and>
        cb_delete C = Some del \<and> get_ok get kv ok valid \<and> put_ok put kv ok valid \<and>
        exists_ok found kv ok valid \<and> delete_ok del kv ok valid) \<and>
     (\<forall>k. valid k \<longrightarrow> CHR 0x00 \<notin> set k)"

section \<open>\<open>CallbackBackend\<close> meets the contract of a backend\<close>

text \<open>The live allocations, as the caller sees them.\<close>

definition heap_view :: "heap \<Rightarrow> (ptr \<rightharpoonup> vec) \<times> (ptr \<rightharpoonup> string)" where
  "heap_view h = (map_of (hp_bytes h), map_of (hp_strings h))"

definition world_kv :: "('u \<Rightarrow> string \<rightharpoonup> bytes) \<Rightarrow> 'u c_world \<Rightarrow> string \<rightharpoonup> bytes" where
  "world_kv kv w = kv (cw_user w)"

definition world_ok ::
  "('u \<Rightarrow> bool) \<Rightarrow> (ptr \<rightharpoonup> vec) \<times> (ptr \<rightharpoonup> string) \<Rightarrow> 'u c_world \<Rightarrow> bool" where
  "world_ok ok H w \<longleftrightarrow> ok (cw_user w) \<and> heap_ok (cw_heap w) \<and> heap_view (cw_heap w) = H"

lemma world_simps [simp]:
  "world_kv kv (w\<lparr>cw_user := u\<rparr>) = kv u"
  "world_ok ok H (w\<lparr>cw_user := u\<rparr>) \<longleftrightarrow> ok u \<and> heap_ok (cw_heap w) \<and> heap_view (cw_heap w) = H"
  by (simp_all add: world_kv_def world_ok_def)

text \<open>The copy of a given buffer, and its release.\<close>

lemma given_taken:
  assumes "given p v h h'" and "v \<noteq> []"
  shows "slice_from_raw p (length v) h' = (Ok v, h')"
    and "chunkstore_bytes_free p (length v) h' = (Ok (), h'\<lparr>hp_bytes := AList.delete p (hp_bytes h')\<rparr>)"
    and "heap_ok (h'\<lparr>hp_bytes := AList.delete p (hp_bytes h')\<rparr>)"
    and "heap_view (h'\<lparr>hp_bytes := AList.delete p (hp_bytes h')\<rparr>) = heap_view h"
    and "p \<noteq> 0"
proof -
  have h': "heap_ok h'" and p: "map_of (hp_bytes h') p = Some (v, length v)"
    using assms(1) by (simp_all add: given_def)
  show "slice_from_raw p (length v) h' = (Ok v, h')" using p by (simp add: slice_from_raw_def)
  show "chunkstore_bytes_free p (length v) h' = (Ok (), h'\<lparr>hp_bytes := AList.delete p (hp_bytes h')\<rparr>)"
    and "heap_ok (h'\<lparr>hp_bytes := AList.delete p (hp_bytes h')\<rparr>)"
    using bytes_free_law [OF h' p] assms(2) by simp_all
  show "heap_view (h'\<lparr>hp_bytes := AList.delete p (hp_bytes h')\<rparr>) = heap_view h"
    using assms(1) by (auto simp: heap_view_def given_def fun_eq_iff)
  show "p \<noteq> 0" using heap_ok_live(3) [OF h'] p by blast
qed

lemma callback_get_law:
  assumes "get_ok get kv ok valid" and "valid k" and "CHR 0x00 \<notin> set k" and "cb_get C = Some get"
    and "world_ok ok H w"
  shows "\<exists>w'. callback_get C k w = (Ok (world_kv kv w k), w') \<and> world_ok ok H w' \<and>
              world_kv kv w' = world_kv kv w"
proof -
  obtain p n w' where g: "get k w = ((CHUNKSTORE_OK, p, n), w')" "ok (cw_user w')"
      "kv (cw_user w') = kv (cw_user w)"
    and h: "case kv (cw_user w) k of None \<Rightarrow> (p = 0 \<or> n = 0) \<and> cw_heap w' = cw_heap w
            | Some v \<Rightarrow> v \<noteq> [] \<and> n = length v \<and> given p v (cw_heap w) (cw_heap w')"
    using assms(1,2,5) unfolding get_ok_def world_ok_def by meson
  show ?thesis
  proof (cases "kv (cw_user w) k")
    case None
    then have "callback_get C k w = (Ok None, w')"
      using g(1) h assms(3,4)
      by (auto simp: callback_get_def seq_def lift_def callback_of_def cstr_def cstring_new_Inr call_def
          ret_def)
    then show ?thesis
      using g h None assms(5) by (auto simp: world_ok_def world_kv_def)
  next
    case (Some v)
    then have v: "v \<noteq> []" "n = length v" "given p v (cw_heap w) (cw_heap w')" using h by simp_all
    note t = given_taken [OF v(3,1)]
    let ?w = "w'\<lparr>cw_heap := (cw_heap w')\<lparr>hp_bytes := AList.delete p (hp_bytes (cw_heap w'))\<rparr>\<rparr>"
    have "callback_get C k w = (Ok (Some v), ?w)"
      using g(1) v(1,2) t(1,2,5) assms(3,4)
      by (simp add: callback_get_def seq_def lift_def callback_of_def cstr_def cstring_new_Inr call_def
          ret_def on_heap_def zoom_def)
    then show ?thesis
      using g(2,3) t(3,4) Some assms(5) by (auto simp: world_ok_def world_kv_def)
  qed
qed

lemma callback_backend:
  assumes C: "callbacks_ok C kv ok valid"
    and valid: "\<And>d. is_chunk_digest d \<Longrightarrow> valid d" "\<And>d. is_chunk_digest d \<Longrightarrow> valid (refcount_key d)"
      "valid REFCOUNT_INDEX_KEY" "valid MANIFEST_INDEX_KEY"
  shows "store_backend (CallbackBackend C) (world_kv kv) (world_ok ok H) valid"
proof -
  obtain get put found del where c: "cb_get C = Some get" "cb_put C = Some put"
      "cb_exists C = Some found" "cb_delete C = Some del"
    and laws: "get_ok get kv ok valid" "put_ok put kv ok valid" "exists_ok found kv ok valid"
      "delete_ok del kv ok valid" and nul: "\<And>k. valid k \<Longrightarrow> CHR 0x00 \<notin> set k"
    using C unfolding callbacks_ok_def by blast
  note ev = seq_def lift_def callback_of_def cstr_def cstring_new_Inr call_def ret_def
  show ?thesis
  proof (unfold_locales, goal_cases)
    case (1 w k)
    then show ?case
      using callback_get_law [OF laws(1) 1(2) nul [OF 1(2)] c(1) 1(1)] by (simp add: CallbackBackend_def)
  next
    case (2 w k v)
    then obtain u where "put k v w = (CHUNKSTORE_OK, w\<lparr>cw_user := u\<rparr>)" "ok u"
        "kv u = (kv (cw_user w))(k \<mapsto> v)"
      using laws(2) unfolding put_ok_def world_ok_def by blast
    then show ?case
      using 2 nul c by (simp add: CallbackBackend_def callback_put_def ev world_ok_def) (auto simp: world_kv_def fun_eq_iff)
  next
    case (3 w k)
    then obtain u where "found k w = (if kv (cw_user w) k = None then 0 else 1, w\<lparr>cw_user := u\<rparr>)" "ok u"
        "kv u = kv (cw_user w)"
      using laws(3) unfolding exists_ok_def world_ok_def by blast
    then show ?case
      using 3 nul c by (simp add: CallbackBackend_def callback_exists_def ev world_ok_def) (auto simp: world_kv_def fun_eq_iff)
  next
    case (4 w k)
    then obtain u where "del k w = (CHUNKSTORE_OK, w\<lparr>cw_user := u\<rparr>)" "ok u"
        "kv u = (kv (cw_user w))(k := None)"
      using laws(4) unfolding delete_ok_def world_ok_def by blast
    then show ?case
      using 4 nul c by (simp add: CallbackBackend_def callback_delete_def ev world_ok_def) (auto simp: world_kv_def fun_eq_iff)
  qed (use valid in auto)
qed

end
