(* ===== verification/Ffi_Client.thy ===== *)
theory Ffi_Client
  imports Ffi Ffi_Callbacks Fs_Store
begin

text \<open>
  A client of the C API: it calls the functions of \<open>Ffi\<close>, reads the strings and buffers it is
  given and frees the strings.  What it sees is a finite map from file ids to bytes, whether the
  store behind the handle is on callbacks or on the file system; every string the library
  allocated is freed, every buffer is accounted for, and nothing undefined happens.
\<close>

section \<open>Calls and replies\<close>

datatype c_call =
    CIngestFixed string bytes nat
  | CIngestCdc string bytes
  | CRead string
  | CDelete string

datatype c_reply = CDigests string | CBytes bytes | CDone | CError string

abbreviation c_heap :: "'u process \<Rightarrow> heap" where
  "c_heap p \<equiv> cw_heap (pr_world p)"

definition read_c_string :: "ptr \<Rightarrow> (heap, string) act" where
  "read_c_string q h =
     (case map_of (hp_strings h) q of Some s \<Rightarrow> (Ok s, h) | None \<Rightarrow> undefined_behaviour h)"

text \<open>Reading a string the library returned, and freeing it.\<close>

definition take_string :: "ptr option \<Rightarrow> ('u process, string) act" where
  "take_string q =
     (case q of
        None \<Rightarrow> ret []
      | Some q \<Rightarrow> seq (in_heap (read_c_string q)) (\<lambda>s.
                  seq (in_heap (chunkstore_string_free q)) (\<lambda>_. ret s)))"

definition take_bytes :: "ptr option \<Rightarrow> nat option \<Rightarrow> ('u process, bytes) act" where
  "take_bytes q n =
     (case (q, n) of
        (Some q, Some n) \<Rightarrow> if n = 0 then ret [] else in_heap (slice_from_raw q n)
      | _ \<Rightarrow> ret [])"

definition c_reply ::
  "(c_result \<Rightarrow> ('u process, c_reply) act) \<Rightarrow> c_result \<Rightarrow> ('u process, c_reply) act" where
  "c_reply on_ok res =
     (if c_rc res = CHUNKSTORE_OK then on_ok res
      else seq (take_string (c_err res)) (\<lambda>s. ret (CError s)))"

definition digests_reply :: "c_result \<Rightarrow> ('u process, c_reply) act" where
  "digests_reply res = seq (take_string (c_out res)) (\<lambda>s. ret (CDigests s))"

definition bytes_reply :: "c_result \<Rightarrow> ('u process, c_reply) act" where
  "bytes_reply res = seq (take_bytes (c_out res) (c_len res)) (\<lambda>d. ret (CBytes d))"

fun c_step :: "ffi_env \<Rightarrow> ptr \<Rightarrow> c_call \<Rightarrow> ('u process, c_reply) act" where
  "c_step F h (CIngestFixed f data n) =
     seq (chunkstore_ingest_fixed F h (Some f) (Some data) (length data) n True True) (c_reply digests_reply)"
| "c_step F h (CIngestCdc f data) =
     seq (chunkstore_ingest_cdc_with_digests F h (Some f) (Some data) (length data) True True)
       (c_reply digests_reply)"
| "c_step F h (CRead f) = seq (chunkstore_read F h (Some f) True True True) (c_reply bytes_reply)"
| "c_step F h (CDelete f) = seq (chunkstore_delete F h (Some f) True) (c_reply (\<lambda>_. ret CDone))"

primrec c_run :: "ffi_env \<Rightarrow> ptr \<Rightarrow> c_call list \<Rightarrow> ('u process, c_reply list) act" where
  "c_run F h [] = ret []"
| "c_run F h (c # cs) = seq (c_step F h c) (\<lambda>r. seq (c_run F h cs) (\<lambda>rs. ret (r # rs)))"

text \<open>The operations they stand for, and what a reply says.\<close>

fun op_of :: "c_call \<Rightarrow> store_op" where
  "op_of (CIngestFixed f data n) = OpIngest f data n"
| "op_of (CIngestCdc f data) = OpIngestCdc f data"
| "op_of (CRead f) = OpRead f"
| "op_of (CDelete f) = OpDelete f"

fun call_file :: "c_call \<Rightarrow> string" where
  "call_file (CIngestFixed f data n) = f"
| "call_file (CIngestCdc f data) = f"
| "call_file (CRead f) = f"
| "call_file (CDelete f) = f"

definition digests_json :: "ffi_env \<Rightarrow> string list \<Rightarrow> string" where
  "digests_json F ds = (case fe_to_string F ds of Inr j \<Rightarrow> j | Inl e \<Rightarrow> [])"

fun reply_of :: "ffi_env \<Rightarrow> outcome res \<Rightarrow> c_reply" where
  "reply_of F (Ok (Digests ds)) = CDigests (digests_json F ds)"
| "reply_of F (Ok (Contents d)) = CBytes d"
| "reply_of F (Err e) = CError (show_error e)"
| "reply_of F r = CDone"

text \<open>A C string: UTF-8 without a NUL byte.\<close>

definition c_string :: "string \<Rightarrow> bool" where
  "c_string s \<longleftrightarrow> to_str s = Inr s \<and> CHR 0x00 \<notin> set s"

definition c_call_ok :: "(string \<Rightarrow> bool) \<Rightarrow> c_call \<Rightarrow> bool" where
  "c_call_ok valid c \<longleftrightarrow> op_file_ok valid (op_of c) \<and> c_string (call_file c)"

section \<open>Running a store behind a handle\<close>

definition read_op :: "('s, vec) act \<Rightarrow> ('s, outcome) act" where
  "read_op m = as_outcome (\<lambda>v. Contents (fst v)) m"

lemma for_each_vec:
  assumes "length out \<le> cap"
  shows "\<exists>r out' cap' s'.
     for_each ds (\<lambda>d. seq (on_store (g d)) (\<lambda>c. on_writer (vec_extend c))) ((out, cap), s) =
       (r, ((out', cap'), s')) \<and>
     for_each ds (\<lambda>d. seq (on_store (g d)) (\<lambda>c. on_writer (vec_write_all c))) (out, s) =
       (r, (out', s')) \<and> length out' \<le> cap'"
  using assms
proof (induction ds arbitrary: out cap s)
  case Nil
  then show ?case by (simp add: ret_def)
next
  case (Cons d ds)
  obtain r s1 where g: "g d s = (r, s1)" by fastforce
  show ?case
  proof (cases r)
    case (Ok c)
    have "length (out @ c) \<le> vec_grow cap (length out) (length c)"
      using Cons.prems by (auto simp: vec_grow_def)
    from Cons.IH [OF this, of s1] show ?thesis
      using g Ok
      by (simp add: seq_def on_store_def on_writer_def zoom_def vec_extend_def vec_write_all_def)
  qed (use g Cons.prems in \<open>simp_all add: seq_def on_store_def zoom_def\<close>)
qed

lemma read_vec_eq:
  "\<exists>r cap s'. read_vec E f s = (r, s') \<and> read E f s = (bind_res r (\<lambda>v. Ok (fst v)), s') \<and>
     (\<forall>v. r = Ok v \<longrightarrow> length (fst v) \<le> snd v)"
proof -
  obtain r0 s0 where d: "digests_for_file f s = (r0, s0)" by fastforce
  show ?thesis
  proof (cases r0)
    case (Ok ds)
    obtain r out' cap' s' where
      "for_each ds (\<lambda>d. seq (on_store (read_chunk_by_digest E d)) (\<lambda>c. on_writer (vec_extend c))) (([], 0), s0) =
         (r, ((out', cap'), s'))"
      "for_each ds (\<lambda>d. seq (on_store (read_chunk_by_digest E d)) (\<lambda>c. on_writer (vec_write_all c))) ([], s0) =
         (r, (out', s'))" "length out' \<le> cap'"
      using for_each_vec [of "[]" 0 ds "read_chunk_by_digest E" s0] by auto
    then show ?thesis
      using d Ok
      by (cases r) (simp_all add: read_vec_def read_def read_to_writer_def seq_def on_store_def zoom_def vec_new_def)
  qed (use d in \<open>simp_all add: read_vec_def read_def read_to_writer_def seq_def on_store_def zoom_def vec_new_def\<close>)
qed

lemma read_vec_room: "read_vec E f s = (Ok (out, cap), s') \<Longrightarrow> length out \<le> cap"
  using read_vec_eq [of E f s] by auto

lemma read_op_eq: "read_op (read_vec E f) = run_op E (OpRead f)"
proof
  fix s
  show "read_op (read_vec E f) s = run_op E (OpRead f) s"
    using read_vec_eq [of E f s]
    by (auto simp: read_op_def as_outcome_def seq_def ret_def split: res.splits)
qed

text \<open>The operation of a call on a handle, and the vector of a read.\<close>

fun ffi_op :: "ffi_env \<Rightarrow> ptr \<Rightarrow> store_op \<Rightarrow> ('u process, outcome) act" where
  "ffi_op F h (OpIngest f data n) = as_outcome Digests (ffi_ingest_fixed F h f data n)"
| "ffi_op F h (OpIngestCdc f data) = as_outcome Digests (ffi_ingest_cdc F h f data)"
| "ffi_op F h (OpRead f) = read_op (ffi_read F h f)"
| "ffi_op F h (OpDelete f) = as_outcome (\<lambda>_. Done) (ffi_delete F h f)"
| "ffi_op F h op = ret Done"

lemma on_handle_callback:
  assumes "map_of (pr_stores p) h = Some (Callback C s)" and "m C (s\<lparr>st_backend := pr_world p\<rparr>) = (r, s')"
  shows "on_handle h m m' p =
     (r, p\<lparr>pr_world := st_backend s', pr_stores := AList.update h (Callback C s') (pr_stores p)\<rparr>)"
  using assms by (simp add: on_handle_def with_handle_def plain_def)

lemma on_handle_fs:
  assumes "map_of (pr_stores p) h = Some (Fs s)" and "m' (s\<lparr>st_backend := attach_fs p (st_backend s)\<rparr>) = (r, s')"
  shows "on_handle h m m' p =
     (r, p\<lparr>pr_nodes := fb_nodes (st_backend s'), pr_tmp := fb_tmp_counter (st_backend s'),
           pr_stores := AList.update h (Fs s') (pr_stores p)\<rparr>)"
  using assms by (simp add: on_handle_def with_handle_def plain_def)

lemma as_outcome_on_handle:
  "as_outcome g (on_handle h m m') p = on_handle h (\<lambda>C. as_outcome g (m C)) (as_outcome g m') p"
  by (auto simp: as_outcome_def on_handle_def with_handle_def plain_def seq_def ret_def
      split: option.splits ffi_store.splits prod.splits res.splits)

lemma read_op_on_handle:
  "read_op (on_handle h m m') p = on_handle h (\<lambda>C. read_op (m C)) (read_op m') p"
  unfolding read_op_def by (rule as_outcome_on_handle)

lemma ffi_op_eq:
  assumes "\<And>repair. op \<noteq> OpFsck repair" and "op \<noteq> OpReopen"
  shows "ffi_op F h op p = on_handle h (\<lambda>C. run_op (callback_deps F C) op) (run_op (fs_deps F) op) p"
proof (cases op)
  case (OpRead f)
  then show ?thesis by (simp add: ffi_read_def read_op_on_handle read_op_eq del: run_op.simps)
next
  case (OpFsck repair)
  then show ?thesis using assms(1) by blast
qed (use assms(2) in
  \<open>simp_all add: ffi_ingest_fixed_def ffi_ingest_cdc_def ffi_delete_def as_outcome_on_handle\<close>)

text \<open>A vector has room for what it holds.\<close>

lemma ffi_read_room:
  assumes "ffi_read F h f p = (Ok (out, cap), p')"
  shows "length out \<le> cap"
  using assms
  by (auto simp: ffi_read_def on_handle_def with_handle_def plain_def dest: read_vec_room
      split: option.splits ffi_store.splits prod.splits)

section \<open>Reading replies back\<close>

definition set_heap :: "heap \<Rightarrow> 'u process \<Rightarrow> 'u process" where
  "set_heap g p = p\<lparr>pr_world := (pr_world p)\<lparr>cw_heap := g\<rparr>\<rparr>"

lemma set_heap_simps [simp]:
  "c_heap (set_heap g p) = g" "set_heap g' (set_heap g p) = set_heap g' p" "set_heap (c_heap p) p = p"
  by (simp_all add: set_heap_def)

lemma in_heap_run: "m (c_heap p) = (r, g) \<Longrightarrow> in_heap m p = (r, set_heap g p)"
  by (simp add: in_heap_def zoom_def set_heap_def)

lemma leak_take:
  assumes "heap_ok (c_heap p)"
  obtains q p1 g where "in_heap (leak_string s) p = (Ok q, p1)"
    and "take_string (Some q) p1 = (Ok s, set_heap g p)" and "heap_ok g"
    and "heap_view g = heap_view (c_heap p)"
proof -
  obtain q g where q: "leak_string s (c_heap p) = (Ok q, g)" "heap_ok g" "q \<noteq> 0"
      "map_of (hp_strings (c_heap p)) q = None"
      "map_of (hp_strings g) = (map_of (hp_strings (c_heap p)))(q \<mapsto> s)" "hp_bytes g = hp_bytes (c_heap p)"
    using leak_string_law [OF assms, of s] by auto
  let ?g = "g\<lparr>hp_strings := AList.delete q (hp_strings g)\<rparr>"
  have g1: "map_of (hp_strings g) q = Some s" using q(5) by simp
  have "in_heap (read_c_string q) (set_heap g p) = (Ok s, set_heap g p)"
    using in_heap_run [of "read_c_string q" "set_heap g p" "Ok s" g] g1 by (simp add: read_c_string_def)
  moreover have "in_heap (chunkstore_string_free q) (set_heap g p) = (Ok (), set_heap ?g p)"
    using in_heap_run [of "chunkstore_string_free q" "set_heap g p" "Ok ()" ?g] g1 q(3)
    by (simp add: chunkstore_string_free_def)
  ultimately have "take_string (Some q) (set_heap g p) = (Ok s, set_heap ?g p)"
    by (simp add: take_string_def seq_def ret_def)
  moreover have "heap_ok ?g" using q(2) by (auto simp: heap_ok_def)
  moreover have "heap_view ?g = heap_view (c_heap p)"
    using q(4-6) by (auto simp: heap_view_def fun_eq_iff)
  ultimately show ?thesis using that in_heap_run [of "leak_string s", OF q(1)] by blast
qed

lemma error_reply:
  assumes "heap_ok (c_heap p)" and "CHR 0x00 \<notin> set msg"
  obtains g where "seq (error_result True msg) (c_reply k) p = (Ok (CError msg), set_heap g p)"
    and "heap_ok g" and "heap_view g = heap_view (c_heap p)"
proof -
  obtain q p1 g where q: "in_heap (leak_string msg) p = (Ok q, p1)"
      "take_string (Some q) p1 = (Ok msg, set_heap g p)" "heap_ok g" "heap_view g = heap_view (c_heap p)"
    using leak_take [OF assms(1)] .
  have "seq (error_result True msg) (c_reply k) p = (Ok (CError msg), set_heap g p)"
    using q(1,2) assms(2)
    by (simp add: error_result_def write_ffi_error_def cstring_new_Inr seq_def ret_def returned_def c_reply_def)
  then show ?thesis using q that by blast
qed

lemma digests_result_reply:
  assumes "heap_ok (c_heap p)" and "fe_to_string F ds = Inr j" and "CHR 0x00 \<notin> set j"
  obtains g where "seq (digests_result F b ds) (c_reply digests_reply) p = (Ok (CDigests j), set_heap g p)"
    and "heap_ok g" and "heap_view g = heap_view (c_heap p)"
proof -
  obtain q p1 g where q: "in_heap (leak_string j) p = (Ok q, p1)"
      "take_string (Some q) p1 = (Ok j, set_heap g p)" "heap_ok g" "heap_view g = heap_view (c_heap p)"
    using leak_take [OF assms(1)] .
  have "seq (digests_result F b ds) (c_reply digests_reply) p = (Ok (CDigests j), set_heap g p)"
    using q(1,2) assms(2,3)
    by (simp add: digests_result_def digests_to_json_cstring_def cstring_new_Inr seq_def ret_def
        returned_def c_reply_def digests_reply_def)
  then show ?thesis using q that by blast
qed

text \<open>A buffer is given once and stays with the client.\<close>

definition bytes_result :: "vec \<Rightarrow> ('u process, c_result) act" where
  "bytes_result v =
     seq (in_heap (leak_vec v)) (\<lambda>p.
     ret ((returned CHUNKSTORE_OK)\<lparr>c_out := Some p, c_len := Some (length (fst v))\<rparr>))"

lemma bytes_result_reply:
  assumes "heap_ok (c_heap p)" and "length out \<le> cap"
  obtains g where "seq (bytes_result (out, cap)) (c_reply bytes_reply) p = (Ok (CBytes out), set_heap g p)"
    and "heap_ok g" and "map_of (hp_strings g) = map_of (hp_strings (c_heap p))"
    and "map_of (hp_bytes (c_heap p)) \<subseteq>\<^sub>m map_of (hp_bytes g)"
proof -
  obtain q g where q: "leak_vec (out, cap) (c_heap p) = (Ok q, g)" "heap_ok g"
      "map_of (hp_bytes (c_heap p)) q = None"
      "map_of (hp_bytes g) = (if cap = 0 then map_of (hp_bytes (c_heap p))
                              else (map_of (hp_bytes (c_heap p)))(q \<mapsto> (out, cap)))"
      "hp_strings g = hp_strings (c_heap p)"
    using leak_vec_law [OF assms(1), of out cap] by blast
  have "take_bytes (Some q) (Some (length out)) (set_heap g p) = (Ok out, set_heap g p)"
  proof (cases "out = []")
    case False
    then have "map_of (hp_bytes g) q = Some (out, cap)" using q(4) assms(2) by auto
    then show ?thesis
      using False in_heap_run [of "slice_from_raw q (length out)" "set_heap g p" "Ok out" g]
      by (simp add: take_bytes_def slice_from_raw_def)
  qed (simp add: take_bytes_def ret_def)
  then have "seq (bytes_result (out, cap)) (c_reply bytes_reply) p = (Ok (CBytes out), set_heap g p)"
    using in_heap_run [of "leak_vec (out, cap)", OF q(1)]
    by (simp add: bytes_result_def seq_def ret_def returned_def c_reply_def bytes_reply_def)
  moreover have "map_of (hp_bytes (c_heap p)) \<subseteq>\<^sub>m map_of (hp_bytes g)"
    using q(3,4) by (auto simp: map_le_def)
  ultimately show ?thesis using that q(2,5) by simp
qed

lemma seq_match_result:
  "seq (match_result m a b) k = match_result m (\<lambda>x. seq (a x) k) (\<lambda>e. seq (b e) k)"
  by (auto simp: fun_eq_iff seq_def match_result_def split: prod.splits res.splits)

lemma as_outcome_cases:
  assumes "as_outcome g m p = (r, p')"
  obtains a where "m p = (Ok a, p')" and "r = Ok (g a)"
  | e where "m p = (Err e, p')" and "r = Err e"
  | "r = Panic" | "r = Hang"
  using assms by (auto simp: as_outcome_def seq_def ret_def split: prod.splits res.splits)

text \<open>The calls, with the checks of their arguments passed.\<close>

lemma c_step_eq:
  assumes "h \<noteq> 0" and "c_string f"
  shows "c_step F h (CIngestFixed f data n) p =
        match_result (ffi_ingest_fixed F h f data n)
          (\<lambda>ds. seq (digests_result F True ds) (c_reply digests_reply))
          (\<lambda>e. seq (report True e) (c_reply digests_reply)) p"
    and "c_step F h (CIngestCdc f data) p =
        match_result (ffi_ingest_cdc F h f data)
          (\<lambda>ds. seq (digests_result F True ds) (c_reply digests_reply))
          (\<lambda>e. seq (report True e) (c_reply digests_reply)) p"
    and "c_step F h (CRead f) p =
        match_result (ffi_read F h f) (\<lambda>v. seq (bytes_result v) (c_reply bytes_reply))
          (\<lambda>e. seq (report True e) (c_reply bytes_reply)) p"
    and "c_step F h (CDelete f) p =
        match_result (ffi_delete F h f) (\<lambda>_. ret CDone)
          (\<lambda>e. seq (report True e) (c_reply (\<lambda>_. ret CDone))) p"
  using assms
  by (auto simp: c_string_def chunkstore_ingest_fixed_def chunkstore_ingest_cdc_with_digests_def
      ingest_with_digests_impl_def with_str_def c_slice_def seq_match_result chunkstore_read_def
      chunkstore_delete_def bytes_result_def c_reply_def returned_def
      seq_def ret_def match_result_def split: prod.splits res.splits)

section \<open>A client and a handle\<close>

text \<open>
  What a live handle promises: \<open>live rest p fs\<close> says that behind \<open>h\<close> in the process \<open>p\<close> is a
  consistent store holding the files \<open>fs\<close>, with the provisos for ingesting the chunks \<open>rest\<close>.
\<close>

abbreviation frees_all :: "'u process \<Rightarrow> 'u process \<Rightarrow> bool" where
  "frees_all p p' \<equiv>
     map_of (hp_strings (c_heap p')) = map_of (hp_strings (c_heap p)) \<and>
     map_of (hp_bytes (c_heap p)) \<subseteq>\<^sub>m map_of (hp_bytes (c_heap p'))"

locale c_handle =
  fixes F :: ffi_env and h :: ptr and valid :: "string \<Rightarrow> bool"
    and live :: "bytes list \<Rightarrow> 'u process \<Rightarrow> (string \<rightharpoonup> bytes) \<Rightarrow> bool"
  assumes handle: "h \<noteq> 0"
    and to_json: "\<exists>j. fe_to_string F ds = Inr j \<and> CHR 0x00 \<notin> set j"
    and cdc: "fastcdc_ok (fe_fastcdc F) cdc_config_default"
    and run: "live (op_chunks (fe_fastcdc F) op @ rest) p fs \<Longrightarrow> op_file_ok valid op \<Longrightarrow>
        (\<And>repair. op \<noteq> OpFsck repair) \<Longrightarrow> op \<noteq> OpReopen \<Longrightarrow>
        \<exists>p'. ffi_op F h op p = (fst (spec_op (fe_sha F) (fe_fastcdc F) op fs), p') \<and>
             live rest p' (snd (spec_op (fe_sha F) (fe_fastcdc F) op fs)) \<and>
             heap_view (c_heap p') = heap_view (c_heap p)"
    and live_heap: "live rest p fs \<Longrightarrow> heap_ok (c_heap p)"
    and live_swap: "live rest p fs \<Longrightarrow> heap_ok g \<Longrightarrow> live rest (set_heap g p) fs"
begin

text \<open>Replies for the three shapes of an outcome.\<close>

lemma digests_call:
  assumes m: "as_outcome Digests m p = (r, p')" and l: "live rest p' fs'"
    and v: "heap_view (c_heap p') = heap_view (c_heap p)"
    and r: "(\<exists>ds. r = Ok (Digests ds)) \<or> (\<exists>e. r = Err e \<and> CHR 0x00 \<notin> set (show_error e))"
  shows "\<exists>p''. match_result m (\<lambda>ds. seq (digests_result F True ds) (c_reply digests_reply))
      (\<lambda>e. seq (report True e) (c_reply digests_reply)) p = (Ok (reply_of F r), p'') \<and>
      live rest p'' fs' \<and> frees_all p p''"
  using m
proof (cases rule: as_outcome_cases)
  case (1 ds)
  obtain j where j: "fe_to_string F ds = Inr j" "CHR 0x00 \<notin> set j" using to_json by blast
  obtain g where "seq (digests_result F True ds) (c_reply digests_reply) p' = (Ok (CDigests j), set_heap g p')"
      "heap_ok g" "heap_view g = heap_view (c_heap p')"
    using digests_result_reply [OF live_heap [OF l] j] .
  then show ?thesis
    using 1 j(1) live_swap [OF l] v
    by (auto simp: match_result_def digests_json_def heap_view_def)
next
  case (2 e)
  obtain g where "seq (report True e) (c_reply digests_reply) p' = (Ok (CError (show_error e)), set_heap g p')"
      "heap_ok g" "heap_view g = heap_view (c_heap p')"
    unfolding report_def using error_reply [OF live_heap [OF l], of "show_error e"] r 2 by blast
  then show ?thesis
    using 2 live_swap [OF l] v by (auto simp: match_result_def heap_view_def)
qed (use r in auto)

lemma done_call:
  assumes m: "as_outcome (\<lambda>_. Done) m p = (r, p')" and l: "live rest p' fs'"
    and v: "heap_view (c_heap p') = heap_view (c_heap p)"
    and r: "r = Ok Done \<or> (\<exists>e. r = Err e \<and> CHR 0x00 \<notin> set (show_error e))"
  shows "\<exists>p''. match_result m (\<lambda>_. ret CDone) (\<lambda>e. seq (report True e) (c_reply (\<lambda>_. ret CDone))) p =
      (Ok (reply_of F r), p'') \<and> live rest p'' fs' \<and> frees_all p p''"
  using m
proof (cases rule: as_outcome_cases)
  case (1 a)
  then show ?thesis using l v by (auto simp: match_result_def ret_def heap_view_def)
next
  case (2 e)
  obtain g where "seq (report True e) (c_reply (\<lambda>_. ret CDone)) p' = (Ok (CError (show_error e)), set_heap g p')"
      "heap_ok g" "heap_view g = heap_view (c_heap p')"
    unfolding report_def using error_reply [OF live_heap [OF l], of "show_error e"] r 2 by blast
  then show ?thesis
    using 2 live_swap [OF l] v by (auto simp: match_result_def heap_view_def)
qed (use r in auto)

lemma read_call:
  assumes m: "read_op m p = (r, p')" and l: "live rest p' fs'"
    and v: "heap_view (c_heap p') = heap_view (c_heap p)"
    and r: "(\<exists>d. r = Ok (Contents d)) \<or> (\<exists>e. r = Err e \<and> CHR 0x00 \<notin> set (show_error e))"
    and room: "\<And>out cap p'. m p = (Ok (out, cap), p') \<Longrightarrow> length out \<le> cap"
  shows "\<exists>p''. match_result m (\<lambda>v. seq (bytes_result v) (c_reply bytes_reply))
      (\<lambda>e. seq (report True e) (c_reply bytes_reply)) p = (Ok (reply_of F r), p'') \<and>
      live rest p'' fs' \<and> frees_all p p''"
  using m unfolding read_op_def
proof (cases rule: as_outcome_cases)
  case (1 a)
  obtain out cap where a: "a = (out, cap)" by fastforce
  obtain g where "seq (bytes_result (out, cap)) (c_reply bytes_reply) p' = (Ok (CBytes out), set_heap g p')"
      "heap_ok g" "map_of (hp_strings g) = map_of (hp_strings (c_heap p'))"
      "map_of (hp_bytes (c_heap p')) \<subseteq>\<^sub>m map_of (hp_bytes g)"
    using bytes_result_reply [OF live_heap [OF l] room] 1 a by metis
  then show ?thesis
    using 1 a live_swap [OF l] v by (auto simp: match_result_def heap_view_def)
next
  case (2 e)
  obtain g where "seq (report True e) (c_reply bytes_reply) p' = (Ok (CError (show_error e)), set_heap g p')"
      "heap_ok g" "heap_view g = heap_view (c_heap p')"
    unfolding report_def using error_reply [OF live_heap [OF l], of "show_error e"] r 2 by blast
  then show ?thesis
    using 2 live_swap [OF l] v by (auto simp: match_result_def heap_view_def)
qed (use r in auto)

lemma missing_text: "CHR 0x00 \<notin> set f \<Longrightarrow> CHR 0x00 \<notin> set (show_error (NotFound (''file '' @ f)))"
  by simp

lemma zero_text: "CHR 0x00 \<notin> set (show_error zero_chunk_size_error)"
  by (simp add: zero_chunk_size_error_def)

text \<open>One call.\<close>

lemma c_step_refines:
  assumes l: "live (op_chunks (fe_fastcdc F) (op_of c) @ rest) p fs" and c: "c_call_ok valid c"
  shows "\<exists>p'. c_step F h c p = (Ok (reply_of F (fst (spec_op (fe_sha F) (fe_fastcdc F) (op_of c) fs))), p') \<and>
     live rest p' (snd (spec_op (fe_sha F) (fe_fastcdc F) (op_of c) fs)) \<and> frees_all p p'"
proof -
  obtain p' where op: "ffi_op F h (op_of c) p = (fst (spec_op (fe_sha F) (fe_fastcdc F) (op_of c) fs), p')"
    and l': "live rest p' (snd (spec_op (fe_sha F) (fe_fastcdc F) (op_of c) fs))"
    and v: "heap_view (c_heap p') = heap_view (c_heap p)"
    using run [OF l] c by (cases c) (auto simp: c_call_ok_def)
  have s: "c_string (call_file c)" and nul: "CHR 0x00 \<notin> set (call_file c)"
    using c by (simp_all add: c_call_ok_def c_string_def)
  note eq = c_step_eq [OF handle]
  show ?thesis
  proof (cases c)
    case (CIngestFixed f data n)
    show ?thesis
      unfolding CIngestFixed using s CIngestFixed
      by (simp only: call_file.simps eq, intro digests_call [OF _ l' v [unfolded CIngestFixed], unfolded CIngestFixed])
        (use op zero_text in \<open>auto simp: CIngestFixed\<close>)
  next
    case (CIngestCdc f data)
    obtain ch where ch: "cdc_chunks (fe_fastcdc F) data = Ok ch" using cdc_chunks_Ok [OF cdc] by metis
    show ?thesis
      unfolding CIngestCdc using s CIngestCdc
      by (simp only: call_file.simps eq, intro digests_call [OF _ l' v [unfolded CIngestCdc], unfolded CIngestCdc])
        (use op ch in \<open>auto simp: CIngestCdc\<close>)
  next
    case (CRead f)
    show ?thesis
      unfolding CRead using s CRead
      by (simp only: call_file.simps eq, intro read_call [OF _ l' v [unfolded CRead], unfolded CRead])
        (use op nul missing_text ffi_read_room in \<open>auto simp: CRead split: option.splits\<close>)
  next
    case (CDelete f)
    show ?thesis
      unfolding CDelete using s CDelete
      by (simp only: call_file.simps eq, intro done_call [OF _ l' v [unfolded CDelete], unfolded CDelete])
        (use op nul missing_text in \<open>auto simp: CDelete split: option.splits\<close>)
  qed
qed

text \<open>A sequence of calls.\<close>

lemma c_run_refines:
  assumes "live (concat (map (\<lambda>c. op_chunks (fe_fastcdc F) (op_of c)) cs)) p fs" and "list_all (c_call_ok valid) cs"
  shows "\<exists>p'. c_run F h cs p =
      (Ok (map (reply_of F) (fst (spec_ops (fe_sha F) (fe_fastcdc F) (map op_of cs) fs))), p') \<and>
     live [] p' (snd (spec_ops (fe_sha F) (fe_fastcdc F) (map op_of cs) fs)) \<and> frees_all p p'"
  using assms
proof (induction cs arbitrary: p fs)
  case Nil
  then show ?case by (simp add: ret_def)
next
  case (Cons c cs)
  obtain r fs1 where sp: "spec_op (fe_sha F) (fe_fastcdc F) (op_of c) fs = (r, fs1)" by fastforce
  obtain p1 where p1: "c_step F h c p = (Ok (reply_of F r), p1)"
      "live (concat (map (\<lambda>c. op_chunks (fe_fastcdc F) (op_of c)) cs)) p1 fs1" "frees_all p p1"
    using c_step_refines [of c _ p fs] Cons.prems sp by auto
  obtain p2 where "c_run F h cs p1 =
      (Ok (map (reply_of F) (fst (spec_ops (fe_sha F) (fe_fastcdc F) (map op_of cs) fs1))), p2)"
     "live [] p2 (snd (spec_ops (fe_sha F) (fe_fastcdc F) (map op_of cs) fs1))" "frees_all p1 p2"
    using Cons.IH [OF p1(2)] Cons.prems(2) by auto
  then show ?case
    using p1 sp by (auto simp: seq_def ret_def split: prod.splits intro: map_le_trans)
qed

end

end
