(* ===== verification/Ffi_Sessions.thy ===== *)
theory Ffi_Sessions
  imports Ffi_Client
begin

text \<open>
  The two kinds of handle: a store on the caller's callbacks, made by
  \<^verbatim>\<open>chunkstore_create\<close>, and a store on the file system, made by
  \<^verbatim>\<open>chunkstore_open_fs\<close>.  Both are a \<open>c_handle\<close>, from the moment they are made.
\<close>

lemma related_backend:
  assumes "related E kv ok valid U rest s fs" and "kv b = kv (st_backend s)" and "ok' b"
  shows "related E kv ok' valid U rest (s\<lparr>st_backend := b\<rparr>) fs"
proof -
  have "contents kv (s\<lparr>st_backend := b\<rparr>) = contents kv s"
    by (rule ext) (simp add: contents_def assms(2) split: option.split)
  then show ?thesis
    using assms
    by (simp add: related_def store_inv_def chunk_inv_def within_def fits_def unlocked_def)
qed

lemma deps_simps [simp]:
  "dp_backend (callback_deps F C) = CallbackBackend C" "dp_json (callback_deps F C) = fe_json F"
  "dp_sha (callback_deps F C) = fe_sha F" "dp_fastcdc (callback_deps F C) = fe_fastcdc F"
  "dp_backend (fs_deps F) = FsBackend" "dp_json (fs_deps F) = fe_json F"
  "dp_sha (fs_deps F) = fe_sha F" "dp_fastcdc (fs_deps F) = fe_fastcdc F"
  by (simp_all add: callback_deps_def fs_deps_def)

text \<open>What both need of the libraries and of the chunks that will be stored.\<close>

locale ffi_libraries =
  fixes F :: ffi_env and U :: "bytes set"
  assumes json: "json_ok (fe_json F)" and sha: "sha_ok (fe_sha F)"
    and cdc: "fastcdc_ok (fe_fastcdc F) cdc_config_default"
    and to_json: "\<exists>j. fe_to_string F ds = Inr j \<and> CHR 0x00 \<notin> set j"
    and chunks: "inj_on (fe_sha F) U" "[] \<notin> U"

section \<open>Stores on callbacks\<close>

definition callback_live ::
  "ffi_env \<Rightarrow> 'u callbacks \<Rightarrow> ('u \<Rightarrow> string \<rightharpoonup> bytes) \<Rightarrow> ('u \<Rightarrow> bool) \<Rightarrow> (string \<Rightarrow> bool) \<Rightarrow>
     bytes set \<Rightarrow> ptr \<Rightarrow> bytes list \<Rightarrow> 'u process \<Rightarrow> (string \<rightharpoonup> bytes) \<Rightarrow> bool" where
  "callback_live F C kv ok valid U h rest p fs \<longleftrightarrow>
     (\<exists>s. map_of (pr_stores p) h = Some (Callback C s) \<and>
        related (callback_deps F C) (world_kv kv) (world_ok ok (heap_view (c_heap p))) valid U rest
          (s\<lparr>st_backend := pr_world p\<rparr>) fs)"

definition store_keys_valid :: "(string \<Rightarrow> bool) \<Rightarrow> bool" where
  "store_keys_valid valid \<longleftrightarrow>
     (\<forall>d. is_chunk_digest d \<longrightarrow> valid d \<and> valid (refcount_key d)) \<and>
     valid REFCOUNT_INDEX_KEY \<and> valid MANIFEST_INDEX_KEY"

locale callback_client = ffi_libraries F U
  for F :: ffi_env and U :: "bytes set" +
  fixes C :: "'u callbacks" and kv :: "'u \<Rightarrow> string \<rightharpoonup> bytes" and ok :: "'u \<Rightarrow> bool"
    and valid :: "string \<Rightarrow> bool"
  assumes callbacks: "callbacks_ok C kv ok valid" and keys: "store_keys_valid valid"
begin

lemma callback_store_env: "store_env (callback_deps F C) (world_kv kv) (world_ok ok H) valid"
proof -
  have "store_backend (CallbackBackend C) (world_kv kv) (world_ok ok H) valid"
    by (rule callback_backend [OF callbacks]) (use keys in \<open>simp_all add: store_keys_valid_def\<close>)
  then show ?thesis using json sha by (simp add: store_env_def store_env_axioms_def)
qed

lemma callback_run:
  assumes l: "callback_live F C kv ok valid U h (op_chunks (fe_fastcdc F) op @ rest) p fs"
    and op: "op_file_ok valid op" "\<And>repair. op \<noteq> OpFsck repair" "op \<noteq> OpReopen"
  shows "\<exists>p'. ffi_op F h op p = (fst (spec_op (fe_sha F) (fe_fastcdc F) op fs), p') \<and>
     callback_live F C kv ok valid U h rest p' (snd (spec_op (fe_sha F) (fe_fastcdc F) op fs)) \<and>
     heap_view (c_heap p') = heap_view (c_heap p)"
proof -
  let ?H = "heap_view (c_heap p)" and ?E = "callback_deps F C"
  obtain s where s: "map_of (pr_stores p) h = Some (Callback C s)"
      "related ?E (world_kv kv) (world_ok ok ?H) valid U (op_chunks (fe_fastcdc F) op @ rest)
         (s\<lparr>st_backend := pr_world p\<rparr>) fs"
    using l unfolding callback_live_def by blast
  have "refines_op ?E (world_kv kv) (world_ok ok ?H) valid U rest op (s\<lparr>st_backend := pr_world p\<rparr>) fs"
    by (rule store_env.run_op_refines_no_fsck [OF callback_store_env]) (use s(2) op chunks cdc in simp_all)
  then obtain s' where s': "run_op ?E op (s\<lparr>st_backend := pr_world p\<rparr>) =
        (fst (spec_op (fe_sha F) (fe_fastcdc F) op fs), s')"
      "related ?E (world_kv kv) (world_ok ok ?H) valid U rest s' (snd (spec_op (fe_sha F) (fe_fastcdc F) op fs))"
    by (auto simp: refines_op_def)
  have view: "heap_view (cw_heap (st_backend s')) = ?H"
    using s'(2) by (simp add: related_def store_inv_def world_ok_def)
  show ?thesis
    unfolding ffi_op_eq [OF op(2,3)] on_handle_callback [where m = "\<lambda>C. run_op (callback_deps F C) op",
        OF s(1) s'(1)]
    using s'(2) view by (auto simp: callback_live_def)
qed

lemma callback_swap:
  assumes l: "callback_live F C kv ok valid U h rest p fs" and g: "heap_ok g"
  shows "callback_live F C kv ok valid U h rest (set_heap g p) fs"
proof -
  let ?b = "(pr_world p)\<lparr>cw_heap := g\<rparr>"
  obtain s where s: "map_of (pr_stores p) h = Some (Callback C s)"
      "related (callback_deps F C) (world_kv kv) (world_ok ok (heap_view (c_heap p))) valid U rest
         (s\<lparr>st_backend := pr_world p\<rparr>) fs"
    using l unfolding callback_live_def by blast
  have u: "ok (cw_user (pr_world p))"
    using s(2) by (simp add: related_def store_inv_def world_ok_def)
  have "related (callback_deps F C) (world_kv kv) (world_ok ok (heap_view g)) valid U rest
      (s\<lparr>st_backend := pr_world p\<rparr>\<lparr>st_backend := ?b\<rparr>) fs"
    by (rule related_backend [OF s(2)]) (use u g in \<open>simp_all add: world_kv_def world_ok_def\<close>)
  then show ?thesis using s(1) by (simp add: callback_live_def set_heap_def)
qed

lemma callback_handle: "h \<noteq> 0 \<Longrightarrow> c_handle F h valid (callback_live F C kv ok valid U h)"
proof
  fix rest :: "bytes list" and p fs
  assume "callback_live F C kv ok valid U h rest p fs"
  then show "heap_ok (c_heap p)"
    by (auto simp: callback_live_def related_def store_inv_def world_ok_def)
qed (use to_json cdc callback_run callback_swap in auto)

text \<open>\<^verbatim>\<open>chunkstore_create\<close> on an empty backend.\<close>

lemma create_live:
  assumes p: "ok (cw_user (pr_world p))" "kv (cw_user (pr_world p)) = Map.empty" "heap_ok (c_heap p)"
    and rest: "set rest \<subseteq> U" "length rest < 2 ^ 64" "length (concat rest) < 2 ^ 64"
  shows "\<exists>h p'. chunkstore_create F (Some C) p = (Ok h, p') \<and> h \<noteq> 0 \<and>
     callback_live F C kv ok valid U h rest p' Map.empty \<and> heap_view (c_heap p') = heap_view (c_heap p)"
proof -
  let ?H = "heap_view (c_heap p)" and ?E = "callback_deps F C"
  have b: "world_ok ok ?H (pr_world p)" "world_kv kv (pr_world p) = Map.empty"
    using p by (simp_all add: world_ok_def world_kv_def)
  obtain s where s: "open_store ?E (pr_world p) = (Ok s, st_backend s)"
      "store_inv ?E (world_kv kv) (world_ok ok ?H) valid s" "contents (world_kv kv) s = Map.empty"
      "stored_plain (st_codec s) (world_kv kv (st_backend s)) = {}"
      "fits s rest \<longleftrightarrow> length rest < 2 ^ 64 \<and> length (concat rest) < 2 ^ 64"
    by (rule store_env.open_empty [OF callback_store_env b]) blast
  let ?w = "st_backend s"
  let ?h = "hp_next (cw_heap ?w)"
  let ?g = "(cw_heap ?w)\<lparr>hp_next := Ptr (Suc (addr ?h))\<rparr>"
  let ?p = "set_heap ?g (p\<lparr>pr_world := ?w\<rparr>)\<lparr>pr_stores := (?h, Callback C s) # pr_stores p\<rparr>"
  have w: "world_ok ok ?H ?w" using s(2) by (simp add: store_inv_def)
  then have g: "heap_ok ?g" "heap_view ?g = ?H"
    by (auto simp: world_ok_def heap_ok_def heap_view_def intro: less_trans)
  have h0: "?h \<noteq> 0"
    using w by (auto simp: world_ok_def heap_ok_def zero_ptr_def dangling_def less_ptr_def)
  have rel: "related ?E (world_kv kv) (world_ok ok ?H) valid U rest s Map.empty"
    using s rest by (simp add: related_def within_def)
  have "related ?E (world_kv kv) (world_ok ok (heap_view ?g)) valid U rest
      (s\<lparr>st_backend := ?w\<lparr>cw_heap := ?g\<rparr>\<rparr>) Map.empty"
    by (rule related_backend [OF rel]) (use w g in \<open>simp_all add: world_kv_def world_ok_def\<close>)
  then have "callback_live F C kv ok valid U ?h rest ?p Map.empty"
    by (simp add: callback_live_def set_heap_def)
  moreover have "chunkstore_create F (Some C) p = (Ok ?h, ?p)"
    using s(1)
    by (simp add: chunkstore_create_def match_result_def on_world_def zoom_def leak_store_def seq_def
        in_heap_def fresh_ptr_def set_heap_def)
  ultimately show ?thesis
    using g(2) h0 by (intro exI [of _ ?h] exI [of _ ?p]) (simp add: set_heap_def)
qed

text \<open>A whole session.\<close>

lemma create_session:
  assumes p: "ok (cw_user (pr_world p))" "kv (cw_user (pr_world p)) = Map.empty" "heap_ok (c_heap p)"
    and cs: "list_all (c_call_ok valid) cs" "rest = concat (map (\<lambda>c. op_chunks (fe_fastcdc F) (op_of c)) cs)"
      "set rest \<subseteq> U" "length rest < 2 ^ 64" "length (concat rest) < 2 ^ 64"
  shows "\<exists>h p1 p2. chunkstore_create F (Some C) p = (Ok h, p1) \<and>
     c_run F h cs p1 =
       (Ok (map (reply_of F) (fst (spec_ops (fe_sha F) (fe_fastcdc F) (map op_of cs) Map.empty))), p2) \<and>
     frees_all p p2 \<and> heap_ok (c_heap p2)"
proof -
  obtain h p1 where c: "chunkstore_create F (Some C) p = (Ok h, p1)" "h \<noteq> 0"
      "callback_live F C kv ok valid U h rest p1 Map.empty" "heap_view (c_heap p1) = heap_view (c_heap p)"
    using create_live [OF p cs(3-5)] by blast
  note H = callback_handle [OF c(2)]
  show ?thesis
    using c_handle.c_run_refines [OF H c(3) [unfolded cs(2)] cs(1)] c(1,4) c_handle.live_heap [OF H]
    by (fastforce simp: heap_view_def)
qed

end

text \<open>A handle that is not null is a \<open>c_handle\<close>.\<close>

locale callback_at = callback_client F U C kv ok valid
  for F :: ffi_env and U :: "bytes set" and C :: "'u callbacks" and kv :: "'u \<Rightarrow> string \<rightharpoonup> bytes"
    and ok :: "'u \<Rightarrow> bool" and valid :: "string \<Rightarrow> bool" +
  fixes h :: ptr
  assumes not_null: "h \<noteq> 0"

sublocale callback_at \<subseteq> handle: c_handle F h valid "callback_live F C kv ok valid U h"
  by (rule callback_handle [OF not_null])

section \<open>Stores on the file system\<close>

definition fs_live ::
  "ffi_env \<Rightarrow> (string \<Rightarrow> bool) \<Rightarrow> bytes set \<Rightarrow> ptr \<Rightarrow> bytes list \<Rightarrow> 'u process \<Rightarrow>
     (string \<rightharpoonup> bytes) \<Rightarrow> bool" where
  "fs_live F ids U h rest p fs \<longleftrightarrow>
     heap_ok (c_heap p) \<and>
     (\<exists>s. map_of (pr_stores p) h = Some (Fs s) \<and>
        related (fs_deps F) fs_kv (fs_ok (fs_keys ids)) (fs_keys ids) U rest
          (s\<lparr>st_backend := attach_fs p (st_backend s)\<rparr>) fs)"

locale fs_client = ffi_libraries F U + file_space ids
  for F :: ffi_env and U :: "bytes set" and ids :: "string \<Rightarrow> bool"
begin

lemma fs_store_env: "store_env (fs_deps F) fs_kv (fs_ok (fs_keys ids)) (fs_keys ids)"
  using fs_listing_env [of "fs_deps F"] json sha by (simp add: listing_env_def)

lemma fs_run:
  assumes l: "fs_live F ids U h (op_chunks (fe_fastcdc F) op @ rest) p fs"
    and op: "op_file_ok (fs_keys ids) op" "\<And>repair. op \<noteq> OpFsck repair" "op \<noteq> OpReopen"
  shows "\<exists>p'. ffi_op F h op p = (fst (spec_op (fe_sha F) (fe_fastcdc F) op fs), p') \<and>
     fs_live F ids U h rest p' (snd (spec_op (fe_sha F) (fe_fastcdc F) op fs)) \<and>
     heap_view (c_heap p') = heap_view (c_heap p)"
proof -
  let ?E = "fs_deps F" and ?ok = "fs_ok (fs_keys ids)"
  obtain s where s: "map_of (pr_stores p) h = Some (Fs s)"
      "related ?E fs_kv ?ok (fs_keys ids) U (op_chunks (fe_fastcdc F) op @ rest)
         (s\<lparr>st_backend := attach_fs p (st_backend s)\<rparr>) fs"
    using l unfolding fs_live_def by blast
  have "refines_op ?E fs_kv ?ok (fs_keys ids) U rest op (s\<lparr>st_backend := attach_fs p (st_backend s)\<rparr>) fs"
    by (rule store_env.run_op_refines_no_fsck [OF fs_store_env]) (use s(2) op chunks cdc in simp_all)
  then obtain s' where s': "run_op ?E op (s\<lparr>st_backend := attach_fs p (st_backend s)\<rparr>) =
        (fst (spec_op (fe_sha F) (fe_fastcdc F) op fs), s')"
      "related ?E fs_kv ?ok (fs_keys ids) U rest s' (snd (spec_op (fe_sha F) (fe_fastcdc F) op fs))"
    by (auto simp: refines_op_def)
  let ?p = "p\<lparr>pr_nodes := fb_nodes (st_backend s'), pr_tmp := fb_tmp_counter (st_backend s'),
      pr_stores := AList.update h (Fs s') (pr_stores p)\<rparr>"
  have "attach_fs ?p (st_backend s') = st_backend s'" by (simp add: attach_fs_def)
  then show ?thesis
    unfolding ffi_op_eq [OF op(2,3)] on_handle_fs [where m' = "run_op ?E op", OF s(1) s'(1)]
    using s'(2) l by (auto simp: fs_live_def)
qed

lemma fs_swap: "fs_live F ids U h rest p fs \<Longrightarrow> heap_ok g \<Longrightarrow> fs_live F ids U h rest (set_heap g p) fs"
  by (simp add: fs_live_def set_heap_def attach_fs_def)

lemma fs_handle: "h \<noteq> 0 \<Longrightarrow> c_handle F h (fs_keys ids) (fs_live F ids U h)"
proof (unfold_locales, goal_cases)
  case (4 op rest p fs)
  then show ?case by (intro fs_run)
next
  case (5 rest p fs)
  then show ?case by (simp add: fs_live_def)
next
  case (6 rest p fs g)
  then show ?case by (intro fs_swap)
qed (use to_json cdc in auto)

text \<open>\<^verbatim>\<open>chunkstore_open_fs\<close> on a directory with nothing in it.\<close>

lemma open_fs_live:
  assumes root: "to_str name = Inr name" "create_dir_all (fe_resolve F name) (pr_nodes p) = (Ok (), ns)"
    and p: "keys_distinct (pr_nodes p)" "\<forall>q. q \<noteq> [] \<longrightarrow> map_of (pr_nodes p) (fe_resolve F name @ q) = None"
      "heap_ok (c_heap p)"
    and rest: "set rest \<subseteq> U" "length rest < 2 ^ 64" "length (concat rest) < 2 ^ 64"
  shows "\<exists>h p'. chunkstore_open_fs F (Some name) p = (Ok h, p') \<and> h \<noteq> 0 \<and>
     fs_live F ids U h rest p' Map.empty \<and> heap_view (c_heap p') = heap_view (c_heap p)"
proof -
  let ?E = "fs_deps F" and ?ok = "fs_ok (fs_keys ids)"
  let ?b = "\<lparr>fb_root = fe_resolve F name, fb_nodes = ns, fb_tmp_counter = pr_tmp p\<rparr>"
  have new: "fs_new (fe_resolve F name) (pr_tmp p) (pr_nodes p) = (Ok ?b, ns)"
    using root(2) by (simp add: fs_new_def seq_def)
  have b: "?ok ?b" "fs_kv ?b = Map.empty"
    using fs_new_empty [OF new p(1,2), of "fs_keys ids"] by simp_all
  obtain s where s: "open_store ?E ?b = (Ok s, st_backend s)"
      "store_inv ?E fs_kv ?ok (fs_keys ids) s" "contents fs_kv s = Map.empty"
      "stored_plain (st_codec s) (fs_kv (st_backend s)) = {}"
      "fits s rest \<longleftrightarrow> length rest < 2 ^ 64 \<and> length (concat rest) < 2 ^ 64"
    by (rule store_env.open_empty [OF fs_store_env b]) blast
  let ?h = "hp_next (c_heap p)"
  let ?g = "(c_heap p)\<lparr>hp_next := Ptr (Suc (addr ?h))\<rparr>"
  let ?p = "set_heap ?g (p\<lparr>pr_nodes := fb_nodes (st_backend s), pr_tmp := fb_tmp_counter (st_backend s)\<rparr>)
      \<lparr>pr_stores := (?h, Fs s) # pr_stores p\<rparr>"
  have g: "heap_ok ?g" "heap_view ?g = heap_view (c_heap p)"
    using p(3) by (auto simp: heap_ok_def heap_view_def intro: less_trans)
  have h0: "?h \<noteq> 0"
    using p(3) by (auto simp: heap_ok_def zero_ptr_def dangling_def less_ptr_def)
  have "related ?E fs_kv ?ok (fs_keys ids) U rest s Map.empty"
    using s rest by (simp add: related_def within_def)
  moreover have "attach_fs ?p (st_backend s) = st_backend s"
    by (simp add: attach_fs_def set_heap_def)
  ultimately have "fs_live F ids U ?h rest ?p Map.empty"
    using g(1) by (simp add: fs_live_def)
  moreover have "chunkstore_open_fs F (Some name) p = (Ok ?h, ?p)"
    using s(1) new root(1)
    by (simp add: chunkstore_open_fs_def open_files_def match_result_def leak_store_def seq_def
        in_heap_def zoom_def fresh_ptr_def set_heap_def)
  ultimately show ?thesis
    using g(2) h0 by (intro exI [of _ ?h] exI [of _ ?p]) (simp add: set_heap_def)
qed

lemma open_fs_session:
  assumes root: "to_str name = Inr name" "create_dir_all (fe_resolve F name) (pr_nodes p) = (Ok (), ns)"
    and p: "keys_distinct (pr_nodes p)" "\<forall>q. q \<noteq> [] \<longrightarrow> map_of (pr_nodes p) (fe_resolve F name @ q) = None"
      "heap_ok (c_heap p)"
    and cs: "list_all (c_call_ok (fs_keys ids)) cs"
      "rest = concat (map (\<lambda>c. op_chunks (fe_fastcdc F) (op_of c)) cs)"
      "set rest \<subseteq> U" "length rest < 2 ^ 64" "length (concat rest) < 2 ^ 64"
  shows "\<exists>h p1 p2. chunkstore_open_fs F (Some name) p = (Ok h, p1) \<and>
     c_run F h cs p1 =
       (Ok (map (reply_of F) (fst (spec_ops (fe_sha F) (fe_fastcdc F) (map op_of cs) Map.empty))), p2) \<and>
     frees_all p p2 \<and> heap_ok (c_heap p2)"
proof -
  obtain h p1 where c: "chunkstore_open_fs F (Some name) p = (Ok h, p1)" "h \<noteq> 0"
      "fs_live F ids U h rest p1 Map.empty" "heap_view (c_heap p1) = heap_view (c_heap p)"
    using open_fs_live [OF root p cs(3-5)] by blast
  note H = fs_handle [OF c(2)]
  show ?thesis
    using c_handle.c_run_refines [OF H c(3) [unfolded cs(2)] cs(1)] c(1,4) c_handle.live_heap [OF H]
    by (fastforce simp: heap_view_def)
qed

end

locale fs_at = fs_client F U ids
  for F :: ffi_env and U :: "bytes set" and ids :: "string \<Rightarrow> bool" +
  fixes h :: ptr
  assumes not_null: "h \<noteq> 0"

sublocale fs_at \<subseteq> handle: c_handle F h "fs_keys ids" "fs_live F ids U h"
  by (rule fs_handle [OF not_null])

end
