(* ===== verification/Ffi_Reads.thy ===== *)
theory Ffi_Reads
  imports Ffi_Sessions
begin

text \<open>
  The buffer \<^verbatim>\<open>chunkstore_read\<close> gives away and \<^verbatim>\<open>chunkstore_bytes_free\<close>: the
  vector's capacity follows from the lengths of the file's chunks, and freeing the buffer with
  its length, as the API asks, is defined exactly when the two agree.
\<close>

section \<open>Capacity\<close>

lemma vec_cap_Nil [simp]: "vec_cap [] = 0"
  by (simp add: vec_cap_def)

lemma vec_cap_fold_len: "snd (fold (\<lambda>n (cap, len). (vec_grow cap len n, len + n)) ns (c, l)) = l + sum_list ns"
  by (induction ns arbitrary: c l) simp_all

lemma vec_cap_snoc: "vec_cap (ns @ [n]) = vec_grow (vec_cap ns) (sum_list ns) n"
  using vec_cap_fold_len [of ns 0 0]
  by (simp add: vec_cap_def split: prod.split) (metis fst_conv snd_conv add_0)

lemma vec_cap_room: "sum_list ns \<le> vec_cap ns"
proof (induction ns rule: rev_induct)
  case (snoc n ns)
  then show ?case by (auto simp: vec_cap_snoc vec_grow_def)
qed simp

lemma vec_cap_least: "vec_cap ns = 0 \<or> 8 \<le> vec_cap ns"
  by (induction ns rule: rev_induct) (auto simp: vec_cap_snoc vec_grow_def)

text \<open>One chunk of eight bytes or more fits exactly; anything shorter, or a short second chunk, does not.\<close>

lemma vec_cap_exact: "8 \<le> n \<Longrightarrow> vec_cap [n] = n"
  by (simp add: vec_cap_def vec_grow_def)

lemma vec_cap_small: "0 < n \<Longrightarrow> n < 8 \<Longrightarrow> vec_cap [n] = 8"
  by (simp add: vec_cap_def vec_grow_def)

lemma vec_cap_two: "8 \<le> n \<Longrightarrow> 0 < k \<Longrightarrow> k < n \<Longrightarrow> vec_cap [n, k] = 2 * n"
  by (simp add: vec_cap_def vec_grow_def)

context store_env
begin

lemma wp_read_vec:
  assumes "store_inv E kv ok valid s" and "try_get (guarded (st_manifest s)) f = Some ds"
    and Q: "\<And>ps b. those (map (blob_plain (st_codec s) (kv (st_backend s))) ds) = Some ps \<Longrightarrow>
           ok b \<Longrightarrow> kv b = kv (st_backend s) \<Longrightarrow>
           Q (concat ps, vec_cap (map length ps)) (s\<lparr>st_backend := b\<rparr>)"
  shows "wp (read_vec E f) s Q"
proof -
  have "wp (read_to_writer E vec_extend f) (vec_new, s) (\<lambda>_ (v, s'). Q v s')"
  proof (rule wp_read_chunks [OF assms(1,2),
        where W = "\<lambda>ps v. v = (concat ps, vec_cap (map length ps))"], goal_cases)
    case 1
    show ?case by (simp add: vec_new_def)
  next
    case (2 ps p w)
    then show ?case
      by (simp add: vec_extend_def wp_iff vec_cap_snoc length_concat)
  next
    case (3 ps w b)
    then show ?case using Q by simp
  qed
  then show ?thesis by (auto simp: wp_iff read_vec_def split: prod.splits)
qed

end

text \<open>Behind a live handle.\<close>

context callback_client
begin

lemma callback_ffi_read:
  assumes "callback_live F C kv ok valid U h rest p fs" and "fs f = Some bs"
  shows "\<exists>ns p'. ffi_read F h f p = (Ok (bs, vec_cap ns), p') \<and> sum_list ns = length bs \<and>
           heap_ok (c_heap p')"
proof -
  let ?H = "heap_view (c_heap p)" and ?E = "callback_deps F C"
  obtain s where s: "map_of (pr_stores p) h = Some (Callback C s)"
      "related ?E (world_kv kv) (world_ok ok ?H) valid U rest (s\<lparr>st_backend := pr_world p\<rparr>) fs"
    using assms(1) unfolding callback_live_def by blast
  let ?s = "s\<lparr>st_backend := pr_world p\<rparr>"
  have inv: "store_inv ?E (world_kv kv) (world_ok ok ?H) valid ?s" and c: "contents (world_kv kv) ?s f = Some bs"
    using s(2) assms(2) by (simp_all add: related_def)
  obtain ds where ds: "try_get (guarded (st_manifest ?s)) f = Some ds"
      "assemble (st_codec ?s) (world_kv kv (st_backend ?s)) ds = Some bs"
    using c by (auto simp: contents_def split: option.splits)
  have "wp (read_vec ?E f) ?s (\<lambda>v s'. (\<exists>ns. v = (bs, vec_cap ns) \<and> sum_list ns = length bs) \<and>
      heap_ok (cw_heap (st_backend s')))"
    by (rule store_env.wp_read_vec [OF callback_store_env inv ds(1)])
      (use ds(2) in \<open>auto simp: assemble_def length_concat world_ok_def\<close>)
  then obtain ns s' where r: "read_vec ?E f ?s = (Ok (bs, vec_cap ns), s')" "sum_list ns = length bs"
      "heap_ok (cw_heap (st_backend s'))"
    by (auto simp: wp_iff)
  show ?thesis
    unfolding ffi_read_def on_handle_callback [where m = "\<lambda>C. read_vec (callback_deps F C) f", OF s(1) r(1)]
    using r(2,3) by (intro exI [of _ ns]) simp
qed

end

section \<open>Reading and freeing\<close>

text \<open>The client's use of the buffer: read it all, free it with the length it was given.\<close>

definition read_and_free :: "ffi_env \<Rightarrow> ptr \<Rightarrow> string \<Rightarrow> ('u process, c_reply) act" where
  "read_and_free F h f =
     seq (chunkstore_read F h (Some f) True True True) (\<lambda>res.
     case (c_out res, c_len res) of
       (Some q, Some n) \<Rightarrow>
         seq (take_bytes (Some q) (Some n)) (\<lambda>d.
         seq (in_heap (chunkstore_bytes_free q n)) (\<lambda>_. ret (CBytes d)))
     | _ \<Rightarrow> c_reply bytes_reply res)"

lemma read_and_free_eq:
  assumes "h \<noteq> 0" and "to_str f = Inr f" and r: "ffi_read F h f p = (Ok (out, cap), p')"
    and ok: "heap_ok (c_heap p')"
  shows "\<exists>p''. read_and_free F h f p = (if out = [] \<or> cap = length out then Ok (CBytes out) else Hang, p'') \<and>
      (hp_undefined (c_heap p'') \<longleftrightarrow> out \<noteq> [] \<and> cap \<noteq> length out) \<and>
      (out \<noteq> [] \<and> cap = length out \<longrightarrow> heap_view (c_heap p'') = heap_view (c_heap p'))"
proof -
  have room: "length out \<le> cap" by (rule ffi_read_room [OF r])
  have undef: "\<not> hp_undefined (c_heap p')" using ok by (simp add: heap_ok_def)
  obtain q g where q: "leak_vec (out, cap) (c_heap p') = (Ok q, g)" "heap_ok g" "q \<noteq> 0"
      "map_of (hp_bytes (c_heap p')) q = None" 
      "map_of (hp_bytes g) = (if cap = 0 then map_of (hp_bytes (c_heap p'))
                              else (map_of (hp_bytes (c_heap p')))(q \<mapsto> (out, cap)))"
      "hp_strings g = hp_strings (c_heap p')"
    using leak_vec_law [OF ok, of out cap] by blast
  have g: "\<not> hp_undefined g" using q(2) by (simp add: heap_ok_def)
  have read: "chunkstore_read F h (Some f) True True True p =
      (Ok ((returned CHUNKSTORE_OK)\<lparr>c_out := Some q, c_len := Some (length out)\<rparr>), set_heap g p')"
    using assms(1-3) in_heap_run [of "leak_vec (out, cap)", OF q(1)]
    by (simp add: chunkstore_read_def with_str_def match_result_def seq_def ret_def)
  show ?thesis
  proof (cases "out = []")
    case True
    then have "read_and_free F h f p = (Ok (CBytes out), set_heap g p')"
      using read in_heap_run [of "chunkstore_bytes_free q 0" "set_heap g p'" "Ok ()" g]
      by (simp add: read_and_free_def seq_def ret_def returned_def take_bytes_def chunkstore_bytes_free_def)
    then show ?thesis using True g by simp
  next
    case False
    then have "cap \<noteq> 0" using room by (cases cap) simp_all
    then have m: "map_of (hp_bytes g) q = Some (out, cap)" using q(5) by simp
    have take: "take_bytes (Some q) (Some (length out)) (set_heap g p') = (Ok out, set_heap g p')"
      using False m in_heap_run [of "slice_from_raw q (length out)" "set_heap g p'" "Ok out" g]
      by (simp add: take_bytes_def slice_from_raw_def)
    show ?thesis
    proof (cases "cap = length out")
      case True
      let ?g = "g\<lparr>hp_bytes := AList.delete q (hp_bytes g)\<rparr>"
      have "read_and_free F h f p = (Ok (CBytes out), set_heap ?g p')"
        using read take True bytes_free_law(1) [OF q(2) m \<open>cap \<noteq> 0\<close>]
          in_heap_run [of "chunkstore_bytes_free q cap" "set_heap g p'" "Ok ()" ?g]
        by (simp add: read_and_free_def seq_def ret_def returned_def)
      moreover have "heap_view ?g = heap_view (c_heap p')"
        using q(4-6) \<open>cap \<noteq> 0\<close> by (auto simp: heap_view_def fun_eq_iff)
      ultimately show ?thesis using True g by simp
    next
      case neq: False
      then have "read_and_free F h f p = (Hang, set_heap (g\<lparr>hp_undefined := True\<rparr>) p')"
        using read take bytes_free_undefined [OF m neq q(3)] False
          in_heap_run [of "chunkstore_bytes_free q (length out)" "set_heap g p'"]
        by (simp add: read_and_free_def seq_def ret_def returned_def)
      then show ?thesis using neq False by simp
    qed
  qed
qed

end
