(* ===== verification/Sample_Ffi.thy ===== *)
theory Sample_Ffi
  imports Sample Ffi_Reads
begin

text \<open>
  A C program to run the API against: callbacks over an association list that allocate what
  they return, and the libraries of \<open>Sample\<close>.
\<close>

section \<open>Callbacks over an association list\<close>

type_synonym table = "(string \<times> bytes) list"

definition table_get :: "string \<Rightarrow> table c_world \<Rightarrow> (c_int \<times> ptr \<times> nat) \<times> table c_world" where
  "table_get k w =
     (case map_of (cw_user w) k of
        None \<Rightarrow> ((CHUNKSTORE_OK, 0, 0), w)
      | Some v \<Rightarrow>
          (case leak_vec (v, length v) (cw_heap w) of
             (Ok p, g) \<Rightarrow> ((CHUNKSTORE_OK, p, length v), w\<lparr>cw_heap := g\<rparr>)
           | (_, g) \<Rightarrow> ((CHUNKSTORE_ERR, 0, 0), w\<lparr>cw_heap := g\<rparr>)))"

definition table_put :: "string \<Rightarrow> bytes \<Rightarrow> table c_world \<Rightarrow> c_int \<times> table c_world" where
  "table_put k v w = (CHUNKSTORE_OK, w\<lparr>cw_user := (k, v) # cw_user w\<rparr>)"

definition table_exists :: "string \<Rightarrow> table c_world \<Rightarrow> c_int \<times> table c_world" where
  "table_exists k w = (if map_of (cw_user w) k = None then 0 else 1, w)"

definition table_delete :: "string \<Rightarrow> table c_world \<Rightarrow> c_int \<times> table c_world" where
  "table_delete k w = (CHUNKSTORE_OK, w\<lparr>cw_user := AList.delete k (cw_user w)\<rparr>)"

definition table_callbacks :: "table callbacks" where
  "table_callbacks =
     \<lparr>cb_get = Some table_get, cb_put = Some table_put, cb_exists = Some table_exists,
      cb_delete = Some table_delete\<rparr>"

definition no_empty :: "table \<Rightarrow> bool" where
  "no_empty u \<longleftrightarrow> list_all (\<lambda>(k, v). v \<noteq> []) u"

definition nul_free :: "string \<Rightarrow> bool" where
  "nul_free k \<longleftrightarrow> CHR 0x00 \<notin> set k"

lemma no_empty_get: "no_empty u \<Longrightarrow> map_of u k = Some v \<Longrightarrow> v \<noteq> []"
  by (auto simp: no_empty_def list_all_iff dest: map_of_SomeD)

lemma no_empty_delete: "no_empty u \<Longrightarrow> no_empty (AList.delete k u)"
  by (simp add: no_empty_def list_all_iff AList.delete_eq)

lemma table_get_ok: "get_ok table_get map_of no_empty nul_free"
  unfolding get_ok_def
proof (intro allI impI)
  fix k and w :: "table c_world"
  assume w: "no_empty (cw_user w)" "heap_ok (cw_heap w)"
  show "\<exists>p n w'. table_get k w = ((CHUNKSTORE_OK, p, n), w') \<and> no_empty (cw_user w') \<and>
           map_of (cw_user w') = map_of (cw_user w) \<and>
           (case map_of (cw_user w) k of
              None \<Rightarrow> (p = 0 \<or> n = 0) \<and> cw_heap w' = cw_heap w
            | Some v \<Rightarrow> v \<noteq> [] \<and> n = length v \<and> given p v (cw_heap w) (cw_heap w'))"
  proof (cases "map_of (cw_user w) k")
    case None
    then show ?thesis using w(1) by (simp add: table_get_def)
  next
    case (Some v)
    then have v: "v \<noteq> []" using no_empty_get [OF w(1)] by blast
    obtain p g where g: "leak_vec (v, length v) (cw_heap w) = (Ok p, g)" "heap_ok g"
        "map_of (hp_bytes (cw_heap w)) p = None"
        "map_of (hp_bytes g) = (if length v = 0 then map_of (hp_bytes (cw_heap w))
           else (map_of (hp_bytes (cw_heap w)))(p \<mapsto> (v, length v)))"
        "hp_strings g = hp_strings (cw_heap w)"
      using leak_vec_law [OF w(2), of v "length v"] by blast
    then show ?thesis using Some w(1) v by (simp add: table_get_def given_def)
  qed
qed

lemma table_callbacks_ok: "callbacks_ok table_callbacks map_of no_empty nul_free"
proof -
  have "\<exists>u. (c, w\<lparr>cw_user := x\<rparr>) = (c, w\<lparr>cw_user := u\<rparr>) \<and> P u" if "P x" for P x c and w :: "table c_world"
    using that by blast
  note upd = this
  have "put_ok table_put map_of no_empty nul_free"
    unfolding put_ok_def table_put_def by (intro allI impI upd) (simp add: no_empty_def)
  moreover have "exists_ok table_exists map_of no_empty nul_free"
    unfolding exists_ok_def table_exists_def
  proof (intro allI impI)
    fix k and w :: "table c_world"
    assume "no_empty (cw_user w)"
    then show "\<exists>u. (if map_of (cw_user w) k = None then 0 else 1, w) =
        (if map_of (cw_user w) k = None then 0 else 1 :: c_int, w\<lparr>cw_user := u\<rparr>) \<and>
        no_empty u \<and> map_of u = map_of (cw_user w)"
      by (intro exI [of _ "cw_user w"]) simp
  qed
  moreover have "delete_ok table_delete map_of no_empty nul_free"
    unfolding delete_ok_def table_delete_def
    by (intro allI impI upd) (simp add: no_empty_delete delete_conv')
  ultimately show ?thesis
    using table_get_ok by (simp add: callbacks_ok_def table_callbacks_def nul_free_def)
qed

lemma chunk_digest_nul_free: "is_chunk_digest d \<Longrightarrow> nul_free d"
  using digest_chars [of d "CHR 0x00"] by (auto simp: nul_free_def is_ascii_hexdigit_def)

lemma nul_free_keys: "store_keys_valid nul_free"
proof -
  have "nul_free (refcount_key d)" if "is_chunk_digest d" for d
    using chunk_digest_nul_free [OF that]
    by (simp add: nul_free_def refcount_key_def REFCOUNT_PREFIX_def)
  then show ?thesis
    using chunk_digest_nul_free
    by (simp add: store_keys_valid_def) (simp add: nul_free_def REFCOUNT_INDEX_KEY_def MANIFEST_INDEX_KEY_def)
qed

section \<open>The process\<close>

definition sample_to_string :: "string list \<Rightarrow> string + string" where
  "sample_to_string ds =
     Inr (''['' @ concat (map (\<lambda>d. concat (map (\<lambda>c. if c = CHR 0x00 then CHR 0x5C # ''u0000'' else [c]) d) @ '','') ds) @ '']'')"

definition sample_ffi :: ffi_env where
  "sample_ffi = \<lparr>fe_json = sample_json, fe_sha = sample_sha, fe_fastcdc = sample_fastcdc,
     fe_to_string = sample_to_string, fe_resolve = (\<lambda>s. [s])\<rparr>"

lemma sample_ffi_simps [simp]:
  "fe_json sample_ffi = sample_json" "fe_sha sample_ffi = sample_sha"
  "fe_fastcdc sample_ffi = sample_fastcdc" "fe_resolve sample_ffi s = [s]"
  "fe_to_string sample_ffi = sample_to_string"
  by (simp_all add: sample_ffi_def)

definition sample_process :: "table process" where
  "sample_process = \<lparr>pr_world = \<lparr>cw_user = [], cw_heap = heap_new\<rparr>, pr_nodes = [], pr_tmp = 0,
     pr_stores = []\<rparr>"

lemma sample_libraries: "ffi_libraries sample_ffi short"
proof
  show "\<exists>j. fe_to_string sample_ffi ds = Inr j \<and> CHR 0x00 \<notin> set j" for ds
    by (auto simp: sample_to_string_def)
qed (use sample_json_ok sample_sha_ok sample_fastcdc_ok cdc_defaults_ok short_inj in auto)

interpretation c_table: callback_client sample_ffi short table_callbacks map_of no_empty nul_free
  by (intro callback_client.intro callback_client_axioms.intro sample_libraries table_callbacks_ok nul_free_keys)

interpretation c_files: fs_client sample_ffi short flat_id
  by (intro fs_client.intro sample_libraries flat.file_space_axioms)

interpretation c_table_at: callback_at sample_ffi short table_callbacks map_of no_empty nul_free "Ptr 2"
  by unfold_locales (simp add: zero_ptr_def)

interpretation c_files_at: fs_at sample_ffi short flat_id "Ptr 2"
  by unfold_locales (simp add: zero_ptr_def)

text \<open>A session and what it should say.\<close>

definition sample_calls :: "c_call list" where
  "sample_calls = [CIngestFixed ''f'' [1, 2, 3] 2, CRead ''f'', CIngestFixed ''g'' [] 0, CDelete ''f'', CRead ''f'']"

lemma ascii_c_string [simp]: "c_string ''f''" "c_string ''g''"
  by (simp_all add: c_string_def to_str_ascii)

lemma sample_calls_ok:
  "list_all (c_call_ok nul_free) sample_calls" "list_all (c_call_ok (fs_keys flat_id)) sample_calls"
  "concat (map (\<lambda>c. op_chunks (fe_fastcdc sample_ffi) (op_of c)) sample_calls) = [[1, 2], [3]]"
proof -
  have "fs_keys flat_id (manifest_key ''f'')" "fs_keys flat_id (manifest_key ''g'')"
    by (auto simp: fs_keys_def flat_id_def plain_name_def)
  then show "list_all (c_call_ok (fs_keys flat_id)) sample_calls"
    by (simp add: sample_calls_def c_call_ok_def proper_file_id_def)
qed (simp_all add: sample_calls_def c_call_ok_def proper_file_id_def nul_free_def manifest_key_def
    MANIFEST_PREFIX_def sample_chunks)

lemma sample_calls_spec:
  "fst (spec_ops sample_sha sample_fastcdc (map op_of sample_calls) Map.empty) =
     [Ok (Digests (map (digest_hex sample_sha) [[1, 2], [3]])), Ok (Contents [1, 2, 3]),
      Err zero_chunk_size_error, Ok Done, Err (NotFound ''file f'')]"
  by (simp add: sample_calls_def sample_chunks)

lemma sample_process_ok:
  "no_empty (cw_user (pr_world sample_process))" "map_of (cw_user (pr_world sample_process)) = Map.empty"
  "heap_ok (c_heap sample_process)" "keys_distinct (pr_nodes sample_process)"
  "pr_nodes sample_process = []"
  by (simp_all add: sample_process_def no_empty_def)

end
