(* ===== verification/Ffi_Properties.thy ===== *)
theory Ffi_Properties
  imports Sample_Ffi
begin

text \<open>
  The properties of the C API: sessions through handles, buffers and their release, arguments
  that are refused.
\<close>

section \<open>Sessions\<close>



text \<open>
  C31.  Refinement.  The same for a store opened on a directory that is empty or not yet there:
  through \<^verbatim>\<open>chunkstore_open_fs\<close> the C program sees a finite map, on any file ids whose
  paths do not run through each other.
\<close>

theorem c_files_session:
  assumes "fs_client F U ids"
    and "to_str name = Inr name" and "create_dir_all (fe_resolve F name) (pr_nodes p) = (Ok (), ns)"
    and "keys_distinct (pr_nodes p)"
    and "\<forall>q. q \<noteq> [] \<longrightarrow> map_of (pr_nodes p) (fe_resolve F name @ q) = None" and "heap_ok (c_heap p)"
    and "list_all (c_call_ok (fs_keys ids)) cs"
    and "rest = concat (map (\<lambda>c. op_chunks (fe_fastcdc F) (op_of c)) cs)"
    and "set rest \<subseteq> U" and "length rest < 2 ^ 64" and "length (concat rest) < 2 ^ 64"
  shows "\<exists>h p1 p2. chunkstore_open_fs F (Some name) p = (Ok h, p1) \<and>
     c_run F h cs p1 =
       (Ok (map (reply_of F) (fst (spec_ops (fe_sha F) (fe_fastcdc F) (map op_of cs) Map.empty))), p2) \<and>
     map_of (hp_strings (c_heap p2)) = map_of (hp_strings (c_heap p)) \<and>
     map_of (hp_bytes (c_heap p)) \<subseteq>\<^sub>m map_of (hp_bytes (c_heap p2)) \<and> \<not> hp_undefined (c_heap p2)"
  using fs_client.open_fs_session [OF assms] by (fastforce simp: heap_ok_def)

theorem c_files_session_witness:
  "\<exists>h p1 p2. chunkstore_open_fs sample_ffi (Some ''f'') sample_process = (Ok h, p1) \<and>
     c_run sample_ffi h sample_calls p1 =
       (Ok [CDigests (digests_json sample_ffi (map (digest_hex sample_sha) [[1, 2], [3]])), CBytes [1, 2, 3],
            CError (show_error zero_chunk_size_error), CDone, CError ''not found: file f''], p2)"
  using c_files_session [OF c_files.fs_client_axioms, of "''f''" sample_process _ sample_calls "[[1, 2], [3]]"]
    sample_process_ok sample_calls_ok ascii_c_string(1)
  by (auto simp: sample_calls_spec c_string_def create_dir_all_def ancestors_def is_file_def add_dir_def is_dir_def
      simp del: set_concat)

section \<open>Buffers\<close>

text \<open>
  Bounds.  The vector a read returns holds the file's bytes and has the capacity that
  growing by the file's chunks gives it: enough, but in general more than the bytes.
\<close>

theorem read_vec_capacity:
  assumes "store_env E kv ok valid" and "store_inv E kv ok valid s"
    and "try_get (guarded (st_manifest s)) f = Some ds"
    and "those (map (blob_plain (st_codec s) (kv (st_backend s))) ds) = Some ps"
  shows "\<exists>s'. read_vec E f s = (Ok (concat ps, vec_cap (map length ps)), s') \<and>
              contents kv s f = Some (concat ps) \<and> length (concat ps) \<le> vec_cap (map length ps) \<and>
              store_inv E kv ok valid s'"
proof -
  have "wp (read_vec E f) s (\<lambda>v s'. v = (concat ps, vec_cap (map length ps)) \<and> store_inv E kv ok valid s')"
    by (rule store_env.wp_read_vec [OF assms(1-3)])
      (use assms(4) same_map_keeps [OF assms(2)] in auto)
  then show ?thesis
    using assms(3,4) vec_cap_room [of "map length ps"]
    by (auto simp: wp_iff contents_def assemble_def length_concat)
qed

theorem read_vec_capacity_witness:
  "\<exists>s'. read_vec sample_deps ''f'' one_file = (Ok ([1, 2, 3], 8), s')"
  using read_vec_capacity [OF sample.store_env_axioms one_file_inv one_file_digests, of "[[1, 2], [3]]"]
    one_file_plain by (auto simp: vec_cap_def vec_grow_def)

text \<open>
  C33.  The buffer of \<^verbatim>\<open>chunkstore_read\<close>, released by \<^verbatim>\<open>chunkstore_bytes_free\<close> with
  the length that came with it, is released properly exactly when its capacity is its length
  (or it is empty); otherwise the call is undefined behaviour, since the vector is rebuilt with a
  capacity it was not allocated with.
\<close>

theorem read_free_defined_iff:
  assumes "h \<noteq> 0" and "to_str f = Inr f" and "ffi_read F h f p = (Ok (out, cap), p')"
    and "heap_ok (c_heap p')"
  shows "fst (read_and_free F h f p) =
           (if out = [] \<or> cap = length out then Ok (CBytes out) else Hang) \<and>
         (hp_undefined (c_heap (snd (read_and_free F h f p))) \<longleftrightarrow> out \<noteq> [] \<and> cap \<noteq> length out)"
  using read_and_free_eq [OF assms] by auto

text \<open>Every file of fewer than eight bytes is such a buffer: a vector starts with room for eight.\<close>

theorem read_free_defined_iff_witness:
  "\<exists>h p1 p2. chunkstore_create sample_ffi (Some table_callbacks) sample_process = (Ok h, p1) \<and>
     fst (c_run sample_ffi h [CIngestFixed ''f'' [1, 2, 3] 2] p1) = Ok [CDigests (digests_json sample_ffi
       (map (digest_hex sample_sha) [[1, 2], [3]]))] \<and>
     p2 = snd (c_run sample_ffi h [CIngestFixed ''f'' [1, 2, 3] 2] p1) \<and>
     hp_undefined (c_heap (snd (read_and_free sample_ffi h ''f'' p2)))"
proof -
  let ?cs = "[CIngestFixed ''f'' [1, 2, 3] 2]"
  let ?rest = "[[1, 2], [3]] :: bytes list"
  obtain h p1 where h: "chunkstore_create sample_ffi (Some table_callbacks) sample_process = (Ok h, p1)"
      "h \<noteq> 0" "callback_live sample_ffi table_callbacks map_of no_empty nul_free short h ?rest p1 Map.empty"
    using c_table.create_live [OF sample_process_ok(1-3), of ?rest] by auto
  note live = c_table.callback_handle [OF h(2)]
  have ok: "list_all (c_call_ok nul_free) ?cs"
    using sample_calls_ok(1) by (simp add: sample_calls_def)
  have l: "callback_live sample_ffi table_callbacks map_of no_empty nul_free short h
      (concat (map (\<lambda>c. op_chunks (fe_fastcdc sample_ffi) (op_of c)) ?cs)) p1 Map.empty"
    using h(3) by (simp add: sample_chunks)
  obtain p2 where p2: "c_run sample_ffi h ?cs p1 =
        (Ok [CDigests (digests_json sample_ffi (map (digest_hex sample_sha) [[1, 2], [3]]))], p2)"
      "callback_live sample_ffi table_callbacks map_of no_empty nul_free short h [] p2 [''f'' \<mapsto> [1, 2, 3]]"
    using c_handle.c_run_refines [OF live l ok]
    by (auto simp: sample_chunks fun_upd_def [symmetric] simp del: c_run.simps c_step.simps)
  obtain ns p3 where r: "ffi_read sample_ffi h ''f'' p2 = (Ok ([1, 2, 3], vec_cap ns), p3)"
      "sum_list ns = 3" "heap_ok (c_heap p3)"
    using c_table.callback_ffi_read [OF p2(2), of "''f''"] by auto
  have "vec_cap ns \<noteq> 3" using vec_cap_least [of ns] by auto
  then have "hp_undefined (c_heap (snd (read_and_free sample_ffi h ''f'' p2)))"
    using read_free_defined_iff [OF h(2) _ r(1,3)] ascii_c_string(1) by (simp add: c_string_def)
  then show ?thesis using h(1) p2(1) by auto
qed

section \<open>Arguments that are refused\<close>

text \<open>A call that fails and leaves stores, files, the caller's data and the buffers as they were.\<close>

definition refused :: "(('u process, c_result) act) \<Rightarrow> 'u process \<Rightarrow> bool" where
  "refused m p \<longleftrightarrow>
     (\<exists>res p'. m p = (Ok res, p') \<and> c_rc res = CHUNKSTORE_ERR \<and> c_out res = None \<and>
        pr_stores p' = pr_stores p \<and> pr_nodes p' = pr_nodes p \<and> cw_user (pr_world p') = cw_user (pr_world p) \<and>
        hp_bytes (c_heap p') = hp_bytes (c_heap p) \<and> hp_undefined (c_heap p') = hp_undefined (c_heap p))"

definition bad_id :: "string option \<Rightarrow> bool" where
  "bad_id fid \<longleftrightarrow> (case fid of None \<Rightarrow> True | Some f \<Rightarrow> (\<exists>e. to_str f = Inl e))"

lemma refused_returned [simp]: "refused (ret (returned CHUNKSTORE_ERR)) p"
  by (simp add: refused_def ret_def returned_def)

lemma refused_error [simp]: "refused (error_result out_err msg) p"
  by (auto simp: refused_def error_result_def write_ffi_error_def seq_def ret_def returned_def in_heap_def
      zoom_def leak_string_def fresh_ptr_def split: sum.split)

text \<open>The same for a function that also has a reader or writer of the caller, which it does not call.\<close>

definition refused_beside :: "(('r \<times> 'u process, c_result) act) \<Rightarrow> 'r \<Rightarrow> 'u process \<Rightarrow> bool" where
  "refused_beside m r p \<longleftrightarrow>
     (\<exists>res p'. m (r, p) = (Ok res, (r, p')) \<and> refused (\<lambda>_. (Ok res, p')) p)"

lemma refused_beside_returned [simp]: "refused_beside (ret (returned CHUNKSTORE_ERR)) r p"
  by (simp add: refused_beside_def refused_def ret_def returned_def)

lemma refused_beside_error [simp]: "refused_beside (on_process (error_result out_err msg)) r p"
proof -
  obtain res p' where "error_result out_err msg p = (Ok res, p')" "refused (\<lambda>_. (Ok res, p')) p"
    using refused_error [of out_err msg p] by (auto simp: refused_def)
  then show ?thesis by (simp add: refused_beside_def on_process_def zoom_def)
qed

text \<open>
  C34.  Errors.  The functions on a handle answer \<open>CHUNKSTORE_ERR\<close> to a null handle, a null file id or
  one that is not UTF-8, a null buffer that should hold bytes, a null output pointer, a null path or
  one that is not UTF-8 and a null callback, and then touch no store, no file, no buffer and no data
  of the caller, and call no reader or writer.  The two functions that make a handle answer null to a
  null argument, and to a root that is not UTF-8, and change nothing at all.
\<close>

theorem ffi_arguments_refused:
  "(h = 0 \<or> bad_id fid \<or> 0 < len \<and> bs = None \<longrightarrow>
      refused (chunkstore_ingest F h fid bs len e) p \<and> refused (chunkstore_ingest_cdc F h fid bs len e) p) \<and>
   (h = 0 \<or> bad_id fid \<or> \<not> j \<or> 0 < len \<and> bs = None \<longrightarrow>
      refused (chunkstore_ingest_with_digests F h fid bs len j e) p \<and>
      refused (chunkstore_ingest_fixed F h fid bs len n j e) p \<and>
      refused (chunkstore_ingest_cdc_with_digests F h fid bs len j e) p) \<and>
   (h = 0 \<or> bad_id fid \<or> bad_id path \<or> \<not> j \<longrightarrow> refused (chunkstore_ingest_path F h fid path cdc j e) p) \<and>
   (h = 0 \<or> bad_id fid \<or> \<not> d \<or> \<not> l \<longrightarrow> refused (chunkstore_read F h fid d l e) p) \<and>
   (h = 0 \<or> bad_id fid \<longrightarrow> refused (chunkstore_delete F h fid e) p) \<and>
   (h = 0 \<or> \<not> st \<longrightarrow> refused (chunkstore_stats h st e) p) \<and>
   (h = 0 \<or> bad_id fid \<or> read_cb = None \<or> \<not> j \<longrightarrow>
      refused_beside (chunkstore_ingest_reader F h fid read_cb n cdc j e) r p) \<and>
   (h = 0 \<or> bad_id fid \<or> write_cb = None \<longrightarrow>
      refused_beside (chunkstore_read_to_writer F h fid write_cb e) w p) \<and>
   (bad_id root \<longrightarrow> chunkstore_open_fs F root p = (Ok 0, p)) \<and> chunkstore_create F None p = (Ok 0, p)"
proof (intro conjI impI)
  assume "h = 0 \<or> bad_id fid \<or> bad_id path \<or> \<not> j"
  then show "refused (chunkstore_ingest_path F h fid path cdc j e) p"
    by (cases fid; cases path) (auto simp: chunkstore_ingest_path_def with_str_def bad_id_def split: sum.split)
next
  assume "h = 0 \<or> bad_id fid \<or> read_cb = None \<or> \<not> j"
  then show "refused_beside (chunkstore_ingest_reader F h fid read_cb n cdc j e) r p"
    by (cases fid; cases read_cb) (auto simp: chunkstore_ingest_reader_def with_str_def bad_id_def split: sum.split)
next
  assume "h = 0 \<or> bad_id fid \<or> write_cb = None"
  then show "refused_beside (chunkstore_read_to_writer F h fid write_cb e) w p"
    by (cases fid; cases write_cb) (auto simp: chunkstore_read_to_writer_def with_str_def bad_id_def split: sum.split)
next
  assume "bad_id root"
  then show "chunkstore_open_fs F root p = (Ok 0, p)"
    by (auto simp: chunkstore_open_fs_def bad_id_def ret_def split: option.splits sum.split)
qed (auto simp: chunkstore_ingest_def chunkstore_ingest_cdc_def chunkstore_ingest_with_digests_def
    chunkstore_ingest_fixed_def chunkstore_ingest_cdc_with_digests_def chunkstore_read_def chunkstore_create_def
    chunkstore_delete_def chunkstore_stats_def ingest_impl_def ingest_with_digests_impl_def with_str_def bad_id_def ret_def [of 0]
    split: option.split sum.split)

theorem ffi_arguments_refused_witness:
  "refused (chunkstore_read sample_ffi (Ptr 2) (Some [CHR 0xFF]) True True True) sample_process \<and>
   refused (chunkstore_delete sample_ffi 0 (Some ''f'') True) sample_process"
proof -
  have bad: "bad_id (Some [CHR 0xFF])"
    by (simp add: bad_id_def to_str_def utf8_sequence.simps utf8_width_def)
  note inst = ffi_arguments_refused [where F = sample_ffi and p = sample_process and e = True and j = True
      and d = True and l = True and st = True and len = 0 and bs = None and n = 0 and cdc = 0 and path = None]
  show ?thesis
  proof
    show "refused (chunkstore_read sample_ffi (Ptr 2) (Some [CHR 0xFF]) True True True) sample_process"
      using inst [THEN conjunct2, THEN conjunct2, THEN conjunct2, THEN conjunct1] bad by blast
    show "refused (chunkstore_delete sample_ffi 0 (Some ''f'') True) sample_process"
      using inst [THEN conjunct2, THEN conjunct2, THEN conjunct2, THEN conjunct2, THEN conjunct1] by blast
  qed
qed

end
