(* ===== verification/Py_Bindings.thy ===== *)
theory Py_Bindings
  imports Ffi
begin

text \<open>
  \<^verbatim>\<open>python/src/lib.rs\<close>: the Python module.  Python values as far as the bindings
  look at them, a Python object as its method calls on a state, the backend, reader and writer
  adapters, and every method of the store handle over its three kinds of store.

  The Python runtime is a parameter: the text of the exceptions it raises itself and the
  conversion of path objects.  The reader or writer a caller passes has a state of its own,
  apart from that of the backend object.
\<close>

section \<open>Values and exceptions\<close>

text \<open>An exception with its message; the bindings tell only an interrupted call apart.\<close>

datatype py_err =
    PyIOError string
  | PyValueError string
  | PyInterruptedError string
  | PyException "string \<times> string"

fun err_text :: "py_err \<Rightarrow> string" where
  "err_text (PyIOError msg) = ''OSError: '' @ msg"
| "err_text (PyValueError msg) = ''ValueError: '' @ msg"
| "err_text (PyInterruptedError msg) = ''InterruptedError: '' @ msg"
| "err_text (PyException (class_name, msg)) = class_name @ '': '' @ msg"

text \<open>
  A \<^verbatim>\<open>str\<close> is its UTF-8 bytes.  \<open>PyOther\<close> is a value of any other class that is
  neither a number nor a sequence, with what calling its \<^verbatim>\<open>encode\<close> gives, if it has
  that method.
\<close>

datatype py_value =
    PyNone
  | PyBool bool
  | PyInt int
  | PyBytes bytes
  | PyByteArray bytes
  | PyStr string
  | PyList "py_value list"
  | PyOther string "(py_err + py_value) option"

record py_runtime =
  rt_no_attribute :: "py_value \<Rightarrow> string \<Rightarrow> py_err"
  rt_not_bool :: "py_value \<Rightarrow> py_err"
  rt_path :: "py_value \<Rightarrow> py_err + string"

type_synonym ('s, 'a) py_act = "'s \<Rightarrow> (py_err + 'a) \<times> 's"

text \<open>\<open>call_method1\<close>: an object is what its methods do.\<close>

type_synonym 's py_object = "string \<Rightarrow> py_value list \<Rightarrow> ('s, py_value) py_act"

section \<open>Conversions\<close>

fun py_int :: "py_value \<Rightarrow> int option" where
  "py_int (PyInt n) = Some n"
| "py_int (PyBool b) = Some (of_bool b)"
| "py_int _ = None"

definition extract_usize :: "py_value \<Rightarrow> nat option" where
  "extract_usize v =
     (case py_int v of
        None \<Rightarrow> None
      | Some n \<Rightarrow> if 0 \<le> n \<and> n < 2 ^ 64 then Some (nat n) else None)"

definition extract_u8 :: "py_value \<Rightarrow> byte option" where
  "extract_u8 v =
     (case py_int v of
        None \<Rightarrow> None
      | Some n \<Rightarrow> if 0 \<le> n \<and> n < 256 then Some (word_of_int n) else None)"

fun extract_slice :: "py_value \<Rightarrow> bytes option" where
  "extract_slice (PyBytes b) = Some b"
| "extract_slice _ = None"

fun extract_vec :: "py_value \<Rightarrow> bytes option" where
  "extract_vec (PyBytes b) = Some b"
| "extract_vec (PyByteArray b) = Some b"
| "extract_vec (PyList vs) = those (map extract_u8 vs)"
| "extract_vec _ = None"

definition utf8 :: "string \<Rightarrow> bytes" where
  "utf8 s = map (\<lambda>c. of_nat (of_char c)) s"

text \<open>\<^verbatim>\<open>value.getattr("encode")?.call0()?\<close>.\<close>

fun call_encode :: "py_runtime \<Rightarrow> py_value \<Rightarrow> py_err + py_value" where
  "call_encode R (PyStr s) = Inr (PyBytes (utf8 s))"
| "call_encode R (PyOther t (Some r)) = r"
| "call_encode R v = Inl (rt_no_attribute R v ''encode'')"

definition extract_bytes :: "py_runtime \<Rightarrow> py_value \<Rightarrow> py_err + bytes" where
  "extract_bytes R value =
     (case extract_slice value of
        Some buffer \<Rightarrow> Inr buffer
      | None \<Rightarrow>
          (case call_encode R value of
             Inl e \<Rightarrow> Inl e
           | Inr v \<Rightarrow>
               (case extract_vec v of
                  None \<Rightarrow> Inl (PyValueError ''backend get() must return bytes or None'')
                | Some b \<Rightarrow> Inr b)))"

lemma extract_bytes_simps [simp]:
  "extract_bytes R (PyBytes b) = Inr b" "extract_bytes R (PyStr s) = Inr (utf8 s)"
  "extract_bytes R PyNone = Inl (rt_no_attribute R PyNone ''encode'')"
  "extract_bytes R (PyByteArray b) = Inl (rt_no_attribute R (PyByteArray b) ''encode'')"
  by (simp_all add: extract_bytes_def)

section \<open>\<open>PyBackend\<close>\<close>

definition py_then :: "('s, 'a) py_act \<Rightarrow> ('a \<Rightarrow> py_err + 'b) \<Rightarrow> ('s, 'b) py_act" where
  "py_then m f s = (case m s of (Inl e, s') \<Rightarrow> (Inl e, s') | (Inr a, s') \<Rightarrow> (f a, s'))"

definition call_get :: "py_runtime \<Rightarrow> 's py_object \<Rightarrow> string \<Rightarrow> ('s, bytes option) py_act" where
  "call_get R obj key =
     py_then (obj ''get'' [PyStr key]) (\<lambda>value.
       if value = PyNone then Inr None
       else (case extract_bytes R value of Inl e \<Rightarrow> Inl e | Inr b \<Rightarrow> Inr (Some b)))"

definition call_put :: "'s py_object \<Rightarrow> string \<Rightarrow> bytes \<Rightarrow> ('s, unit) py_act" where
  "call_put obj key data = py_then (obj ''put'' [PyStr key, PyBytes data]) (\<lambda>_. Inr ())"

definition call_exists :: "py_runtime \<Rightarrow> 's py_object \<Rightarrow> string \<Rightarrow> ('s, bool) py_act" where
  "call_exists R obj key =
     py_then (obj ''exists'' [PyStr key]) (\<lambda>value.
       case value of PyBool b \<Rightarrow> Inr b | _ \<Rightarrow> Inl (rt_not_bool R value))"

definition call_delete :: "'s py_object \<Rightarrow> string \<Rightarrow> ('s, unit) py_act" where
  "call_delete obj key = py_then (obj ''delete'' [PyStr key]) (\<lambda>_. Inr ())"

text \<open>\<^verbatim>\<open>Python::attach(|py| ..map_err(..))\<close>.\<close>

definition attached :: "('s, 'a) py_act \<Rightarrow> ('s, 'a) act" where
  "attached m s =
     (case m s of
        (Inl e, s') \<Rightarrow> (Err (BackendError (err_text e)), s')
      | (Inr a, s') \<Rightarrow> (Ok a, s'))"

definition PyBackend :: "py_runtime \<Rightarrow> 's py_object \<Rightarrow> 's backend_ops" where
  "PyBackend R obj =
     \<lparr>be_get = \<lambda>key. attached (call_get R obj key),
      be_put = \<lambda>key data. attached (call_put obj key data),
      be_exists = \<lambda>key. attached (call_exists R obj key),
      be_delete = \<lambda>key. attached (call_delete obj key),
      be_list_keys = default_list_keys\<rparr>"

section \<open>\<open>PyReader\<close> and \<open>PyWriter\<close>\<close>

text \<open>\<^verbatim>\<open>io::Error::other\<close> is never taken for an interrupted call.\<close>

definition py_reader :: "py_runtime \<Rightarrow> 'r py_object \<Rightarrow> 'r reader" where
  "py_reader R reader cap =
     (if cap = 0 then ret []
      else (\<lambda>s. case py_then (reader ''read'' [PyInt (int cap)]) (extract_bytes R) s of
              (Inl e, s') \<Rightarrow> (Err (IoError (err_text e)), s')
            | (Inr b, s') \<Rightarrow> (Ok (take (min (length b) cap) b), s')))"

text \<open>The \<^verbatim>\<open>?\<close> on the call keeps the kind of an interrupted call, which
  \<^verbatim>\<open>write_all\<close> repeats.\<close>

definition py_writer :: "'w py_object \<Rightarrow> 'w write_fn" where
  "py_writer writer buf =
     (if buf = [] then ret (Some 0)
      else (\<lambda>s. case writer ''write'' [PyBytes buf] s of
              (Inl e, s') \<Rightarrow>
                (case e of PyInterruptedError msg \<Rightarrow> (Ok None, s') | _ \<Rightarrow> (Err (IoError (err_text e)), s'))
            | (Inr v, s') \<Rightarrow>
                (Ok (Some (case extract_usize v of None \<Rightarrow> length buf | Some n \<Rightarrow> n)), s')))"

section \<open>The handle\<close>

datatype 's py_store =
    Memory "memory_backend store"
  | Python "'s py_object" "'s store"
  | Files "fs_backend store"

text \<open>What the handles of a process share: the state of the backend objects and the files.\<close>

record 's py_world =
  pw_state :: 's
  pw_nodes :: nodes
  pw_tmp :: u64

definition memory_deps :: "ffi_env \<Rightarrow> memory_backend deps" where
  "memory_deps F =
     \<lparr>dp_backend = arc_backend MemoryBackend, dp_json = fe_json F, dp_sha = fe_sha F,
      dp_fastcdc = fe_fastcdc F\<rparr>"

definition python_deps :: "ffi_env \<Rightarrow> py_runtime \<Rightarrow> 's py_object \<Rightarrow> 's deps" where
  "python_deps F R obj =
     \<lparr>dp_backend = arc_backend (PyBackend R obj), dp_json = fe_json F, dp_sha = fe_sha F,
      dp_fastcdc = fe_fastcdc F\<rparr>"

definition map_py_err :: "('s, 'a) act \<Rightarrow> ('s, py_err + 'a) act" where
  "map_py_err m s =
     (case m s of
        (Ok a, s') \<Rightarrow> (Ok (Inr a), s')
      | (Err e, s') \<Rightarrow> (Ok (Inl (PyIOError (show_error e))), s')
      | (Panic, s') \<Rightarrow> (Panic, s')
      | (Hang, s') \<Rightarrow> (Hang, s'))"

text \<open>
  \<^verbatim>\<open>match &self.inner { .. => store.m(..).map_err(map_err) }\<close>.  \<open>'x\<close> is the state of a
  reader or writer the call acts on.
\<close>

definition files_at :: "'s py_world \<Rightarrow> fs_backend \<Rightarrow> fs_backend" where
  "files_at w b = b\<lparr>fb_nodes := pw_nodes w, fb_tmp_counter := pw_tmp w\<rparr>"

definition match_inner ::
  "('x \<times> memory_backend store, 'a) act \<Rightarrow> ('s py_object \<Rightarrow> ('x \<times> 's store, 'a) act) \<Rightarrow>
     ('x \<times> fs_backend store, 'a) act \<Rightarrow> ('x \<times> 's py_store \<times> 's py_world, py_err + 'a) act" where
  "match_inner on_memory on_python on_files = (\<lambda>(x, st, w).
     case st of
       Memory s \<Rightarrow>
         (case map_py_err on_memory (x, s) of (r, x', s') \<Rightarrow> (r, x', Memory s', w))
     | Python obj s \<Rightarrow>
         (case map_py_err (on_python obj) (x, s\<lparr>st_backend := pw_state w\<rparr>) of
            (r, x', s') \<Rightarrow> (r, x', Python obj s', w\<lparr>pw_state := st_backend s'\<rparr>))
     | Files s \<Rightarrow>
         (case map_py_err on_files (x, s\<lparr>st_backend := files_at w (st_backend s)\<rparr>) of
            (r, x', s') \<Rightarrow>
              (r, x', Files s', w\<lparr>pw_nodes := fb_nodes (st_backend s'), pw_tmp := fb_tmp_counter (st_backend s')\<rparr>)))"

definition self_call ::
  "(memory_backend store, 'a) act \<Rightarrow> ('s py_object \<Rightarrow> ('s store, 'a) act) \<Rightarrow> (fs_backend store, 'a) act \<Rightarrow>
     ('s py_store \<times> 's py_world, py_err + 'a) act" where
  "self_call on_memory on_python on_files h =
     (case match_inner (plain on_memory) (\<lambda>obj. plain (on_python obj)) (plain on_files) ((), h) of
        (r, u, h') \<Rightarrow> (r, h'))"

definition py_memory :: "ffi_env \<Rightarrow> ('s py_world, py_err + 's py_store) act" where
  "py_memory F w =
     (case map_py_err (open_store (memory_deps F)) memory_new of
        (Ok (Inr s), b) \<Rightarrow> (Ok (Inr (Memory s)), w)
      | (Ok (Inl e), b) \<Rightarrow> (Ok (Inl e), w)
      | (Panic, b) \<Rightarrow> (Panic, w)
      | (Hang, b) \<Rightarrow> (Hang, w)
      | (Err e, b) \<Rightarrow> (Err e, w))"

text \<open>\<open>attr\<close> are the attributes of the object that are not methods.\<close>

definition open_root :: "ffi_env \<Rightarrow> path \<Rightarrow> ('s py_world, fs_backend store) act" where
  "open_root F root w =
     (case fs_new root (pw_tmp w) (pw_nodes w) of
        (Ok b, ns) \<Rightarrow>
          (case open_store (fs_deps F) b of
             (r, b') \<Rightarrow> (r, w\<lparr>pw_nodes := fb_nodes b', pw_tmp := fb_tmp_counter b'\<rparr>))
      | (Err e, ns) \<Rightarrow> (Err e, w\<lparr>pw_nodes := ns\<rparr>)
      | (Panic, ns) \<Rightarrow> (Panic, w\<lparr>pw_nodes := ns\<rparr>)
      | (Hang, ns) \<Rightarrow> (Hang, w\<lparr>pw_nodes := ns\<rparr>))"

definition on_objects :: "('s, 'a) act \<Rightarrow> ('s py_world, 'a) act" where
  "on_objects m = zoom pw_state (\<lambda>s w. w\<lparr>pw_state := s\<rparr>) m"

definition py_open ::
  "ffi_env \<Rightarrow> py_runtime \<Rightarrow> 's py_object \<Rightarrow> (string \<Rightarrow> py_err + py_value option) \<Rightarrow>
     ('s py_world, py_err + 's py_store) act" where
  "py_open F R obj attr =
     (case attr ''root'' of
        Inl e \<Rightarrow> ret (Inl e)
      | Inr (Some v) \<Rightarrow>
          (case rt_path R v of
             Inl e \<Rightarrow> ret (Inl e)
           | Inr root \<Rightarrow>
               map_py_err (seq (open_root F (fe_resolve F root)) (\<lambda>s. ret (Files s))))
      | Inr None \<Rightarrow>
          map_py_err (seq (on_objects (open_store (python_deps F R obj))) (\<lambda>s. ret (Python obj s))))"

type_synonym ('s, 'a) py_method = "('s py_store \<times> 's py_world, py_err + 'a) act"

definition py_ingest :: "ffi_env \<Rightarrow> py_runtime \<Rightarrow> string \<Rightarrow> bytes \<Rightarrow> ('s, string list) py_method" where
  "py_ingest F R f data =
     self_call (ingest (memory_deps F) f data) (\<lambda>obj. ingest (python_deps F R obj) f data)
       (ingest (fs_deps F) f data)"

definition py_ingest_cdc :: "ffi_env \<Rightarrow> py_runtime \<Rightarrow> string \<Rightarrow> bytes \<Rightarrow> ('s, string list) py_method" where
  "py_ingest_cdc F R f data =
     self_call (ingest_cdc (memory_deps F) f data) (\<lambda>obj. ingest_cdc (python_deps F R obj) f data)
       (ingest_cdc (fs_deps F) f data)"

definition py_ingest_fixed ::
  "ffi_env \<Rightarrow> py_runtime \<Rightarrow> string \<Rightarrow> bytes \<Rightarrow> nat \<Rightarrow> ('s, string list) py_method" where
  "py_ingest_fixed F R f data n =
     self_call (ingest_fixed (memory_deps F) f data n) (\<lambda>obj. ingest_fixed (python_deps F R obj) f data n)
       (ingest_fixed (fs_deps F) f data n)"

definition py_ingest_reader ::
  "ffi_env \<Rightarrow> py_runtime \<Rightarrow> string \<Rightarrow> 'r py_object \<Rightarrow> nat \<Rightarrow>
     ('r \<times> 's py_store \<times> 's py_world, py_err + string list) act" where
  "py_ingest_reader F R f reader n =
     match_inner (ingest_reader_fixed (memory_deps F) f (py_reader R reader) n)
       (\<lambda>obj. ingest_reader_fixed (python_deps F R obj) f (py_reader R reader) n)
       (ingest_reader_fixed (fs_deps F) f (py_reader R reader) n)"

definition py_ingest_reader_cdc ::
  "ffi_env \<Rightarrow> py_runtime \<Rightarrow> string \<Rightarrow> 'r py_object \<Rightarrow>
     ('r \<times> 's py_store \<times> 's py_world, py_err + string list) act" where
  "py_ingest_reader_cdc F R f reader =
     match_inner (ingest_reader_cdc (memory_deps F) f (py_reader R reader))
       (\<lambda>obj. ingest_reader_cdc (python_deps F R obj) f (py_reader R reader))
       (ingest_reader_cdc (fs_deps F) f (py_reader R reader))"

definition py_ingest_path :: "ffi_env \<Rightarrow> py_runtime \<Rightarrow> string \<Rightarrow> string \<Rightarrow> ('s, string list) py_method" where
  "py_ingest_path F R f path = (\<lambda>(st, w).
     self_call (ingest_path (memory_deps F) (os_open F (pw_nodes w)) os_read f path)
       (\<lambda>obj. ingest_path (python_deps F R obj) (os_open F (pw_nodes w)) os_read f path)
       (ingest_path (fs_deps F) (os_open F (pw_nodes w)) os_read f path) (st, w))"

definition py_ingest_path_cdc ::
  "ffi_env \<Rightarrow> py_runtime \<Rightarrow> string \<Rightarrow> string \<Rightarrow> ('s, string list) py_method" where
  "py_ingest_path_cdc F R f path = (\<lambda>(st, w).
     self_call (ingest_path_cdc (memory_deps F) (os_open F (pw_nodes w)) os_read f path)
       (\<lambda>obj. ingest_path_cdc (python_deps F R obj) (os_open F (pw_nodes w)) os_read f path)
       (ingest_path_cdc (fs_deps F) (os_open F (pw_nodes w)) os_read f path) (st, w))"

definition py_read :: "ffi_env \<Rightarrow> py_runtime \<Rightarrow> string \<Rightarrow> ('s, bytes) py_method" where
  "py_read F R f =
     self_call (read (memory_deps F) f) (\<lambda>obj. read (python_deps F R obj) f) (read (fs_deps F) f)"

definition py_read_to_writer ::
  "ffi_env \<Rightarrow> py_runtime \<Rightarrow> string \<Rightarrow> 'w py_object \<Rightarrow> ('w \<times> 's py_store \<times> 's py_world, py_err + unit) act" where
  "py_read_to_writer F R f writer =
     match_inner (read_to_writer (memory_deps F) (write_all (py_writer writer)) f)
       (\<lambda>obj. read_to_writer (python_deps F R obj) (write_all (py_writer writer)) f)
       (read_to_writer (fs_deps F) (write_all (py_writer writer)) f)"

definition py_file_digests :: "string \<Rightarrow> ('s, string list) py_method" where
  "py_file_digests f = self_call (file_digests f) (\<lambda>obj. file_digests f) (file_digests f)"

definition py_read_chunk :: "ffi_env \<Rightarrow> py_runtime \<Rightarrow> string \<Rightarrow> ('s, bytes) py_method" where
  "py_read_chunk F R d =
     self_call (read_chunk (memory_deps F) d) (\<lambda>obj. read_chunk (python_deps F R obj) d) (read_chunk (fs_deps F) d)"

definition py_delete :: "ffi_env \<Rightarrow> py_runtime \<Rightarrow> string \<Rightarrow> ('s, unit) py_method" where
  "py_delete F R f =
     self_call (delete (memory_deps F) f) (\<lambda>obj. delete (python_deps F R obj) f) (delete (fs_deps F) f)"

record py_stats =
  ps_total_bytes :: u64
  ps_stored_bytes :: u64
  ps_savings_pct :: f64
  ps_gc_chunks :: u64

definition stats_into :: "stats \<Rightarrow> py_stats" where
  "stats_into st =
     \<lparr>ps_total_bytes = total_bytes st, ps_stored_bytes = stored_bytes st,
      ps_savings_pct = savings_pct st, ps_gc_chunks = gc_chunks st\<rparr>"

definition stats_repr :: "py_stats \<Rightarrow> string" where
  "stats_repr st =
     ''Stats(total_bytes='' @ show_nat (unat (ps_total_bytes st)) @
     '', stored_bytes='' @ show_nat (unat (ps_stored_bytes st)) @
     '', savings_pct='' @ show_fixed 2 (ps_savings_pct st) @
     '', gc_chunks='' @ show_nat (unat (ps_gc_chunks st)) @ '')''"

definition py_stats_of :: "('s, py_stats) py_method" where
  "py_stats_of =
     seq (self_call store_stats (\<lambda>obj. store_stats) store_stats) (\<lambda>r.
     ret (case r of Inl e \<Rightarrow> Inl e | Inr st \<Rightarrow> Inr (stats_into st)))"

end
