(* ===== verification/Py_Sessions.thy ===== *)
theory Py_Sessions
  imports Py_Bindings Ffi_Sessions
begin

text \<open>
  The store as a Python program sees it: the contract of a backend object, and that a handle
  over memory, over such an object or over a directory is a finite map whose errors arrive as
  exceptions.
\<close>

section \<open>The contract of a backend object\<close>

text \<open>\<open>get\<close> may answer with \<^verbatim>\<open>bytes\<close> or with text that encodes to the bytes.\<close>

definition py_object_ok ::
  "py_runtime \<Rightarrow> 's py_object \<Rightarrow> ('s \<Rightarrow> string \<rightharpoonup> bytes) \<Rightarrow> ('s \<Rightarrow> bool) \<Rightarrow> (string \<Rightarrow> bool) \<Rightarrow> bool" where
  "py_object_ok R obj kv ok valid \<longleftrightarrow>
     (\<forall>k s. valid k \<longrightarrow> ok s \<longrightarrow>
        (\<exists>v s'. obj ''get'' [PyStr k] s = (Inr v, s') \<and> ok s' \<and> kv s' = kv s \<and>
           (case kv s k of None \<Rightarrow> v = PyNone | Some b \<Rightarrow> v \<noteq> PyNone \<and> extract_bytes R v = Inr b)) \<and>
        (\<exists>s'. obj ''exists'' [PyStr k] s = (Inr (PyBool (kv s k \<noteq> None)), s') \<and> ok s' \<and> kv s' = kv s) \<and>
        (\<exists>v s'. obj ''delete'' [PyStr k] s = (Inr v, s') \<and> ok s' \<and> kv s' = (kv s)(k := None)) \<and>
        (\<forall>b. b \<noteq> [] \<longrightarrow>
           (\<exists>v s'. obj ''put'' [PyStr k, PyBytes b] s = (Inr v, s') \<and> ok s' \<and> kv s' = (kv s)(k \<mapsto> b))))"

lemma py_backend:
  assumes obj: "py_object_ok R obj kv ok valid" and keys: "store_keys_valid valid"
  shows "store_backend (PyBackend R obj) kv ok valid"
proof (unfold_locales, goal_cases)
  case (1 s k)
  then obtain v s' where "obj ''get'' [PyStr k] s = (Inr v, s')" "ok s'" "kv s' = kv s"
      "case kv s k of None \<Rightarrow> v = PyNone | Some b \<Rightarrow> v \<noteq> PyNone \<and> extract_bytes R v = Inr b"
    using obj unfolding py_object_ok_def by meson
  then show ?case
    by (cases "kv s k") (simp_all add: PyBackend_def attached_def call_get_def py_then_def)
next
  case (2 s k b)
  then obtain v s' where "obj ''put'' [PyStr k, PyBytes b] s = (Inr v, s')" "ok s'" "kv s' = (kv s)(k \<mapsto> b)"
    using obj unfolding py_object_ok_def by meson
  then show ?case by (simp add: PyBackend_def attached_def call_put_def py_then_def)
next
  case (3 s k)
  then obtain s' where "obj ''exists'' [PyStr k] s = (Inr (PyBool (kv s k \<noteq> None)), s')" "ok s'" "kv s' = kv s"
    using obj unfolding py_object_ok_def by meson
  then show ?case by (simp add: PyBackend_def attached_def call_exists_def py_then_def)
next
  case (4 s k)
  then obtain v s' where "obj ''delete'' [PyStr k] s = (Inr v, s')" "ok s'" "kv s' = (kv s)(k := None)"
    using obj unfolding py_object_ok_def by meson
  then show ?case by (simp add: PyBackend_def attached_def call_delete_def py_then_def)
qed (use keys in \<open>auto simp: store_keys_valid_def\<close>)

section \<open>Calls on a handle\<close>

definition py_map :: "('a \<Rightarrow> 'b) \<Rightarrow> ('s, 'a) py_method \<Rightarrow> ('s, 'b) py_method" where
  "py_map g m = seq m (\<lambda>r. ret (case r of Inl e \<Rightarrow> Inl e | Inr a \<Rightarrow> Inr (g a)))"

fun py_op :: "ffi_env \<Rightarrow> py_runtime \<Rightarrow> store_op \<Rightarrow> ('s, outcome) py_method" where
  "py_op F R (OpIngest f data n) = py_map Digests (py_ingest_fixed F R f data n)"
| "py_op F R (OpIngestCdc f data) = py_map Digests (py_ingest_cdc F R f data)"
| "py_op F R (OpRead f) = py_map Contents (py_read F R f)"
| "py_op F R (OpDelete f) = py_map (\<lambda>_. Done) (py_delete F R f)"
| "py_op F R op = ret (Inr Done)"

text \<open>What the caller gets for an outcome: a value or an \<^verbatim>\<open>OSError\<close>.\<close>

fun py_reply :: "'a res \<Rightarrow> (py_err + 'a) res" where
  "py_reply (Ok a) = Ok (Inr a)"
| "py_reply (Err e) = Ok (Inl (PyIOError (show_error e)))"
| "py_reply Panic = Panic"
| "py_reply Hang = Hang"

primrec py_run ::
  "ffi_env \<Rightarrow> py_runtime \<Rightarrow> store_op list \<Rightarrow> 's py_store \<times> 's py_world \<Rightarrow>
     (py_err + outcome) res list \<times> 's py_store \<times> 's py_world" where
  "py_run F R [] h = ([], h)"
| "py_run F R (op # ops) h =
     (case py_op F R op h of (r, h1) \<Rightarrow> (case py_run F R ops h1 of (rs, h2) \<Rightarrow> (r # rs, h2)))"

text \<open>The operations of the handle: the store's own, less the check and the restart.\<close>

definition handle_op :: "store_op \<Rightarrow> bool" where
  "handle_op op \<longleftrightarrow> (case op of OpFsck repair \<Rightarrow> False | OpReopen \<Rightarrow> False | _ \<Rightarrow> True)"

lemma map_py_err_reply: "map_py_err m s = (case m s of (r, s') \<Rightarrow> (py_reply r, s'))"
  by (auto simp: map_py_err_def split: prod.split res.split)

lemma self_call_memory:
  "a s = (r, s') \<Longrightarrow> self_call a b c (Memory s, w) = (py_reply r, Memory s', w)"
  by (simp add: self_call_def match_inner_def plain_def map_py_err_reply)

lemma self_call_python:
  "b obj (s\<lparr>st_backend := pw_state w\<rparr>) = (r, s') \<Longrightarrow>
     self_call a b c (Python obj s, w) = (py_reply r, Python obj s', w\<lparr>pw_state := st_backend s'\<rparr>)"
  by (simp add: self_call_def match_inner_def plain_def map_py_err_reply)

lemma self_call_files:
  "c (s\<lparr>st_backend := files_at w (st_backend s)\<rparr>) = (r, s') \<Longrightarrow>
     self_call a b c (Files s, w) =
       (py_reply r, Files s', w\<lparr>pw_nodes := fb_nodes (st_backend s'), pw_tmp := fb_tmp_counter (st_backend s')\<rparr>)"
  by (simp add: self_call_def match_inner_def plain_def map_py_err_reply)

lemma py_map_self_call:
  "py_map g (self_call a b c) h = self_call (as_outcome g a) (\<lambda>obj. as_outcome g (b obj)) (as_outcome g c) h"
  by (cases h; cases "fst h")
    (auto simp: py_map_def self_call_def match_inner_def plain_def map_py_err_reply as_outcome_def seq_def ret_def
      split: prod.split res.split)

lemma py_op_eq:
  assumes "handle_op op"
  shows "py_op F R op h =
    self_call (run_op (memory_deps F) op) (\<lambda>obj. run_op (python_deps F R obj) op) (run_op (fs_deps F) op) h"
  using assms
  by (cases op)
    (simp_all add: handle_op_def py_ingest_fixed_def py_ingest_cdc_def py_read_def py_delete_def py_map_self_call)

lemma py_deps_simps [simp]:
  "dp_backend (memory_deps F) = MemoryBackend" "dp_json (memory_deps F) = fe_json F"
  "dp_sha (memory_deps F) = fe_sha F" "dp_fastcdc (memory_deps F) = fe_fastcdc F"
  "dp_backend (python_deps F R obj) = PyBackend R obj" "dp_json (python_deps F R obj) = fe_json F"
  "dp_sha (python_deps F R obj) = fe_sha F" "dp_fastcdc (python_deps F R obj) = fe_fastcdc F"
  by (simp_all add: memory_deps_def python_deps_def)

section \<open>A handle is a finite map\<close>

locale py_handle =
  fixes F :: ffi_env and R :: py_runtime and valid :: "string \<Rightarrow> bool"
    and live :: "bytes list \<Rightarrow> 's py_store \<times> 's py_world \<Rightarrow> (string \<rightharpoonup> bytes) \<Rightarrow> bool"
  assumes run: "live (op_chunks (fe_fastcdc F) op @ rest) h fs \<Longrightarrow> op_file_ok valid op \<Longrightarrow> handle_op op \<Longrightarrow>
      \<exists>h'. py_op F R op h = (py_reply (fst (spec_op (fe_sha F) (fe_fastcdc F) op fs)), h') \<and>
           live rest h' (snd (spec_op (fe_sha F) (fe_fastcdc F) op fs))"
begin

lemma py_run_refines:
  assumes "live (concat (map (op_chunks (fe_fastcdc F)) ops)) h fs"
    and "list_all (op_file_ok valid) ops" and "list_all handle_op ops"
  shows "\<exists>h'. py_run F R ops h = (map py_reply (fst (spec_ops (fe_sha F) (fe_fastcdc F) ops fs)), h') \<and>
     live [] h' (snd (spec_ops (fe_sha F) (fe_fastcdc F) ops fs))"
  using assms
proof (induction ops arbitrary: h fs)
  case (Cons op ops)
  obtain h1 where h1: "py_op F R op h = (py_reply (fst (spec_op (fe_sha F) (fe_fastcdc F) op fs)), h1)"
      "live (concat (map (op_chunks (fe_fastcdc F)) ops)) h1 (snd (spec_op (fe_sha F) (fe_fastcdc F) op fs))"
    using run [of op "concat (map (op_chunks (fe_fastcdc F)) ops)" h fs] Cons.prems by auto
  then show ?case
    using Cons.IH [OF h1(2)] Cons.prems(2,3) by (auto split: prod.splits)
qed simp

end

locale py_client = ffi_libraries F U
  for F :: ffi_env and U :: "bytes set" +
  fixes R :: py_runtime
begin

lemma run_related:
  assumes "store_env E kv ok valid" and "dp_fastcdc E = fe_fastcdc F" and "dp_sha E = fe_sha F"
    and "related E kv ok valid U (op_chunks (fe_fastcdc F) op @ rest) s fs"
    and "op_file_ok valid op" and "handle_op op"
  obtains s' where "run_op E op s = (fst (spec_op (fe_sha F) (fe_fastcdc F) op fs), s')"
    and "related E kv ok valid U rest s' (snd (spec_op (fe_sha F) (fe_fastcdc F) op fs))"
proof -
  have "refines_op E kv ok valid U rest op s fs"
    by (rule store_env.run_op_refines_no_fsck [OF assms(1)])
      (use assms(2-6) chunks cdc in \<open>auto simp: handle_op_def\<close>)
  then show ?thesis using that assms(2,3) by (auto simp: refines_op_def)
qed

lemma related_empty:
  assumes "store_env E kv ok valid" and "ok b" and "kv b = Map.empty"
    and "set rest \<subseteq> U" and "length rest < 2 ^ 64" and "length (concat rest) < 2 ^ 64"
  obtains s where "open_store E b = (Ok s, st_backend s)" and "related E kv ok valid U rest s Map.empty"
proof -
  obtain s where "open_store E b = (Ok s, st_backend s)" "store_inv E kv ok valid s"
      "contents kv s = Map.empty" "stored_plain (st_codec s) (kv (st_backend s)) = {}"
      "fits s rest \<longleftrightarrow> length rest < 2 ^ 64 \<and> length (concat rest) < 2 ^ 64"
    by (rule store_env.open_empty [OF assms(1-3)]) blast
  then show ?thesis using that assms(4-6) by (simp add: related_def within_def)
qed

end

subsection \<open>Memory\<close>

definition memory_live ::
  "ffi_env \<Rightarrow> bytes set \<Rightarrow> bytes list \<Rightarrow> 's py_store \<times> 's py_world \<Rightarrow> (string \<rightharpoonup> bytes) \<Rightarrow> bool" where
  "memory_live F U rest h fs \<longleftrightarrow>
     (\<exists>s. fst h = Memory s \<and> related (memory_deps F) memory_kv memory_ok (\<lambda>_. True) U rest s fs)"

context py_client
begin

lemma memory_store_env: "store_env (memory_deps F) memory_kv memory_ok (\<lambda>_. True)"
  using mem.store_backend_axioms json sha by (simp add: store_env_def store_env_axioms_def)

lemma memory_run:
  assumes "memory_live F U (op_chunks (fe_fastcdc F) op @ rest) h fs" and "op_file_ok (\<lambda>_. True) op" and "handle_op op"
  shows "\<exists>h'. py_op F R op h = (py_reply (fst (spec_op (fe_sha F) (fe_fastcdc F) op fs)), h') \<and>
     memory_live F U rest h' (snd (spec_op (fe_sha F) (fe_fastcdc F) op fs))"
proof -
  obtain s w where h: "h = (Memory s, w)"
      "related (memory_deps F) memory_kv memory_ok (\<lambda>_. True) U (op_chunks (fe_fastcdc F) op @ rest) s fs"
    using assms(1) by (cases h) (auto simp: memory_live_def)
  show ?thesis
    by (rule run_related [OF memory_store_env _ _ h(2) assms(2,3)])
      (auto simp: h(1) py_op_eq [OF assms(3)] memory_live_def dest: self_call_memory
        [where a = "run_op (memory_deps F) op" and b = "\<lambda>obj. run_op (python_deps F R obj) op"
          and c = "run_op (fs_deps F) op" and w = w])
qed

lemma memory_open:
  assumes "set rest \<subseteq> U" and "length rest < 2 ^ 64" and "length (concat rest) < 2 ^ 64"
  shows "\<exists>st. py_memory F w = (Ok (Inr st), w) \<and> memory_live F U rest (st, w) Map.empty"
  by (rule related_empty [OF memory_store_env memory_new_ok memory_new_kv assms])
    (auto simp: py_memory_def map_py_err_def memory_live_def)

end

context py_client
begin

lemma memory_handle: "py_handle F R (\<lambda>_. True) (memory_live F U)"
  by unfold_locales (rule memory_run)

end

sublocale py_client \<subseteq> memory: py_handle F R "\<lambda>_. True" "memory_live F U"
  by (rule memory_handle)

subsection \<open>A backend object\<close>

definition python_live ::
  "ffi_env \<Rightarrow> py_runtime \<Rightarrow> 's py_object \<Rightarrow> ('s \<Rightarrow> string \<rightharpoonup> bytes) \<Rightarrow> ('s \<Rightarrow> bool) \<Rightarrow> (string \<Rightarrow> bool) \<Rightarrow>
     bytes set \<Rightarrow> bytes list \<Rightarrow> 's py_store \<times> 's py_world \<Rightarrow> (string \<rightharpoonup> bytes) \<Rightarrow> bool" where
  "python_live F R obj kv ok valid U rest h fs \<longleftrightarrow>
     (\<exists>s. fst h = Python obj s \<and>
        related (python_deps F R obj) kv ok valid U rest (s\<lparr>st_backend := pw_state (snd h)\<rparr>) fs)"

locale py_object_client = py_client F U R
  for F :: ffi_env and U :: "bytes set" and R :: py_runtime +
  fixes obj :: "'s py_object" and kv :: "'s \<Rightarrow> string \<rightharpoonup> bytes" and ok :: "'s \<Rightarrow> bool"
    and valid :: "string \<Rightarrow> bool"
  assumes object: "py_object_ok R obj kv ok valid" and keys: "store_keys_valid valid"
begin

lemma python_store_env: "store_env (python_deps F R obj) kv ok valid"
  using py_backend [OF object keys] json sha by (simp add: store_env_def store_env_axioms_def)

lemma python_run:
  assumes "python_live F R obj kv ok valid U (op_chunks (fe_fastcdc F) op @ rest) h fs"
    and "op_file_ok valid op" and "handle_op op"
  shows "\<exists>h'. py_op F R op h = (py_reply (fst (spec_op (fe_sha F) (fe_fastcdc F) op fs)), h') \<and>
     python_live F R obj kv ok valid U rest h' (snd (spec_op (fe_sha F) (fe_fastcdc F) op fs))"
proof -
  obtain s w where h: "h = (Python obj s, w)" "related (python_deps F R obj) kv ok valid U
      (op_chunks (fe_fastcdc F) op @ rest) (s\<lparr>st_backend := pw_state w\<rparr>) fs"
    using assms(1) by (cases h) (auto simp: python_live_def)
  show ?thesis
  proof (rule run_related [OF python_store_env _ _ h(2) assms(2,3)])
    fix s'
    assume s': "run_op (python_deps F R obj) op (s\<lparr>st_backend := pw_state w\<rparr>) =
        (fst (spec_op (fe_sha F) (fe_fastcdc F) op fs), s')"
      "related (python_deps F R obj) kv ok valid U rest s' (snd (spec_op (fe_sha F) (fe_fastcdc F) op fs))"
    show ?thesis
      unfolding h(1) py_op_eq [OF assms(3)]
        self_call_python [where b = "\<lambda>obj. run_op (python_deps F R obj) op", OF s'(1)]
      using s'(2) by (auto simp: python_live_def)
  qed simp_all
qed

lemma python_open:
  assumes "attr ''root'' = Inr None" and "ok (pw_state w)" and "kv (pw_state w) = Map.empty"
    and "set rest \<subseteq> U" and "length rest < 2 ^ 64" and "length (concat rest) < 2 ^ 64"
  shows "\<exists>st w'. py_open F R obj attr w = (Ok (Inr st), w') \<and>
     python_live F R obj kv ok valid U rest (st, w') Map.empty"
  by (rule related_empty [OF python_store_env assms(2-6)])
    (auto simp: py_open_def assms(1) map_py_err_def on_objects_def zoom_def seq_def ret_def python_live_def)

end

context py_object_client
begin

lemma python_handle: "py_handle F R valid (python_live F R obj kv ok valid U)"
  by unfold_locales (rule python_run)

end

sublocale py_object_client \<subseteq> python: py_handle F R valid "python_live F R obj kv ok valid U"
  by (rule python_handle)

subsection \<open>A directory\<close>

definition files_live ::
  "ffi_env \<Rightarrow> (string \<Rightarrow> bool) \<Rightarrow> bytes set \<Rightarrow> bytes list \<Rightarrow> 's py_store \<times> 's py_world \<Rightarrow>
     (string \<rightharpoonup> bytes) \<Rightarrow> bool" where
  "files_live F ids U rest h fs \<longleftrightarrow>
     (\<exists>s. fst h = Files s \<and>
        related (fs_deps F) fs_kv (fs_ok (fs_keys ids)) (fs_keys ids) U rest
          (s\<lparr>st_backend := files_at (snd h) (st_backend s)\<rparr>) fs)"

locale py_files_client = py_client F U R + fs_client F U ids
  for F :: ffi_env and U :: "bytes set" and R :: py_runtime and ids :: "string \<Rightarrow> bool"
begin

lemma files_run:
  assumes "files_live F ids U (op_chunks (fe_fastcdc F) op @ rest) h fs"
    and "op_file_ok (fs_keys ids) op" and "handle_op op"
  shows "\<exists>h'. py_op F R op h = (py_reply (fst (spec_op (fe_sha F) (fe_fastcdc F) op fs)), h') \<and>
     files_live F ids U rest h' (snd (spec_op (fe_sha F) (fe_fastcdc F) op fs))"
proof -
  obtain s w where h: "h = (Files s, w)" "related (fs_deps F) fs_kv (fs_ok (fs_keys ids)) (fs_keys ids) U
      (op_chunks (fe_fastcdc F) op @ rest) (s\<lparr>st_backend := files_at w (st_backend s)\<rparr>) fs"
    using assms(1) by (cases h) (auto simp: files_live_def)
  show ?thesis
  proof (rule run_related [OF fs_store_env _ _ h(2) assms(2,3)])
    fix s'
    assume s': "run_op (fs_deps F) op (s\<lparr>st_backend := files_at w (st_backend s)\<rparr>) =
        (fst (spec_op (fe_sha F) (fe_fastcdc F) op fs), s')"
      "related (fs_deps F) fs_kv (fs_ok (fs_keys ids)) (fs_keys ids) U rest s'
        (snd (spec_op (fe_sha F) (fe_fastcdc F) op fs))"
    have "files_at (w\<lparr>pw_nodes := fb_nodes (st_backend s'), pw_tmp := fb_tmp_counter (st_backend s')\<rparr>)
        (st_backend s') = st_backend s'" by (simp add: files_at_def)
    then show ?thesis
      unfolding h(1) py_op_eq [OF assms(3)] self_call_files [where c = "run_op (fs_deps F) op", OF s'(1)]
      using s'(2) by (auto simp: files_live_def)
  qed simp_all
qed

lemma files_open:
  assumes root: "attr ''root'' = Inr (Some v)" "rt_path R v = Inr dir"
      "create_dir_all (fe_resolve F dir) (pw_nodes w) = (Ok (), ns)"
    and w: "keys_distinct (pw_nodes w)" "\<forall>q. q \<noteq> [] \<longrightarrow> map_of (pw_nodes w) (fe_resolve F dir @ q) = None"
    and rest: "set rest \<subseteq> U" "length rest < 2 ^ 64" "length (concat rest) < 2 ^ 64"
  shows "\<exists>st w'. py_open F R obj attr w = (Ok (Inr st), w') \<and> files_live F ids U rest (st, w') Map.empty"
proof -
  let ?b = "\<lparr>fb_root = fe_resolve F dir, fb_nodes = ns, fb_tmp_counter = pw_tmp w\<rparr>"
  have new: "fs_new (fe_resolve F dir) (pw_tmp w) (pw_nodes w) = (Ok ?b, ns)"
    using root(3) by (simp add: fs_new_def seq_def)
  have b: "fs_ok (fs_keys ids) ?b" "fs_kv ?b = Map.empty"
    using fs_new_empty [OF new w, of "fs_keys ids"] by simp_all
  show ?thesis
    by (rule related_empty [OF fs_store_env b rest])
      (auto simp: py_open_def root map_py_err_def open_root_def new seq_def ret_def files_live_def files_at_def)
qed

end

context py_files_client
begin

lemma files_handle: "py_handle F R (fs_keys ids) (files_live F ids U)"
  by unfold_locales (rule files_run)

end

sublocale py_files_client \<subseteq> files: py_handle F R "fs_keys ids" "files_live F ids U"
  by (rule files_handle)

end
