(* ===== verification/Py_Streams.thy ===== *)
theory Py_Streams
  imports Py_Sessions
begin

text \<open>
  Readers and writers that are Python objects: a reader that delivers its data is ingested like
  a buffer, a text reader is cut at 64 KiB of every 65536 characters it returns, a writer that
  makes progress receives the file, and one that reports more than it was given makes the
  library panic.
\<close>

section \<open>Streaming through a handle\<close>

lemma match_inner_call:
  assumes "\<And>s. \<exists>x'. a (x, s) = (fst (a' s), x', snd (a' s))"
    and "\<And>obj s. \<exists>x'. b obj (x, s) = (fst (b' obj s), x', snd (b' obj s))"
    and "\<And>s. \<exists>x'. c (x, s) = (fst (c' s), x', snd (c' s))"
  shows "\<exists>x'. match_inner a b c (x, h) = (fst (self_call a' b' c' h), x', snd (self_call a' b' c' h))"
proof (cases h)
  case (Pair st w)
  show ?thesis
  proof (cases st)
    case (Memory s)
    then show ?thesis
      using assms(1) [of s] Pair
      by (auto simp: self_call_def match_inner_def plain_def map_py_err_reply split: prod.splits)
  next
    case (Python obj s)
    then show ?thesis
      using assms(2) [of obj "s\<lparr>st_backend := pw_state w\<rparr>"] Pair
      by (auto simp: self_call_def match_inner_def plain_def map_py_err_reply split: prod.splits)
  next
    case (Files s)
    then show ?thesis
      using assms(3) [of "s\<lparr>st_backend := files_at w (st_backend s)\<rparr>"] Pair
      by (auto simp: self_call_def match_inner_def plain_def map_py_err_reply split: prod.splits)
  qed
qed

lemma py_ingest_reader_eq:
  assumes "0 < n" and "delivers (py_reader R reader) r data r'"
  shows "\<exists>r1. py_ingest_reader F R f reader n (r, h) =
           (fst (py_ingest_fixed F R f data n h), r1, snd (py_ingest_fixed F R f data n h))"
  unfolding py_ingest_reader_def py_ingest_fixed_def
  by (rule match_inner_call; rule ingest_reader_fixed_eq [OF assms])

lemma py_ingest_reader_cdc_eq:
  assumes "fastcdc_ok (fe_fastcdc F) cdc_config_default" and "delivers (py_reader R reader) r data r'"
  shows "\<exists>r1. py_ingest_reader_cdc F R f reader (r, h) =
           (fst (py_ingest_cdc F R f data h), r1, snd (py_ingest_cdc F R f data h))"
  unfolding py_ingest_reader_cdc_def py_ingest_cdc_def
  by (rule match_inner_call; rule ingest_reader_cdc_eq) (use assms in simp_all)

section \<open>Text readers\<close>

text \<open>
  A text stream (\<^verbatim>\<open>open(path)\<close>, \<^verbatim>\<open>io.StringIO\<close>) counts in characters: its state
  is the characters still to come, each the bytes of its encoding.
\<close>

definition text_reader :: "string list py_object" where
  "text_reader name args cs =
     (case args of
        [PyInt n] \<Rightarrow>
          if name = ''read'' then (Inr (PyStr (concat (take (nat n) cs))), drop (nat n) cs)
          else (Inl (PyException (''AttributeError'', name)), cs)
      | _ \<Rightarrow> (Inl (PyException (''TypeError'', name)), cs))"

text \<open>What arrives of it.\<close>

function text_received :: "string list \<Rightarrow> bytes" where
  "text_received cs =
     (if cs = [] then []
      else take read_buf_size (utf8 (concat (take read_buf_size cs))) @ text_received (drop read_buf_size cs))"
  by pat_completeness auto
termination
  by (relation "measure length") (auto simp: read_buf_size_def)

declare text_received.simps [simp del]

lemma length_utf8 [simp]: "length (utf8 s) = length s"
  by (simp add: utf8_def)

lemma utf8_append: "utf8 (s @ t) = utf8 s @ utf8 t"
  by (simp add: utf8_def)

lemma utf8_Nil [simp]: "utf8 [] = []"
  by (simp add: utf8_def)

lemma utf8_eq_Nil [simp]: "utf8 s = [] \<longleftrightarrow> s = []"
  by (simp add: utf8_def)

lemma read_buf_size_pos [simp]: "0 < read_buf_size" "read_buf_size \<noteq> 0"
  by (simp_all add: read_buf_size_def)

lemma text_received_Nil [simp]: "text_received [] = []"
  by (simp add: text_received.simps)

lemma text_read:
  "py_reader R text_reader read_buf_size cs =
     (Ok (take read_buf_size (utf8 (concat (take read_buf_size cs)))), drop read_buf_size cs)"
  by (simp add: py_reader_def py_then_def text_reader_def min_def)

lemma concat_ne: "[] \<notin> set cs \<Longrightarrow> concat cs = [] \<Longrightarrow> cs = []"
  by (cases cs) auto

lemma text_delivers:
  "[] \<notin> set cs \<Longrightarrow> delivers (py_reader R text_reader) cs (text_received cs) []"
proof (induction cs rule: text_received.induct)
  case (1 cs)
  show ?case
  proof (cases "cs = []")
    case True
    then show ?thesis
      using delivers.eof [of "py_reader R text_reader" "[]" "[]"]
      by (simp add: text_read)
  next
    case False
    let ?head = "take read_buf_size (utf8 (concat (take read_buf_size cs)))"
    have "[] \<notin> set (take read_buf_size cs)" using "1.prems" by (meson in_set_takeD)
    then have "?head \<noteq> []"
      using False concat_ne [of "take read_buf_size cs"] by (auto simp del: concat_eq_Nil_conv)
    moreover have "delivers (py_reader R text_reader) (drop read_buf_size cs) (text_received (drop read_buf_size cs)) []"
      using 1 False by (meson in_set_dropD)
    ultimately show ?thesis
      using False by (subst text_received.simps) (auto intro!: delivers.piece text_read)
  qed
qed

text \<open>Nothing is lost of ASCII text; of a text that fits the buffer in characters but not in bytes, the end.\<close>

lemma text_received_ascii:
  "list_all (\<lambda>c. length c = 1) cs \<Longrightarrow> text_received cs = utf8 (concat cs)"
proof (induction cs rule: text_received.induct)
  case (1 cs)
  have len: "length (concat xs) = length xs" if "list_all (\<lambda>c. length c = 1) xs" for xs :: "string list"
    using that by (induction xs) simp_all
  have head: "list_all (\<lambda>c. length c = 1) (take read_buf_size cs)"
    and tail: "list_all (\<lambda>c. length c = 1) (drop read_buf_size cs)"
    using "1.prems" by (auto simp: list_all_iff dest: in_set_takeD in_set_dropD)
  have "utf8 (concat cs) = utf8 (concat (take read_buf_size cs)) @ utf8 (concat (drop read_buf_size cs))"
    by (metis append_take_drop_id concat_append utf8_append)
  then show ?case
    using 1 tail len [OF head] by (simp add: text_received.simps [of cs])
qed

lemma text_received_cut:
  assumes "length cs \<le> read_buf_size"
  shows "text_received cs = take read_buf_size (utf8 (concat cs))"
  using assms by (simp add: text_received.simps [of cs] text_received.simps [of "[]"])

section \<open>Writers\<close>

context py_client
begin

lemma related_read_to_writer:
  assumes "store_env E kv ok valid" and "related E kv ok valid U rest s fs" and "fs f = Some bs"
    and "progresses wr out patience"
  obtains w' s' where "read_to_writer E (write_all wr) f (w, s) = (Ok (), w', s')"
    and "out w' = out w @ bs" and "related E kv ok valid U rest s' fs"
proof -
  have inv: "store_inv E kv ok valid s" and c: "contents kv s f = Some bs"
    using assms(2,3) by (simp_all add: related_def)
  obtain ds where ds: "try_get (guarded (st_manifest s)) f = Some ds"
    using c by (auto simp: contents_def split: option.splits)
  have "wp (read_to_writer E (write_all wr) f) (w, s)
      (\<lambda>_ (w', s'). out w' = out w @ bs \<and> related E kv ok valid U rest s' fs)"
  proof (rule store_env.wp_read_to_writer [OF assms(1) inv ds, where W = "\<lambda>b w'. out w' = out w @ b"], goal_cases)
    case (2 b p w1)
    then show ?case
      using write_all_progresses [OF assms(4), of p w1] by (auto simp: wp_iff)
  next
    case (3 b w1 b')
    then show ?case using c related_backend [OF assms(2), of b' ok] by simp
  qed simp
  then show ?thesis using that by (auto simp: wp_iff)
qed

end

context py_object_client
begin

lemma python_read_to_writer:
  assumes "python_live F R obj kv ok valid U rest h fs" and "fs f = Some bs"
    and "progresses (py_writer writer) out patience"
  shows "\<exists>w' h'. py_read_to_writer F R f writer (w, h) = (Ok (Inr ()), w', h') \<and>
     out w' = out w @ bs \<and> python_live F R obj kv ok valid U rest h' fs"
proof -
  obtain s v where h: "h = (Python obj s, v)"
      "related (python_deps F R obj) kv ok valid U rest (s\<lparr>st_backend := pw_state v\<rparr>) fs"
    using assms(1) by (cases h) (auto simp: python_live_def)
  show ?thesis
    by (rule related_read_to_writer [OF python_store_env h(2) assms(2,3), of w])
      (auto simp: h(1) py_read_to_writer_def match_inner_def map_py_err_def python_live_def)
qed

end

text \<open>A writer that claims more than it was given.\<close>

lemma over_reporting_writer:
  assumes env: "store_env E kv ok valid" and inv: "store_inv E kv ok valid s"
    and ds: "try_get (guarded (st_manifest s)) f = Some (d # ds)"
    and p: "blob_plain (st_codec s) (kv (st_backend s)) d = Some p" "p \<noteq> []"
    and wr: "writer ''write'' [PyBytes p] w = (Inr v, w')" "extract_usize v = Some n" "length p < n"
  shows "\<exists>s'. read_to_writer E (write_all (py_writer writer)) f (w, s) = (Panic, w', s')"
proof -
  note I = store_invD [OF inv]
  obtain p' where p': "is_chunk_digest d" "blob_plain (st_codec s) (kv (st_backend s)) d = Some p'"
      "digest_hex (dp_sha E) p' = d"
    using chunk_inv_member [OF I(5) file_refs [OF ds, of d]] by auto
  have "wp (read_chunk_by_digest E d) s (\<lambda>q s'. q = p)"
    by (rule store_env.wp_read_chunk [OF env I(1) p'(1) p(1)]) (use p' p(1) in simp_all)
  then obtain s' where r: "read_chunk_by_digest E d s = (Ok p, s')" by (auto simp: wp_iff)
  have m: "digests_for_file f s = (Ok (d # ds), s)"
    using ds chunk_invD(1) [OF I(5)] wp_digests_for_file [of f s "\<lambda>x s'. x = d # ds \<and> s' = s"]
    by (auto simp: wp_iff unlocked_def)
  have "py_writer writer p w = (Ok (Some n), w')" using wr p(2) by (simp add: py_writer_def)
  then have "write_all (py_writer writer) p w = (Panic, w')" using p(2) wr(3) by (intro write_all_over)
  then show ?thesis
    using r m by (simp add: read_to_writer_def seq_def on_store_def on_writer_def zoom_def)
qed

end
