(* ===== verification/Sample_Py.thy ===== *)
theory Sample_Py
  imports Sample_Ffi Py_Streams
begin

text \<open>
  A Python program to run the bindings against: a backend object over a dictionary, and writers
  that take part of what they are given.
\<close>

section \<open>A dictionary as a backend object\<close>

definition dict_object :: "table py_object" where
  "dict_object name args d =
     (case args of
        [PyStr k] \<Rightarrow>
          if name = ''get'' then
            (Inr (case map_of d k of None \<Rightarrow> PyNone | Some b \<Rightarrow> PyBytes b), d)
          else if name = ''exists'' then (Inr (PyBool (map_of d k \<noteq> None)), d)
          else if name = ''delete'' then (Inr PyNone, AList.delete k d)
          else (Inl (PyException (''AttributeError'', name)), d)
      | [PyStr k, PyBytes b] \<Rightarrow>
          if name = ''put'' then (Inr PyNone, (k, b) # d)
          else (Inl (PyException (''AttributeError'', name)), d)
      | _ \<Rightarrow> (Inl (PyException (''TypeError'', name)), d))"

definition sample_runtime :: py_runtime where
  "sample_runtime =
     \<lparr>rt_no_attribute = (\<lambda>v a. PyException (''AttributeError'', a)),
      rt_not_bool = (\<lambda>v. PyException (''TypeError'', [])),
      rt_path = (\<lambda>v. case v of PyStr s \<Rightarrow> Inr s | _ \<Rightarrow> Inl (PyException (''TypeError'', [])))\<rparr>"

lemma dict_object_ok: "py_object_ok sample_runtime dict_object map_of (\<lambda>_. True) nul_free"
  unfolding py_object_ok_def
  by (simp add: dict_object_def delete_conv' split: option.split)

interpretation p_memory: py_client sample_ffi short sample_runtime
  by (intro py_client.intro sample_libraries)

interpretation p_dict: py_object_client sample_ffi short sample_runtime dict_object map_of "\<lambda>_. True" nul_free
  by (intro py_object_client.intro py_object_client_axioms.intro p_memory.py_client_axioms
      dict_object_ok nul_free_keys)

interpretation p_files: py_files_client sample_ffi short sample_runtime flat_id
  by (intro py_files_client.intro p_memory.py_client_axioms c_files.fs_client_axioms)

definition sample_world :: "table py_world" where
  "sample_world = \<lparr>pw_state = [], pw_nodes = [], pw_tmp = 0\<rparr>"

definition no_root :: "string \<Rightarrow> py_err + py_value option" where
  "no_root a = Inr None"

definition with_root :: "string \<Rightarrow> string \<Rightarrow> py_err + py_value option" where
  "with_root dir a = (if a = ''root'' then Inr (Some (PyStr dir)) else Inr None)"

text \<open>The calls of a program.\<close>

definition py_ops :: "store_op list" where
  "py_ops = [OpIngest ''f'' [1, 2, 3] 2, OpRead ''f'', OpIngest ''g'' [] 0, OpDelete ''f'', OpRead ''f'']"

lemma py_ops_ok:
  "list_all (op_file_ok (\<lambda>_. True)) py_ops" "list_all (op_file_ok nul_free) py_ops"
  "list_all (op_file_ok (fs_keys flat_id)) py_ops"
  "list_all handle_op py_ops" "concat (map (op_chunks sample_fastcdc) py_ops) = [[1, 2], [3]]"
proof -
  have "fs_keys flat_id (manifest_key ''f'')" "fs_keys flat_id (manifest_key ''g'')"
    by (auto simp: fs_keys_def flat_id_def plain_name_def)
  then show "list_all (op_file_ok (fs_keys flat_id)) py_ops"
    by (simp add: py_ops_def proper_file_id_def)
qed (simp_all add: py_ops_def proper_file_id_def handle_op_def nul_free_def manifest_key_def
    MANIFEST_PREFIX_def sample_chunks)

lemma py_ops_spec:
  "fst (spec_ops sample_sha sample_fastcdc py_ops Map.empty) =
     [Ok (Digests (map (digest_hex sample_sha) [[1, 2], [3]])), Ok (Contents [1, 2, 3]),
      Err zero_chunk_size_error, Ok Done, Err (NotFound ''file f'')]"
  by (simp add: py_ops_def sample_chunks)

section \<open>Writers\<close>

text \<open>One byte a call, after one interruption.\<close>

definition slow_writer :: "(nat \<times> bytes) py_object" where
  "slow_writer name args w =
     (case (args, w) of
        ([PyBytes (b # bs)], (0, out)) \<Rightarrow> (Inr (PyInt 1), (0, out @ [b]))
      | ([PyBytes (b # bs)], (Suc k, out)) \<Rightarrow> (Inl (PyInterruptedError ''signal''), (k, out))
      | _ \<Rightarrow> (Inl (PyException (''TypeError'', name)), w))"

lemma slow_writer_progresses: "progresses (py_writer slow_writer) snd fst"
  unfolding progresses_def
proof (intro allI impI)
  fix buf :: bytes and w :: "nat \<times> bytes"
  assume "buf \<noteq> []"
  then obtain b bs where buf: "buf = b # bs" by (cases buf) auto
  obtain k out where w: "w = (k, out)" by fastforce
  show "(\<exists>n w'. py_writer slow_writer buf w = (Ok (Some n), w') \<and> 0 < n \<and> n \<le> length buf \<and>
            snd w' = snd w @ take n buf) \<or>
        (\<exists>w'. py_writer slow_writer buf w = (Ok None, w') \<and> fst w' < fst w \<and> snd w' = snd w)"
    by (cases k) (simp_all add: buf w py_writer_def slow_writer_def extract_usize_def)
qed

text \<open>A writer that reports the characters of its own encoding, two for a byte.\<close>

definition hex_writer :: "bytes py_object" where
  "hex_writer name args w =
     (case args of
        [PyBytes bs] \<Rightarrow> (Inr (PyInt (2 * int (length bs))), w @ bs)
      | _ \<Rightarrow> (Inl (PyException (''TypeError'', name)), w))"

end
