(* ===== verification/Py_Properties.thy ===== *)
theory Py_Properties
  imports Sample_Py
begin

text \<open>The properties of the Python bindings.\<close>

section \<open>Handles\<close>

text \<open>
  C35.  Equivalence.  A store in memory, one on a lawful backend object and one on an empty
  directory give a Python program the same results for the same calls, and they are those of
  a finite map: the value, or an \<^verbatim>\<open>OSError\<close> with the text of the library's error.
\<close>

theorem py_handles_agree:
  assumes "py_object_client F U R obj kv ok valid" and "file_space ids"
    and "attr ''root'' = Inr None" and "ok (pw_state w)" and "kv (pw_state w) = Map.empty"
    and "attr' ''root'' = Inr (Some v)" and "rt_path R v = Inr dir"
    and "create_dir_all (fe_resolve F dir) (pw_nodes w) = (Ok (), ns)"
    and "keys_distinct (pw_nodes w)" and "\<forall>q. q \<noteq> [] \<longrightarrow> map_of (pw_nodes w) (fe_resolve F dir @ q) = None"
    and "list_all handle_op ops" and "list_all (op_file_ok (\<lambda>_. True)) ops"
    and "list_all (op_file_ok valid) ops" and "list_all (op_file_ok (fs_keys ids)) ops"
    and "rest = concat (map (op_chunks (fe_fastcdc F)) ops)"
    and "set rest \<subseteq> U" and "length rest < 2 ^ 64" and "length (concat rest) < 2 ^ 64"
    and "results = map py_reply (fst (spec_ops (fe_sha F) (fe_fastcdc F) ops Map.empty))"
  shows "\<exists>m p d wp wd. py_memory F w = (Ok (Inr m), w) \<and> fst (py_run F R ops (m, w)) = results \<and>
     py_open F R obj attr w = (Ok (Inr p), wp) \<and> fst (py_run F R ops (p, wp)) = results \<and>
     py_open F R any attr' w = (Ok (Inr d), wd) \<and> fst (py_run F R ops (d, wd)) = results"
proof -
  have client: "py_client F U" using assms(1) by (simp add: py_object_client_def)
  have files: "py_files_client F U ids"
    using client assms(2) by (simp add: py_files_client_def fs_client_def py_client_def)
  note ops = assms(15)
  obtain m where m: "py_memory F w = (Ok (Inr m), w)" "memory_live F U rest (m, w) Map.empty"
    using py_client.memory_open [OF client assms(16-18)] by blast
  obtain p wp where p: "py_open F R obj attr w = (Ok (Inr p), wp)"
      "python_live F R obj kv ok valid U rest (p, wp) Map.empty"
    using py_object_client.python_open [where attr = attr and w = w, OF assms(1,3-5,16-18)] by blast
  obtain d wd where d: "py_open F R any attr' w = (Ok (Inr d), wd)" "files_live F ids U rest (d, wd) Map.empty"
    using py_files_client.files_open [where attr = attr' and w = w, OF files assms(6-10,16-18)] by blast
  have handles: "py_handle F R (\<lambda>_. True) (memory_live F U)" "py_handle F R (fs_keys ids) (files_live F ids U)"
    by (rule py_client.memory_handle [OF client], rule py_files_client.files_handle [OF files])
  have "fst (py_run F R ops (m, w)) = results"
    using py_handle.py_run_refines [OF handles(1) m(2) [unfolded ops] assms(12,11)] by (auto simp: assms(19))
  moreover have "fst (py_run F R ops (p, wp)) = results"
    using py_handle.py_run_refines [OF py_object_client.python_handle [OF assms(1)] p(2) [unfolded ops] assms(13,11)]
    by (auto simp: assms(19))
  moreover have "fst (py_run F R ops (d, wd)) = results"
    using py_handle.py_run_refines [OF handles(2) d(2) [unfolded ops] assms(14,11)] by (auto simp: assms(19))
  ultimately show ?thesis using m(1) p(1) d(1) by blast
qed

theorem py_handles_agree_witness:
  "\<exists>p wp. py_open sample_ffi sample_runtime dict_object no_root sample_world = (Ok (Inr p), wp) \<and>
     fst (py_run sample_ffi sample_runtime py_ops (p, wp)) =
       [Ok (Inr (Digests (map (digest_hex sample_sha) [[1, 2], [3]]))), Ok (Inr (Contents [1, 2, 3])),
        Ok (Inl (PyIOError (show_error zero_chunk_size_error))), Ok (Inr Done),
        Ok (Inl (PyIOError ''not found: file f''))]"
proof -
  have w: "pw_state sample_world = []" "pw_nodes sample_world = []" by (simp_all add: sample_world_def)
  have r: "rt_path sample_runtime (PyStr ''d'') = Inr ''d''" by (simp add: sample_runtime_def)
  have mk: "create_dir_all (fe_resolve sample_ffi ''d'') [] = (Ok (), [([], Dir), ([''d''], Dir)])"
    by (simp add: create_dir_all_def ancestors_def is_file_def add_dir_def is_dir_def)
  have rest: "set [[1, 2], [3 :: byte]] \<subseteq> short" by simp
  show ?thesis
    using py_handles_agree [where attr = no_root and attr' = "with_root ''d''" and v = "PyStr ''d''" and w = sample_world
        and rest = "[[1, 2], [3]]" and ops = py_ops and any = dict_object,
        OF p_dict.py_object_client_axioms flat.file_space_axioms _ _ _ _ r mk [folded w] _ _ py_ops_ok(4,1-3)
          _ rest]
    by (simp add: w no_root_def with_root_def py_ops_spec py_ops_ok(5)) blast
qed

section \<open>Readers and writers\<close>

text \<open>
  C36.  A text stream loses data without an error.  Each \<^verbatim>\<open>read(65536)\<close> of it returns
  that many characters, of whose encoding only the first 65536 bytes are used: a text that has
  fewer characters and more bytes than that is ingested, successfully, as its first 65536
  bytes, while pure ASCII text arrives whole.
\<close>

theorem py_text_reader_truncates:
  assumes "0 < n" and "[] \<notin> set cs" and "length cs \<le> read_buf_size" and "read_buf_size < length (concat cs)"
  shows "fst (py_ingest_reader F R f text_reader n (cs, h)) =
           fst (py_ingest_fixed F R f (take read_buf_size (utf8 (concat cs))) n h) \<and>
         snd (snd (py_ingest_reader F R f text_reader n (cs, h))) =
           snd (py_ingest_fixed F R f (take read_buf_size (utf8 (concat cs))) n h) \<and>
         take read_buf_size (utf8 (concat cs)) \<noteq> utf8 (concat cs)"
proof -
  have "delivers (py_reader R text_reader) cs (take read_buf_size (utf8 (concat cs))) []"
    using text_delivers [OF assms(2)] text_received_cut [OF assms(3)] by metis
  moreover have "length (take read_buf_size (utf8 (concat cs))) \<noteq> length (utf8 (concat cs))"
    using assms(4) by simp
  ultimately show ?thesis
    using py_ingest_reader_eq [OF assms(1), of R text_reader cs _ "[]" F f h] by fastforce
qed

text \<open>An e with an accent, 40000 times: 80000 bytes, of which 14464 are lost.\<close>

theorem py_text_reader_truncates_witness:
  "\<forall>h :: table py_store \<times> table py_world. fst (py_ingest_reader sample_ffi sample_runtime ''f'' text_reader 4096
      (replicate 40000 [CHR 0xC3, CHR 0xA9], h)) =
   fst (py_ingest_fixed sample_ffi sample_runtime ''f''
      (take 65536 (utf8 (concat (replicate 40000 [CHR 0xC3, CHR 0xA9])))) 4096 h)"
  (is "\<forall>h. ?agree h")
proof
  fix h :: "table py_store \<times> table py_world"
  obtain n :: nat where n: "n = 40000" by blast
  let ?cs = "replicate n [CHR 0xC3, CHR 0xA9]"
  have "length (concat ?cs) = 2 * n" by (induction n) simp_all
  then have "length ?cs \<le> read_buf_size" "read_buf_size < length (concat ?cs)" "[] \<notin> set ?cs"
    using n by (simp_all add: read_buf_size_def)
  moreover have "read_buf_size = 65536" by (simp add: read_buf_size_def)
  ultimately show "?agree h"
    using py_text_reader_truncates [of 4096 ?cs sample_ffi sample_runtime "''f''" h]
    unfolding n by simp
qed

text \<open>
  C37.  Termination.  \<open>read_to_writer\<close> on a Python writer that makes progress ends, with
  the file's bytes and nothing else written: the writer may take any part of what it is
  offered, answer with its count or with no number at all, and be interrupted as long as it
  does not stay so for ever.
\<close>

theorem py_read_to_writer_completes:
  assumes "py_object_client F U R obj kv ok valid" and "python_live F R obj kv ok valid U rest h fs"
    and "fs f = Some bs" and "progresses (py_writer writer) out patience"
  shows "\<exists>w' h'. py_read_to_writer F R f writer (w, h) = (Ok (Inr ()), w', h') \<and>
     out w' = out w @ bs \<and> python_live F R obj kv ok valid U rest h' fs"
  by (rule py_object_client.python_read_to_writer [OF assms])

theorem py_read_to_writer_completes_witness:
  "\<exists>h :: table py_store \<times> table py_world. fst (py_read_to_writer sample_ffi sample_runtime ''f'' slow_writer ((5, []), h)) = Ok (Inr ()) \<and>
     snd (fst (snd (py_read_to_writer sample_ffi sample_runtime ''f'' slow_writer ((5, []), h)))) = [1, 2, 3]"
proof -
  let ?ops = "[OpIngest ''f'' [1, 2, 3] 2]"
  let ?rest = "[[1, 2], [3]] :: bytes list"
  obtain st w where "python_live sample_ffi sample_runtime dict_object map_of (\<lambda>_. True) nul_free short ?rest
      (st, w) Map.empty"
    using p_dict.python_open [of no_root sample_world ?rest] by (auto simp: no_root_def sample_world_def)
  then obtain h where "python_live sample_ffi sample_runtime dict_object map_of (\<lambda>_. True) nul_free short []
      h [''f'' \<mapsto> [1, 2, 3]]"
    using p_dict.python.py_run_refines [of ?ops "(st, w)" Map.empty] py_ops_ok(2,4)
    by (auto simp: sample_chunks py_ops_def fun_upd_def [symmetric] simp del: py_run.simps)
  then obtain w' h' where
      "py_read_to_writer sample_ffi sample_runtime ''f'' slow_writer ((5, []), h) = (Ok (Inr ()), w', h')"
      "snd w' = snd (5 :: nat, []) @ [1, 2, 3]"
    using py_read_to_writer_completes [OF p_dict.py_object_client_axioms _ _ slow_writer_progresses,
        of "[]" h "[''f'' \<mapsto> [1, 2, 3]]" "''f''" "[1, 2, 3]" "(5, [])"] by auto
  then show ?thesis by (intro exI [of _ h]) simp
qed

text \<open>
  A writer whose \<^verbatim>\<open>write\<close> returns a number above the length of what it
  was given (one that counts what it wrote after an encoding of its own, say) makes
  \<open>read_to_writer\<close> panic on the first chunk of the file: the count is passed on unchecked, and
  \<^verbatim>\<open>write_all\<close> slices beyond the end of its buffer.
\<close>

theorem py_over_reporting_writer_panics:
  assumes "store_env E kv ok valid" and "store_inv E kv ok valid s"
    and "try_get (guarded (st_manifest s)) f = Some (d # ds)"
    and "blob_plain (st_codec s) (kv (st_backend s)) d = Some p" and "p \<noteq> []"
    and "writer ''write'' [PyBytes p] w = (Inr v, w')" and "extract_usize v = Some n" and "length p < n"
  shows "\<exists>s'. read_to_writer E (write_all (py_writer writer)) f (w, s) = (Panic, w', s')"
  by (rule over_reporting_writer) (fact assms)+

theorem py_over_reporting_writer_panics_witness:
  "\<exists>s'. read_to_writer sample_deps (write_all (py_writer hex_writer)) ''f'' ([], one_file) = (Panic, [1, 2], s')"
  using py_over_reporting_writer_panics [OF sample.store_env_axioms one_file_inv, of "''f''"
      "digest_hex sample_sha [1, 2]" "[digest_hex sample_sha [3]]" "[1, 2]" hex_writer "[]" "PyInt 4" "[1, 2]" 4]
    one_file_digests one_file_plain [of "[1, 2]"]
  by (simp add: hex_writer_def extract_usize_def)

end
