(* ===== verification/Store_Threads.thy ===== *)
theory Store_Threads
  imports Store_Faults
begin

text \<open>
  Threads on one store.  \<^verbatim>\<open>store_chunk\<close> and \<^verbatim>\<open>release_digests\<close> (the parts of
  an ingest and a delete that touch chunks) take their locks one after another; between two
  sections another thread may run.  A thread is the section it is about to enter, with its local
  variables; a pool is a multiset of threads over the shared store.

  What a mutex guards is one step.  What \<^verbatim>\<open>release_digests\<close> does outside every mutex is one
  step per access to the backend: it deletes the blob, and it writes or deletes the record of the
  count and then reads the refcount index and writes it back, so two releases can both read the
  index before either writes it (\<open>index_race\<close>).  The one thing that is coarser than the code: the record
  and the index that \<^verbatim>\<open>store_chunk\<close> saves under the refcount mutex are one step, although a
  release, which takes no mutex for the index, could write it in between.  A pool without releases
  has no such schedule, and the schedules exhibited here do not need it.
\<close>

section \<open>Threads and their sections\<close>

datatype thread =
    StoreBlob string bytes
  | StoreCount string bytes bool
  | StoreStats string bytes bool
  | Stored string bytes bool
  | ReleaseSize string
  | ReleaseCount string u64
  | DeleteBlob string u64
  | DeleteRecord string u64
  | UnlistRead string u64
  | UnlistWrite string u64 "string list"
  | CountCollected string u64
  | SaveRecord string u64 u64
  | ListRead string u64
  | ListWrite string u64 "string list"
  | CountReleased string u64
  | Released string
  | Failed

fun running :: "thread \<Rightarrow> bool" where
  "running (Stored d p found) = False"
| "running (Released d) = False"
| "running Failed = False"
| "running _ = True"

text \<open>\<^verbatim>\<open>save_refcount\<close> up to its index.\<close>

definition put_count_record :: "'b deps \<Rightarrow> string \<Rightarrow> u64 \<Rightarrow> u64 \<Rightarrow> ('b, unit) act" where
  "put_count_record E d cnt sz =
     seq (lift (validate_digest d)) (\<lambda>_.
     seq (lift (map_err (\<lambda>e. BackendError (''refcount encode failed: '' @ e))
            (to_vec_refcount (dp_json E) \<lparr>rr_count = cnt, rr_size = sz\<rparr>))) (\<lambda>payload.
     be_put (dp_backend E) (refcount_key d) payload))"

text \<open>The steps of \<^verbatim>\<open>release_digests\<close> for one digest, and of \<^verbatim>\<open>store_chunk\<close>.\<close>

fun release_step :: "'b deps \<Rightarrow> thread \<Rightarrow> ('b store, thread) act" where
  "release_step E (ReleaseSize d) = seq (chunk_size_of E d) (\<lambda>sz. ret (ReleaseCount d sz))"
| "release_step E (ReleaseCount d sz) =
     seq (on_refcount (decrement d)) (\<lambda>remaining.
     ret (if remaining = 0 then DeleteBlob d sz else SaveRecord d remaining sz))"
| "release_step E (DeleteBlob d sz) =
     seq (on_backend (be_delete (dp_backend E) d)) (\<lambda>_. ret (DeleteRecord d sz))"
| "release_step E (DeleteRecord d sz) =
     seq (on_backend (be_delete (dp_backend E) (refcount_key d))) (\<lambda>_. ret (UnlistRead d sz))"
| "release_step E (UnlistRead d sz) =
     seq (on_backend (read_string_list (dp_json E) (dp_backend E) REFCOUNT_INDEX_KEY)) (\<lambda>index.
     ret (UnlistWrite d sz index))"
| "release_step E (UnlistWrite d sz index) =
     seq (on_backend (write_string_list (dp_json E) (dp_backend E) REFCOUNT_INDEX_KEY
            (filter (\<lambda>d'. d' \<noteq> d) index))) (\<lambda>_. ret (CountCollected d sz))"
| "release_step E (CountCollected d sz) =
     seq (on_stats (\<lambda>st. (Ok (), remove_unique_chunk sz st))) (\<lambda>_. ret (CountReleased d sz))"
| "release_step E (SaveRecord d remaining sz) =
     seq (on_backend (put_count_record E d remaining sz)) (\<lambda>_. ret (ListRead d sz))"
| "release_step E (ListRead d sz) =
     seq (on_backend (read_string_list (dp_json E) (dp_backend E) REFCOUNT_INDEX_KEY)) (\<lambda>index.
     ret (if d \<in> set index then CountReleased d sz else ListWrite d sz index))"
| "release_step E (ListWrite d sz index) =
     seq (on_backend (write_string_list (dp_json E) (dp_backend E) REFCOUNT_INDEX_KEY (index @ [d])))
       (\<lambda>_. ret (CountReleased d sz))"
| "release_step E (CountReleased d sz) =
     seq (on_stats (\<lambda>st. (Ok (), remove_reference sz st))) (\<lambda>_. ret (Released d))"
| "release_step E t = ret t"

fun thread_step :: "'b deps \<Rightarrow> thread \<Rightarrow> ('b store, thread) act" where
  "thread_step E (StoreBlob d p) =
     seq (encode_blob p) (\<lambda>blob. seq (blob_section E d blob) (\<lambda>found. ret (StoreCount d p found)))"
| "thread_step E (StoreCount d p found) =
     seq (refcount_section E d (len64 p)) (\<lambda>_. ret (StoreStats d p found))"
| "thread_step E (StoreStats d p found) =
     seq (stats_section found (len64 p)) (\<lambda>_. ret (Stored d p found))"
| "thread_step E t = release_step E t"

text \<open>One thread of the pool enters its next section; an error ends the thread.\<close>

inductive pool_step ::
  "'b deps \<Rightarrow> 'b store \<times> thread multiset \<Rightarrow> 'b store \<times> thread multiset \<Rightarrow> bool" for E where
  enters: "running t \<Longrightarrow> thread_step E t s = (Ok t', s') \<Longrightarrow>
     pool_step E (s, add_mset t T) (s', add_mset t' T)"
| fails: "running t \<Longrightarrow> thread_step E t s = (Err e, s') \<Longrightarrow>
     pool_step E (s, add_mset t T) (s', add_mset Failed T)"

inductive_cases pool_stepE: "pool_step E (s, T) (s', T')"

abbreviation pool_runs ::
  "'b deps \<Rightarrow> 'b store \<times> thread multiset \<Rightarrow> 'b store \<times> thread multiset \<Rightarrow> bool" where
  "pool_runs E \<equiv> (pool_step E)\<^sup>*\<^sup>*"

section \<open>A thread that runs undisturbed is the code's function\<close>

lemma pool_runs_step:
  "running t \<Longrightarrow> thread_step E t s = (Ok t', s') \<Longrightarrow> pool_runs E (s', add_mset t' T) X \<Longrightarrow>
     pool_runs E (s, add_mset t T) X"
  by (rule converse_rtranclp_into_rtranclp [where b = "(s', add_mset t' T)"]) (rule pool_step.enters)

lemma seq_OkE:
  assumes "seq m f s = (Ok b, s')"
  obtains a s1 where "m s = (Ok a, s1)" and "f a s1 = (Ok b, s')"
  using assms by (auto simp: seq_def split: prod.splits res.splits)

lemma store_alone:
  assumes "store_chunk E d p s = (Ok found, s')"
  shows "pool_runs E (s, add_mset (StoreBlob d p) T) (s', add_mset (Stored d p found) T)"
proof -
  obtain blob s0 found' s1 u s2 v where
    "encode_blob p s = (Ok blob, s0)" "blob_section E d blob s0 = (Ok found', s1)"
    "refcount_section E d (len64 p) s1 = (Ok u, s2)"
    "stats_section found' (len64 p) s2 = (Ok v, s')" "found' = found"
    using assms by (auto simp: store_chunk_def ret_def elim!: seq_OkE)
  then show ?thesis
    by (intro pool_runs_step [where t = "StoreBlob d p" and t' = "StoreCount d p found"]
        pool_runs_step [where t = "StoreCount d p found" and t' = "StoreStats d p found"]
        pool_runs_step [where t = "StoreStats d p found" and t' = "Stored d p found"])
      (auto simp: seq_def ret_def)
qed

lemma on_backend_seqE:
  assumes "on_backend (seq m f) s = (Ok x, s')"
  obtains a s1 where "on_backend m s = (Ok a, s1)" and "on_backend (f a) s1 = (Ok x, s')"
  using assms by (auto simp: on_backend_def zoom_def seq_def split: prod.splits res.splits)

lemma unlist_alone:
  assumes "on_backend (remove_refcount (dp_json E) (dp_backend E) d) s = (Ok u, s1)"
    and "pool_runs E (s1, add_mset (CountCollected d sz) T) X"
  shows "pool_runs E (s, add_mset (DeleteRecord d sz) T) X"
proof -
  obtain v s2 index s3 where "on_backend (be_delete (dp_backend E) (refcount_key d)) s = (Ok v, s2)"
      "on_backend (read_string_list (dp_json E) (dp_backend E) REFCOUNT_INDEX_KEY) s2 = (Ok index, s3)"
      "on_backend (write_string_list (dp_json E) (dp_backend E) REFCOUNT_INDEX_KEY
         (filter (\<lambda>d'. d' \<noteq> d) index)) s3 = (Ok u, s1)"
    using assms(1) unfolding remove_refcount_def by (elim on_backend_seqE)
  then show ?thesis
    using assms(2)
    by (intro pool_runs_step [where t = "DeleteRecord d sz" and t' = "UnlistRead d sz"]
        pool_runs_step [where t = "UnlistRead d sz" and t' = "UnlistWrite d sz index"]
        pool_runs_step [where t = "UnlistWrite d sz index" and t' = "CountCollected d sz"])
      (auto simp: seq_def ret_def)
qed

lemma list_alone:
  assumes "on_backend (save_refcount (dp_json E) (dp_backend E) d cnt sz) s = (Ok u, s1)"
    and "pool_runs E (s1, add_mset (CountReleased d sz) T) X"
  shows "pool_runs E (s, add_mset (SaveRecord d cnt sz) T) X"
proof -
  have split: "save_refcount (dp_json E) (dp_backend E) d cnt sz =
      seq (put_count_record E d cnt sz) (\<lambda>_.
      seq (read_string_list (dp_json E) (dp_backend E) REFCOUNT_INDEX_KEY) (\<lambda>index.
      if d \<in> set index then ret ()
      else write_string_list (dp_json E) (dp_backend E) REFCOUNT_INDEX_KEY (index @ [d])))"
    by (rule ext) (simp add: save_refcount_def put_count_record_def seq_def split: prod.split res.split)
  obtain v s2 index s3 where r: "on_backend (put_count_record E d cnt sz) s = (Ok v, s2)"
      "on_backend (read_string_list (dp_json E) (dp_backend E) REFCOUNT_INDEX_KEY) s2 = (Ok index, s3)"
      "on_backend (if d \<in> set index then ret ()
         else write_string_list (dp_json E) (dp_backend E) REFCOUNT_INDEX_KEY (index @ [d])) s3 = (Ok u, s1)"
    using assms(1) unfolding split by (elim on_backend_seqE)
  have "pool_runs E (s3, add_mset (if d \<in> set index then CountReleased d sz else ListWrite d sz index) T) X"
  proof (cases "d \<in> set index")
    case True
    then show ?thesis using r(3) assms(2) by (simp add: on_backend_def zoom_def ret_def)
  next
    case False
    then show ?thesis
      using r(3) assms(2)
      by (auto simp: seq_def ret_def intro!: pool_runs_step [where t = "ListWrite d sz index" and t' = "CountReleased d sz"])
  qed
  then show ?thesis
    using r(1,2)
    by (intro pool_runs_step [where t = "SaveRecord d cnt sz" and t' = "ListRead d sz"]
        pool_runs_step [where t = "ListRead d sz"
          and t' = "if d \<in> set index then CountReleased d sz else ListWrite d sz index"])
      (auto simp: seq_def ret_def)
qed

lemma release_alone:
  assumes "release_digest E d s = (Ok (), s')"
  shows "pool_runs E (s, add_mset (ReleaseSize d) T) (s', add_mset (Released d) T)"
proof -
  obtain sz s1 remaining s2 s3 where a: "chunk_size_of E d s = (Ok sz, s1)"
      "on_refcount (decrement d) s1 = (Ok remaining, s2)"
    and b: "(if remaining = 0
          then seq (on_backend (be_delete (dp_backend E) d)) (\<lambda>_.
               seq (on_backend (remove_refcount (dp_json E) (dp_backend E) d)) (\<lambda>_.
               on_stats (\<lambda>st. (Ok (), remove_unique_chunk sz st))))
          else on_backend (save_refcount (dp_json E) (dp_backend E) d remaining sz)) s2 = (Ok (), s3)"
    and c: "on_stats (\<lambda>st. (Ok (), remove_reference sz st)) s3 = (Ok (), s')"
    using assms by (auto simp: release_digest_def elim!: seq_OkE)
  have last: "pool_runs E (s3, add_mset (CountReleased d sz) T) (s', add_mset (Released d) T)"
    using c by (intro pool_runs_step [where t = "CountReleased d sz" and t' = "Released d"])
      (auto simp: seq_def ret_def)
  have "pool_runs E (s2, add_mset (if remaining = 0 then DeleteBlob d sz else SaveRecord d remaining sz) T)
      (s', add_mset (Released d) T)"
  proof (cases "remaining = 0")
    case True
    then obtain u s4 v s5 where s5: "on_backend (be_delete (dp_backend E) d) s2 = (Ok u, s4)"
        "on_backend (remove_refcount (dp_json E) (dp_backend E) d) s4 = (Ok v, s5)"
        "on_stats (\<lambda>st. (Ok (), remove_unique_chunk sz st)) s5 = (Ok (), s3)"
      using b by (auto elim!: seq_OkE)
    have "pool_runs E (s5, add_mset (CountCollected d sz) T) (s', add_mset (Released d) T)"
      using s5(3) last by (intro pool_runs_step [where t = "CountCollected d sz" and t' = "CountReleased d sz"])
        (auto simp: seq_def ret_def)
    from unlist_alone [OF s5(2) this]
    have "pool_runs E (s2, add_mset (DeleteBlob d sz) T) (s', add_mset (Released d) T)"
      using s5(1) by (intro pool_runs_step [where t = "DeleteBlob d sz" and t' = "DeleteRecord d sz"])
        (auto simp: seq_def ret_def)
    then show ?thesis using True by simp
  next
    case False
    then show ?thesis using list_alone [OF _ last] b by simp
  qed
  then show ?thesis
    using a
    by (auto simp: seq_def ret_def
        intro!: pool_runs_step [where t = "ReleaseSize d" and t' = "ReleaseCount d sz"]
          pool_runs_step [where t = "ReleaseCount d sz"
            and t' = "if remaining = 0 then DeleteBlob d sz else SaveRecord d remaining sz"])
qed

section \<open>Threads that store\<close>

text \<open>How far a storing thread is, its chunk, and whether it wrote the blob itself.\<close>

fun stage :: "thread \<Rightarrow> nat" where
  "stage (StoreBlob d p) = 0"
| "stage (StoreCount d p found) = 1"
| "stage (StoreStats d p found) = 2"
| "stage (Stored d p found) = 3"
| "stage _ = 0"

fun chunk_digest :: "thread \<Rightarrow> string" where
  "chunk_digest (StoreBlob d p) = d"
| "chunk_digest (StoreCount d p found) = d"
| "chunk_digest (StoreStats d p found) = d"
| "chunk_digest (Stored d p found) = d"
| "chunk_digest _ = []"

fun wrote_blob :: "thread \<Rightarrow> bool" where
  "wrote_blob (StoreCount d p found) = (\<not> found)"
| "wrote_blob (StoreStats d p found) = (\<not> found)"
| "wrote_blob (Stored d p found) = (\<not> found)"
| "wrote_blob _ = False"

fun storing :: "hash_fun \<Rightarrow> bytes set \<Rightarrow> thread \<Rightarrow> bool" where
  "storing sha U (StoreBlob d p) = (d = digest_hex sha p \<and> p \<in> U)"
| "storing sha U (StoreCount d p found) = (d = digest_hex sha p \<and> p \<in> U)"
| "storing sha U (StoreStats d p found) = (d = digest_hex sha p \<and> p \<in> U)"
| "storing sha U (Stored d p found) = (d = digest_hex sha p \<and> p \<in> U)"
| "storing sha U _ = False"

text \<open>The digests of the threads that have passed \<open>n\<close> sections, and of the writers among them.\<close>

definition refs_past :: "nat \<Rightarrow> thread multiset \<Rightarrow> string multiset" where
  "refs_past n T = image_mset chunk_digest (filter_mset (\<lambda>t. n \<le> stage t) T)"

definition written :: "nat \<Rightarrow> thread multiset \<Rightarrow> string multiset" where
  "written n T = image_mset chunk_digest (filter_mset (\<lambda>t. n \<le> stage t \<and> wrote_blob t) T)"

lemma refs_past_add [simp]:
  "refs_past n (add_mset t T) = (if n \<le> stage t then add_mset (chunk_digest t) (refs_past n T) else refs_past n T)"
  by (simp add: refs_past_def)

lemma written_add [simp]:
  "written n (add_mset t T) =
     (if n \<le> stage t \<and> wrote_blob t then add_mset (chunk_digest t) (written n T) else written n T)"
  by (simp add: written_def)

text \<open>
  The invariant of a pool of storing threads on a store that held the references \<open>M\<close>: each
  part of the store accounts for the threads that have passed its section.  \<open>len\<close> is the length
  of the chunk of a digest; \<open>s0\<close> is the store before the threads started.
\<close>

definition pool_inv ::
  "'b deps \<Rightarrow> ('b \<Rightarrow> string \<rightharpoonup> bytes) \<Rightarrow> ('b \<Rightarrow> bool) \<Rightarrow> bytes set \<Rightarrow> (string \<Rightarrow> nat) \<Rightarrow> string multiset \<Rightarrow>
     'b store \<Rightarrow> 'b store \<times> thread multiset \<Rightarrow> bool" where
  "pool_inv E kv ok U len M s0 = (\<lambda>(s, T).
     let m = kv (st_backend s); rc = guarded (st_refcount s); st = guarded (st_stats s) in
     chunk_frame s0 s \<and>
     same_outside (\<lambda>k. is_chunk_digest k \<or> is_refcount_key k) (kv (st_backend s0)) m \<and>
     ok (st_backend s) \<and> unlocked s \<and> codec_ok (st_codec s) \<and> keys_distinct (counts rc) \<and>
     (\<forall>t \<in># T. storing (dp_sha E) U t) \<and>
     refs_match (get_ref rc) (M + refs_past 2 T) \<and>
     disk_refs (dp_json E) m (get_ref rc) \<and>
     (\<forall>d r. get_ref rc d = Some r \<longrightarrow> cr_size r = of_nat (len d)) \<and>
     (\<forall>d. is_chunk_digest d \<longrightarrow> d \<notin># M + refs_past 1 T \<longrightarrow> m d = None) \<and>
     (\<forall>d \<in># M + refs_past 1 T. \<exists>p \<in> U. blob_plain (st_codec s) m d = Some p \<and> digest_hex (dp_sha E) p = d) \<and>
     (\<forall>d. count (written 1 T) d = (if d \<in># refs_past 1 T \<and> d \<notin># M then 1 else 0)) \<and>
     total_bytes st = of_nat (ref_bytes len (M + refs_past 3 T)) \<and>
     stored_bytes st = of_nat (unique_bytes len M + ref_bytes len (written 3 T)))"

lemma pool_invI:
  assumes "chunk_frame s0 s"
    and "same_outside (\<lambda>k. is_chunk_digest k \<or> is_refcount_key k) (kv (st_backend s0)) (kv (st_backend s))"
    and "ok (st_backend s)" and "unlocked s" and "codec_ok (st_codec s)"
    and "keys_distinct (counts (guarded (st_refcount s)))"
    and "\<And>t. t \<in># T \<Longrightarrow> storing (dp_sha E) U t"
    and "refs_match (get_ref (guarded (st_refcount s))) (M + refs_past 2 T)"
    and "disk_refs (dp_json E) (kv (st_backend s)) (get_ref (guarded (st_refcount s)))"
    and "\<And>d r. get_ref (guarded (st_refcount s)) d = Some r \<Longrightarrow> cr_size r = of_nat (len d)"
    and "\<And>d. is_chunk_digest d \<Longrightarrow> d \<notin># M + refs_past 1 T \<Longrightarrow> kv (st_backend s) d = None"
    and "\<And>d. d \<in># M + refs_past 1 T \<Longrightarrow>
           \<exists>p \<in> U. blob_plain (st_codec s) (kv (st_backend s)) d = Some p \<and> digest_hex (dp_sha E) p = d"
    and "\<And>d. count (written 1 T) d = (if d \<in># refs_past 1 T \<and> d \<notin># M then 1 else 0)"
    and "total_bytes (guarded (st_stats s)) = of_nat (ref_bytes len (M + refs_past 3 T))"
    and "stored_bytes (guarded (st_stats s)) = of_nat (unique_bytes len M + ref_bytes len (written 3 T))"
  shows "pool_inv E kv ok U len M s0 (s, T)"
  unfolding pool_inv_def Let_def prod.case using assms by blast

lemma pool_invD:
  assumes "pool_inv E kv ok U len M s0 (s, T)"
  shows "chunk_frame s0 s"
    and "same_outside (\<lambda>k. is_chunk_digest k \<or> is_refcount_key k) (kv (st_backend s0)) (kv (st_backend s))"
    and "ok (st_backend s)" and "unlocked s" and "codec_ok (st_codec s)"
    and "keys_distinct (counts (guarded (st_refcount s)))"
    and "\<And>t. t \<in># T \<Longrightarrow> storing (dp_sha E) U t"
    and "refs_match (get_ref (guarded (st_refcount s))) (M + refs_past 2 T)"
    and "disk_refs (dp_json E) (kv (st_backend s)) (get_ref (guarded (st_refcount s)))"
    and "\<And>d r. get_ref (guarded (st_refcount s)) d = Some r \<Longrightarrow> cr_size r = of_nat (len d)"
    and "\<And>d. is_chunk_digest d \<Longrightarrow> d \<notin># M + refs_past 1 T \<Longrightarrow> kv (st_backend s) d = None"
    and "\<And>d. d \<in># M + refs_past 1 T \<Longrightarrow>
           \<exists>p \<in> U. blob_plain (st_codec s) (kv (st_backend s)) d = Some p \<and> digest_hex (dp_sha E) p = d"
    and "\<And>d. count (written 1 T) d = (if d \<in># refs_past 1 T \<and> d \<notin># M then 1 else 0)"
    and "total_bytes (guarded (st_stats s)) = of_nat (ref_bytes len (M + refs_past 3 T))"
    and "stored_bytes (guarded (st_stats s)) = of_nat (unique_bytes len M + ref_bytes len (written 3 T))"
  using assms unfolding pool_inv_def Let_def prod.case by blast+

text \<open>One thread for each of the chunks \<open>P\<close>.\<close>

definition store_threads :: "hash_fun \<Rightarrow> bytes multiset \<Rightarrow> thread multiset" where
  "store_threads sha P = image_mset (\<lambda>p. StoreBlob (digest_hex sha p) p) P"

locale chunk_pool = store_env E kv ok valid
  for E :: "'b deps" and kv :: "'b \<Rightarrow> string \<rightharpoonup> bytes" and ok :: "'b \<Rightarrow> bool"
    and valid :: "string \<Rightarrow> bool" +
  fixes U :: "bytes set" and len :: "string \<Rightarrow> nat"
  assumes distinct_digests: "inj_on (dp_sha E) U" and no_empty_chunk: "[] \<notin> U"
    and lengths: "p \<in> U \<Longrightarrow> len (digest_hex (dp_sha E) p) = length p"
begin

lemma same_chunk: "p \<in> U \<Longrightarrow> q \<in> U \<Longrightarrow> digest_hex (dp_sha E) p = digest_hex (dp_sha E) q \<Longrightarrow> p = q"
  using distinct_digests by (simp add: digest_hex_eq_iff inj_on_def)

lemma step_blob:
  assumes inv: "pool_inv E kv ok U len M s0 (s, add_mset (StoreBlob d p) T)"
  shows "wp (thread_step E (StoreBlob d p)) s (\<lambda>t' s'. pool_inv E kv ok U len M s0 (s', add_mset t' T))"
proof -
  let ?m = "kv (st_backend s)" and ?c = "st_codec s" and ?R = "M + refs_past 1 T"
  note I = pool_invD [OF inv]
  have d: "d = digest_hex (dp_sha E) p" and p: "p \<in> U"
    using I(7) [of "StoreBlob d p"] by simp_all
  have absent: "\<And>e. is_chunk_digest e \<Longrightarrow> e \<notin># ?R \<Longrightarrow> ?m e = None"
    and present: "\<And>e. e \<in># ?R \<Longrightarrow> \<exists>q\<in>U. blob_plain ?c ?m e = Some q \<and> digest_hex (dp_sha E) q = e"
    and once: "\<And>e. count (written 1 T) e = (if e \<in># refs_past 1 T \<and> e \<notin># M then 1 else 0)"
    using I(11,12,13) by simp_all
  have dd: "is_chunk_digest d" using digest_is_chunk_digest [OF sha] d by simp
  have ne: "p \<noteq> []" using p no_empty_chunk by blast
  obtain blob where blob: "encode_opt ?c p = Ok blob" "decode_opt ?c blob = Ok p" "blob \<noteq> []"
    using codec_okE [OF I(5), of p] ne by metis
  have found: "?m d \<noteq> None \<longleftrightarrow> d \<in># ?R"
  proof
    assume "d \<in># ?R"
    then obtain q where "blob_plain ?c ?m d = Some q" using present by blast
    then show "?m d \<noteq> None" by (rule blob_plain_not_None)
  next
    assume "?m d \<noteq> None"
    then show "d \<in># ?R" using absent [OF dd] by metis
  qed
  show ?thesis
    unfolding thread_step.simps wp_seq wp_encode_blob [OF blob(1)]
  proof (rule wp_blob_section [OF I(3) _ dd blob(3)], goal_cases)
    case 1
    then show ?case using I(4) by (simp add: unlocked_def)
  next
    case b: (2 b)
    let ?t = "StoreCount d p (?m d \<noteq> None)"
    have out': "same_outside (\<lambda>k. k = d) ?m (kv b)" using b(2) by simp
    have keep: "blob_plain ?c (kv b) e = blob_plain ?c ?m e" if "e \<in># ?R" for e
      using b(2) found that by (intro blob_plain_cong) auto
    have plain: "blob_plain ?c (kv b) d = Some p"
    proof (cases "d \<in># ?R")
      case True
      then show ?thesis using present [OF True] same_chunk [OF p] d keep [OF True] by metis
    next
      case False
      then show ?thesis using b(2) found blob by (simp add: blob_plain_def)
    qed
    have "pool_inv E kv ok U len M s0 (s\<lparr>st_backend := b\<rparr>, add_mset ?t T)"
    proof (rule pool_invI, goal_cases)
      case 2
      then show ?case using I(2) out' dd by (auto simp: same_outside_def)
    next
      case (7 t)
      then show ?case using I(7) d p by auto
    next
      case 9
      then show ?case using I(9) disk_refs_cong [OF out'] dd by simp (metis digest_key_class(2))
    next
      case (10 e r)
      then show ?case using I(10) by simp
    next
      case (11 e)
      then show ?case using absent [of e] out' by (auto simp: same_outside_def)
    next
      case (12 e)
      then show ?case using present [of e] keep [of e] plain p d by (cases "e = d") auto
    next
      case (13 e)
      then show ?case using once [of e] found by auto
    qed (use I b(1) in \<open>simp_all add: chunk_frame_def unlocked_def\<close>)
    then show ?case by (simp add: wp_ret)
  qed
qed

lemma step_count:
  assumes inv: "pool_inv E kv ok U len M s0 (s, add_mset (StoreCount d p found) T)"
    and room: "size M + size (add_mset (StoreCount d p found) T) < 2 ^ 64"
  shows "wp (thread_step E (StoreCount d p found)) s (\<lambda>t' s'. pool_inv E kv ok U len M s0 (s', add_mset t' T))"
proof -
  let ?m = "kv (st_backend s)" and ?c = "st_codec s" and ?R = "M + refs_past 2 T"
  note I = pool_invD [OF inv]
  have d: "d = digest_hex (dp_sha E) p" and p: "p \<in> U"
    using I(7) [of "StoreCount d p found"] by simp_all
  have refs: "refs_match (get_ref (guarded (st_refcount s))) ?R" using I(8) by simp
  have dd: "is_chunk_digest d" using digest_is_chunk_digest [OF sha] d by simp
  have len_d: "len d = length p" using lengths [OF p] d by simp
  have "size (refs_past 2 T) \<le> size T"
    by (simp add: refs_past_def size_filter_mset_lesseq)
  then have bound: "Suc (size ?R) < 2 ^ 64" using room by simp
  show ?thesis
    unfolding thread_step.simps wp_seq
  proof (rule wp_refcount_section [OF I(3) _ dd refs bound _ I(9)], goal_cases)
    case 1
    then show ?case using I(4) by (simp add: unlocked_def)
  next
    case (2 r)
    then show ?case using I(10) [OF 2] len_d by simp
  next
    case b: (3 b rc')
    let ?s = "s\<lparr>st_refcount := (st_refcount s)\<lparr>guarded := rc'\<rparr>, st_backend := b\<rparr>"
    have same: "kv b e = ?m e" if "is_chunk_digest e" for e
      using b(2) that by (simp add: same_outside_def)
    have "pool_inv E kv ok U len M s0 (?s, add_mset (StoreStats d p found) T)"
    proof (rule pool_invI, goal_cases)
      case 2
      then show ?case using I(2) b(2) by (auto simp: same_outside_def)
    next
      case (7 t)
      then show ?case using I(7) d p by auto
    next
      case 8
      then show ?case using refs_match_add [OF refs, of d "len64 p"] b(3) by simp
    next
      case (10 e r)
      then show ?case using I(10) [of e r] b(3) len_d by (auto split: if_splits)
    next
      case (11 e)
      then show ?case using I(11) [of e] same by simp
    next
      case (12 e)
      then obtain q where q: "q \<in> U" "blob_plain ?c ?m e = Some q" "digest_hex (dp_sha E) q = e"
        using I(12) [of e] by auto
      then have "is_chunk_digest e" using digest_is_chunk_digest [OF sha] by blast
      then show ?case
        using q blob_plain_cong [of "kv b" e ?m] same by auto
    next
      case (13 e)
      then show ?case using I(13) [of e] by (cases found) simp_all
    qed (use I b in \<open>simp_all add: chunk_frame_def unlocked_def\<close>)
    then show ?case by (simp add: wp_ret)
  qed
qed

lemma step_stats:
  assumes inv: "pool_inv E kv ok U len M s0 (s, add_mset (StoreStats d p found) T)"
  shows "wp (thread_step E (StoreStats d p found)) s (\<lambda>t' s'. pool_inv E kv ok U len M s0 (s', add_mset t' T))"
proof -
  note I = pool_invD [OF inv]
  have d: "d = digest_hex (dp_sha E) p" and p: "p \<in> U"
    using I(7) [of "StoreStats d p found"] by simp_all
  have len_d: "len d = length p" using lengths [OF p] d by simp
  have add: "ref_bytes len (add_mset d N) = length p + ref_bytes len N" for N
    by (simp add: ref_bytes_def len_d)
  let ?st = "guarded (st_stats s)"
  let ?st' = "if found then add_reference (len64 p) ?st else add_unique_chunk (len64 p) ?st"
  let ?s = "s\<lparr>st_stats := (st_stats s)\<lparr>guarded := ?st'\<rparr>\<rparr>"
  have "pool_inv E kv ok U len M s0 (?s, add_mset (Stored d p found) T)"
  proof (rule pool_invI, goal_cases)
    case (7 t)
    then show ?case using I(7) d p by auto
  next
    case (10 e r)
    then show ?case using I(10) [of e r] by simp
  next
    case (11 e)
    then show ?case using I(11) [of e] by simp
  next
    case (12 e)
    then show ?case using I(12) [of e] by simp
  next
    case (13 e)
    then show ?case using I(13) [of e] by (cases found) simp_all
  qed (use I in \<open>simp_all add: chunk_frame_def unlocked_def stats_defs add len_d\<close>)
  then show ?thesis
    using I(4) by (simp add: stats_section_def wp_rules unlocked_def)
qed

lemma storing_step_digest:
  "storing sha V t \<Longrightarrow> thread_step E t s = (Ok t', s') \<Longrightarrow> chunk_digest t' = chunk_digest t"
  by (cases t) (auto simp: ret_def elim!: seq_OkE)

lemma storing_section:
  assumes inv: "pool_inv E kv ok U len M s0 (s, add_mset t T)" and "running t"
    and "size M + size (add_mset t T) < 2 ^ 64"
  shows "wp (thread_step E t) s (\<lambda>t' s'. pool_inv E kv ok U len M s0 (s', add_mset t' T))"
  using assms pool_invD(7) [OF inv, of t] step_blob step_count step_stats by (cases t) auto

text \<open>Every step of a pool of storing threads keeps the invariant, and none fails.\<close>

lemma pool_step_inv:
  assumes "pool_step E (s, T) (s', T')" and inv: "pool_inv E kv ok U len M s0 (s, T)"
    and room: "size M + size T < 2 ^ 64"
  shows "pool_inv E kv ok U len M s0 (s', T') \<and> image_mset chunk_digest T' = image_mset chunk_digest T"
proof -
  have step: "wp (thread_step E t) s (\<lambda>t' s'. pool_inv E kv ok U len M s0 (s', add_mset t' T0))"
    if "T = add_mset t T0" and "running t" for t T0
    using storing_section [of M s0 s t T0] inv room that by simp
  from assms(1) show ?thesis
    using pool_invD(7) [OF inv] by (cases rule: pool_stepE)
      (auto simp: wp_iff dest!: step, metis storing_step_digest union_single_eq_member)
qed

lemma pool_runs_inv:
  assumes "pool_runs E (s, T) (s', T')" and "pool_inv E kv ok U len M s0 (s, T)"
    and "size M + size T < 2 ^ 64"
  shows "pool_inv E kv ok U len M s0 (s', T') \<and> image_mset chunk_digest T' = image_mset chunk_digest T"
  using assms(1)
proof (induction rule: rtranclp_induct2)
  case refl
  then show ?case using assms(2) by simp
next
  case (step s1 T1 s2 T2)
  have "size T1 = size T" using step.IH by (metis size_image_mset)
  then show ?case
    using pool_step_inv [OF step.hyps(2) conjunct1 [OF step.IH]] step.IH assms(3) by simp
qed

text \<open>A thread that has not ended can always go on.\<close>

lemma pool_progress:
  assumes inv: "pool_inv E kv ok U len M s0 (s, T)" and room: "size M + size T < 2 ^ 64"
    and t: "t \<in># T" "running t"
  shows "\<exists>t' s'. pool_step E (s, T) (s', add_mset t' (T - {#t#})) \<and> stage t' = Suc (stage t)"
proof -
  have T: "T = add_mset t (T - {#t#})" using t(1) by simp
  have st: "storing (dp_sha E) U t" using pool_invD(7) [OF inv t(1)] .
  have "wp (thread_step E t) s (\<lambda>t' s'. pool_inv E kv ok U len M s0 (s', add_mset t' (T - {#t#})))"
    by (rule storing_section) (use inv room t in simp_all)
  then obtain t' s' where s': "thread_step E t s = (Ok t', s')" by (auto simp: wp_iff)
  then have "stage t' = Suc (stage t)"
    using st t(2) by (cases t) (auto simp: ret_def elim!: seq_OkE)
  then show ?thesis using pool_step.enters [OF t(2) s', of "T - {#t#}"] T by metis
qed

text \<open>Before the threads start, and after they all have ended.\<close>

lemma pool_start:
  assumes inv: "chunk_inv E (kv (st_backend s)) M s" and ok: "ok (st_backend s)"
    and old: "stored_plain (st_codec s) (kv (st_backend s)) \<subseteq> U" and new: "set_mset P \<subseteq> U"
  shows "pool_inv E kv ok U len M s (s, store_threads (dp_sha E) P)"
proof -
  note I = chunk_invD [OF inv]
  have none: "refs_past n (store_threads (dp_sha E) P) = {#}" "written n (store_threads (dp_sha E) P) = {#}" if "0 < n" for n
    using that by (induction P) (simp_all add: store_threads_def, simp_all add: refs_past_def written_def)
  have plain: "\<exists>p\<in>U. blob_plain (st_codec s) (kv (st_backend s)) d = Some p \<and> digest_hex (dp_sha E) p = d \<and>
      plain_len (st_codec s) (kv (st_backend s)) d = len d" if "d \<in># M" for d
  proof -
    note dM = that
    obtain p where p: "is_chunk_digest d" "blob_plain (st_codec s) (kv (st_backend s)) d = Some p"
        "digest_hex (dp_sha E) p = d"
      using chunk_inv_member [OF inv dM] by metis
    then have "p \<in> U" using old by (auto simp: stored_plain_def)
    then show ?thesis using p lengths by (auto simp: plain_len_def)
  qed
  have len: "plain_len (st_codec s) (kv (st_backend s)) d = len d" if "d \<in># M" for d
    using plain [OF that] by blast
  note sums = ref_bytes_cong [of M "plain_len (st_codec s) (kv (st_backend s))" len, OF len]
    unique_bytes_cong [of M "plain_len (st_codec s) (kv (st_backend s))" len, OF len]
  show ?thesis
  proof (rule pool_invI, goal_cases)
    case (7 t)
    then show ?case using new by (auto simp: store_threads_def)
  next
    case (10 d r)
    then have "d \<in># M" using refs_match_None_iff [OF I(5), of d] by auto
    moreover obtain r' p where "get_ref (guarded (st_refcount s)) d = Some r'"
        "blob_plain (st_codec s) (kv (st_backend s)) d = Some p" "cr_size r' = len64 p"
      using chunk_inv_member [OF inv \<open>d \<in># M\<close>] by metis
    ultimately show ?case using plain [of d] 10 by (auto simp: plain_len_def)
  next
    case (11 d)
    then show ?case using chunk_inv_absent(1) [OF inv] none by simp
  next
    case 14
    then show ?case
      using I(8) none sums by (simp add: stats_match_def)
  next
    case 15
    then show ?case
      using I(8) none sums by (simp add: stats_match_def) (simp add: ref_bytes_def)
  next
    case (12 d)
    then have "d \<in># M" using none by simp
    then show ?case using plain by blast
  qed (use I ok none in \<open>auto\<close>)
qed

lemma unique_union:
  assumes "\<And>d. count N d = (if d \<in># R \<and> d \<notin># M then 1 else 0)"
  shows "unique_bytes f M + ref_bytes f N = unique_bytes f (M + R)"
proof -
  have "N = mset_set (set_mset R - set_mset M)"
    by (rule multiset_eqI) (simp add: assms count_mset_set')
  then have "ref_bytes f N = (\<Sum>d \<in> set_mset R - set_mset M. f d)"
    by (simp add: ref_bytes_def sum_unfold_sum_mset)
  moreover have "sum f (set_mset M \<union> (set_mset R - set_mset M)) = sum f (set_mset M) + sum f (set_mset R - set_mset M)"
    by (rule sum.union_disjoint) auto
  ultimately show ?thesis
    unfolding unique_bytes_def by simp
qed

lemma pool_done:
  assumes inv: "pool_inv E kv ok U len M s0 (s, T)" and ended: "\<And>t. t \<in># T \<Longrightarrow> stage t = 3"
    and room: "size M + size T < 2 ^ 64" and total: "ref_bytes len (M + refs_past 3 T) < 2 ^ 64"
  shows "chunk_inv E (kv (st_backend s)) (M + image_mset chunk_digest T) s"
proof -
  note I = pool_invD [OF inv]
  let ?m = "kv (st_backend s)" and ?c = "st_codec s" and ?R = "M + image_mset chunk_digest T"
  have all: "refs_past n T = image_mset chunk_digest T" "written n T = written 1 T" if "n \<le> 3" "0 < n" for n
  proof -
    have "filter_mset (\<lambda>t. n \<le> stage t) T = T"
      using ended that by (simp add: filter_mset_eq_conv)
    then show "refs_past n T = image_mset chunk_digest T" by (simp add: refs_past_def)
    have "filter_mset (\<lambda>t. n \<le> stage t \<and> wrote_blob t) T = filter_mset (\<lambda>t. 1 \<le> stage t \<and> wrote_blob t) T"
      using ended that by (intro filter_mset_cong) auto
    then show "written n T = written 1 T" by (simp add: written_def)
  qed
  have plain: "\<exists>p\<in>U. blob_plain ?c ?m d = Some p \<and> digest_hex (dp_sha E) p = d \<and> plain_len ?c ?m d = len d"
    if "d \<in># ?R" for d
  proof -
    have "d \<in># M + refs_past 1 T" using that all(1) [of 1] by simp
    then obtain p where p: "p \<in> U" "blob_plain ?c ?m d = Some p" "digest_hex (dp_sha E) p = d"
      using I(12) by blast
    then have "plain_len ?c ?m d = len d" using lengths [OF p(1)] by (simp add: plain_len_def)
    then show ?thesis using p by blast
  qed
  have refs: "refs_match (get_ref (guarded (st_refcount s))) ?R" using I(8) all(1) [of 2] by simp
  have blobs: "blobs_match (dp_sha E) ?c ?m (get_ref (guarded (st_refcount s)))"
    unfolding blobs_match_def
  proof (intro conjI allI impI)
    fix d
    assume "is_chunk_digest d" "get_ref (guarded (st_refcount s)) d = None"
    then show "?m d = None" using I(11) [of d] refs_match_None_iff [OF refs, of d] all(1) [of 1] by simp
  next
    fix d r
    assume r: "get_ref (guarded (st_refcount s)) d = Some r"
    then have "d \<in># ?R" using refs_match_None_iff [OF refs, of d] by auto
    then show "\<exists>p. blob_plain ?c ?m d = Some p \<and> digest_hex (dp_sha E) p = d \<and> cr_size r = len64 p"
      using plain [of d] I(10) [OF r] by (auto simp: plain_len_def)
  qed
  have len: "plain_len ?c ?m d = len d" if "d \<in># ?R" for d using plain [OF that] by blast
  have "stats_match (guarded (st_stats s)) (plain_len ?c ?m) ?R"
    using I(14,15) all [of 3] all(1) [of 1] total unique_union [of "written 1 T" "image_mset chunk_digest T" M len]
      I(13) ref_bytes_cong [of ?R "plain_len ?c ?m" len] unique_bytes_cong [of ?R "plain_len ?c ?m" len] len
    unfolding stats_match_def by (simp del: of_nat_add)
  then show ?thesis
    using I(4,5,6,9) refs blobs room by (simp add: chunk_inv_def)
qed

end

section \<open>A store and a release of the same chunk\<close>

text \<open>
  The last reference to a chunk goes while another thread, which has found the blob, has not
  counted its own yet: the blob is deleted under a reference that is then counted.
\<close>

context store_env
begin

lemma race_loses_blob:
  assumes inv: "chunk_inv E (kv (st_backend s)) (add_mset d N) s" and ok: "ok (st_backend s)"
    and last: "d \<notin># N" and d: "d = digest_hex (dp_sha E) p" and ne: "p \<noteq> []"
  shows "\<exists>s'. pool_runs E (s, {#StoreBlob d p, ReleaseSize d#}) (s', {#Stored d p True, Released d#}) \<and>
     kv (st_backend s') d = None \<and>
     get_ref (guarded (st_refcount s')) d = Some \<lparr>cr_count = 1, cr_size = len64 p\<rparr> \<and>
     disk_refs (dp_json E) (kv (st_backend s')) (get_ref (guarded (st_refcount s'))) \<and>
     ok (st_backend s') \<and> unlocked s' \<and> chunk_frame s s'"
proof -
  note I = chunk_invD [OF inv]
  have dd: "is_chunk_digest d" using digest_is_chunk_digest [OF sha] d by simp
  obtain blob where blob: "encode_opt (st_codec s) p = Ok blob" "blob \<noteq> []"
    using codec_okE [OF I(2), of p] ne by metis
  have found: "kv (st_backend s) d \<noteq> None" using chunk_inv_present [OF inv dd] by simp
  have "wp (thread_step E (StoreBlob d p)) s (\<lambda>t s1. t = StoreCount d p True \<and>
      (\<exists>b. s1 = s\<lparr>st_backend := b\<rparr> \<and> ok b \<and> kv b = kv (st_backend s)))"
    unfolding thread_step.simps wp_seq wp_encode_blob [OF blob(1)]
    by (rule wp_blob_section [OF ok _ dd blob(2)]) (use I(1) found in \<open>auto simp: unlocked_def wp_ret\<close>)
  then obtain b where b: "thread_step E (StoreBlob d p) s = (Ok (StoreCount d p True), s\<lparr>st_backend := b\<rparr>)"
      "ok b" "kv b = kv (st_backend s)"
    by (auto simp: wp_iff)
  let ?s1 = "s\<lparr>st_backend := b\<rparr>"
  have inv1: "chunk_inv E (kv (st_backend ?s1)) (add_mset d N) ?s1"
    using inv b(3) by (simp add: chunk_inv_def unlocked_def)
  have "wp (release_digest E d) ?s1 (\<lambda>_ s2. ok (st_backend s2) \<and> chunk_frame ?s1 s2 \<and>
      chunk_inv E (kv (st_backend s2)) N s2 \<and> kv (st_backend s2) d = None)"
    by (rule wp_release_digest [OF inv1]) (use b(2) last in simp_all)
  then obtain s2 where s2: "release_digest E d ?s1 = (Ok (), s2)" "ok (st_backend s2)" "chunk_frame ?s1 s2"
      "chunk_inv E (kv (st_backend s2)) N s2" "kv (st_backend s2) d = None"
    by (auto simp: wp_iff)
  note I2 = chunk_invD [OF s2(4)]
  have none: "get_ref (guarded (st_refcount s2)) d = None"
    using refs_match_None_iff [OF I2(5)] last by simp
  have "Suc (size N) < 2 ^ 64" using I(3) by simp
  then have "wp (thread_step E (StoreCount d p True)) s2 (\<lambda>t s3. t = StoreStats d p True \<and>
      ok (st_backend s3) \<and> chunk_frame s2 s3 \<and> unlocked s3 \<and> kv (st_backend s3) d = None \<and>
      get_ref (guarded (st_refcount s3)) d = Some \<lparr>cr_count = 1, cr_size = len64 p\<rparr> \<and>
      disk_refs (dp_json E) (kv (st_backend s3)) (get_ref (guarded (st_refcount s3))))"
    unfolding thread_step.simps wp_seq
  proof (intro wp_refcount_section [OF s2(2) _ dd I2(5) _ _ I2(7)], goal_cases)
    case (4 b' rc')
    then show ?case
      using s2(5) dd I2(1) last by (auto simp: wp_ret chunk_frame_def unlocked_def same_outside_def not_in_iff)
  qed (use I2(1) none in \<open>auto simp: unlocked_def\<close>)
  then obtain s3 where s3: "thread_step E (StoreCount d p True) s2 = (Ok (StoreStats d p True), s3)"
      "ok (st_backend s3)" "chunk_frame s2 s3" "unlocked s3" "kv (st_backend s3) d = None"
      "get_ref (guarded (st_refcount s3)) d = Some \<lparr>cr_count = 1, cr_size = len64 p\<rparr>"
      "disk_refs (dp_json E) (kv (st_backend s3)) (get_ref (guarded (st_refcount s3)))"
    by (auto simp: wp_iff)
  let ?s4 = "s3\<lparr>st_stats := (st_stats s3)\<lparr>guarded := add_reference (len64 p) (guarded (st_stats s3))\<rparr>\<rparr>"
  have "wp (thread_step E (StoreStats d p True)) s3 (\<lambda>t s4. t = Stored d p True \<and> s4 = ?s4)"
    using s3(4) by (simp add: stats_section_def wp_rules unlocked_def)
  then have s4: "thread_step E (StoreStats d p True) s3 = (Ok (Stored d p True), ?s4)"
    by (auto simp: wp_iff)
  have "pool_runs E (s, {#StoreBlob d p, ReleaseSize d#}) (?s1, {#StoreCount d p True, ReleaseSize d#})"
    by (rule pool_runs_step [OF _ b(1)]) simp_all
  moreover have "pool_runs E (?s1, {#StoreCount d p True, ReleaseSize d#}) (s2, {#StoreCount d p True, Released d#})"
    using release_alone [OF s2(1), of "{#StoreCount d p True#}"] by (simp add: add_mset_commute)
  moreover have "pool_runs E (s2, {#StoreCount d p True, Released d#}) (?s4, {#Stored d p True, Released d#})"
    by (rule pool_runs_step [OF _ s3(1)], simp, rule pool_runs_step [OF _ s4]) simp_all
  ultimately have "pool_runs E (s, {#StoreBlob d p, ReleaseSize d#}) (?s4, {#Stored d p True, Released d#})"
    by (meson rtranclp_trans)
  then show ?thesis
    using s2(3) s3 by (intro exI [of _ ?s4]) (simp add: chunk_frame_def unlocked_def)
qed

lemma read_missing_blob:
  assumes "ok (st_backend s)" and "is_chunk_digest d" and "kv (st_backend s) d = None"
  shows "fst (read_chunk E d s) = Err (NotFound (''chunk '' @ d))"
  unfolding read_chunk_def by (rule read_chunk_missing [OF assms])

end

end
