(* ===== verification/Thread_Properties.thy ===== *)
theory Thread_Properties
  imports Sample Store_Threads
begin

text \<open>The properties of concurrent use: several threads on one store.\<close>

section \<open>Concurrent ingests\<close>

text \<open>The length of the chunk of a digest, on chunks whose digests differ.\<close>

definition chunk_len :: "hash_fun \<Rightarrow> bytes set \<Rightarrow> string \<Rightarrow> nat" where
  "chunk_len sha U d = length (inv_into U (digest_hex sha) d)"

lemma chunk_len_digest:
  assumes "inj_on sha U" and "p \<in> U"
  shows "chunk_len sha U (digest_hex sha p) = length p"
proof -
  have "inj_on (digest_hex sha) U"
    using assms(1) by (auto simp: inj_on_def digest_hex_eq_iff)
  then show ?thesis using assms(2) by (simp add: chunk_len_def)
qed

lemma chunk_pool_of:
  assumes "store_env E kv ok valid" and "inj_on (dp_sha E) U" and "[] \<notin> U"
  shows "chunk_pool E kv ok valid U (chunk_len (dp_sha E) U)"
  using assms chunk_len_digest [OF assms(2)] by (simp add: chunk_pool_def chunk_pool_axioms_def)

interpretation sample_pool: chunk_pool sample_deps memory_kv memory_ok "\<lambda>_. True" short
  "chunk_len sample_sha short"
  using chunk_pool_of [OF sample.store_env_axioms] short_inj by simp

lemma ref_bytes_digests:
  assumes "chunk_pool E kv ok valid U len" and "set_mset P \<subseteq> U"
  shows "ref_bytes len (image_mset (digest_hex (dp_sha E)) P) = (\<Sum>p\<in>#P. length p)"
  using assms(2) chunk_pool.lengths [OF assms(1)] by (induction P) (auto simp: ref_bytes_def)

text \<open>No thread has failed, each has its blob after the first section, and each that has not ended can go on.\<close>

lemma pool_threads_ok:
  assumes pool: "chunk_pool E kv ok valid U len" and inv: "pool_inv E kv ok U len M s (s', T)"
    and room: "size M + size T < 2 ^ 64" and t: "t \<in># T"
  shows "t \<noteq> Failed \<and>
      (1 \<le> stage t \<longrightarrow> (\<exists>p \<in> U. store_plain kv s' (chunk_digest t) = Some p \<and>
                              chunk_digest t = digest_hex (dp_sha E) p)) \<and>
      (running t \<longrightarrow> (\<exists>t' s''. pool_step E (s', T) (s'', add_mset t' (T - {#t#})) \<and> stage t' = Suc (stage t)))"
proof (intro conjI impI)
  note J = pool_invD [OF inv]
  show "t \<noteq> Failed" using J(7) [OF t] by (cases t) auto
  assume "1 \<le> stage t"
  then have "chunk_digest t \<in># refs_past 1 T" using t by (auto simp: refs_past_def)
  then show "\<exists>p \<in> U. store_plain kv s' (chunk_digest t) = Some p \<and> chunk_digest t = digest_hex (dp_sha E) p"
    using J(12) [of "chunk_digest t"] by auto
next
  assume "running t"
  then show "\<exists>t' s''. pool_step E (s', T) (s'', add_mset t' (T - {#t#})) \<and> stage t' = Suc (stage t)"
    by (rule chunk_pool.pool_progress [OF pool inv room t])
qed

lemma total_as_chunk_lens:
  assumes inv: "store_inv E kv ok valid s" and U: "inj_on (dp_sha E) U"
    and stored: "stored_plain (st_codec s) (kv (st_backend s)) \<subseteq> U"
  shows "unat (total_bytes (guarded (st_stats s))) = ref_bytes (chunk_len (dp_sha E) U) (store_refs s)"
proof -
  have "plain_len (st_codec s) (kv (st_backend s)) d = chunk_len (dp_sha E) U d" if d: "d \<in># store_refs s" for d
  proof -
    obtain p where "is_chunk_digest d" "store_plain kv s d = Some p" "digest_hex (dp_sha E) p = d"
      using chunk_inv_member [OF store_invD(5) [OF inv] d] .
    then show ?thesis
      using stored chunk_len_digest [OF U, of p] by (auto simp: plain_len_def stored_plain_def)
  qed
  then show ?thesis using store_inv_total [OF inv] ref_bytes_cong by metis
qed

text \<open>
  C39.  Invariant.  Any number of threads store chunks at the same time, equal ones included, and
  interleave as they like between the sections of \<open>store_chunk\<close>.  At every moment no thread has
  failed, the blob of each thread that has passed the first section is there and decodes to its
  chunk, and a thread that has not ended can take its next section.  When all have ended the
  counts, the records, the blobs and both byte totals are those of the store with all the
  references added, as if the threads had run one after the other, and manifests are untouched.
\<close>

theorem concurrent_ingests_account:
  assumes "store_env E kv ok valid" and "store_inv E kv ok valid s"
    and "inj_on (dp_sha E) U" and "[] \<notin> U"
    and "stored_plain (st_codec s) (kv (st_backend s)) \<subseteq> U" and "set_mset P \<subseteq> U"
    and "size (store_refs s) + size P < 2 ^ 64"
    and "unat (total_bytes (guarded (st_stats s))) + (\<Sum>p\<in>#P. length p) < 2 ^ 64"
    and "pool_runs E (s, store_threads (dp_sha E) P) (s', T)"
  shows "(\<forall>t \<in># T. t \<noteq> Failed \<and>
            (1 \<le> stage t \<longrightarrow> (\<exists>p \<in> U. store_plain kv s' (chunk_digest t) = Some p \<and>
                                    chunk_digest t = digest_hex (dp_sha E) p)) \<and>
            (running t \<longrightarrow> (\<exists>t' s''. pool_step E (s', T) (s'', add_mset t' (T - {#t#})) \<and>
                                  stage t' = Suc (stage t)))) \<and>
         ((\<forall>t \<in># T. \<not> running t) \<longrightarrow>
            chunk_inv E (kv (st_backend s')) (store_refs s + image_mset (digest_hex (dp_sha E)) P) s') \<and>
         chunk_frame s s'"
proof -
  let ?M = "store_refs s" and ?len = "chunk_len (dp_sha E) U"
  note I = store_invD [OF assms(2)]
  have pool: "chunk_pool E kv ok valid U ?len" by (rule chunk_pool_of [OF assms(1,3,4)])
  have room: "size ?M + size (store_threads (dp_sha E) P) < 2 ^ 64"
    using assms(7) by (simp add: store_threads_def)
  have "pool_inv E kv ok U ?len ?M s (s, store_threads (dp_sha E) P)"
    by (rule chunk_pool.pool_start [OF pool I(5) I(1) assms(5,6)])
  from chunk_pool.pool_runs_inv [OF pool assms(9) this room]
  have inv: "pool_inv E kv ok U ?len ?M s (s', T)"
    and digests: "image_mset chunk_digest T = image_mset (digest_hex (dp_sha E)) P"
    by (simp_all add: store_threads_def image_mset.compositionality comp_def)
  have room': "size ?M + size T < 2 ^ 64"
    using assms(7) digests by (metis size_image_mset)
  note J = pool_invD [OF inv]
  have final: "chunk_inv E (kv (st_backend s')) (?M + image_mset (digest_hex (dp_sha E)) P) s'"
    if ended: "\<forall>t \<in># T. \<not> running t"
  proof -
    have stage: "stage t = 3" if "t \<in># T" for t
      using ended J(7) [OF that] that by (cases t) auto
    then have "filter_mset (\<lambda>t. 3 \<le> stage t) T = T" by (simp add: filter_mset_eq_conv)
    then have "refs_past 3 T = image_mset chunk_digest T" by (simp add: refs_past_def)
    then have "ref_bytes ?len (?M + refs_past 3 T) < 2 ^ 64"
      using assms(8) digests ref_bytes_digests [OF pool assms(6)] total_as_chunk_lens [OF assms(2,3,5)] by simp
    from chunk_pool.pool_done [OF pool inv stage room' this] show ?thesis using digests by simp
  qed
  show ?thesis using pool_threads_ok [OF pool inv room'] final J(1) by blast
qed

theorem concurrent_ingests_account_witness:
  "\<exists>s'. pool_runs sample_deps (empty_store, store_threads sample_sha {#[1], [1]#})
          (s', {#Stored (digest_hex sample_sha [1]) [1] False, Stored (digest_hex sample_sha [1]) [1] True#}) \<and>
        chunk_inv sample_deps (memory_kv (st_backend s')) {#digest_hex sample_sha [1], digest_hex sample_sha [1]#} s'"
proof -
  let ?d = "digest_hex sample_sha [1]"
  let ?inv = "\<lambda>M s. chunk_inv sample_deps (memory_kv (st_backend s)) M s \<and> memory_ok (st_backend s) \<and>
      unat (total_bytes (guarded (st_stats s))) \<le> size M \<and>
      (\<forall>q. store_plain memory_kv s ?d = Some q \<longrightarrow> q = [1])"
  have step: "\<exists>s'. store_chunk sample_deps ?d [1] s = (Ok (?d \<in># M), s') \<and> ?inv (add_mset ?d M) s'"
    if i: "?inv M s" and m: "Suc (size M) < 2 ^ 63" for M s
  proof -
    have "wp (store_chunk sample_deps ?d [1]) s (\<lambda>found s'. found = (?d \<in># M) \<and> ?inv (add_mset ?d M) s')"
      by (rule sample.wp_store_chunk [where M = M]) (use i m in \<open>auto simp: chunk_frame_def\<close>)
    then show ?thesis by (auto simp: wp_iff)
  qed
  have "?inv {#} empty_store"
    using store_invD(1,5) [OF empty_store_inv] by (simp add: blob_plain_def stats_default_def manifest_new_def)
  then obtain s1 where s1: "store_chunk sample_deps ?d [1] empty_store = (Ok False, s1)" "?inv {#?d#} s1"
    using step [where M = "{#}" and s = empty_store] by auto
  obtain s2 where s2: "store_chunk sample_deps ?d [1] s1 = (Ok True, s2)"
    using step [OF s1(2)] by auto
  let ?T = "{#Stored ?d [1] False, Stored ?d [1] True#}"
  have runs: "pool_runs sample_deps (empty_store, store_threads sample_sha {#[1], [1]#}) (s2, ?T)"
    using rtranclp_trans [OF store_alone [OF s1(1), of "{#StoreBlob ?d [1]#}"]
        store_alone [OF s2, of "{#Stored ?d [1] False#}", unfolded add_mset_commute [of "StoreBlob ?d [1]"]]]
    by (simp add: store_threads_def add_mset_commute)
  have "chunk_inv sample_deps (memory_kv (st_backend s2)) {#?d, ?d#} s2"
    using concurrent_ingests_account [OF sample.store_env_axioms empty_store_inv, of short "{#[1], [1]#}" s2 ?T]
      runs short_inj by (simp add: stats_default_def manifest_new_def)
  then show ?thesis using runs by blast
qed

section \<open>An ingest and a delete\<close>

text \<open>
  C40.  Safety.  Between an ingest and a delete the sections do not protect the blob.  When one
  thread stores a chunk whose only other reference a second thread releases, the schedule in
  which the first finds the blob, the second runs to its end, and the first goes on, ends with
  both threads successful, a reference count of 1 for the chunk, on the backend too, and no
  blob: the file that is then committed cannot be read.
\<close>

theorem ingest_delete_race_loses_chunk:
  assumes "store_env E kv ok valid" and "store_inv E kv ok valid s"
    and "store_refs s = add_mset d N" and "d \<notin># N" and "d = digest_hex (dp_sha E) p" and "p \<noteq> []"
  shows "\<exists>s'. pool_runs E (s, {#StoreBlob d p, ReleaseSize d#}) (s', {#Stored d p True, Released d#}) \<and>
     fst (chunk_refcount d s') = Ok (Some 1) \<and> fst (read_chunk E d s') = Err (NotFound (''chunk '' @ d))"
proof -
  have inv: "chunk_inv E (kv (st_backend s)) (add_mset d N) s"
    using store_invD(5) [OF assms(2)] assms(3) by simp
  obtain s' where s': "pool_runs E (s, {#StoreBlob d p, ReleaseSize d#}) (s', {#Stored d p True, Released d#})"
      "kv (st_backend s') d = None"
      "get_ref (guarded (st_refcount s')) d = Some \<lparr>cr_count = 1, cr_size = len64 p\<rparr>"
      "ok (st_backend s')" "unlocked s'"
    using store_env.race_loses_blob [OF assms(1) inv store_invD(1) [OF assms(2)] assms(4-6)] by blast
  have "is_chunk_digest d"
    using digest_is_chunk_digest store_env.sha [OF assms(1)] assms(5) by blast
  then have "fst (read_chunk E d s') = Err (NotFound (''chunk '' @ d))"
    by (rule store_env.read_missing_blob [OF assms(1) s'(4) _ s'(2)])
  moreover have "fst (chunk_refcount d s') = Ok (Some 1)"
    using s'(3,5) by (simp add: chunk_refcount_def on_refcount_def with_lock_def zoom_def rc_get_def get_ref_def unlocked_def)
  ultimately show ?thesis using s'(1) by blast
qed

theorem ingest_delete_race_loses_chunk_witness:
  "\<exists>s'. pool_runs sample_deps (one_file, {#StoreBlob (digest_hex sample_sha [3]) [3], ReleaseSize (digest_hex sample_sha [3])#})
          (s', {#Stored (digest_hex sample_sha [3]) [3] True, Released (digest_hex sample_sha [3])#}) \<and>
        fst (read_chunk sample_deps (digest_hex sample_sha [3]) s') = Err (NotFound (''chunk '' @ digest_hex sample_sha [3]))"
proof -
  have "store_refs one_file = mset (map (digest_hex sample_sha) [[1, 2], [3]])"
    using one_file_ingested by (simp add: ingested_def manifest_new_def)
  then have refs: "store_refs one_file = add_mset (digest_hex sample_sha [3]) {#digest_hex sample_sha [1, 2]#}"
    by (simp add: add_mset_commute)
  have other: "digest_hex sample_sha [3] \<notin># {#digest_hex sample_sha [1, 2]#}"
    by (simp add: digest_hex_eq_iff sample_sha_def)
  show ?thesis
    using ingest_delete_race_loses_chunk [OF sample.store_env_axioms one_file_inv refs other, of "[3]"] by auto
qed

end
