(* ===== verification/Backend_Faults.thy ===== *)
theory Backend_Faults
  imports Persistence_Laws
begin

text \<open>
  Backends whose calls may fail.  A call on a \<open>faulty_backend\<close> does its work or returns an error
  and leaves the map as it was; which of the two is up to the backend, so a disk that is full, a
  network that comes and goes and a process that dies at any write are all such backends.  Under
  each persistence routine the records then say what they said before, or what they are to say.
\<close>

locale faulty_backend =
  fixes B :: "'b backend_ops"
    and kv :: "'b \<Rightarrow> string \<rightharpoonup> bytes"
    and ok :: "'b \<Rightarrow> bool"
    and valid :: "string \<Rightarrow> bool"
  assumes get_fault:
      "ok b \<Longrightarrow> valid k \<Longrightarrow>
         returns (be_get B k) b (\<lambda>r b'. r = kv b k \<and> ok b' \<and> kv b' = kv b) (\<lambda>b'. ok b' \<and> kv b' = kv b)"
    and put_fault:
      "ok b \<Longrightarrow> valid k \<Longrightarrow> v \<noteq> [] \<Longrightarrow>
         returns (be_put B k v) b (\<lambda>_ b'. ok b' \<and> kv b' = (kv b)(k \<mapsto> v)) (\<lambda>b'. ok b' \<and> kv b' = kv b)"
    and exists_fault:
      "ok b \<Longrightarrow> valid k \<Longrightarrow>
         returns (be_exists B k) b (\<lambda>r b'. r = (kv b k \<noteq> None) \<and> ok b' \<and> kv b' = kv b)
           (\<lambda>b'. ok b' \<and> kv b' = kv b)"
    and delete_fault:
      "ok b \<Longrightarrow> valid k \<Longrightarrow>
         returns (be_delete B k) b (\<lambda>_ b'. ok b' \<and> kv b' = (kv b)(k := None)) (\<lambda>b'. ok b' \<and> kv b' = kv b)"
begin

text \<open>An error leaves the map where it was, so the recovery condition is always about the current map.\<close>

lemma returns_get:
  assumes "ok b" and "valid k" and "\<And>b'. ok b' \<Longrightarrow> kv b' = kv b \<Longrightarrow> P (kv b k) b'"
    and "\<And>b'. ok b' \<Longrightarrow> kv b' = kv b \<Longrightarrow> R b'"
  shows "returns (be_get B k) b P R"
  by (rule returns_mono [OF get_fault [OF assms(1,2)]]) (use assms(3,4) in auto)

lemma returns_put:
  assumes "ok b" and "valid k" and "v \<noteq> []"
    and "\<And>b'. ok b' \<Longrightarrow> kv b' = (kv b)(k \<mapsto> v) \<Longrightarrow> P () b'"
    and "\<And>b'. ok b' \<Longrightarrow> kv b' = kv b \<Longrightarrow> R b'"
  shows "returns (be_put B k v) b P R"
  by (rule returns_mono [OF put_fault [OF assms(1-3)]]) (use assms(4,5) in auto)

lemma returns_exists:
  assumes "ok b" and "valid k" and "\<And>b'. ok b' \<Longrightarrow> kv b' = kv b \<Longrightarrow> P (kv b k \<noteq> None) b'"
    and "\<And>b'. ok b' \<Longrightarrow> kv b' = kv b \<Longrightarrow> R b'"
  shows "returns (be_exists B k) b P R"
  by (rule returns_mono [OF exists_fault [OF assms(1,2)]]) (use assms(3,4) in auto)

end

text \<open>A backend that never fails is one.\<close>

sublocale kv_backend \<subseteq> faulty: faulty_backend B kv ok valid
  by unfold_locales
    (use get_law put_law exists_law delete_law in \<open>fastforce simp: returns_iff\<close>)+

section \<open>A process that dies\<close>

text \<open>
  \<open>crashing B\<close> lets \<open>n\<close> writes through, with \<open>n\<close> beside the backend's state, and fails every write
  after them: the state at the end is that of a backend whose client died before write \<open>n + 1\<close>.
\<close>

definition counted :: "('b, 'a) act \<Rightarrow> ('b \<times> nat, 'a) act" where
  "counted m = zoom fst (\<lambda>b (_, n). (b, n)) m"

definition write_or_die :: "('b, 'a) act \<Rightarrow> ('b \<times> nat, 'a) act" where
  "write_or_die m =
     (\<lambda>(b, n). if n = 0 then (Err (IoError ''process killed''), (b, 0))
               else (case m b of (r, b') \<Rightarrow> (r, (b', n - 1))))"

definition crashing :: "'b backend_ops \<Rightarrow> ('b \<times> nat) backend_ops" where
  "crashing B =
     \<lparr>be_get = (\<lambda>key. counted (be_get B key)), be_put = (\<lambda>key v. write_or_die (be_put B key v)),
      be_exists = (\<lambda>key. counted (be_exists B key)), be_delete = (\<lambda>key. write_or_die (be_delete B key)),
      be_list_keys = (\<lambda>prefix. counted (be_list_keys B prefix))\<rparr>"

text \<open>Whatever the backend, a client that may die at any write sees a faulty one.\<close>

sublocale kv_backend \<subseteq> crash: faulty_backend "crashing B" "kv \<circ> fst" "ok \<circ> fst" valid
proof (unfold_locales, goal_cases)
  case (1 x k)
  then show ?case using get_law [of "fst x" k]
    by (auto simp: crashing_def counted_def zoom_def returns_def split: prod.splits)
next
  case (2 x k v)
  then show ?case using put_law [of "fst x" k v]
    by (cases x) (auto simp: crashing_def write_or_die_def returns_def)
next
  case (3 x k)
  then show ?case using exists_law [of "fst x" k]
    by (auto simp: crashing_def counted_def zoom_def returns_def split: prod.splits)
next
  case (4 x k)
  then show ?case using delete_law [of "fst x" k]
    by (cases x) (auto simp: crashing_def write_or_die_def returns_def)
qed

section \<open>The persistence routines\<close>

locale faulty_store_backend = faulty_backend B kv ok valid + store_keys valid
  for B :: "'b backend_ops" and kv :: "'b \<Rightarrow> string \<rightharpoonup> bytes" and ok :: "'b \<Rightarrow> bool"
    and valid :: "string \<Rightarrow> bool"
begin

lemma returns_read_string_list:
  assumes "ok b" and "valid key" and "index_lists J (kv b) key xs"
    and "\<And>b'. ok b' \<Longrightarrow> kv b' = kv b \<Longrightarrow> P xs b'" and "\<And>b'. ok b' \<Longrightarrow> kv b' = kv b \<Longrightarrow> R b'"
  shows "returns (read_string_list J B key) b P R"
  unfolding read_string_list_def
  by (rule returns_seq, rule returns_get [OF assms(1,2)])
    (use assms(3-5) in \<open>auto simp: index_lists_def intro: returns_ret returns_lift split: option.splits\<close>)

lemma returns_write_string_list:
  assumes "ok b" and "valid key" and "json_ok J"
    and "\<And>b' v. ok b' \<Longrightarrow> kv b' = (kv b)(key \<mapsto> v) \<Longrightarrow> from_slice_strings J v = Inr xs \<Longrightarrow> P () b'"
    and "\<And>b'. ok b' \<Longrightarrow> kv b' = kv b \<Longrightarrow> R b'"
  shows "returns (write_string_list J B key xs) b P R"
proof -
  obtain v where v: "to_vec_strings J xs = Inr v" "from_slice_strings J v = Inr xs" "v \<noteq> []"
    using assms(3) by (rule json_okE)
  show ?thesis
    unfolding write_string_list_def v(1)
    by (rule returns_seq, rule returns_lift [OF map_err.simps(2)], rule returns_put [OF assms(1,2) v(3)])
      (use assms(4,5) v(2) in auto)
qed

lemma returns_index_add:
  assumes "ok b" and "valid key" and "json_ok J" and "index_lists J (kv b) key idx" and "distinct idx"
    and P: "\<And>b' idx'. ok b' \<Longrightarrow> same_outside (\<lambda>k. k = key) (kv b) (kv b') \<Longrightarrow>
              index_lists J (kv b') key idx' \<Longrightarrow> distinct idx' \<Longrightarrow> set idx' = insert x (set idx) \<Longrightarrow> P () b'"
    and R: "\<And>b'. ok b' \<Longrightarrow> kv b' = kv b \<Longrightarrow> R b'"
  shows "returns (seq (read_string_list J B key) (\<lambda>index.
           if x \<in> set index then ret () else write_string_list J B key (index @ [x]))) b P R"
proof (rule returns_seq, rule returns_read_string_list [OF assms(1,2,4)])
  fix b1 assume b1: "ok b1" "kv b1 = kv b"
  show "returns (if x \<in> set idx then ret () else write_string_list J B key (idx @ [x])) b1 P R"
  proof (cases "x \<in> set idx")
    case True
    with b1 assms(4,5) show ?thesis by (auto simp: insert_absorb intro!: returns_ret P)
  next
    case False
    with b1 assms show ?thesis
      by (auto simp: index_lists_def same_outside_def intro!: returns_write_string_list P R)
  qed
qed (rule R)

text \<open>Interrupted, a save leaves the old record or the new one.\<close>

lemma returns_save_refcount:
  assumes "ok b" and "json_ok J" and "disk_refs J (kv b) refs" and "is_chunk_digest d" and "c \<noteq> 0"
    and P: "\<And>b'. ok b' \<Longrightarrow> same_outside is_refcount_key (kv b) (kv b') \<Longrightarrow>
              disk_refs J (kv b') (refs(d \<mapsto> \<lparr>cr_count = c, cr_size = n\<rparr>)) \<Longrightarrow> P () b'"
    and R: "\<And>b'. ok b' \<Longrightarrow> same_outside is_refcount_key (kv b) (kv b') \<Longrightarrow>
              disk_refs J (kv b') refs \<or> disk_refs J (kv b') (refs(d \<mapsto> \<lparr>cr_count = c, cr_size = n\<rparr>)) \<Longrightarrow> R b'"
  shows "returns (save_refcount J B d c n) b P R"
proof -
  let ?refs' = "refs(d \<mapsto> \<lparr>cr_count = c, cr_size = n\<rparr>)"
  obtain idx where idx: "index_lists J (kv b) REFCOUNT_INDEX_KEY idx" "distinct idx" "set idx = dom refs"
    using assms(3) by (auto simp: disk_refs_def)
  obtain raw where raw: "to_vec_refcount J \<lparr>rr_count = c, rr_size = n\<rparr> = Inr raw"
      "from_slice_refcount J raw = Inr (Record \<lparr>rr_count = c, rr_size = n\<rparr>)" "raw \<noteq> []"
    using assms(2) by (rule json_ok_refcountE)
  have put: "disk_refs J m' ?refs'"
    if "index_lists J m' REFCOUNT_INDEX_KEY idx'" "distinct idx'" "set idx' = insert d (dom refs)"
      "same_outside (\<lambda>k. k = REFCOUNT_INDEX_KEY) ((kv b)(refcount_key d \<mapsto> raw)) m'" for m' idx'
    by (rule disk_refs_put [OF assms(3,4) _ _ _ that(1,2)])
      (use that assms(4,5) raw(2) in
        \<open>auto simp: same_outside_def parse_refcount_record_def refcount_key_eq_index digest_not_index\<close>)
  have half: "disk_refs J ((kv b)(refcount_key d \<mapsto> raw)) refs \<or> disk_refs J ((kv b)(refcount_key d \<mapsto> raw)) ?refs'"
  proof (cases "d \<in> dom refs")
    case True
    then show ?thesis
      using put [of "(kv b)(refcount_key d \<mapsto> raw)" idx] idx assms(4) by (auto simp: index_lists_def)
  next
    case False
    then show ?thesis using assms(3,4) by (auto simp: disk_refs_def index_lists_def domIff)
  qed
  show ?thesis
    unfolding save_refcount_def validate_digest_cases if_P [OF assms(4)] seq_lift_Ok raw(1) map_err.simps
  proof (rule returns_seq, rule returns_put [OF assms(1) valid_refcount_key [OF assms(4)] raw(3)])
    fix b1 assume b1: "ok b1" "kv b1 = (kv b)(refcount_key d \<mapsto> raw)"
    show "returns (seq (read_string_list J B REFCOUNT_INDEX_KEY) (\<lambda>index.
        if d \<in> set index then ret () else write_string_list J B REFCOUNT_INDEX_KEY (index @ [d]))) b1 P R"
    proof (rule returns_index_add [OF b1(1) valid_refcount_index assms(2) _ idx(2)], goal_cases)
      case 1
      then show ?case using idx(1) assms(4) by (simp add: index_lists_def b1(2))
    next
      case (2 b2 idx')
      then show ?case
        using b1 idx(3) put [of "kv b2" idx'] by (intro P) (auto simp: same_outside_def)
    next
      case (3 b2)
      then show ?case using b1 half by (intro R) (auto simp: same_outside_def)
    qed
  next
    fix b1 assume "ok b1" "kv b1 = kv b"
    then show "R b1" using assms(3) by (intro R) auto
  qed
qed

lemma returns_save_manifest:
  assumes "ok b" and "json_ok J" and "disk_manifests J (kv b) fs"
    and "proper_file_id f" and "valid (manifest_key f)" and "list_all is_chunk_digest ds"
    and P: "\<And>b'. ok b' \<Longrightarrow> same_outside is_manifest_key (kv b) (kv b') \<Longrightarrow>
              disk_manifests J (kv b') (fs(f \<mapsto> (ds, n))) \<Longrightarrow> P () b'"
    and R: "\<And>b'. ok b' \<Longrightarrow> same_outside is_manifest_key (kv b) (kv b') \<Longrightarrow>
              disk_manifests J (kv b') fs \<or> disk_manifests J (kv b') (fs(f \<mapsto> (ds, n))) \<Longrightarrow> R b'"
  shows "returns (save_manifest J B f ds n) b P R"
proof -
  let ?fs' = "fs(f \<mapsto> (ds, n))" and ?rec = "\<lparr>mr_digests = ds, mr_file_bytes = n\<rparr>"
  obtain idx where idx: "index_lists J (kv b) MANIFEST_INDEX_KEY idx" "distinct idx" "set idx = dom fs"
    using assms(3) by (auto simp: disk_manifests_def)
  obtain raw where raw: "to_vec_manifest J ?rec = Inr raw" "from_slice_manifest J raw = Inr ?rec" "raw \<noteq> []"
    using assms(2) by (rule json_ok_manifestE)
  have put: "disk_manifests J m' ?fs'"
    if "index_lists J m' MANIFEST_INDEX_KEY idx'" "distinct idx'" "set idx' = insert f (dom fs)"
      "same_outside (\<lambda>k. k = MANIFEST_INDEX_KEY) ((kv b)(manifest_key f \<mapsto> raw)) m'" for m' idx'
    by (rule disk_manifests_put [OF assms(3,4,6) _ raw(2) that(1,2)])
      (use that assms(4) in \<open>auto simp: same_outside_def\<close>)
  have half: "disk_manifests J ((kv b)(manifest_key f \<mapsto> raw)) fs \<or>
      disk_manifests J ((kv b)(manifest_key f \<mapsto> raw)) ?fs'"
  proof (cases "f \<in> dom fs")
    case True
    then show ?thesis
      using put [of "(kv b)(manifest_key f \<mapsto> raw)" idx] idx assms(4) by (auto simp: index_lists_def)
  next
    case False
    then show ?thesis using assms(3,4) by (auto simp: disk_manifests_def index_lists_def domIff)
  qed
  show ?thesis
    unfolding save_manifest_def for_each_validate [OF assms(6)] seq_ret raw(1) map_err.simps seq_lift_Ok
  proof (rule returns_seq, rule returns_put [OF assms(1,5) raw(3)])
    fix b1 assume b1: "ok b1" "kv b1 = (kv b)(manifest_key f \<mapsto> raw)"
    show "returns (seq (read_string_list J B MANIFEST_INDEX_KEY) (\<lambda>index.
        if f \<in> set index then ret () else write_string_list J B MANIFEST_INDEX_KEY (index @ [f]))) b1 P R"
    proof (rule returns_index_add [OF b1(1) valid_manifest_index assms(2) _ idx(2)], goal_cases)
      case 1
      then show ?case using idx(1) assms(4) by (simp add: index_lists_def b1(2))
    next
      case (2 b2 idx')
      then show ?case
        using b1 idx(3) put [of "kv b2" idx'] by (intro P) (auto simp: same_outside_def)
    next
      case (3 b2)
      then show ?case using b1 half by (intro R) (auto simp: same_outside_def)
    qed
  next
    fix b1 assume "ok b1" "kv b1 = kv b"
    then show "R b1" using assms(3) by (intro R) auto
  qed
qed

end

text \<open>A backend the store can work on stays one when it may crash.\<close>

sublocale store_backend \<subseteq> crash: faulty_store_backend "crashing B" "kv \<circ> fst" "ok \<circ> fst" valid
  by unfold_locales

end
