(* ===== verification/Store_Crash.thy ===== *)
theory Store_Crash
  imports Backend_Faults Store_Trace
begin

text \<open>
  An ingest that is cut short.  Whatever call on the backend fails, and so wherever the process
  dies, an ingest of a new file leaves records that \<open>open\<close> loads, every file that was there with
  its bytes, every chunk with at least as many references as the files have, and the new file
  entirely or not at all.
\<close>

section \<open>What is left on the backend\<close>

definition blobs_intact :: "hash_fun \<Rightarrow> chunk_codec_ops option \<Rightarrow> (string \<rightharpoonup> bytes) \<Rightarrow> bool" where
  "blobs_intact sha c m \<longleftrightarrow>
     (\<forall>d. is_chunk_digest d \<longrightarrow> m d \<noteq> None \<longrightarrow> (\<exists>p. blob_plain c m d = Some p \<and> digest_hex sha p = d))"

text \<open>Records that can be loaded, with a blob for every counted chunk.\<close>

definition recoverable ::
  "'b deps \<Rightarrow> chunk_codec_ops option \<Rightarrow> (string \<rightharpoonup> string list \<times> u64) \<Rightarrow> (string \<rightharpoonup> chunk_ref) \<Rightarrow>
     (string \<rightharpoonup> bytes) \<Rightarrow> bool" where
  "recoverable E c mv refs m \<longleftrightarrow>
     disk_manifests (dp_json E) m mv \<and> disk_refs (dp_json E) m refs \<and> blobs_intact (dp_sha E) c m \<and>
     (\<forall>d r. refs d = Some r \<longrightarrow> cr_size r \<noteq> 0 \<and> (\<exists>p. blob_plain c m d = Some p \<and> cr_size r = len64 p))"

text \<open>The counts are enough for the references \<open>M\<close>: no release takes a chunk from a file.\<close>

definition covers :: "(string \<rightharpoonup> chunk_ref) \<Rightarrow> string multiset \<Rightarrow> bool" where
  "covers refs M \<longleftrightarrow> (\<forall>d. count M d \<le> (case refs d of None \<Rightarrow> 0 | Some r \<Rightarrow> unat (cr_count r)))"

definition blobs_kept :: "(string \<rightharpoonup> bytes) \<Rightarrow> (string \<rightharpoonup> bytes) \<Rightarrow> bool" where
  "blobs_kept m m' \<longleftrightarrow> (\<forall>d. is_chunk_digest d \<longrightarrow> m d \<noteq> None \<longrightarrow> m' d = m d)"

lemma blobs_kept_refl [simp]: "blobs_kept m m"
  by (simp add: blobs_kept_def)

lemma blobs_kept_trans: "blobs_kept m1 m2 \<Longrightarrow> blobs_kept m2 m3 \<Longrightarrow> blobs_kept m1 m3"
  by (simp add: blobs_kept_def)

lemma blobs_kept_outside: "same_outside is_refcount_key m m' \<Longrightarrow> blobs_kept m m'"
  "same_outside is_manifest_key m m' \<Longrightarrow> blobs_kept m m'"
  by (auto simp: blobs_kept_def same_outside_def)

lemma blobs_kept_plain:
  "blobs_kept m m' \<Longrightarrow> is_chunk_digest d \<Longrightarrow> blob_plain c m d = Some p \<Longrightarrow> blob_plain c m' d = Some p"
  using blob_plain_cong [of m' d m c] blob_plain_not_None [of c m d p] by (simp add: blobs_kept_def)

lemma refs_match_covers:
  assumes "refs_match refs M" and "size M < 2 ^ 64" and "N \<subseteq># M"
  shows "covers refs N"
  unfolding covers_def
proof
  fix d
  have "count N d \<le> count M d" using assms(3) by (rule mset_subset_eq_count)
  then show "count N d \<le> (case refs d of None \<Rightarrow> 0 | Some r \<Rightarrow> unat (cr_count r))"
    using refs_match_None_iff [OF assms(1), of d] refs_match_Some [OF assms(1), of d]
      count_less_64 [OF assms(2), of d]
    by (auto simp: unat_of_nat_u64 not_in_iff split: option.split)
qed

text \<open>A record or a blob more leaves the rest recoverable.\<close>

lemma recoverable_refs:
  assumes "recoverable E c mv refs m" and "same_outside is_refcount_key m m'"
    and "disk_refs (dp_json E) m' refs'"
    and "\<And>d r. refs' d = Some r \<Longrightarrow> cr_size r \<noteq> 0 \<and> (\<exists>p. blob_plain c m d = Some p \<and> cr_size r = len64 p)"
  shows "recoverable E c mv refs' m'"
proof -
  have same: "m' d = m d" if "is_chunk_digest d" for d
    using assms(2) that by (simp add: same_outside_def)
  have plain: "blob_plain c m' d = blob_plain c m d" if "is_chunk_digest d" for d
    by (rule blob_plain_cong) (rule same [OF that])
  have "disk_manifests (dp_json E) m' mv"
    using assms(1) disk_manifests_cong [OF assms(2)] refcount_key_not_manifest_key
    by (metis recoverable_def)
  moreover have "blobs_intact (dp_sha E) c m'"
    using assms(1) by (simp add: recoverable_def blobs_intact_def same plain)
  ultimately show ?thesis
    using assms(3,4) disk_refsD(1) [OF assms(3)] plain by (auto simp: recoverable_def)
qed

lemma recoverable_manifests:
  assumes "recoverable E c mv refs m" and "same_outside is_manifest_key m m'"
    and "disk_manifests (dp_json E) m' mv'"
  shows "recoverable E c mv' refs m'"
proof -
  have same: "m' d = m d" if "is_chunk_digest d" for d
    using assms(2) that by (simp add: same_outside_def)
  have plain: "blob_plain c m' d = blob_plain c m d" if "is_chunk_digest d" for d
    by (rule blob_plain_cong) (rule same [OF that])
  have refs: "disk_refs (dp_json E) m' refs"
    using assms(1) disk_refs_cong [OF assms(2)] by (auto simp: recoverable_def dest: refcount_key_not_manifest_key)
  moreover have "blobs_intact (dp_sha E) c m'"
    using assms(1) by (simp add: recoverable_def blobs_intact_def same plain)
  ultimately show ?thesis
    using assms(1,3) disk_refsD(1) [OF refs] plain by (auto simp: recoverable_def)
qed

lemma recoverable_blob:
  assumes "recoverable E c mv refs m" and "is_chunk_digest d" and "m d = None"
    and "decode_opt c raw = Ok p" and "digest_hex (dp_sha E) p = d"
  shows "recoverable E c mv refs (m(d \<mapsto> raw))" and "blobs_kept m (m(d \<mapsto> raw))"
proof -
  show kept: "blobs_kept m (m(d \<mapsto> raw))" using assms(3) by (simp add: blobs_kept_def)
  have out: "same_outside (\<lambda>k. k = d) m (m(d \<mapsto> raw))" by simp
  have "disk_manifests (dp_json E) (m(d \<mapsto> raw)) mv" "disk_refs (dp_json E) (m(d \<mapsto> raw)) refs"
    using assms(1) disk_manifests_cong [OF out] disk_refs_cong [OF out] digest_key_class [OF assms(2)]
    unfolding recoverable_def by blast+
  moreover have "blobs_intact (dp_sha E) c (m(d \<mapsto> raw))"
    using assms by (auto simp: recoverable_def blobs_intact_def blob_plain_def)
  moreover have "blob_plain c (m(d \<mapsto> raw)) e = Some q" if "blob_plain c m e = Some q" for e q
    using that assms(3) by (auto simp: blob_plain_def)
  ultimately show "recoverable E c mv refs (m(d \<mapsto> raw))"
    using assms(1) by (fastforce simp: recoverable_def)
qed

section \<open>Access to the fields\<close>

lemma returns_on_backend:
  "returns a (st_backend s) (\<lambda>x b. P x (s\<lparr>st_backend := b\<rparr>)) (\<lambda>b. R (s\<lparr>st_backend := b\<rparr>)) \<Longrightarrow>
     returns (on_backend a) s P R"
  unfolding on_backend_def by (rule returns_zoom)

lemma returns_Ok: "m s = (Ok a, s') \<Longrightarrow> P a s' \<Longrightarrow> returns m s P R"
  by (simp add: returns_def)

lemma wp_returns: "wp m s P \<Longrightarrow> returns m s P R"
  by (auto simp: wp_iff returns_def)

lemma returns_hold_blob: "\<not> poisoned (st_blob s) \<Longrightarrow> returns m s P R \<Longrightarrow> returns (hold_blob m) s P R"
  by (auto simp: hold_blob_def holding_def returns_def split: prod.splits res.splits)

lemma returns_hold_refcount:
  "\<not> poisoned (st_refcount s) \<Longrightarrow> returns m s P R \<Longrightarrow> returns (hold_refcount m) s P R"
  by (auto simp: hold_refcount_def holding_def returns_def split: prod.splits res.splits)

section \<open>Storing chunks\<close>

text \<open>In the middle of an ingest: \<open>M\<close> are the references counted so far.\<close>

definition underway ::
  "'b deps \<Rightarrow> ('b \<Rightarrow> string \<rightharpoonup> bytes) \<Rightarrow> ('b \<Rightarrow> bool) \<Rightarrow> (string \<rightharpoonup> string list \<times> u64) \<Rightarrow>
     string multiset \<Rightarrow> 'b store \<Rightarrow> bool" where
  "underway E kv ok mv M s \<longleftrightarrow>
     ok (st_backend s) \<and> unlocked s \<and> codec_ok (st_codec s) \<and> size M < 2 ^ 64 \<and>
     refs_match (get_ref (guarded (st_refcount s))) M \<and>
     recoverable E (st_codec s) mv (get_ref (guarded (st_refcount s))) (kv (st_backend s))"

text \<open>What a failure on the way from \<open>m\<close> leaves, with counts for the references \<open>N\<close>.\<close>

definition left_behind ::
  "'b deps \<Rightarrow> ('b \<Rightarrow> string \<rightharpoonup> bytes) \<Rightarrow> ('b \<Rightarrow> bool) \<Rightarrow> chunk_codec_ops option \<Rightarrow> (string \<rightharpoonup> bytes) \<Rightarrow>
     (string \<rightharpoonup> string list \<times> u64) \<Rightarrow> string multiset \<Rightarrow> 'b store \<Rightarrow> bool" where
  "left_behind E kv ok c m mv N s \<longleftrightarrow>
     ok (st_backend s) \<and> blobs_kept m (kv (st_backend s)) \<and>
     (\<exists>refs. recoverable E c mv refs (kv (st_backend s)) \<and> covers refs N)"

lemma underway_left:
  assumes "underway E kv ok mv M s" and "blobs_kept m (kv (st_backend s))" and "N \<subseteq># M"
    and "ok b" and "kv b = kv (st_backend s)"
  shows "left_behind E kv ok (st_codec s) m mv N (s\<lparr>st_backend := b\<rparr>)"
  using assms refs_match_covers [OF _ _ assms(3)]
  unfolding left_behind_def underway_def by auto

lemma left_behind_mono:
  assumes "left_behind E kv ok c m1 mv M s" and "blobs_kept m m1" and "N \<subseteq># M"
  shows "left_behind E kv ok c m mv N s"
proof -
  have "covers refs N" if "covers refs M" for refs
    using that mset_subset_eq_count [OF assms(3)] unfolding covers_def by (meson le_trans)
  then show ?thesis
    using assms(1) blobs_kept_trans [OF assms(2)] by (auto simp: left_behind_def)
qed

locale faulty_env = faulty_store_backend "dp_backend E" kv ok valid
  for E :: "'b deps" and kv :: "'b \<Rightarrow> string \<rightharpoonup> bytes" and ok :: "'b \<Rightarrow> bool"
    and valid :: "string \<Rightarrow> bool" +
  assumes json: "json_ok (dp_json E)"
    and sha: "sha_ok (dp_sha E)"
begin

lemma returns_blob_section:
  assumes s: "underway E kv ok mv M s" and d: "d = digest_hex (dp_sha E) p"
    and blob: "decode_opt (st_codec s) blob = Ok p" "blob \<noteq> []"
    and coll: "\<And>q. blob_plain (st_codec s) (kv (st_backend s)) d = Some q \<Longrightarrow> q = p"
    and P: "\<And>found b. underway E kv ok mv M (s\<lparr>st_backend := b\<rparr>) \<Longrightarrow>
        blobs_kept (kv (st_backend s)) (kv b) \<Longrightarrow> blob_plain (st_codec s) (kv b) d = Some p \<Longrightarrow>
        (\<And>e. e \<noteq> d \<Longrightarrow> kv b e = kv (st_backend s) e) \<Longrightarrow> P found (s\<lparr>st_backend := b\<rparr>)"
    and R: "\<And>b. ok b \<Longrightarrow> kv b = kv (st_backend s) \<Longrightarrow> R (s\<lparr>st_backend := b\<rparr>)"
  shows "returns (blob_section E d blob) s P R"
proof -
  have dd: "is_chunk_digest d" using digest_is_chunk_digest [OF sha] d by simp
  have U: "ok (st_backend s)" "\<not> poisoned (st_blob s)"
      "recoverable E (st_codec s) mv (get_ref (guarded (st_refcount s))) (kv (st_backend s))"
    using s by (auto simp: underway_def unlocked_def)
  show ?thesis
    unfolding blob_section_def
  proof (rule returns_hold_blob [OF U(2)], rule returns_seq, rule returns_on_backend,
      rule returns_exists [OF U(1) valid_digest [OF dd]])
    fix b1 assume b1: "ok b1" "kv b1 = kv (st_backend s)"
    show "returns (if kv (st_backend s) d \<noteq> None then ret (kv (st_backend s) d \<noteq> None)
        else seq (on_backend (be_put (dp_backend E) d blob)) (\<lambda>_. ret (kv (st_backend s) d \<noteq> None)))
        (s\<lparr>st_backend := b1\<rparr>) P R"
    proof (cases "kv (st_backend s) d")
      case None
      note rec = recoverable_blob [OF U(3) dd None blob(1) d [symmetric]]
      have "P x (s\<lparr>st_backend := b2\<rparr>)" if b2: "ok b2" "kv b2 = (kv (st_backend s))(d \<mapsto> blob)" for b2 x
        by (rule P) (use b2 rec s blob(1) in \<open>auto simp: underway_def blob_plain_def unlocked_def\<close>)
      then show ?thesis
        using None b1 R
        by (auto intro!: returns_seq returns_on_backend returns_put valid_digest [OF dd] blob(2) returns_ret)
    next
      case (Some raw)
      then obtain q where "blob_plain (st_codec s) (kv (st_backend s)) d = Some q"
        using U(3) dd by (auto simp: recoverable_def blobs_intact_def)
      with coll have "blob_plain (st_codec s) (kv (st_backend s)) d = Some p" by auto
      then have "P True (s\<lparr>st_backend := b1\<rparr>)"
        by (intro P) (use b1 s in \<open>auto simp: underway_def unlocked_def\<close>)
      then show ?thesis using Some by (simp add: returns_ret)
    qed
  qed (rule R)
qed

lemma returns_refcount_section:
  assumes s: "underway E kv ok mv M s" and d: "is_chunk_digest d"
    and p: "blob_plain (st_codec s) (kv (st_backend s)) d = Some p" "len64 p \<noteq> 0"
    and room: "Suc (size M) < 2 ^ 64"
    and P: "\<And>s'. underway E kv ok mv (add_mset d M) s' \<Longrightarrow> chunk_frame s s' \<Longrightarrow>
        same_outside is_refcount_key (kv (st_backend s)) (kv (st_backend s')) \<Longrightarrow> P () s'"
    and R: "\<And>s'. left_behind E kv ok (st_codec s) (kv (st_backend s)) mv M s' \<Longrightarrow> R s'"
  shows "returns (refcount_section E d (len64 p)) s P R"
proof -
  let ?rc = "guarded (st_refcount s)" and ?m = "kv (st_backend s)" and ?n = "len64 p"
  let ?rc' = "snd (increment d ?n ?rc)"
  let ?s1 = "s\<lparr>st_refcount := (st_refcount s)\<lparr>guarded := ?rc'\<rparr>\<rparr>"
  have U: "ok (st_backend s)" "unlocked s" "refs_match (get_ref ?rc) M" "size M < 2 ^ 64"
      "recoverable E (st_codec s) mv (get_ref ?rc) ?m" "disk_refs (dp_json E) ?m (get_ref ?rc)"
    using s by (auto simp: underway_def recoverable_def)
  have sz: "cr_size r = ?n" if "get_ref ?rc d = Some r" for r
    using U(5) that p(1) by (force simp: recoverable_def)
  have inc: "fst (increment d ?n ?rc) = Ok (of_nat (Suc (count M d)))"
      "get_ref ?rc' = (get_ref ?rc)(d \<mapsto> \<lparr>cr_count = of_nat (Suc (count M d)), cr_size = ?n\<rparr>)"
    by (rule increment_match [OF U(3)], erule sz)+
  have count0: "(of_nat (Suc (count M d)) :: u64) \<noteq> 0"
    using of_nat_u64_inj [of "Suc (count M d)" 0] count_le_size [of M d] room by (simp del: of_nat_Suc)
  have grown: "cr_size r \<noteq> 0 \<and> (\<exists>p. blob_plain (st_codec s) ?m e = Some p \<and> cr_size r = len64 p)"
    if "get_ref ?rc' e = Some r" for e r
    using that U(5) p fun_cong [OF inc(2), of e] by (cases "e = d") (auto simp: recoverable_def)
  note match = refs_match_add [OF U(3), of d ?n, folded inc(2)]
  have cover: "covers (get_ref ?rc) M" "covers (get_ref ?rc') M"
    using refs_match_covers [OF U(3,4), of M] refs_match_covers [OF match, of M] room by auto
  have rec: "recoverable E (st_codec s) mv refs (kv b)"
    if "same_outside is_refcount_key ?m (kv b)" "disk_refs (dp_json E) (kv b) refs"
      "refs = get_ref ?rc \<or> refs = get_ref ?rc'" for b refs
    by (rule recoverable_refs [OF U(5) that(1,2)])
      (use that(3) grown U(5) in \<open>auto simp: recoverable_def\<close>)
  have "returns (save_refcount (dp_json E) (dp_backend E) d (of_nat (Suc (count M d))) ?n) (st_backend ?s1)
      (\<lambda>x b. P x (?s1\<lparr>st_backend := b\<rparr>)) (\<lambda>b. R (?s1\<lparr>st_backend := b\<rparr>))"
  proof (rule returns_save_refcount [OF _ json _ d count0, where refs = "get_ref ?rc"], goal_cases)
    case (3 b)
    then show ?case
      using s rec [of b "get_ref ?rc'"] match room
      by (intro P) (auto simp: underway_def unlocked_def chunk_frame_def inc(2))
  next
    case (4 b)
    then have "left_behind E kv ok (st_codec s) ?m mv M (?s1\<lparr>st_backend := b\<rparr>)"
      using rec [of b "get_ref ?rc"] rec [of b "get_ref ?rc'"] cover blobs_kept_outside(1) [of ?m "kv b"]
      unfolding left_behind_def by (auto simp: inc(2))
    then show ?case by (rule R)
  qed (use U in auto)
  then have save: "returns (on_backend (save_refcount (dp_json E) (dp_backend E) d (of_nat (Suc (count M d)))
      (case Some ?n of None \<Rightarrow> ?n | Some n \<Rightarrow> n))) ?s1 P R"
    by (simp add: returns_on_backend)
  have "size_of ?rc' d = Some ?n"
    using fun_cong [OF inc(2), of d] by (simp add: size_of_def get_ref_def)
  then have known: "refcount_value (\<lambda>rc. (Ok (size_of rc d), rc)) ?s1 = (Ok (Some ?n), ?s1)"
    by (simp add: refcount_value_def zoom_def)
  have counted: "refcount_value (increment d ?n) s = (Ok (of_nat (Suc (count M d))), ?s1)"
    using inc(1) by (cases "increment d ?n ?rc") (simp add: refcount_value_def zoom_def)
  show ?thesis
    unfolding refcount_section_def
    by (rule returns_hold_refcount, use U(2) in \<open>simp add: unlocked_def\<close>)
      (rule returns_seq, rule returns_Ok, rule counted, rule returns_seq, rule returns_Ok, rule known, rule save)
qed

lemma returns_store_chunk:
  assumes s: "underway E kv ok mv M s" and d: "d = digest_hex (dp_sha E) p"
    and p: "p \<noteq> []" "len64 p \<noteq> 0" and room: "Suc (size M) < 2 ^ 64"
    and coll: "\<And>q. blob_plain (st_codec s) (kv (st_backend s)) d = Some q \<Longrightarrow> q = p"
    and P: "\<And>x s'. underway E kv ok mv (add_mset d M) s' \<Longrightarrow> chunk_frame s s' \<Longrightarrow>
        blobs_kept (kv (st_backend s)) (kv (st_backend s')) \<Longrightarrow>
        blob_plain (st_codec s) (kv (st_backend s')) d = Some p \<Longrightarrow>
        stored_plain (st_codec s) (kv (st_backend s')) \<subseteq> insert p (stored_plain (st_codec s) (kv (st_backend s))) \<Longrightarrow>
        P x s'"
    and R: "\<And>s'. left_behind E kv ok (st_codec s) (kv (st_backend s)) mv M s' \<Longrightarrow> R s'"
  shows "returns (store_chunk E d p) s P R"
proof -
  let ?c = "st_codec s" and ?m = "kv (st_backend s)"
  have dd: "is_chunk_digest d" using digest_is_chunk_digest [OF sha] d by simp
  obtain blob where blob: "encode_opt ?c p = Ok blob" "decode_opt ?c blob = Ok p" "blob \<noteq> []"
    using codec_okE [of ?c p] s p(1) by (metis underway_def)
  then have enc: "encode_blob p s = (Ok blob, s)" by (simp add: encode_blob_def)
  show ?thesis
    unfolding store_chunk_def
  proof (rule returns_seq, rule returns_Ok, rule enc, rule returns_seq, rule returns_blob_section [OF s d blob(2,3) coll], goal_cases)
    case (2 found b)
    let ?s1 = "s\<lparr>st_backend := b\<rparr>"
    show ?case
    proof (rule returns_seq, rule returns_refcount_section [OF 2(1) dd _ p(2) room], goal_cases)
      case 1
      show ?case using 2(3) by simp
    next
      case s2: (2 s2)
      have same: "blob_plain ?c (kv (st_backend s2)) e = blob_plain ?c (kv b) e" if "is_chunk_digest e" for e
        using s2(3) that by (intro blob_plain_cong) (simp add: same_outside_def)
      have stored: "stored_plain ?c (kv (st_backend s2)) \<subseteq> insert p (stored_plain ?c ?m)"
      proof
        fix q assume "q \<in> stored_plain ?c (kv (st_backend s2))"
        then obtain e where e: "is_chunk_digest e" "blob_plain ?c (kv b) e = Some q"
          using same by (auto simp: stored_plain_def)
        then show "q \<in> insert p (stored_plain ?c ?m)"
          using 2(3,4) blob_plain_cong [of "kv b" e ?m ?c] by (cases "e = d") (auto simp: stored_plain_def)
      qed
      have kept: "blobs_kept ?m (kv (st_backend s2))"
        using blobs_kept_trans [OF 2(2)] blobs_kept_outside(1) [OF s2(3)] by simp
      have "P found (s2\<lparr>st_stats := (st_stats s2)\<lparr>guarded := st\<rparr>\<rparr>)" for st
        by (rule P) (use s2(1,2) kept stored same [OF dd] 2(3) in
          \<open>auto simp: underway_def unlocked_def chunk_frame_def\<close>)
      moreover have "\<not> poisoned (st_stats s2)" using s2(1) by (simp add: underway_def unlocked_def)
      ultimately show ?case
        by (intro wp_returns) (simp add: stats_section_def wp_rules)
    next
      case (3 s2)
      then have "left_behind E kv ok ?c ?m mv M s2"
        using 2(2) by (auto simp: left_behind_def intro: blobs_kept_trans)
      then show ?case by (rule R)
    qed
  next
    case (3 b)
    then show ?case using underway_left [OF s, of ?m M b] by (intro R) simp
  qed
qed

lemma returns_accept_all:
  assumes "underway E kv ok mv M s" and "inj_on (dp_sha E) U"
    and "stored_plain (st_codec s) (kv (st_backend s)) \<subseteq> U" and "set chunks \<subseteq> U"
    and "\<forall>p \<in> set chunks. p \<noteq> [] \<and> len64 p \<noteq> 0" and "size M + length chunks < 2 ^ 64"
    and P: "\<And>s'. underway E kv ok mv (mset (map (digest_hex (dp_sha E)) chunks) + M) s' \<Longrightarrow>
        chunk_frame s s' \<Longrightarrow> blobs_kept (kv (st_backend s)) (kv (st_backend s')) \<Longrightarrow>
        (\<And>p. p \<in> set chunks \<Longrightarrow>
           blob_plain (st_codec s) (kv (st_backend s')) (digest_hex (dp_sha E) p) = Some p) \<Longrightarrow>
        P \<lparr>se_digests = se_digests se @ map (digest_hex (dp_sha E)) chunks,
           se_sizes = se_sizes se @ map len64 chunks,
           se_file_bytes = se_file_bytes se + of_nat (length (concat chunks))\<rparr> s'"
    and R: "\<And>s'. left_behind E kv ok (st_codec s) (kv (st_backend s)) mv M s' \<Longrightarrow> R s'"
  shows "returns (fold_act (accept E) chunks se) s P R"
  using assms
proof (induction chunks arbitrary: s M se)
  case Nil
  then show ?case by (cases se) (simp add: returns_ret)
next
  case (Cons p chunks)
  let ?dg = "digest_hex (dp_sha E)" and ?c = "st_codec s" and ?m = "kv (st_backend s)"
  let ?se = "\<lparr>se_digests = se_digests se @ [?dg p], se_sizes = se_sizes se @ [len64 p],
      se_file_bytes = se_file_bytes se + len64 p\<rparr>"
  have coll: "q = p" if q: "blob_plain ?c ?m (?dg p) = Some q" for q
  proof -
    have dig: "is_chunk_digest (?dg p)" by (rule digest_is_chunk_digest [OF sha])
    have "?dg q = ?dg p"
      using Cons.prems(1) dig q blob_plain_not_None [OF q]
      by (auto simp: underway_def recoverable_def blobs_intact_def)
    moreover have "q \<in> U" using Cons.prems(3) dig q by (auto simp: stored_plain_def)
    ultimately show "q = p" using Cons.prems(2,4) by (auto simp: digest_hex_eq_iff dest: inj_onD)
  qed
  have acc: "accept E p se = seq (store_chunk E (?dg p) p) (\<lambda>_. ret ?se)"
    by (simp add: accept_def Let_def)
  show ?case
    unfolding fold_act.simps acc
  proof (rule returns_seq, rule returns_seq, rule returns_store_chunk [OF Cons.prems(1) refl _ _ _ coll], goal_cases)
    case (5 x s1)
    have c1: "st_codec s1 = ?c" using 5(2) by (simp add: chunk_frame_def)
    have "returns (fold_act (accept E) chunks ?se) s1 P R"
    proof (rule Cons.IH [OF 5(1) Cons.prems(2)], goal_cases)
      case (5 s2)
      have plain: "blob_plain ?c (kv (st_backend s2)) (?dg q) = Some q" if "q \<in> set (p # chunks)" for q
        using that 5(4) blobs_kept_plain [OF 5(3) digest_is_chunk_digest [OF sha] \<open>blob_plain ?c _ (?dg p) = Some p\<close>]
        by (auto simp: c1)
      have "P \<lparr>se_digests = se_digests se @ map ?dg (p # chunks), se_sizes = se_sizes se @ map len64 (p # chunks),
          se_file_bytes = se_file_bytes se + of_nat (length (concat (p # chunks)))\<rparr> s2"
        by (rule Cons.prems(7)) (use 5(1,2,3) \<open>chunk_frame s s1\<close> \<open>blobs_kept ?m _\<close> plain in
          \<open>auto intro: chunk_frame_trans blobs_kept_trans\<close>)
      then show ?case by (simp add: add.assoc)
    next
      case (6 s2)
      have "left_behind E kv ok ?c ?m mv M s2"
        by (rule left_behind_mono [OF 6 [unfolded c1] 5(3)]) simp
      then show ?case by (rule Cons.prems(8))
    qed (use 5(5) c1 Cons.prems(3-6) in auto)
    then show ?case by (rule returns_ret)
  qed (use Cons.prems in auto)
qed

text \<open>The commit of a file that was not there: its record is the last thing written.\<close>

lemma returns_commit_new:
  assumes s: "underway E kv ok (manifest_view (guarded (st_manifest s))) M s"
    and f: "proper_file_id f" "valid (manifest_key f)" "try_get (guarded (st_manifest s)) f = None"
    and ds: "list_all is_chunk_digest (se_digests se)"
    and P: "\<And>s'. left_behind E kv ok (st_codec s) (kv (st_backend s))
          ((manifest_view (guarded (st_manifest s)))(f \<mapsto> (se_digests se, se_file_bytes se))) M s' \<Longrightarrow>
        P (se_digests se) s'"
    and R: "\<And>s'. left_behind E kv ok (st_codec s) (kv (st_backend s)) (manifest_view (guarded (st_manifest s))) M s' \<or>
        left_behind E kv ok (st_codec s) (kv (st_backend s))
          ((manifest_view (guarded (st_manifest s)))(f \<mapsto> (se_digests se, se_file_bytes se))) M s' \<Longrightarrow> R s'"
  shows "returns (commit E f se) s P R"
proof -
  let ?mf = "guarded (st_manifest s)" and ?ds = "se_digests se" and ?n = "se_file_bytes se"
  let ?s1 = "s\<lparr>st_manifest := (st_manifest s)\<lparr>guarded := snd (manifest_insert f ?ds ?n ?mf)\<rparr>\<rparr>"
  let ?mv' = "(manifest_view ?mf)(f \<mapsto> (?ds, ?n))"
  have f0: "f \<noteq> []" using f(1) by (simp add: proper_file_id_def)
  have U: "ok (st_backend s)" "\<not> poisoned (st_manifest s)"
      "recoverable E (st_codec s) (manifest_view ?mf) (get_ref (guarded (st_refcount s))) (kv (st_backend s))"
    using s by (auto simp: underway_def unlocked_def)
  have cover: "covers (get_ref (guarded (st_refcount s))) M"
    using s refs_match_covers [of _ M M] by (simp add: underway_def)
  have peek: "peek_digests f s = (Ok None, s)"
    using U(2) f(3) by (cases s; cases "st_manifest s") (simp add: peek_digests_def on_manifest_def zoom_def with_lock_def)
  have insert: "on_manifest (manifest_insert f ?ds ?n) s = (Ok (), ?s1)"
    using U(2) manifest_insert_Ok(1) [OF f0, of ?ds ?n ?mf]
    by (cases "manifest_insert f ?ds ?n ?mf"; cases s; cases "st_manifest s")
      (simp add: on_manifest_def zoom_def with_lock_def)
  have left: "left_behind E kv ok (st_codec s) (kv (st_backend s)) mv M (?s1\<lparr>st_backend := b\<rparr>)"
    if "ok b" "same_outside is_manifest_key (kv (st_backend s)) (kv b)" "disk_manifests (dp_json E) (kv b) mv" for b mv
    using that cover recoverable_manifests [OF U(3) that(2,3)] blobs_kept_outside(2) [OF that(2)]
    unfolding left_behind_def by auto
  show ?thesis
    unfolding commit_def
  proof (rule returns_seq, rule returns_Ok, rule peek, rule returns_seq, rule returns_Ok, rule insert,
      rule returns_seq, rule returns_on_backend,
      rule returns_save_manifest [OF _ json _ f(1,2) ds, where fs = "manifest_view ?mf"], goal_cases)
    case (3 b)
    then show ?case using P [OF left [of b ?mv']] by (simp add: returns_ret)
  next
    case (4 b)
    then show ?case using left [of b "manifest_view ?mf"] left [of b ?mv'] by (intro R) auto
  qed (use U in \<open>simp_all add: recoverable_def\<close>)
qed

end

text \<open>A store at rest is underway, with nothing done.\<close>

lemma store_inv_underway:
  assumes inv: "store_inv E kv ok valid s" and sized: "sized_refs s"
  shows "underway E kv ok (manifest_view (guarded (st_manifest s))) (store_refs s) s"
proof -
  note S = store_invD [OF inv]
  note I = chunk_invD [OF S(5)]
  let ?refs = "get_ref (guarded (st_refcount s))"
  have "blobs_intact (dp_sha E) (st_codec s) (kv (st_backend s))"
    unfolding blobs_intact_def
    using chunk_inv_present [OF S(5)] chunk_inv_member [OF S(5)] by metis
  moreover have "cr_size r \<noteq> 0 \<and> (\<exists>p. store_plain kv s d = Some p \<and> cr_size r = len64 p)"
    if r: "?refs d = Some r" for d r
    using sized r blobs_matchD [OF I(6) disk_refsD(1) [OF I(7) r] r] by (metis sized_refs_def)
  ultimately show ?thesis
    using S I by (auto simp: underway_def recoverable_def)
qed

context faulty_env
begin

text \<open>
  All of an ingest of a new file: it returns, with the file there, or it fails, with the file
  there or not.
\<close>

lemma returns_ingest_new:
  assumes inv: "store_inv E kv ok valid s" and sized: "sized_refs s"
    and f: "proper_file_id f" "valid (manifest_key f)" "try_get (guarded (st_manifest s)) f = None"
    and coll: "collision_free E kv s chunks" and fits: "fits s chunks" and ne: "[] \<notin> set chunks"
    and mv: "mv = manifest_view (guarded (st_manifest s))"
    and mv': "mv' = mv(f \<mapsto> (map (digest_hex (dp_sha E)) chunks, of_nat (length (concat chunks))))"
    and N: "N = mset (map (digest_hex (dp_sha E)) chunks) + store_refs s"
  shows "returns (ingest_chunks E f chunks) s
     (\<lambda>ds s'. ds = map (digest_hex (dp_sha E)) chunks \<and>
        left_behind E kv ok (st_codec s) (kv (st_backend s)) mv' N s' \<and>
        (\<forall>p \<in> set chunks. blob_plain (st_codec s) (kv (st_backend s')) (digest_hex (dp_sha E) p) = Some p))
     (\<lambda>s'. left_behind E kv ok (st_codec s) (kv (st_backend s)) mv (store_refs s) s' \<or>
        left_behind E kv ok (st_codec s) (kv (st_backend s)) mv' N s' \<and>
        (\<forall>p \<in> set chunks. blob_plain (st_codec s) (kv (st_backend s')) (digest_hex (dp_sha E) p) = Some p))"
    (is "returns _ s ?P ?R")
proof -
  let ?dg = "digest_hex (dp_sha E)" and ?c = "st_codec s" and ?m = "kv (st_backend s)"
  have small: "\<forall>p \<in> set chunks. p \<noteq> [] \<and> len64 p \<noteq> 0"
  proof
    fix p assume p: "p \<in> set chunks"
    then have "length p \<le> length (concat chunks)"
      by (induction chunks) auto
    then have "length p < 2 ^ 64" using fits by (simp add: fits_def)
    moreover have "p \<noteq> []" using ne p by auto
    ultimately show "p \<noteq> [] \<and> len64 p \<noteq> 0"
      using of_nat_u64_inj [of "length p" 0] by simp
  qed
  show ?thesis
    unfolding ingest_chunks_def
  proof (rule returns_seq, rule returns_accept_all [OF store_inv_underway [OF inv sized],
        where U = "stored_plain ?c ?m \<union> set chunks"], goal_cases)
    case (6 s1)
    have frame: "st_manifest s1 = st_manifest s" "st_codec s1 = ?c"
      using 6(2) by (simp_all add: chunk_frame_def)
    have dig: "is_chunk_digest (?dg p)" for p by (rule digest_is_chunk_digest [OF sha])
    have after: "left_behind E kv ok ?c ?m mv0 N s'"
      "\<forall>p \<in> set chunks. blob_plain ?c (kv (st_backend s')) (?dg p) = Some p"
      if "left_behind E kv ok ?c (kv (st_backend s1)) mv0 N s'" for mv0 s'
      using left_behind_mono [OF that 6(3) subset_mset.order_refl] that 6(4) dig
        blobs_kept_plain [of "kv (st_backend s1)" "kv (st_backend s')" _ ?c]
      by (auto simp: left_behind_def)
    show ?case
    proof (rule returns_commit_new [where M = N], goal_cases)
      case 1
      then show ?case using 6(1) by (simp add: frame N)
    next
      case (6 s')
      then show ?case using after [of mv' s'] by (simp add: frame mv mv' session_new_def)
    next
      case (7 s')
      then have "left_behind E kv ok ?c (kv (st_backend s1)) mv N s' \<or>
          left_behind E kv ok ?c (kv (st_backend s1)) mv' N s'"
        by (simp add: frame mv mv' session_new_def)
      moreover have "left_behind E kv ok ?c ?m mv (store_refs s) s'"
        if "left_behind E kv ok ?c (kv (st_backend s1)) mv N s'"
        by (rule left_behind_mono [OF that 6(3)]) (simp add: N)
      ultimately show ?case using after by blast
    qed (use f dig in \<open>simp_all add: frame list_all_iff session_new_def\<close>)
  next
    case (7 s1)
    then show ?case by (simp add: mv)
  qed (use coll fits small in \<open>simp_all add: collision_free_def fits_def\<close>)
qed

end

end
