(* ===== verification/Store_Recovery.thy ===== *)
theory Store_Recovery
  imports Store_Crash
begin

text \<open>
  Opening what an interrupted ingest left: the store has the files it had, perhaps the new
  one, and reads them; and where a delete is interrupted, that no \<open>open\<close> succeeds any more.
\<close>

section \<open>Opening\<close>

text \<open>A store opened on recoverable records.\<close>

definition recovered ::
  "('b \<Rightarrow> string \<rightharpoonup> bytes) \<Rightarrow> ('b \<Rightarrow> bool) \<Rightarrow> (string \<rightharpoonup> string list \<times> u64) \<Rightarrow> (string \<rightharpoonup> chunk_ref) \<Rightarrow>
     (string \<rightharpoonup> bytes) \<Rightarrow> 'b store \<Rightarrow> bool" where
  "recovered kv ok mv refs m s \<longleftrightarrow>
     ok (st_backend s) \<and> unlocked s \<and> st_codec s = None \<and>
     manifest_ok (guarded (st_manifest s)) \<and> manifest_view (guarded (st_manifest s)) = mv \<and>
     get_ref (guarded (st_refcount s)) = refs \<and> same_outside is_refcount_key m (kv (st_backend s))"

lemma recoverable_cong:
  "dp_json E' = dp_json E \<Longrightarrow> dp_sha E' = dp_sha E \<Longrightarrow> recoverable E' c mv refs m = recoverable E c mv refs m"
  by (simp add: recoverable_def)

context store_env
begin

lemma wp_open_recoverable:
  assumes b: "ok b" and rec: "recoverable E c mv refs (kv b)"
    and keys: "\<And>f. f \<in> dom mv \<Longrightarrow> valid (manifest_key f)"
    and Q: "\<And>s. recovered kv ok mv refs (kv b) s \<Longrightarrow> Q s (st_backend s)"
  shows "wp (open_store E) b Q"
proof -
  have disk: "disk_refs (dp_json E) (kv b) refs" "disk_manifests (dp_json E) (kv b) mv"
    and sized: "\<And>d r. refs d = Some r \<Longrightarrow> cr_size r \<noteq> 0"
    using rec by (auto simp: recoverable_def)
  have up: "upgraded m refs = refs" for m by (rule upgraded_id) (use sized in auto)
  show ?thesis
    unfolding open_store_def wp_seq
  proof (rule wp_load_manifests [OF b disk(2) keys], assumption)
    fix mf b1 assume b1: "ok b1" "kv b1 = kv b" and mf: "manifest_ok mf" "manifest_view mf = mv"
    then have disk1: "disk_refs (dp_json E) (kv b1) refs" using disk(1) by simp
    show "wp (load_refcounts (dp_json E) (dp_backend E)) b1
        (\<lambda>rc b2. wp (backfill_refcount_sizes E rc) b2 (\<lambda>rc b3. wp (build_store E mf rc) b3 Q))"
    proof (rule wp_load_refcounts [OF b1(1) disk1])
      fix rc b2 assume b2: "ok b2" "kv b2 = kv b1" and rc: "rc_ok rc" "get_ref rc = refs"
      then have disk2: "disk_refs (dp_json E) (kv b2) (get_ref rc)" using disk1 by simp
      show "wp (backfill_refcount_sizes E rc) b2 (\<lambda>rc b3. wp (build_store E mf rc) b3 Q)"
      proof (rule wp_backfill [OF b2(1) rc(1) disk2])
        fix rc3 b3
        assume b3: "ok b3" "same_outside is_refcount_key (kv b2) (kv b3)"
          and rc3: "rc_ok rc3" "get_ref rc3 = upgraded (kv b2) (get_ref rc)"
        have refs3: "get_ref rc3 = refs" using rc3(2) rc(2) up by simp
        have pos: "cr_size r \<noteq> 0" if "(d, r) \<in> set (counts rc3)" for d r
        proof -
          have "get_ref rc3 d = Some r"
            using that rc3(1) by (simp add: rc_ok_def get_ref_def)
          then show ?thesis using sized refs3 by simp
        qed
        show "wp (build_store E mf rc3) b3 Q"
          unfolding wp_build_store
        proof (rule wp_rebuild_stats, goal_cases)
          case (4 b4)
          let ?s = "fresh_store mf rc3 b3\<lparr>st_backend := b4, st_stats := (st_stats (fresh_store mf rc3 b3))\<lparr>guarded :=
             \<lparr>total_bytes = sum_list (map (\<lambda>(d, r). cr_size r * cr_count r) (counts rc3)),
              stored_bytes = sum_list (map (\<lambda>(d, r). cr_size r) (counts rc3)), gc_chunks = 0\<rparr>\<rparr>\<rparr>"
          have "recovered kv ok mv refs (kv b) ?s"
            using 4 b1 b2 b3 mf refs3 by (simp add: recovered_def fresh_store_def unlocked_def)
          from Q [OF this] show ?case by (simp add: fresh_store_def)
        qed (use b3(1) pos in \<open>auto simp: fresh_store_def unlocked_def\<close>)
      qed
    qed
  qed
qed

text \<open>Reading from it.\<close>

lemma read_recovered:
  assumes s: "recovered kv ok mv refs m s" and rec: "recoverable E c mv refs m"
    and cov: "\<And>f ds n d. mv f = Some (ds, n) \<Longrightarrow> d \<in> set ds \<Longrightarrow> refs d \<noteq> None"
  shows "fst (read E g (s\<lparr>st_codec := c\<rparr>)) =
     (case mv g of None \<Rightarrow> Err (NotFound (''file '' @ g)) | Some (ds, n) \<Rightarrow> Ok (the (assemble c m ds)))"
proof -
  have S: "ok (st_backend s)" "\<not> poisoned (st_manifest s)" "manifest_ok (guarded (st_manifest s))"
      "manifest_view (guarded (st_manifest s)) = mv" "same_outside is_refcount_key m (kv (st_backend s))"
    using s by (auto simp: recovered_def unlocked_def)
  have get: "try_get (guarded (st_manifest s)) g = map_option fst (mv g)"
    using manifest_view_digests [OF S(3), of g] S(4) by simp
  show ?thesis
  proof (cases "mv g")
    case None
    then show ?thesis
      using read_missing [of "s\<lparr>st_codec := c\<rparr>" g E] get S(2) by simp
  next
    case (Some x)
    obtain ds n where x: "x = (ds, n)" by fastforce
    have plain: "\<exists>p. is_chunk_digest d \<and> blob_plain c (kv (st_backend s)) d = Some p \<and> digest_hex (dp_sha E) p = d"
      and same: "blob_plain c (kv (st_backend s)) d = blob_plain c m d" if d: "d \<in> set ds" for d
    proof -
      obtain r where r: "refs d = Some r" using cov [OF Some [unfolded x] d] by auto
      have dig: "is_chunk_digest d"
        using rec r disk_refsD(1) by (auto simp: recoverable_def)
      show same: "blob_plain c (kv (st_backend s)) d = blob_plain c m d"
        by (rule blob_plain_cong) (use S(5) dig in \<open>simp add: same_outside_def\<close>)
      obtain p where p: "blob_plain c m d = Some p"
        using rec r by (auto simp: recoverable_def)
      then obtain q where "blob_plain c m d = Some q" "digest_hex (dp_sha E) q = d"
        using rec dig blob_plain_not_None [OF p] by (auto simp: recoverable_def blobs_intact_def)
      then show "\<exists>p. is_chunk_digest d \<and> blob_plain c (kv (st_backend s)) d = Some p \<and> digest_hex (dp_sha E) p = d"
        using dig same by auto
    qed
    have "wp (read E g) (s\<lparr>st_codec := c\<rparr>) (\<lambda>out _. out = the (assemble c m ds))"
    proof (rule wp_read, rule wp_read_named [where W = "\<lambda>ps w. w = concat ps" and ds = ds], goal_cases)
      case (7 ps w b)
      moreover have "map (blob_plain c (kv (st_backend s))) ds = map (blob_plain c m) ds"
        using same by simp
      ultimately show ?case by (simp add: assemble_def)
    qed (use S get Some x plain in \<open>auto simp: vec_write_all_def wp_iff\<close>)
    then show ?thesis using Some x by (auto simp: wp_iff)
  qed
qed

text \<open>Opening what was left behind, with another client and another backend holding the same keys.\<close>

lemma reopen_left:
  assumes left: "left_behind F kvF okF c m mv N s1" and F: "dp_json E = dp_json F" "dp_sha E = dp_sha F"
    and b: "ok b" "kv b = kvF (st_backend s1)"
    and keys: "\<And>f. f \<in> dom mv \<Longrightarrow> valid (manifest_key f)"
    and cov: "\<And>f ds n d. mv f = Some (ds, n) \<Longrightarrow> d \<in> set ds \<Longrightarrow> d \<in># N"
  obtains s2 b2 refs where "open_store E b = (Ok s2, b2)" and "recovered kv ok mv refs (kv b) s2"
    and "covers refs N"
    and "\<And>g. fst (read E g (s2\<lparr>st_codec := c\<rparr>)) =
      (case mv g of None \<Rightarrow> Err (NotFound (''file '' @ g)) | Some (ds, n) \<Rightarrow> Ok (the (assemble c (kv b) ds)))"
proof -
  obtain refs where refs: "recoverable E c mv refs (kv b)" "covers refs N"
    using left b(2) recoverable_cong [OF F, of c mv] by (auto simp: left_behind_def)
  have "wp (open_store E) b (\<lambda>s2 _. recovered kv ok mv refs (kv b) s2)"
    by (rule wp_open_recoverable [OF b(1) refs(1) keys])
  then obtain s2 b2 where s2: "open_store E b = (Ok s2, b2)" "recovered kv ok mv refs (kv b) s2"
    by (rule wpE)
  have "refs d \<noteq> None" if "mv f = Some (ds, n)" "d \<in> set ds" for f ds n d
  proof
    assume "refs d = None"
    with refs(2) have "count N d = 0" by (auto simp: covers_def dest: spec [of _ d])
    with cov [OF that] show False by (metis not_in_iff)
  qed
  with s2 refs show ?thesis by (intro that [of s2 b2 refs]) (auto intro!: read_recovered)
qed

end

text \<open>The files of a store, seen through whatever still has their blobs.\<close>

lemma survivors:
  assumes inv: "store_inv E kv ok valid s" and kept: "blobs_kept (kv (st_backend s)) m"
    and g: "manifest_view (guarded (st_manifest s)) g = Some (ds, n)"
  shows "assemble (st_codec s) m ds = contents kv s g" and "contents kv s g \<noteq> None"
    and "\<And>d. d \<in> set ds \<Longrightarrow> d \<in># store_refs s"
proof -
  note S = store_invD [OF inv]
  have get: "try_get (guarded (st_manifest s)) g = Some ds"
    using manifest_view_digests [OF S(2), of g] g by simp
  show refs: "d \<in># store_refs s" if "d \<in> set ds" for d using file_refs [OF get that] .
  have "blob_plain (st_codec s) m d = store_plain kv s d" if d: "d \<in> set ds" for d
    using chunk_inv_member [OF S(5) refs [OF d]] blobs_kept_plain [OF kept] by metis
  then show "assemble (st_codec s) m ds = contents kv s g"
    using assemble_cong [of ds "st_codec s" m "kv (st_backend s)"] by (simp add: contents_def get)
  show "contents kv s g \<noteq> None"
    using contents_None_iff [OF inv, of g] get by simp
qed

lemma manifest_refs_cong:
  assumes "manifest_ok m1" and "manifest_ok m2" and "manifest_view m1 = manifest_view m2"
  shows "all_refs (files m1) = all_refs (files m2)"
proof -
  have "map_of (files m1) = map_of (files m2)"
    using manifest_view_digests [OF assms(1)] manifest_view_digests [OF assms(2)] assms(3)
    by (simp add: fun_eq_iff try_get_def)
  then show ?thesis using assms(1,2) by (intro all_refs_cong) (simp_all add: manifest_ok_def)
qed

section \<open>An interrupted delete\<close>

text \<open>
  A client of \<open>E\<close> that dies after \<open>n\<close> writes.
\<close>

definition crash_deps :: "'b deps \<Rightarrow> ('b \<times> nat) deps" where
  "crash_deps E = \<lparr>dp_backend = crashing (dp_backend E), dp_json = dp_json E, dp_sha = dp_sha E,
     dp_fastcdc = dp_fastcdc E\<rparr>"

definition crash_after :: "nat \<Rightarrow> 'b store \<Rightarrow> ('b \<times> nat) store" where
  "crash_after n s = \<lparr>st_backend = (st_backend s, n), st_manifest = st_manifest s,
     st_refcount = st_refcount s, st_stats = st_stats s, st_blob = st_blob s, st_codec = st_codec s\<rparr>"

lemma crash_deps_simps [simp]:
  "dp_backend (crash_deps E) = crashing (dp_backend E)" "dp_json (crash_deps E) = dp_json E"
  "dp_sha (crash_deps E) = dp_sha E" "dp_fastcdc (crash_deps E) = dp_fastcdc E"
  by (simp_all add: crash_deps_def)

lemma crash_after_simps [simp]:
  "st_backend (crash_after n s) = (st_backend s, n)" "st_manifest (crash_after n s) = st_manifest s"
  "st_refcount (crash_after n s) = st_refcount s" "st_stats (crash_after n s) = st_stats s"
  "st_blob (crash_after n s) = st_blob s" "st_codec (crash_after n s) = st_codec s"
  by (simp_all add: crash_after_def)

lemma crash_after_inv:
  "store_inv E kv ok valid s \<Longrightarrow> store_inv (crash_deps E) (kv \<circ> fst) (ok \<circ> fst) valid (crash_after n s)"
  by (simp add: store_inv_def chunk_inv_def unlocked_def)

sublocale store_env \<subseteq> crashed: faulty_env "crash_deps E" "kv \<circ> fst" "ok \<circ> fst" valid
  by (intro faulty_env.intro faulty_env_axioms.intro)
    (simp_all add: json sha crash.faulty_store_backend_axioms [unfolded comp_def] comp_def)

context store_env
begin

lemma crash_env: "faulty_env (crash_deps E) (kv \<circ> fst) (ok \<circ> fst) valid"
  by (rule crashed.faulty_env_axioms)

text \<open>The manifest record is deleted first: until the index is rewritten it lists a file without a record.\<close>

lemma load_missing_record:
  assumes ok: "ok b" and disk: "disk_manifests (dp_json E) m mv" and f: "f \<in> dom mv"
    and kvb: "kv b = m(manifest_key f := None)"
    and keys: "\<And>g. g \<in> dom mv \<Longrightarrow> valid (manifest_key g)"
  shows "raises (open_store E) b (\<lambda>e _. e = BackendError (''missing manifest key '' @ manifest_key f))"
proof -
  let ?J = "dp_json E" and ?B = "dp_backend E"
  let ?I = "\<lambda>b1. ok b1 \<and> kv b1 = m(manifest_key f := None)"
  obtain idx where idx: "index_lists ?J m MANIFEST_INDEX_KEY idx" "set idx = dom mv"
    using disk by (auto simp: disk_manifests_def)
  have proper: "proper_file_id f" using disk f by (auto dest: disk_manifestsD(1))
  then have idx': "index_lists ?J (kv b) MANIFEST_INDEX_KEY idx"
    using idx(1) by (simp add: kvb index_lists_def)
  obtain pre post where split: "idx = pre @ f # post" "f \<notin> set pre"
    using f idx(2) by (metis split_list_first)
  have before: "wp (load_manifest_entry ?J ?B g mf) b1 (\<lambda>_. ?I)" if g: "g \<in> set pre" "?I b1" for g mf b1
  proof -
    have "g \<in> dom mv" "g \<noteq> f" using g(1) split idx(2) by auto
    then obtain ds n where ds: "mv g = Some (ds, n)" by auto
    obtain raw where r: "m (manifest_key g) = Some raw"
        "from_slice_manifest ?J raw = Inr \<lparr>mr_digests = ds, mr_file_bytes = n\<rparr>"
      using disk_manifestsD(3) [OF disk ds] by blast
    have "g \<noteq> []" "list_all is_chunk_digest ds"
      using disk_manifestsD(1,2) [OF disk ds] by (auto simp: proper_file_id_def)
    then show ?thesis
      using g(2) r keys [of g] ds \<open>g \<noteq> f\<close>
      by (auto simp: load_manifest_entry_def wp_rules for_each_validate manifest_insert_def intro!: wp_get)
  qed
  have at: "raises (load_manifest_entry ?J ?B f mf) b1
      (\<lambda>e _. e = BackendError (''missing manifest key '' @ manifest_key f))" if "?I b1" for mf b1
    unfolding load_manifest_entry_def
    by (rule raises_seq_second, rule wp_get) (use that keys f in \<open>auto simp: raises_iff seq_def lift_def\<close>)
  have "raises (fold_act (load_manifest_entry ?J ?B) (f # post) mf) b1
      (\<lambda>e _. e = BackendError (''missing manifest key '' @ manifest_key f))" if "?I b1" for mf b1
    unfolding fold_act.simps by (rule raises_seq_first) (rule at [OF that])
  moreover have "wp (fold_act (load_manifest_entry ?J ?B) pre manifest_new) b1 (\<lambda>_. ?I)" if "?I b1" for b1
    by (rule wp_fold_act [where I = "\<lambda>_ _. ?I"]) (use that before in auto)
  ultimately have "raises (fold_act (load_manifest_entry ?J ?B) idx manifest_new) b1
      (\<lambda>e _. e = BackendError (''missing manifest key '' @ manifest_key f))" if "?I b1" for b1
    unfolding split(1) fold_act_append using that by (blast intro: raises_seq_second wp_mono)
  then show ?thesis
    unfolding open_store_def load_manifests_def
    by (intro raises_seq_first raises_seq_second wp_read_string_list [OF ok valid_manifest_index idx'])
      (use kvb in auto)
qed

lemma raises_remove_manifest:
  assumes b: "ok b" and disk: "disk_manifests (dp_json E) (kv b) mv"
    and f: "proper_file_id f" "valid (manifest_key f)"
  shows "raises (remove_manifest (dp_json E) (crashing (dp_backend E)) f) (b, 1)
    (\<lambda>e x. e = IoError ''process killed'' \<and> ok (fst x) \<and> kv (fst x) = (kv b)(manifest_key f := None))"
proof -
  obtain b1 where b1: "be_delete (dp_backend E) (manifest_key f) b = (Ok (), b1)" "ok b1"
      "kv b1 = (kv b)(manifest_key f := None)"
    using delete_law [OF b f(2)] by blast
  obtain v b2 where b2: "be_get (dp_backend E) MANIFEST_INDEX_KEY b1 = (Ok v, b2)" "ok b2" "kv b2 = kv b1" "v = kv b1 MANIFEST_INDEX_KEY"
    using get_law [OF b1(2) valid_manifest_index] by blast
  obtain idx where "index_lists (dp_json E) (kv b1) MANIFEST_INDEX_KEY idx"
    using disk f(1) by (auto simp: disk_manifests_def index_lists_def b1(3))
  then have "read_string_list (dp_json E) (crashing (dp_backend E)) MANIFEST_INDEX_KEY (b1, 0) = (Ok idx, (b2, 0))"
    using b2 by (cases "kv b1 MANIFEST_INDEX_KEY")
      (simp_all add: read_string_list_def crashing_def counted_def zoom_def seq_def lift_def ret_def index_lists_def)
  moreover obtain raw where "to_vec_strings (dp_json E) (filter (\<lambda>g. g \<noteq> f) idx) = Inr raw"
    using json by (rule json_okE)
  ultimately show ?thesis
    using b1 b2
    by (simp add: raises_iff remove_manifest_def crashing_def write_or_die_def seq_def lift_def
        write_string_list_def)
qed

lemma raises_delete_crash:
  assumes inv: "store_inv E kv ok valid s" and f: "f \<in> dom (manifest_view (guarded (st_manifest s)))"
  shows "raises (delete (crash_deps E) f) (crash_after 1 s)
    (\<lambda>e x. e = IoError ''process killed'' \<and> ok (fst (st_backend x)) \<and>
       kv (fst (st_backend x)) = (kv (st_backend s))(manifest_key f := None))"
proof -
  note S = store_invD [OF inv]
  obtain ds n where v: "manifest_view (guarded (st_manifest s)) f = Some (ds, n)" using f by auto
  have free: "\<not> poisoned (st_manifest s)"
    using chunk_invD(1) [OF S(5)] by (simp add: unlocked_def)
  have "try_get (guarded (st_manifest s)) f = Some ds"
    using manifest_view_digests [OF S(2), of f] v by simp
  then obtain mf where "manifest_remove f (guarded (st_manifest s)) = (Ok ds, mf)"
    by (auto simp: manifest_remove_def try_get_def)
  then have "on_manifest (manifest_remove f) (crash_after 1 s) =
      (Ok ds, (crash_after 1 s)\<lparr>st_manifest := (st_manifest s)\<lparr>guarded := mf\<rparr>\<rparr>)"
    using free by (cases "st_manifest s") (simp add: on_manifest_def zoom_def with_lock_def)
  then show ?thesis
    using raises_remove_manifest [OF S(1,3) _ S(4) [OF f]] disk_manifestsD(1) [OF S(3) v]
    by (auto simp: delete_def raises_iff seq_def on_backend_def zoom_def)
qed

end

end
