(* ===== verification/Thread_Races.thy ===== *)
theory Thread_Races
  imports Thread_Properties Store_Recovery
begin

text \<open>
  Two releases at the same time.  \<^verbatim>\<open>remove_refcount\<close> reads the index of the counts and
  writes it back with no mutex held, so the second of two releases can put back the entry that
  the first has taken out, for a record that is gone.
\<close>

section \<open>Runs of two threads\<close>

definition reaches ::
  "'b deps \<Rightarrow> 'b store \<times> thread multiset \<Rightarrow> ('b store \<times> thread multiset \<Rightarrow> bool) \<Rightarrow> bool" where
  "reaches E x P \<longleftrightarrow> (\<exists>y. pool_runs E x y \<and> P y)"

lemma reaches_here: "P x \<Longrightarrow> reaches E x P"
  unfolding reaches_def by blast

lemma reaches_left:
  assumes "running t" and "wp (thread_step E t) s (\<lambda>t' s'. reaches E (s', {#t', u#}) P)"
  shows "reaches E (s, {#t, u#}) P"
  using assms pool_runs_step [OF assms(1), of E s _ _ "{#u#}"] by (fastforce simp: wp_iff reaches_def)

lemma reaches_right:
  assumes "running u" and "wp (thread_step E u) s (\<lambda>u' s'. reaches E (s', {#t, u'#}) P)"
  shows "reaches E (s, {#t, u#}) P"
  using reaches_left [of u E s t P] assms by (simp add: add_mset_commute)

section \<open>The steps of a release on the backend\<close>

text \<open>No lock is poisoned, the backend holds \<open>m\<close>.\<close>

definition holds_map ::
  "('b \<Rightarrow> string \<rightharpoonup> bytes) \<Rightarrow> ('b \<Rightarrow> bool) \<Rightarrow> (string \<rightharpoonup> bytes) \<Rightarrow> 'b store \<Rightarrow> bool" where
  "holds_map kv ok m s \<longleftrightarrow> ok (st_backend s) \<and> unlocked s \<and> kv (st_backend s) = m"

lemma decrement_last:
  "get_ref rc d = Some r \<Longrightarrow> cr_count r = 1 \<Longrightarrow>
     decrement d rc = (Ok 0, rc\<lparr>counts := AList.delete d (counts rc)\<rparr>)"
  by (simp add: decrement_def get_ref_def Let_def)

context store_env
begin

lemma step_size:
  assumes "chunk_inv E (kv (st_backend s)) M s" and "ok (st_backend s)" and "d \<in># M"
    and "\<And>b sz. ok b \<Longrightarrow> kv b = kv (st_backend s) \<Longrightarrow> Q (ReleaseCount d sz) (s\<lparr>st_backend := b\<rparr>)"
  shows "wp (thread_step E (ReleaseSize d)) s Q"
  unfolding thread_step.simps release_step.simps wp_seq
  by (rule wp_chunk_size_of [OF assms(1-3)]) (simp add: wp_ret assms(4))

lemma step_count_last:
  assumes "holds_map kv ok m s" and "get_ref (guarded (st_refcount s)) d = Some r" and "cr_count r = 1"
    and "\<And>s'. holds_map kv ok m s' \<Longrightarrow>
           get_ref (guarded (st_refcount s')) = (get_ref (guarded (st_refcount s)))(d := None) \<Longrightarrow> Q (DeleteBlob d sz) s'"
  shows "wp (thread_step E (ReleaseCount d sz)) s Q"
proof -
  have "get_ref (rc\<lparr>counts := AList.delete d (counts rc)\<rparr>) = (get_ref rc)(d := None)" for rc
    by (simp add: get_ref_def fun_eq_iff delete_conv')
  then show ?thesis
    using assms by (simp add: wp_rules wp_iff [of "decrement d"] decrement_last holds_map_def unlocked_def)
qed

lemma step_delete_blob:
  assumes "holds_map kv ok m s" and "is_chunk_digest d"
    and "\<And>s'. holds_map kv ok (m(d := None)) s' \<Longrightarrow> Q (DeleteRecord d sz) s'"
  shows "wp (thread_step E (DeleteBlob d sz)) s Q"
  using assms by (auto simp: wp_rules holds_map_def unlocked_def intro!: wp_delete valid_digest)

lemma step_delete_record:
  assumes "holds_map kv ok m s" and "is_chunk_digest d"
    and "\<And>s'. holds_map kv ok (m(refcount_key d := None)) s' \<Longrightarrow> Q (UnlistRead d sz) s'"
  shows "wp (thread_step E (DeleteRecord d sz)) s Q"
  using assms by (auto simp: wp_rules holds_map_def unlocked_def intro!: wp_delete valid_refcount_key)

lemma step_unlist_read:
  assumes "holds_map kv ok m s" and "index_lists (dp_json E) m REFCOUNT_INDEX_KEY idx"
    and "\<And>s'. holds_map kv ok m s' \<Longrightarrow> Q (UnlistWrite d sz idx) s'"
  shows "wp (thread_step E (UnlistRead d sz)) s Q"
  using assms by (auto simp: wp_rules holds_map_def unlocked_def intro!: wp_read_string_list valid_refcount_index)

lemma step_unlist_write:
  assumes "holds_map kv ok m s"
    and "\<And>s' v. holds_map kv ok (m(REFCOUNT_INDEX_KEY \<mapsto> v)) s' \<Longrightarrow>
           from_slice_strings (dp_json E) v = Inr (filter (\<lambda>d'. d' \<noteq> d) idx) \<Longrightarrow> Q (CountCollected d sz) s'"
  shows "wp (thread_step E (UnlistWrite d sz idx)) s Q"
  using assms json by (auto simp: wp_rules holds_map_def unlocked_def intro!: wp_write_string_list valid_refcount_index)

lemma step_count_collected:
  assumes "holds_map kv ok m s" and "\<And>s'. holds_map kv ok m s' \<Longrightarrow> Q (CountReleased d sz) s'"
  shows "wp (thread_step E (CountCollected d sz)) s Q"
  using assms by (auto simp: wp_rules holds_map_def unlocked_def)

lemma step_count_released:
  assumes "holds_map kv ok m s" and "\<And>s'. holds_map kv ok m s' \<Longrightarrow> Q (Released d) s'"
  shows "wp (thread_step E (CountReleased d sz)) s Q"
  using assms by (auto simp: wp_rules holds_map_def unlocked_def)

text \<open>The schedule: both read the index before either writes it.\<close>

lemma releases_race:
  assumes inv: "chunk_inv E (kv (st_backend s)) (add_mset d (add_mset e N)) s" and ok: "ok (st_backend s)"
    and last: "d \<noteq> e" "d \<notin># N" "e \<notin># N"
    and idx: "index_lists (dp_json E) (kv (st_backend s)) REFCOUNT_INDEX_KEY idx"
  shows "reaches E (s, {#ReleaseSize d, ReleaseSize e#}) (\<lambda>(s', T). T = {#Released d, Released e#} \<and>
     (\<exists>v. holds_map kv ok ((kv (st_backend s))(d := None, e := None, refcount_key d := None,
              refcount_key e := None, REFCOUNT_INDEX_KEY \<mapsto> v)) s' \<and>
          from_slice_strings (dp_json E) v = Inr (filter (\<lambda>d'. d' \<noteq> e) idx)))"
proof -
  let ?m = "kv (st_backend s)" and ?rc = "guarded (st_refcount s)"
  note I = chunk_invD [OF inv]
  have mem: "d \<in># add_mset d (add_mset e N)" "e \<in># add_mset d (add_mset e N)" by simp_all
  have dig: "is_chunk_digest d" "is_chunk_digest e" using chunk_inv_member [OF inv] mem by metis+
  obtain r r' where r: "get_ref ?rc d = Some r" "cr_count r = 1" "get_ref ?rc e = Some r'" "cr_count r' = 1"
    using refs_match_member [OF I(5)] mem last by (metis count_add_mset count_inI of_nat_1 One_nat_def)
  let ?P = "\<lambda>(s', T). T = {#Released d, Released e#} \<and>
     (\<exists>v. holds_map kv ok (?m(d := None, e := None, refcount_key d := None,
              refcount_key e := None, REFCOUNT_INDEX_KEY \<mapsto> v)) s' \<and>
          from_slice_strings (dp_json E) v = Inr (filter (\<lambda>d'. d' \<noteq> e) idx))"
  let ?gone = "?m(d := None, e := None, refcount_key d := None, refcount_key e := None)"
  have stats: "reaches E (s', {#CountCollected d x, CountCollected e y#}) ?P"
    if "holds_map kv ok (?gone(REFCOUNT_INDEX_KEY \<mapsto> v)) s'"
      "from_slice_strings (dp_json E) v = Inr (filter (\<lambda>d'. d' \<noteq> e) idx)" for s' v x y
    by (rule reaches_left, simp, rule step_count_collected [OF that(1)],
        rule reaches_left, simp, rule step_count_released, assumption,
        rule reaches_right, simp, rule step_count_collected, assumption,
        rule reaches_right, simp, rule step_count_released, assumption,
        rule reaches_here) (use that(2) in auto)
  have index: "reaches E (s', {#UnlistRead d x, UnlistRead e y#}) ?P" if h: "holds_map kv ok ?gone s'" for s' x y
  proof -
    have "index_lists (dp_json E) ?gone REFCOUNT_INDEX_KEY idx"
      using idx dig by (auto simp: index_lists_def dest: digest_key_class(2))
    then show ?thesis
      by (intro reaches_left [OF _ step_unlist_read [OF h]] reaches_right [OF _ step_unlist_read]
          reaches_left [OF _ step_unlist_write] reaches_right [OF _ step_unlist_write]) (auto intro: stats)
  qed
  have blobs: "reaches E (s', {#DeleteBlob d x, DeleteBlob e y#}) ?P" if h: "holds_map kv ok ?m s'" for s' x y
    by (rule reaches_left, simp, rule step_delete_blob [OF h dig(1)],
        rule reaches_right, simp, rule step_delete_blob [OF _ dig(2)], assumption,
        rule reaches_left, simp, rule step_delete_record [OF _ dig(1)], assumption,
        rule reaches_right, simp, rule step_delete_record [OF _ dig(2)], assumption, rule index)
  show ?thesis
  proof (rule reaches_left, simp, rule step_size [OF inv ok mem(1)])
    fix b x assume b: "ok b" "kv b = ?m"
    let ?s1 = "s\<lparr>st_backend := b\<rparr>"
    have inv1: "chunk_inv E (kv (st_backend ?s1)) (add_mset d (add_mset e N)) ?s1"
      using inv b(2) by (simp add: chunk_inv_def unlocked_def)
    show "reaches E (?s1, {#ReleaseCount d x, ReleaseSize e#}) ?P"
    proof (rule reaches_right, simp, rule step_size [OF inv1 _ mem(2)])
      fix b' y assume b': "ok b'" "kv b' = kv (st_backend ?s1)"
      have h: "holds_map kv ok ?m (?s1\<lparr>st_backend := b'\<rparr>)"
        using I(1) b' b(2) by (simp add: holds_map_def unlocked_def)
      show "reaches E (?s1\<lparr>st_backend := b'\<rparr>, {#ReleaseCount d x, ReleaseCount e y#}) ?P"
      proof (rule reaches_left, simp, rule step_count_last [OF h _ r(2)], simp add: r(1))
        fix s' assume s': "holds_map kv ok ?m s'"
          "get_ref (guarded (st_refcount s')) = (get_ref (guarded (st_refcount (?s1\<lparr>st_backend := b'\<rparr>))))(d := None)"
        show "reaches E (s', {#DeleteBlob d x, ReleaseCount e y#}) ?P"
          by (rule reaches_right, simp, rule step_count_last [OF s'(1) _ r(4)])
            (use s'(2) r(3) last(1) in \<open>auto intro: blobs\<close>)
      qed
    qed (use b in simp)
  qed
qed

section \<open>An index that lists a missing record\<close>

lemma load_missing_count:
  assumes ok: "ok b" and man: "disk_manifests (dp_json E) (kv b) mv"
    and keys: "\<And>g. g \<in> dom mv \<Longrightarrow> valid (manifest_key g)"
    and idx: "index_lists (dp_json E) (kv b) REFCOUNT_INDEX_KEY idx"
    and d: "d \<in> set idx" "is_chunk_digest d" "kv b (refcount_key d) = None"
    and rest: "\<And>g. g \<in> set idx \<Longrightarrow> g \<noteq> d \<Longrightarrow> is_chunk_digest g \<and>
           (\<exists>raw r. kv b (refcount_key g) = Some raw \<and> parse_refcount_record (dp_json E) raw g = Ok r)"
  shows "raises (open_store E) b (\<lambda>e _. e = BackendError (''missing refcount key '' @ refcount_key d))"
proof -
  let ?J = "dp_json E" and ?B = "dp_backend E" and ?R = "\<lambda>e _. e = BackendError (''missing refcount key '' @ refcount_key d)"
  let ?I = "\<lambda>b1. ok b1 \<and> kv b1 = kv b"
  obtain pre post where split: "idx = pre @ d # post" "d \<notin> set pre" using d(1) by (metis split_list_first)
  have before: "wp (load_refcount_entry ?J ?B g rc) b1 (\<lambda>_. ?I)" if g: "g \<in> set pre" "?I b1" for g rc b1
  proof -
    obtain raw r where "is_chunk_digest g" "kv b (refcount_key g) = Some raw" "parse_refcount_record ?J raw g = Ok r"
      using rest [of g] g(1) split by (metis Un_iff set_append)
    then show ?thesis
      using g(2) by (cases r) (auto simp: load_refcount_entry_def wp_rules validate_digest_cases valid_refcount_key intro!: wp_get)
  qed
  have at: "raises (load_refcount_entry ?J ?B d rc) b1 ?R" if "?I b1" for rc b1
    unfolding load_refcount_entry_def validate_digest_cases if_P [OF d(2)]
    by (rule raises_seq_second, simp only: wp_lift res.case, rule raises_seq_second, rule wp_get)
      (use that d valid_refcount_key in \<open>auto simp: raises_iff seq_def lift_def\<close>)
  have "raises (fold_act (load_refcount_entry ?J ?B) (d # post) rc) b1 ?R" if "?I b1" for rc b1
    unfolding fold_act.simps by (rule raises_seq_first) (rule at [OF that])
  moreover have "wp (fold_act (load_refcount_entry ?J ?B) pre ref_count_new) b1 (\<lambda>_. ?I)" if "?I b1" for b1
    by (rule wp_fold_act [where I = "\<lambda>_ _. ?I"]) (use that before in auto)
  ultimately have fold: "raises (fold_act (load_refcount_entry ?J ?B) idx ref_count_new) b1 ?R" if "?I b1" for b1
    unfolding split(1) fold_act_append using that by (blast intro: raises_seq_second wp_mono)
  have "raises (load_refcounts ?J ?B) b1 ?R" if "?I b1" for b1
    unfolding load_refcounts_def
    by (intro raises_seq_second wp_read_string_list [OF _ valid_refcount_index]) (use that idx fold in auto)
  then show ?thesis
    unfolding open_store_def
    by (intro raises_seq_second [OF wp_load_manifests [OF ok man keys]] raises_seq_first) simp_all
qed

end

text \<open>
  Two files are deleted at the same time and each has a chunk of its own, \<open>d\<close> and \<open>e\<close>.  When both
  threads read the index of the counts before either writes it, both deletes succeed, but the index
  that stays lists \<open>d\<close>, whose record is gone: from then on \<^verbatim>\<open>open\<close> fails, and with it every
  file of the store is out of reach.
\<close>

theorem index_race:
  assumes "store_env E kv ok valid" and "store_inv E kv ok valid s"
    and "store_refs s = add_mset d (add_mset e N)" and "d \<noteq> e" and "d \<notin># N" and "e \<notin># N"
  shows "\<exists>s'. pool_runs E (s, {#ReleaseSize d, ReleaseSize e#}) (s', {#Released d, Released e#}) \<and>
     fst (open_store E (st_backend s')) = Err (BackendError (''missing refcount key '' @ refcount_key d))"
proof -
  let ?m = "kv (st_backend s)" and ?J = "dp_json E"
  note S = store_invD [OF assms(2)]
  have inv: "chunk_inv E ?m (add_mset d (add_mset e N)) s" using S(5) assms(3) by simp
  note I = chunk_invD [OF inv]
  have dig: "is_chunk_digest d" "is_chunk_digest e" using store_ref_digest [OF assms(2)] assms(3) by simp_all
  obtain idx where idx: "index_lists ?J ?m REFCOUNT_INDEX_KEY idx" "set idx = dom (get_ref (guarded (st_refcount s)))"
    using I(7) by (auto simp: disk_refs_def)
  obtain s' v where s': "pool_runs E (s, {#ReleaseSize d, ReleaseSize e#}) (s', {#Released d, Released e#})"
      "holds_map kv ok (?m(d := None, e := None, refcount_key d := None,
          refcount_key e := None, REFCOUNT_INDEX_KEY \<mapsto> v)) s'"
      "from_slice_strings ?J v = Inr (filter (\<lambda>d'. d' \<noteq> e) idx)"
    using store_env.releases_race [OF assms(1) inv S(1) assms(4-6) idx(1)] by (auto simp: reaches_def)
  let ?m' = "?m(d := None, e := None, refcount_key d := None, refcount_key e := None, REFCOUNT_INDEX_KEY \<mapsto> v)"
  have b: "ok (st_backend s')" "kv (st_backend s') = ?m'" using s'(2) by (simp_all add: holds_map_def)
  have "same_outside (\<lambda>k. k \<in> {d, e} \<or> is_refcount_key k) ?m ?m'" by (simp add: same_outside_def)
  moreover have "\<not> (k \<in> {d, e} \<or> is_refcount_key k)" if "is_manifest_key k" for k
    using that digest_key_class(1) [OF dig(1)] digest_key_class(1) [OF dig(2)] refcount_key_not_manifest_key by blast
  ultimately have man: "disk_manifests ?J (kv (st_backend s')) (manifest_view (guarded (st_manifest s)))"
    unfolding b(2) using disk_manifests_cong S(3) by blast
  have "raises (open_store E) (st_backend s') (\<lambda>x _. x = BackendError (''missing refcount key '' @ refcount_key d))"
  proof (rule store_env.load_missing_count [OF assms(1) b(1) man, where idx = "filter (\<lambda>d'. d' \<noteq> e) idx"], goal_cases)
    case (1 g)
    then show ?case using S(4) by blast
  next
    case 2
    show ?case using s'(3) by (simp add: b(2) index_lists_def)
  next
    case 3
    show ?case using idx(2) refs_match_dom [OF I(5)] assms(4) by simp
  next
    case (6 g)
    then obtain r where r: "get_ref (guarded (st_refcount s)) g = Some r" using idx(2) by auto
    have g: "g \<noteq> d" "g \<noteq> e" using 6 by auto
    have "refcount_key g \<noteq> d" "refcount_key g \<noteq> e"
      using digest_key_class(2) [OF dig(1)] digest_key_class(2) [OF dig(2)] refcount_key_class(1) [of g] by metis+
    then have "?m' (refcount_key g) = ?m (refcount_key g)"
      using g disk_refsD(1) [OF I(7) r] by simp
    then show ?case using disk_refsD(1,3) [OF I(7) r] b(2) by metis
  qed (use dig b in auto)
  then show ?thesis using s'(1) by (auto simp: raises_iff)
qed

theorem index_race_witness:
  "\<exists>s'. pool_runs sample_deps (one_file, {#ReleaseSize (digest_hex sample_sha [3]), ReleaseSize (digest_hex sample_sha [1, 2])#})
          (s', {#Released (digest_hex sample_sha [3]), Released (digest_hex sample_sha [1, 2])#}) \<and>
        fst (open_store sample_deps (st_backend s')) =
          Err (BackendError (''missing refcount key '' @ refcount_key (digest_hex sample_sha [3])))"
proof (rule index_race [OF sample.store_env_axioms one_file_inv])
  show "store_refs one_file = add_mset (digest_hex sample_sha [3]) (add_mset (digest_hex sample_sha [1, 2]) {#})"
    using one_file_ingested by (simp add: ingested_def manifest_new_def add_mset_commute)
qed (simp_all add: digest_hex_eq_iff sample_sha_def)

end
