(* ===== verification/Pg_Sql.thy ===== *)
theory Pg_Sql
  imports Chunk_Prelude
begin

text \<open>
  The database of \<^verbatim>\<open>core/src/store/postgres_meta.rs\<close>: the two tables of its
  \<^verbatim>\<open>SCHEMA\<close>, the SQL statements it sends, with their parameters, and what those
  statements mean on the tables, constraints included.  The server that runs them is a
  parameter (\<open>pg_driver\<close> in theory \<open>Pg_Meta\<close>).

  A \<^verbatim>\<open>BIGINT\<close> is \<open>i64\<close>, a 64-bit word read with \<open>sint\<close>: the casts
  \<^verbatim>\<open>as i64\<close> and \<^verbatim>\<open>as u64\<close> keep the word.  A
  \<^verbatim>\<open>JSONB\<close> value has the type parameter \<open>'v\<close>.
\<close>

type_synonym i64 = "64 word"

datatype 'v pg_value = Text string | Jsonb 'v | Bigint i64

type_synonym 'v pg_row = "'v pg_value list"

record 'v pg_tables =
  tb_manifests :: "(string \<times> 'v \<times> i64) list"
  tb_refcounts :: "(string \<times> i64 \<times> i64) list"

definition SCHEMA :: string where
  "SCHEMA = concat (map (\<lambda>line. CHR 0x0A # line)
     [''CREATE TABLE IF NOT EXISTS chunkstore_manifests ('',
      ''    file_id TEXT PRIMARY KEY,'',
      ''    digests JSONB NOT NULL,'',
      ''    file_bytes BIGINT NOT NULL'',
      '');'',
      ''CREATE TABLE IF NOT EXISTS chunkstore_refcounts ('',
      ''    digest TEXT PRIMARY KEY,'',
      ''    count BIGINT NOT NULL CHECK (count > 0),'',
      ''    size BIGINT NOT NULL CHECK (size >= 0)'',
      '');'',
      []])"

text \<open>The two \<^verbatim>\<open>CHECK\<close> constraints, on a row's count and size.\<close>

definition checks :: "i64 \<times> i64 \<Rightarrow> bool" where
  "checks r \<longleftrightarrow> 0 < sint (fst r) \<and> 0 \<le> sint (snd r)"

section \<open>The statements\<close>

datatype 'v pg_statement =
    Select_manifests
  | Select_refcounts
  | Select_digests string
  | Sum_sizes
  | Select_size string
  | Upsert_manifest string 'v i64
  | Delete_manifest string
  | Increment_count string i64
  | Decrement_count string
  | Delete_count string

fun sql_text :: "'v pg_statement \<Rightarrow> string" where
  "sql_text Select_manifests = ''SELECT file_id, digests, file_bytes FROM chunkstore_manifests''"
| "sql_text Select_refcounts = ''SELECT digest, count, size FROM chunkstore_refcounts''"
| "sql_text (Select_digests file_id) =
     ''SELECT digests FROM chunkstore_manifests WHERE file_id = $1''"
| "sql_text Sum_sizes =
     ''SELECT COALESCE(SUM(size * count), 0)::BIGINT, COALESCE(SUM(size), 0)::BIGINT FROM chunkstore_refcounts''"
| "sql_text (Select_size digest) = ''SELECT size FROM chunkstore_refcounts WHERE digest = $1''"
| "sql_text (Upsert_manifest file_id payload nbytes) =
     ''INSERT INTO chunkstore_manifests (file_id, digests, file_bytes) VALUES ($1, $2, $3) ON CONFLICT (file_id) DO UPDATE SET digests = EXCLUDED.digests, file_bytes = EXCLUDED.file_bytes''"
| "sql_text (Delete_manifest file_id) = ''DELETE FROM chunkstore_manifests WHERE file_id = $1''"
| "sql_text (Increment_count digest sz) =
     ''INSERT INTO chunkstore_refcounts (digest, count, size) VALUES ($1, 1, $2) ON CONFLICT (digest) DO UPDATE SET count = chunkstore_refcounts.count + 1 RETURNING count''"
| "sql_text (Decrement_count digest) =
     ''UPDATE chunkstore_refcounts SET count = count - 1 WHERE digest = $1 RETURNING count''"
| "sql_text (Delete_count digest) = ''DELETE FROM chunkstore_refcounts WHERE digest = $1''"

fun sql_params :: "'v pg_statement \<Rightarrow> 'v pg_value list" where
  "sql_params Select_manifests = []"
| "sql_params Select_refcounts = []"
| "sql_params (Select_digests file_id) = [Text file_id]"
| "sql_params Sum_sizes = []"
| "sql_params (Select_size digest) = [Text digest]"
| "sql_params (Upsert_manifest file_id payload nbytes) = [Text file_id, Jsonb payload, Bigint nbytes]"
| "sql_params (Delete_manifest file_id) = [Text file_id]"
| "sql_params (Increment_count digest sz) = [Text digest, Bigint sz]"
| "sql_params (Decrement_count digest) = [Text digest]"
| "sql_params (Delete_count digest) = [Text digest]"

section \<open>Their meaning\<close>

text \<open>Arithmetic on \<^verbatim>\<open>BIGINT\<close> raises an error where the result does not fit.\<close>

definition bigint :: "int \<Rightarrow> i64 option" where
  "bigint z = (if - (2 ^ 63) \<le> z \<and> z < 2 ^ 63 then Some (of_int z) else None)"

text \<open>The row an insertion or an update would write, if its constraints let it.\<close>

definition checked :: "i64 option \<Rightarrow> i64 \<Rightarrow> (i64 \<times> i64) option" where
  "checked cnt sz =
     (case cnt of None \<Rightarrow> None | Some c \<Rightarrow> if checks (c, sz) then Some (c, sz) else None)"

definition write_count ::
  "string \<Rightarrow> (i64 \<times> i64) option \<Rightarrow> 'v pg_tables \<Rightarrow> ('v pg_row list \<times> 'v pg_tables) option" where
  "write_count digest row t =
     (case row of
        None \<Rightarrow> None
      | Some r \<Rightarrow> Some ([[Bigint (fst r)]], t\<lparr>tb_refcounts := AList.update digest r (tb_refcounts t)\<rparr>))"

definition sum_row :: "(string \<times> i64 \<times> i64) list \<Rightarrow> 'v pg_row option" where
  "sum_row rows =
     (if list_all (\<lambda>(_, c, n). bigint (sint n * sint c) \<noteq> None) rows
      then (case (bigint (sum_list (map (\<lambda>(_, c, n). sint n * sint c) rows)),
                  bigint (sum_list (map (\<lambda>(_, c, n). sint n) rows))) of
              (Some a, Some b) \<Rightarrow> Some [Bigint a, Bigint b]
            | _ \<Rightarrow> None)
      else None)"

text \<open>
  The rows a statement returns and the tables it leaves; \<open>None\<close> is an error.  An
  \<^verbatim>\<open>INSERT ... ON CONFLICT\<close> checks the proposed row first, then, on a conflict, the
  updated one.
\<close>

fun meaning :: "'v pg_statement \<Rightarrow> 'v pg_tables \<Rightarrow> ('v pg_row list \<times> 'v pg_tables) option" where
  "meaning Select_manifests t =
     Some (map (\<lambda>(f, v, n). [Text f, Jsonb v, Bigint n]) (tb_manifests t), t)"
| "meaning Select_refcounts t =
     Some (map (\<lambda>(d, c, n). [Text d, Bigint c, Bigint n]) (tb_refcounts t), t)"
| "meaning (Select_digests f) t =
     Some (case map_of (tb_manifests t) f of None \<Rightarrow> [] | Some (v, n) \<Rightarrow> [[Jsonb v]], t)"
| "meaning Sum_sizes t =
     (case sum_row (tb_refcounts t) of None \<Rightarrow> None | Some row \<Rightarrow> Some ([row], t))"
| "meaning (Select_size d) t =
     Some (case map_of (tb_refcounts t) d of None \<Rightarrow> [] | Some (c, n) \<Rightarrow> [[Bigint n]], t)"
| "meaning (Upsert_manifest f v n) t =
     Some ([], t\<lparr>tb_manifests := AList.update f (v, n) (tb_manifests t)\<rparr>)"
| "meaning (Delete_manifest f) t = Some ([], t\<lparr>tb_manifests := AList.delete f (tb_manifests t)\<rparr>)"
| "meaning (Increment_count d sz) t =
     (case checked (Some 1) sz of
        None \<Rightarrow> None
      | Some fresh \<Rightarrow>
          (case map_of (tb_refcounts t) d of
             None \<Rightarrow> write_count d (Some fresh) t
           | Some (c, n) \<Rightarrow> write_count d (checked (bigint (sint c + 1)) n) t))"
| "meaning (Decrement_count d) t =
     (case map_of (tb_refcounts t) d of
        None \<Rightarrow> Some ([], t)
      | Some (c, n) \<Rightarrow> write_count d (checked (bigint (sint c - 1)) n) t)"
| "meaning (Delete_count d) t = Some ([], t\<lparr>tb_refcounts := AList.delete d (tb_refcounts t)\<rparr>)"

section \<open>Facts\<close>

lemma bigint_Some [simp]: "- (2 ^ 63) \<le> z \<Longrightarrow> z < 2 ^ 63 \<Longrightarrow> bigint z = Some (of_int z)"
  by (simp add: bigint_def)

lemma sint_of_int_i64: "- (2 ^ 63) \<le> z \<Longrightarrow> z < 2 ^ 63 \<Longrightarrow> sint (of_int z :: i64) = z"
  by (simp add: signed_of_int signed_take_bit_int_eq_self)

lemma sint_of_nat_i64: "n < 2 ^ 63 \<Longrightarrow> sint (of_nat n :: i64) = int n"
  using sint_of_int_i64 [of "int n"] by simp

lemma sint_i64_range: "- (2 ^ 63) \<le> sint (w :: i64)" "sint (w :: i64) < 2 ^ 63"
  using sint_range_size [of w] by (simp_all add: word_size)

text \<open>The last reference to a chunk cannot be taken away: its row would have count 0.\<close>

lemma decrement_last_None:
  "map_of (tb_refcounts t) d = Some (c, n) \<Longrightarrow> sint c = 1 \<Longrightarrow> meaning (Decrement_count d) t = None"
  by (simp add: checked_def checks_def write_count_def)

lemma decrement_Some:
  assumes "map_of (tb_refcounts t) d = Some (c, n)" and "1 < sint c" and "0 \<le> sint n"
  shows "meaning (Decrement_count d) t =
     Some ([[Bigint (c - 1)]], t\<lparr>tb_refcounts := AList.update d (c - 1, n) (tb_refcounts t)\<rparr>)"
    and "sint (c - 1) = sint c - 1"
proof -
  have "of_int (sint c - 1) = c - 1" by simp
  moreover have "sint (of_int (sint c - 1) :: i64) = sint c - 1"
    using assms(2) sint_i64_range [of c] by (intro sint_of_int_i64) simp_all
  ultimately show "meaning (Decrement_count d) t =
     Some ([[Bigint (c - 1)]], t\<lparr>tb_refcounts := AList.update d (c - 1, n) (tb_refcounts t)\<rparr>)"
    and "sint (c - 1) = sint c - 1"
    using assms sint_i64_range [of c] by (simp_all add: checked_def checks_def write_count_def)
qed

lemma increment_fresh_Some:
  assumes "map_of (tb_refcounts t) d = None" and "0 \<le> sint sz"
  shows "meaning (Increment_count d sz) t =
     Some ([[Bigint 1]], t\<lparr>tb_refcounts := AList.update d (1, sz) (tb_refcounts t)\<rparr>)"
  using assms by (simp add: checked_def checks_def write_count_def)

lemma increment_known_Some:
  assumes "map_of (tb_refcounts t) d = Some (c, n)" and "0 < sint c" and "sint c < 2 ^ 63 - 1"
    and "0 \<le> sint n" and "0 \<le> sint sz"
  shows "meaning (Increment_count d sz) t =
     Some ([[Bigint (c + 1)]], t\<lparr>tb_refcounts := AList.update d (c + 1, n) (tb_refcounts t)\<rparr>)"
    and "sint (c + 1) = sint c + 1"
proof -
  have "of_int (sint c + 1) = c + 1" by simp
  moreover have "sint (of_int (sint c + 1) :: i64) = sint c + 1"
    using assms(2,3) by (intro sint_of_int_i64) simp_all
  ultimately show "meaning (Increment_count d sz) t =
     Some ([[Bigint (c + 1)]], t\<lparr>tb_refcounts := AList.update d (c + 1, n) (tb_refcounts t)\<rparr>)"
    and "sint (c + 1) = sint c + 1"
    using assms by (simp_all add: checked_def checks_def write_count_def)
qed

end
