(* ===== verification/Pg_Meta.thy ===== *)
theory Pg_Meta
  imports Pg_Sql Refcount Manifests Store_Stats Hasher Backend
begin

text \<open>
  \<^verbatim>\<open>core/src/store/postgres_meta.rs\<close>: manifests and reference counts in a Postgres
  database.  The \<^verbatim>\<open>postgres\<close> crate with the server behind it, and serde_json's values,
  are the parameter \<open>pg_driver\<close>; a state \<open>'p\<close> is a session with the server.  A call
  returns its result or the text of its error.
\<close>

record ('v, 'p) pg_driver =
  dr_connect :: "string \<Rightarrow> 'p \<Rightarrow> (string + unit) \<times> 'p"
  dr_batch_execute :: "string \<Rightarrow> 'p \<Rightarrow> (string + unit) \<times> 'p"
  dr_query :: "string \<Rightarrow> 'v pg_value list \<Rightarrow> 'p \<Rightarrow> (string + 'v pg_row list) \<times> 'p"
  dr_query_opt :: "string \<Rightarrow> 'v pg_value list \<Rightarrow> 'p \<Rightarrow> (string + 'v pg_row option) \<times> 'p"
  dr_query_one :: "string \<Rightarrow> 'v pg_value list \<Rightarrow> 'p \<Rightarrow> (string + 'v pg_row) \<times> 'p"
  dr_execute :: "string \<Rightarrow> 'v pg_value list \<Rightarrow> 'p \<Rightarrow> (string + u64) \<times> 'p"
  dr_transaction :: "'p \<Rightarrow> (string + unit) \<times> 'p"
  dr_commit :: "'p \<Rightarrow> (string + unit) \<times> 'p"
  dr_rollback :: "'p \<Rightarrow> 'p"
  to_value :: "string list \<Rightarrow> string + 'v"
  from_value :: "'v \<Rightarrow> string + string list"

text \<open>\<^verbatim>\<open>.map_err(|e| ChunkStoreError::backend(format!("<what>{e}")))\<close>.\<close>

definition pg_call :: "string \<Rightarrow> ('p \<Rightarrow> (string + 'a) \<times> 'p) \<Rightarrow> ('p, 'a) act" where
  "pg_call what m p = (case m p of (r, p') \<Rightarrow> (map_err (\<lambda>e. BackendError (what @ e)) r, p'))"

text \<open>The methods of a client or a transaction on one of the program's statements.\<close>

definition query :: "('v, 'p) pg_driver \<Rightarrow> 'v pg_statement \<Rightarrow> 'p \<Rightarrow> (string + 'v pg_row list) \<times> 'p" where
  "query V st = dr_query V (sql_text st) (sql_params st)"

definition query_opt :: "('v, 'p) pg_driver \<Rightarrow> 'v pg_statement \<Rightarrow> 'p \<Rightarrow> (string + 'v pg_row option) \<times> 'p" where
  "query_opt V st = dr_query_opt V (sql_text st) (sql_params st)"

definition query_one :: "('v, 'p) pg_driver \<Rightarrow> 'v pg_statement \<Rightarrow> 'p \<Rightarrow> (string + 'v pg_row) \<times> 'p" where
  "query_one V st = dr_query_one V (sql_text st) (sql_params st)"

definition execute :: "('v, 'p) pg_driver \<Rightarrow> 'v pg_statement \<Rightarrow> 'p \<Rightarrow> (string + u64) \<times> 'p" where
  "execute V st = dr_execute V (sql_text st) (sql_params st)"

text \<open>\<^verbatim>\<open>row.get(i)\<close> panics when the column is missing or has another type.\<close>

definition get_text :: "'v pg_row \<Rightarrow> nat \<Rightarrow> string res" where
  "get_text row i = (if i < length row then case row ! i of Text s \<Rightarrow> Ok s | _ \<Rightarrow> Panic else Panic)"

definition get_jsonb :: "'v pg_row \<Rightarrow> nat \<Rightarrow> 'v res" where
  "get_jsonb row i = (if i < length row then case row ! i of Jsonb v \<Rightarrow> Ok v | _ \<Rightarrow> Panic else Panic)"

definition get_bigint :: "'v pg_row \<Rightarrow> nat \<Rightarrow> i64 res" where
  "get_bigint row i = (if i < length row then case row ! i of Bigint n \<Rightarrow> Ok n | _ \<Rightarrow> Panic else Panic)"

text \<open>
  \<^verbatim>\<open>str::trim\<close>: the Unicode white space at both ends, each character by its UTF-8
  bytes.
\<close>

definition white_space :: "string list" where
  "white_space =
     map (\<lambda>n. [char_of n]) [9, 10, 11, 12, 13, 32 :: nat] @
     [[CHR 0xC2, CHR 0x85], [CHR 0xC2, CHR 0xA0], [CHR 0xE1, CHR 0x9A, CHR 0x80]] @
     map (\<lambda>n. [CHR 0xE2, CHR 0x80, char_of n]) ([0x80 ..< 0x8B] @ [0xA8, 0xA9, 0xAF :: nat]) @
     [[CHR 0xE2, CHR 0x81, CHR 0x9F], [CHR 0xE3, CHR 0x80, CHR 0x80]]"

function strip :: "string list \<Rightarrow> string \<Rightarrow> string" where
  "strip ws s =
     (case find (\<lambda>w. w \<noteq> [] \<and> starts_with s w) ws of
        None \<Rightarrow> s
      | Some w \<Rightarrow> strip ws (drop (length w) s))"
  by pat_completeness auto

termination strip
proof (relation "measure (\<lambda>(ws, s). length s)", goal_cases)
  case (2 ws s w)
  then have "w \<noteq> []" "starts_with s w" by (auto simp: find_Some_iff)
  then show ?case by (cases s) (auto simp: starts_with_def)
qed simp

declare strip.simps [simp del]

definition trim :: "string \<Rightarrow> string" where
  "trim s = rev (strip (map rev white_space) (rev (strip white_space s)))"

section \<open>Connecting and loading\<close>

definition connect :: "('v, 'p) pg_driver \<Rightarrow> string \<Rightarrow> ('p, unit) act" where
  "connect V dsn =
     seq (pg_call ''postgres connect: '' (dr_connect V dsn)) (\<lambda>_.
     pg_call ''postgres schema: '' (dr_batch_execute V SCHEMA))"

definition json_digests :: "('v, 'p) pg_driver \<Rightarrow> 'v \<Rightarrow> string list res" where
  "json_digests V v = map_err (\<lambda>e. BackendError (''postgres digest json: '' @ e)) (from_value V v)"

definition load_manifest_row ::
  "('v, 'p) pg_driver \<Rightarrow> 'v pg_row \<Rightarrow> manifest \<Rightarrow> ('p, manifest) act" where
  "load_manifest_row V row m =
     seq (lift (get_text row 0)) (\<lambda>file_id.
     seq (lift (get_jsonb row 1)) (\<lambda>v.
     seq (lift (json_digests V v)) (\<lambda>digests.
     seq (lift (get_bigint row 2)) (\<lambda>nbytes.
     (case manifest_insert file_id digests nbytes m of
        (Ok u, m') \<Rightarrow> ret m'
      | (Err e, m') \<Rightarrow> fail e
      | (Panic, m') \<Rightarrow> lift Panic
      | (Hang, m') \<Rightarrow> lift Hang)))))"

definition pg_load_manifests :: "('v, 'p) pg_driver \<Rightarrow> ('p mutex, manifest) act" where
  "pg_load_manifests V = with_lock (
     seq (pg_call ''postgres load manifests: '' (query V Select_manifests)) (\<lambda>rows.
     fold_act (load_manifest_row V) rows manifest_new))"

text \<open>The three columns of a reference count.\<close>

definition count_row :: "'v pg_row \<Rightarrow> (string \<times> i64 \<times> i64) res" where
  "count_row row =
     bind_res (get_text row 0) (\<lambda>digest.
     bind_res (get_bigint row 1) (\<lambda>cnt.
     bind_res (get_bigint row 2) (\<lambda>sz. Ok (digest, cnt, sz))))"

definition load_refcount_row :: "'v pg_row \<Rightarrow> ref_count \<Rightarrow> ('p, ref_count) act" where
  "load_refcount_row row rc =
     seq (lift (count_row row)) (\<lambda>(digest, cnt, sz).
     ret (if 0 < sint cnt then rc_set (trim digest) cnt sz rc else rc))"

definition pg_load_refcounts :: "('v, 'p) pg_driver \<Rightarrow> ('p mutex, ref_count) act" where
  "pg_load_refcounts V = with_lock (
     seq (pg_call ''postgres load refcounts: '' (query V Select_refcounts)) (\<lambda>rows.
     fold_act load_refcount_row rows ref_count_new))"

section \<open>Single queries\<close>

definition manifest_digests :: "('v, 'p) pg_driver \<Rightarrow> string \<Rightarrow> ('p mutex, string list option) act" where
  "manifest_digests V file_id = with_lock (
     seq (pg_call ''postgres get manifest: '' (query_opt V (Select_digests file_id))) (\<lambda>row.
     case row of
       Some row \<Rightarrow>
         seq (lift (get_jsonb row 0)) (\<lambda>v.
         seq (lift (json_digests V v)) (\<lambda>digests. ret (Some digests)))
     | None \<Rightarrow> ret None))"

definition compute_stats :: "('v, 'p) pg_driver \<Rightarrow> ('p mutex, stats) act" where
  "compute_stats V = with_lock (
     seq (pg_call ''postgres stats: '' (query_one V Sum_sizes)) (\<lambda>row.
     seq (lift (get_bigint row 0)) (\<lambda>referenced.
     seq (lift (get_bigint row 1)) (\<lambda>unique.
     ret \<lparr>total_bytes = referenced, stored_bytes = unique, gc_chunks = 0\<rparr>))))"

definition pg_chunk_size :: "('v, 'p) pg_driver \<Rightarrow> string \<Rightarrow> ('p mutex, u64 option) act" where
  "pg_chunk_size V digest = with_lock (
     seq (pg_call ''postgres chunk size: '' (query_opt V (Select_size digest))) (\<lambda>row.
     case row of
       Some row \<Rightarrow> seq (lift (get_bigint row 0)) (\<lambda>n. ret (Some n))
     | None \<Rightarrow> ret None))"

definition list_refcounts :: "('v, 'p) pg_driver \<Rightarrow> ('p mutex, (string \<times> u64 \<times> u64) list) act" where
  "list_refcounts V = with_lock (
     seq (pg_call ''postgres list refcounts: '' (query V Select_refcounts)) (\<lambda>rows.
     fold_act (\<lambda>row out.
       seq (lift (count_row row)) (\<lambda>(digest, cnt, sz). ret (out @ [(trim digest, cnt, sz)]))) rows []))"

section \<open>Transactions\<close>

text \<open>
  \<^verbatim>\<open>let mut txn = client.transaction()?; ...; txn.commit()?\<close>: any other way out of the
  block drops the transaction, which rolls it back.
\<close>

definition in_transaction :: "('v, 'p) pg_driver \<Rightarrow> string \<Rightarrow> ('p, 'a) act \<Rightarrow> ('p, 'a) act" where
  "in_transaction V what body =
     seq (pg_call ''postgres begin: '' (dr_transaction V)) (\<lambda>_ p.
       case body p of
         (Ok a, p') \<Rightarrow> seq (pg_call (''postgres commit '' @ what @ '': '') (dr_commit V)) (\<lambda>_. ret a) p'
       | (failed, p') \<Rightarrow> (failed, dr_rollback V p'))"

definition increment_refcount :: "('v, 'p) pg_driver \<Rightarrow> string \<Rightarrow> u64 \<Rightarrow> ('p, u64) act" where
  "increment_refcount V digest sz =
     seq (pg_call ''postgres increment: '' (query_one V (Increment_count digest sz))) (\<lambda>row.
     lift (get_bigint row 0))"

definition decrement_refcount :: "('v, 'p) pg_driver \<Rightarrow> string \<Rightarrow> ('p, u64) act" where
  "decrement_refcount V digest =
     seq (pg_call ''postgres decrement: '' (query_opt V (Decrement_count digest))) (\<lambda>row.
     case row of
       None \<Rightarrow> fail (NotFound (''refcount '' @ digest))
     | Some row \<Rightarrow>
         seq (lift (get_bigint row 0)) (\<lambda>remaining.
         if sint remaining \<le> 0
         then seq (pg_call ''postgres delete refcount: '' (execute V (Delete_count digest))) (\<lambda>_. ret 0)
         else ret remaining))"

definition upsert_manifest :: "('v, 'p) pg_driver \<Rightarrow> string \<Rightarrow> string list \<Rightarrow> u64 \<Rightarrow> ('p, unit) act" where
  "upsert_manifest V file_id digests nbytes =
     seq (lift (map_err (\<lambda>e. BackendError (''postgres digest encode: '' @ e)) (to_value V digests))) (\<lambda>payload.
     seq (pg_call ''postgres upsert manifest: '' (execute V (Upsert_manifest file_id payload nbytes))) (\<lambda>_.
     ret ()))"

text \<open>The loop that both commits run over the digests a file gives up.\<close>

definition release_refcount :: "('v, 'p) pg_driver \<Rightarrow> string \<Rightarrow> string list \<Rightarrow> ('p, string list) act" where
  "release_refcount V digest gc =
     seq (decrement_refcount V digest) (\<lambda>remaining. ret (if remaining = 0 then gc @ [digest] else gc))"

definition commit_ingest ::
  "('v, 'p) pg_driver \<Rightarrow> string \<Rightarrow> string list \<Rightarrow> u64 \<Rightarrow> u64 list \<Rightarrow> string list option \<Rightarrow>
     ('p mutex, string list) act" where
  "commit_ingest V file_id new_digests nbytes sizes old_digests =
     (if length new_digests \<noteq> length sizes
      then fail (InvalidArgument ''digest/size length mismatch'')
      else with_lock (in_transaction V ''ingest'' (
        seq (for_each (zip new_digests sizes) (\<lambda>(digest, sz).
               seq (increment_refcount V digest sz) (\<lambda>_. ret ()))) (\<lambda>_.
        seq (upsert_manifest V file_id new_digests nbytes) (\<lambda>_.
        case old_digests of
          Some old \<Rightarrow> fold_act (release_refcount V) old []
        | None \<Rightarrow> ret [])))))"

definition commit_delete ::
  "('v, 'p) pg_driver \<Rightarrow> string \<Rightarrow> string list \<Rightarrow> ('p mutex, string list) act" where
  "commit_delete V file_id digests =
     with_lock (in_transaction V ''delete'' (
       seq (pg_call ''postgres delete manifest: '' (execute V (Delete_manifest file_id))) (\<lambda>_.
       fold_act (release_refcount V) digests [])))"

end
