(* ===== verification/Pg_Store.thy ===== *)
theory Pg_Store
  imports Pg_Meta Store
begin

text \<open>
  \<^verbatim>\<open>core/src/store/mod.rs\<close> built with the feature \<^verbatim>\<open>postgres\<close>: the store
  has one more field, \<^verbatim>\<open>pg: Option<PostgresMetadata>\<close>, and the methods below one more
  branch.  \<open>V\<close> is the driver.  The methods without such a branch are those of theory
  \<open>Store\<close>, run on the base of the store.
\<close>

record ('b, 'p) pg_store =
  pgs_base :: "'b store"
  pgs_pg :: "'p mutex option"

definition on_base :: "('b store, 'a) act \<Rightarrow> (('b, 'p) pg_store, 'a) act" where
  "on_base m = zoom pgs_base (\<lambda>b s. s\<lparr>pgs_base := b\<rparr>) m"

text \<open>\<^verbatim>\<open>if let Some(pg) = &self.pg { m } else { n }\<close>, with \<open>m\<close> given as an action
  on the metadata.\<close>

definition if_pg ::
  "(('b, 'p) pg_store, 'a) act \<Rightarrow> (('b, 'p) pg_store, 'a) act \<Rightarrow> (('b, 'p) pg_store, 'a) act" where
  "if_pg m n s = (case pgs_pg s of Some pg \<Rightarrow> m s | None \<Rightarrow> n s)"

text \<open>A call on the metadata, in the branch where there is one.\<close>

definition on_pg :: "('p mutex, 'a) act \<Rightarrow> (('b, 'p) pg_store, 'a) act" where
  "on_pg m s =
     (case pgs_pg s of
        Some pg \<Rightarrow> (case m pg of (r, pg') \<Rightarrow> (r, s\<lparr>pgs_pg := Some pg'\<rparr>))
      | None \<Rightarrow> (Panic, s))"

section \<open>Opening\<close>

definition pg_rebuild_stats :: "'b deps \<Rightarrow> ('v, 'p) pg_driver \<Rightarrow> (('b, 'p) pg_store, unit) act" where
  "pg_rebuild_stats E V =
     if_pg (seq (on_pg (compute_stats V)) (\<lambda>st. on_base (on_stats (\<lambda>_. (Ok (), st)))))
       (on_base (rebuild_stats E))"

text \<open>The backend is moved into the store; the session belongs to the client.\<close>

definition open_postgres ::
  "'b deps \<Rightarrow> ('v, 'p) pg_driver \<Rightarrow> string \<Rightarrow> 'b \<Rightarrow> ('p, ('b, 'p) pg_store) act" where
  "open_postgres E V dsn b =
     seq (connect V dsn) (\<lambda>_ p.
     case seq (pg_load_manifests V) (\<lambda>m.
          seq (pg_load_refcounts V) (\<lambda>rc.
          ret (m, rc))) (new_mutex p) of
       (Ok (m, rc), pg) \<Rightarrow>
         (case pg_rebuild_stats E V \<lparr>pgs_base = fresh_store m rc b, pgs_pg = Some pg\<rparr> of
            (Ok u, s) \<Rightarrow> (Ok s, guarded (the (pgs_pg s)))
          | (Err e, s) \<Rightarrow> (Err e, guarded (the (pgs_pg s)))
          | (Panic, s) \<Rightarrow> (Panic, guarded (the (pgs_pg s)))
          | (Hang, s) \<Rightarrow> (Hang, guarded (the (pgs_pg s))))
     | (Err e, pg) \<Rightarrow> (Err e, guarded pg)
     | (Panic, pg) \<Rightarrow> (Panic, guarded pg)
     | (Hang, pg) \<Rightarrow> (Hang, guarded pg))"

section \<open>Chunks and reading\<close>

definition pg_store_chunk :: "'b deps \<Rightarrow> string \<Rightarrow> bytes \<Rightarrow> (('b, 'p) pg_store, bool) act" where
  "pg_store_chunk E digest data =
     seq (on_base (encode_blob data)) (\<lambda>blob.
     seq (on_base (blob_section E digest blob)) (\<lambda>found.
     if_pg (ret found)
       (seq (on_base (refcount_section E digest (len64 data))) (\<lambda>_.
        seq (on_base (stats_section found (len64 data))) (\<lambda>_.
        ret found)))))"

definition pg_digests_for_file :: "('v, 'p) pg_driver \<Rightarrow> string \<Rightarrow> (('b, 'p) pg_store, string list) act" where
  "pg_digests_for_file V file_id =
     if_pg (seq (on_pg (manifest_digests V file_id)) (\<lambda>ds.
            lift (ok_or (NotFound (''file '' @ file_id)) ds)))
       (on_base (digests_for_file file_id))"

definition pg_file_digests :: "('v, 'p) pg_driver \<Rightarrow> string \<Rightarrow> (('b, 'p) pg_store, string list) act" where
  "pg_file_digests V file_id = pg_digests_for_file V file_id"

definition pg_peek_digests ::
  "('v, 'p) pg_driver \<Rightarrow> string \<Rightarrow> (('b, 'p) pg_store, string list option) act" where
  "pg_peek_digests V file_id = if_pg (on_pg (manifest_digests V file_id)) (on_base (peek_digests file_id))"

definition pg_read_to_writer ::
  "'b deps \<Rightarrow> ('v, 'p) pg_driver \<Rightarrow> (bytes \<Rightarrow> ('w, unit) act) \<Rightarrow> string \<Rightarrow>
     ('w \<times> ('b, 'p) pg_store, unit) act" where
  "pg_read_to_writer E V put_all file_id =
     seq (on_store (pg_digests_for_file V file_id)) (\<lambda>digests.
     for_each digests (\<lambda>digest.
       seq (on_store (on_base (read_chunk_by_digest E digest))) (\<lambda>chunk.
       on_writer (put_all chunk))))"

definition pg_read :: "'b deps \<Rightarrow> ('v, 'p) pg_driver \<Rightarrow> string \<Rightarrow> (('b, 'p) pg_store, bytes) act" where
  "pg_read E V file_id s =
     (case pg_read_to_writer E V vec_write_all file_id ([], s) of
        (r, (out, s')) \<Rightarrow> (bind_res r (\<lambda>_. Ok out), s'))"

section \<open>Delete\<close>

definition delete_blobs :: "'b deps \<Rightarrow> string list \<Rightarrow> (('b, 'p) pg_store, unit) act" where
  "delete_blobs E gc = for_each gc (\<lambda>digest. on_base (on_backend (be_delete (dp_backend E) digest)))"

text \<open>\<^verbatim>\<open>let _ = manifest.remove(file_id)\<close>: under the lock, the result dropped.\<close>

definition forget_manifest :: "string \<Rightarrow> ('b store, unit) act" where
  "forget_manifest file_id = on_manifest (\<lambda>m. (Ok (), snd (manifest_remove file_id m)))"

definition pg_delete :: "'b deps \<Rightarrow> ('v, 'p) pg_driver \<Rightarrow> string \<Rightarrow> (('b, 'p) pg_store, unit) act" where
  "pg_delete E V file_id =
     if_pg (seq (on_pg (manifest_digests V file_id)) (\<lambda>ds.
            seq (lift (ok_or (NotFound (''file '' @ file_id)) ds)) (\<lambda>digests.
            seq (on_pg (commit_delete V file_id digests)) (\<lambda>gc.
            seq (delete_blobs E gc) (\<lambda>_.
            on_base (forget_manifest file_id))))))
       (on_base (delete E file_id))"

definition pg_chunk_size_of :: "'b deps \<Rightarrow> ('v, 'p) pg_driver \<Rightarrow> string \<Rightarrow> (('b, 'p) pg_store, u64) act" where
  "pg_chunk_size_of E V digest =
     if_pg (seq (on_pg (pg_chunk_size V digest)) (\<lambda>known.
            case known of Some sz \<Rightarrow> ret sz | None \<Rightarrow> on_base (chunk_size_of E digest)))
       (on_base (chunk_size_of E digest))"

section \<open>Ingest\<close>

definition pg_accept ::
  "'b deps \<Rightarrow> bytes \<Rightarrow> ingest_session \<Rightarrow> (('b, 'p) pg_store, ingest_session) act" where
  "pg_accept E chunk se =
     (let digest = digest_hex (dp_sha E) chunk in
      seq (pg_store_chunk E digest chunk) (\<lambda>_.
      ret \<lparr>se_digests = se_digests se @ [digest],
           se_sizes = se_sizes se @ [len64 chunk],
           se_file_bytes = se_file_bytes se + len64 chunk\<rparr>))"

definition pg_commit ::
  "'b deps \<Rightarrow> ('v, 'p) pg_driver \<Rightarrow> string \<Rightarrow> ingest_session \<Rightarrow> (('b, 'p) pg_store, string list) act" where
  "pg_commit E V file_id se =
     seq (pg_peek_digests V file_id) (\<lambda>old.
     if_pg
       (seq (on_pg (commit_ingest V file_id (se_digests se) (se_file_bytes se) (se_sizes se) old)) (\<lambda>gc.
        seq (delete_blobs E gc) (\<lambda>_.
        seq (on_base (on_manifest (manifest_insert file_id (se_digests se) (se_file_bytes se)))) (\<lambda>_.
        ret (se_digests se)))))
       (seq (on_base (on_manifest (manifest_insert file_id (se_digests se) (se_file_bytes se)))) (\<lambda>_.
        seq (on_base (on_backend (save_manifest (dp_json E) (dp_backend E) file_id
               (se_digests se) (se_file_bytes se)))) (\<lambda>_.
        seq (case old of Some ds \<Rightarrow> on_base (release_digests E ds) | None \<Rightarrow> ret ()) (\<lambda>_.
        ret (se_digests se))))))"

definition pg_ingest_chunks ::
  "'b deps \<Rightarrow> ('v, 'p) pg_driver \<Rightarrow> string \<Rightarrow> bytes list \<Rightarrow> (('b, 'p) pg_store, string list) act" where
  "pg_ingest_chunks E V file_id chunks =
     seq (fold_act (pg_accept E) chunks session_new) (\<lambda>se. pg_commit E V file_id se)"

definition pg_ingest_with_chunker ::
  "'b deps \<Rightarrow> ('v, 'p) pg_driver \<Rightarrow> string \<Rightarrow> bytes \<Rightarrow> 'c chunker_ops \<Rightarrow> 'c \<Rightarrow>
     (('b, 'p) pg_store, string list) act" where
  "pg_ingest_with_chunker E V file_id data K c =
     drive_chunker (pg_accept E) (pg_commit E V file_id) data K c"

definition pg_ingest_fixed ::
  "'b deps \<Rightarrow> ('v, 'p) pg_driver \<Rightarrow> string \<Rightarrow> bytes \<Rightarrow> nat \<Rightarrow> (('b, 'p) pg_store, string list) act" where
  "pg_ingest_fixed E V file_id data chunk_sz =
     (if chunk_sz = 0 then fail zero_chunk_size_error
      else pg_ingest_with_chunker E V file_id data FixedChunker (fixed_chunker_new chunk_sz))"

definition pg_ingest ::
  "'b deps \<Rightarrow> ('v, 'p) pg_driver \<Rightarrow> string \<Rightarrow> bytes \<Rightarrow> (('b, 'p) pg_store, string list) act" where
  "pg_ingest E V file_id data = pg_ingest_fixed E V file_id data default_chunk_size"

definition pg_ingest_cdc ::
  "'b deps \<Rightarrow> ('v, 'p) pg_driver \<Rightarrow> string \<Rightarrow> bytes \<Rightarrow> (('b, 'p) pg_store, string list) act" where
  "pg_ingest_cdc E V file_id data =
     seq (lift cdc_with_defaults) (\<lambda>c.
     pg_ingest_with_chunker E V file_id data (CdcChunker (dp_fastcdc E)) c)"

definition pg_ingest_reader_with_chunker ::
  "'b deps \<Rightarrow> ('v, 'p) pg_driver \<Rightarrow> string \<Rightarrow> 'r reader \<Rightarrow> 'c chunker_ops \<Rightarrow> 'c \<Rightarrow>
     ('r \<times> ('b, 'p) pg_store, string list) act" where
  "pg_ingest_reader_with_chunker E V file_id rd K c =
     drive_reader (pg_accept E) (pg_commit E V file_id) rd K c"

definition pg_ingest_reader_fixed ::
  "'b deps \<Rightarrow> ('v, 'p) pg_driver \<Rightarrow> string \<Rightarrow> 'r reader \<Rightarrow> nat \<Rightarrow>
     ('r \<times> ('b, 'p) pg_store, string list) act" where
  "pg_ingest_reader_fixed E V file_id rd chunk_sz =
     (if chunk_sz = 0 then fail zero_chunk_size_error
      else pg_ingest_reader_with_chunker E V file_id rd FixedChunker (fixed_chunker_new chunk_sz))"

definition pg_ingest_reader_cdc ::
  "'b deps \<Rightarrow> ('v, 'p) pg_driver \<Rightarrow> string \<Rightarrow> 'r reader \<Rightarrow> ('r \<times> ('b, 'p) pg_store, string list) act" where
  "pg_ingest_reader_cdc E V file_id rd =
     seq (lift cdc_with_defaults) (\<lambda>c.
     pg_ingest_reader_with_chunker E V file_id rd (CdcChunker (dp_fastcdc E)) c)"

definition pg_ingest_path ::
  "'b deps \<Rightarrow> ('v, 'p) pg_driver \<Rightarrow> (string \<Rightarrow> 'r res) \<Rightarrow> 'r reader \<Rightarrow> string \<Rightarrow> string \<Rightarrow>
     (('b, 'p) pg_store, string list) act" where
  "pg_ingest_path E V open_file rd file_id path =
     from_file open_file path (pg_ingest_reader_fixed E V file_id rd default_chunk_size)"

definition pg_ingest_path_cdc ::
  "'b deps \<Rightarrow> ('v, 'p) pg_driver \<Rightarrow> (string \<Rightarrow> 'r res) \<Rightarrow> 'r reader \<Rightarrow> string \<Rightarrow> string \<Rightarrow>
     (('b, 'p) pg_store, string list) act" where
  "pg_ingest_path_cdc E V open_file rd file_id path =
     from_file open_file path (pg_ingest_reader_cdc E V file_id rd)"

section \<open>Diagnostics\<close>

definition pg_stats :: "('v, 'p) pg_driver \<Rightarrow> (('b, 'p) pg_store, stats) act" where
  "pg_stats V = if_pg (on_pg (compute_stats V)) (on_base store_stats)"

text \<open>The count is read from the cache that \<^verbatim>\<open>open_postgres\<close> filled.\<close>

definition pg_chunk_refcount :: "string \<Rightarrow> (('b, 'p) pg_store, u64 option) act" where
  "pg_chunk_refcount digest = on_base (chunk_refcount digest)"

definition pg_fsck :: "'b deps \<Rightarrow> ('v, 'p) pg_driver \<Rightarrow> bool \<Rightarrow> (('b, 'p) pg_store, fsck_report) act" where
  "pg_fsck E V repair =
     seq (if_pg (seq (on_pg (list_refcounts V)) (\<lambda>refs. ret (map fst refs)))
            (on_base (on_refcount (\<lambda>rc. (Ok (map fst (rc_iter rc)), rc))))) (\<lambda>live.
     seq (on_base (fold_act (check_blob E) live [])) (\<lambda>missing.
     seq (on_base (on_backend (collect_orphans (dp_backend E) (set live)))) (\<lambda>orphans.
     seq (if repair then on_base (fold_act (repair_blob E) orphans 0) else ret 0) (\<lambda>n.
     ret \<lparr>missing_blobs = missing, orphan_blobs = orphans, repaired = n\<rparr>))))"

end
