(* ===== verification/Pg_Laws.thy ===== *)
theory Pg_Laws
  imports Pg_Meta Store_Inv
begin

text \<open>
  What the store relies on of Postgres and of serde_json, as the locale \<open>pg_server\<close>: the
  server executes each statement as its \<open>meaning\<close>, reports an error where the statement
  has none, and a transaction that is not committed leaves no trace.  In it, every transaction of
  \<open>Pg_Meta\<close> is total: it commits, or it fails and the tables are as they were.
\<close>

section \<open>The server\<close>

text \<open>
  \<open>live\<close> are the tables a session sees, \<open>saved\<close> those to go back to when a transaction
  is open.  \<open>storable\<close> are the parameters the server takes (a text without NUL, within its
  limits), \<open>reachable\<close> says that a connection string leads to the server; the laws are those
  of a server that stays there.  Creating tables that exist changes nothing, and a database
  without them counts as one where they are empty.
\<close>

locale pg_server =
  fixes V :: "('v, 'p) pg_driver"
    and up :: "'p \<Rightarrow> bool"
    and live :: "'p \<Rightarrow> 'v pg_tables"
    and saved :: "'p \<Rightarrow> 'v pg_tables option"
    and storable :: "'v pg_value \<Rightarrow> bool"
    and reachable :: "string \<Rightarrow> 'p \<Rightarrow> bool"
  assumes connect_law:
      "reachable dsn p \<Longrightarrow>
         \<exists>p' p''. dr_connect V dsn p = (Inr (), p') \<and> dr_batch_execute V SCHEMA p' = (Inr (), p'') \<and>
           up p'' \<and> live p'' = live p \<and> saved p'' = None"
    and query_law:
      "up p \<Longrightarrow> list_all storable (sql_params st) \<Longrightarrow> meaning st (live p) = Some (rows, t) \<Longrightarrow>
         \<exists>rows' p'. query V st p = (Inr rows', p') \<and> mset rows' = mset rows \<and>
           up p' \<and> live p' = t \<and> saved p' = saved p"
    and query_opt_law:
      "up p \<Longrightarrow> list_all storable (sql_params st) \<Longrightarrow> meaning st (live p) = Some (rows, t) \<Longrightarrow>
         length rows \<le> 1 \<Longrightarrow>
         \<exists>p'. query_opt V st p = (Inr (if rows = [] then None else Some (hd rows)), p') \<and>
           up p' \<and> live p' = t \<and> saved p' = saved p"
    and query_one_law:
      "up p \<Longrightarrow> list_all storable (sql_params st) \<Longrightarrow> meaning st (live p) = Some ([row], t) \<Longrightarrow>
         \<exists>p'. query_one V st p = (Inr row, p') \<and> up p' \<and> live p' = t \<and> saved p' = saved p"
    and execute_law:
      "up p \<Longrightarrow> list_all storable (sql_params st) \<Longrightarrow> meaning st (live p) = Some (rows, t) \<Longrightarrow>
         \<exists>n p'. execute V st p = (Inr n, p') \<and> up p' \<and> live p' = t \<and> saved p' = saved p"
    and error_law:
      "up p \<Longrightarrow> list_all storable (sql_params st) \<Longrightarrow> meaning st (live p) = None \<Longrightarrow>
         (\<exists>e p'. query_opt V st p = (Inl e, p') \<and> up p' \<and> saved p' = saved p) \<and>
         (\<exists>e p'. query_one V st p = (Inl e, p') \<and> up p' \<and> saved p' = saved p)"
    and transaction_law:
      "up p \<Longrightarrow> saved p = None \<Longrightarrow>
         \<exists>p'. dr_transaction V p = (Inr (), p') \<and> up p' \<and> live p' = live p \<and> saved p' = Some (live p)"
    and commit_law:
      "up p \<Longrightarrow> saved p = Some t \<Longrightarrow>
         \<exists>p'. dr_commit V p = (Inr (), p') \<and> up p' \<and> live p' = live p \<and> saved p' = None"
    and rollback_law:
      "up p \<Longrightarrow> saved p = Some t \<Longrightarrow>
         up (dr_rollback V p) \<and> live (dr_rollback V p) = t \<and> saved (dr_rollback V p) = None"
    and digest_storable: "is_chunk_digest d \<Longrightarrow> storable (Text d)"
    and bigint_storable: "storable (Bigint n)"
    and value_law:
      "list_all is_chunk_digest ds \<Longrightarrow> \<exists>v. to_value V ds = Inr v \<and> from_value V v = Inr ds"
begin

text \<open>A session with the tables \<open>t\<close>, inside a transaction or not.\<close>

definition session :: "'v pg_tables \<Rightarrow> 'v pg_tables option \<Rightarrow> 'p \<Rightarrow> bool" where
  "session t sv p \<longleftrightarrow> up p \<and> live p = t \<and> saved p = sv"

lemma wp_pg_call: "wp (pg_call what m) p Q \<longleftrightarrow> (\<exists>a p'. m p = (Inr a, p') \<and> Q a p')"
proof (cases "m p")
  case (Pair r p')
  then show ?thesis by (cases r) (simp_all add: wp_iff pg_call_def)
qed

lemma wp_query:
  assumes "session t sv p" and "list_all storable (sql_params st)" and "meaning st t = Some (rows, t')"
    and "\<And>rows' p'. mset rows' = mset rows \<Longrightarrow> session t' sv p' \<Longrightarrow> Q rows' p'"
  shows "wp (pg_call what (query V st)) p Q"
  using query_law [of p st rows t'] assms by (auto simp: wp_pg_call session_def)

lemma wp_query_opt:
  assumes "session t sv p" and "list_all storable (sql_params st)" and "meaning st t = Some (rows, t')"
    and "length rows \<le> 1"
    and "\<And>p'. session t' sv p' \<Longrightarrow> Q (if rows = [] then None else Some (hd rows)) p'"
  shows "wp (pg_call what (query_opt V st)) p Q"
  using query_opt_law [of p st rows t'] assms unfolding wp_pg_call session_def by blast

lemma wp_query_one:
  assumes "session t sv p" and "list_all storable (sql_params st)" and "meaning st t = Some ([row], t')"
    and "\<And>p'. session t' sv p' \<Longrightarrow> Q row p'"
  shows "wp (pg_call what (query_one V st)) p Q"
  using query_one_law [of p st row t'] assms unfolding wp_pg_call session_def by blast

lemma wp_execute:
  assumes "session t sv p" and "list_all storable (sql_params st)" and "meaning st t = Some (rows, t')"
    and "\<And>n p'. session t' sv p' \<Longrightarrow> Q n p'"
  shows "wp (pg_call what (execute V st)) p Q"
  using execute_law [of p st rows t'] assms unfolding wp_pg_call session_def by blast

lemma wp_connect:
  assumes "reachable dsn p" and "\<And>p'. session (live p) None p' \<Longrightarrow> Q () p'"
  shows "wp (connect V dsn) p Q"
  using connect_law [OF assms(1)] assms(2)
  by (auto simp: connect_def wp_seq wp_pg_call session_def)

lemma raises_query_opt:
  assumes "session t sv p" and "list_all storable (sql_params st)" and "meaning st t = None"
  shows "raises (pg_call what (query_opt V st)) p
     (\<lambda>e p'. (\<exists>msg. e = BackendError (what @ msg)) \<and> up p' \<and> saved p' = sv)"
  using error_law [of p st] assms unfolding session_def by (auto simp: raises_iff pg_call_def)

lemma raises_query_one:
  assumes "session t sv p" and "list_all storable (sql_params st)" and "meaning st t = None"
  shows "raises (pg_call what (query_one V st)) p
     (\<lambda>e p'. (\<exists>msg. e = BackendError (what @ msg)) \<and> up p' \<and> saved p' = sv)"
  using error_law [of p st] assms unfolding session_def by (auto simp: raises_iff pg_call_def)

text \<open>A transaction commits what its body did, or leaves the tables alone.\<close>

lemma wp_in_transaction:
  assumes "session t None p"
    and "\<And>p'. session t (Some t) p' \<Longrightarrow>
           wp body p' (\<lambda>a p''. \<exists>t'. session t' (Some t) p'' \<and> (\<forall>q. session t' None q \<longrightarrow> Q a q))"
  shows "wp (in_transaction V what body) p Q"
proof -
  obtain p1 where p1: "dr_transaction V p = (Inr (), p1)" "session t (Some t) p1"
    using transaction_law [of p] assms(1) by (auto simp: session_def)
  obtain a p2 t2 where p2: "body p1 = (Ok a, p2)" "session t2 (Some t) p2"
      "\<And>q. session t2 None q \<Longrightarrow> Q a q"
    using assms(2) [OF p1(2)] by (auto simp: wp_iff)
  obtain p3 where "dr_commit V p2 = (Inr (), p3)" "session t2 None p3"
    using commit_law [of p2] p2(2) by (auto simp: session_def)
  then show ?thesis
    using p1(1) p2 by (simp add: wp_iff in_transaction_def pg_call_def seq_def ret_def)
qed

lemma raises_in_transaction:
  assumes "session t None p"
    and "\<And>p'. session t (Some t) p' \<Longrightarrow>
           raises body p' (\<lambda>e p''. up p'' \<and> saved p'' = Some t \<and> R e)"
  shows "raises (in_transaction V what body) p (\<lambda>e p'. session t None p' \<and> R e)"
proof -
  obtain p1 where p1: "dr_transaction V p = (Inr (), p1)" "session t (Some t) p1"
    using transaction_law [of p] assms(1) by (auto simp: session_def)
  obtain e p2 where "body p1 = (Err e, p2)" "up p2" "saved p2 = Some t" "R e"
    using assms(2) [OF p1(2)] by (auto simp: raises_iff)
  then show ?thesis
    using p1(1) rollback_law [of p2 t]
    by (simp add: raises_iff in_transaction_def pg_call_def seq_def session_def)
qed

end

end
