(* ===== verification/Pg_Txn.thy ===== *)
theory Pg_Txn
  imports Pg_Laws
begin

text \<open>
  The two transactions of \<open>Pg_Meta\<close> on tables that count the references of the manifests.
  Both release the chunks a file gives up by lowering a count whose constraint keeps it above
  0, so releasing the last reference to a chunk fails, and with it the transaction.
\<close>

section \<open>Tables that account for the manifests\<close>

definition decoded :: "('v, 'p) pg_driver \<Rightarrow> 'v \<Rightarrow> string list" where
  "decoded V v = (case from_value V v of Inl e \<Rightarrow> [] | Inr ds \<Rightarrow> ds)"

definition table_files :: "('v, 'p) pg_driver \<Rightarrow> 'v pg_tables \<Rightarrow> (string \<times> string list) list" where
  "table_files V t = map (\<lambda>(f, v, n). (f, decoded V v)) (tb_manifests t)"

text \<open>\<open>len\<close> is the payload length of each digest, \<open>M\<close> the references.\<close>

definition counts_match ::
  "(string \<Rightarrow> nat) \<Rightarrow> string multiset \<Rightarrow> (string \<times> i64 \<times> i64) list \<Rightarrow> bool" where
  "counts_match len M rows \<longleftrightarrow>
     keys_distinct rows \<and> size M < 2 ^ 63 \<and>
     (\<forall>d. map_of rows d = (if d \<in># M then Some (of_nat (count M d), of_nat (len d)) else None))"

definition tables_ok :: "('v, 'p) pg_driver \<Rightarrow> (string \<Rightarrow> nat) \<Rightarrow> 'v pg_tables \<Rightarrow> bool" where
  "tables_ok V len t \<longleftrightarrow>
     keys_distinct (tb_manifests t) \<and>
     (\<forall>(f, v, n) \<in> set (tb_manifests t).
        \<exists>ds. from_value V v = Inr ds \<and> list_all is_chunk_digest ds) \<and>
     counts_match len (all_refs (table_files V t)) (tb_refcounts t)"

lemma decoded_Inr [simp]: "from_value V v = Inr ds \<Longrightarrow> decoded V v = ds"
  by (simp add: decoded_def)

lemma table_files_upsert:
  "table_files V (t\<lparr>tb_manifests := AList.update f (v, n) (tb_manifests t)\<rparr>) =
     AList.update f (decoded V v) (table_files V t)"
proof -
  have "map (\<lambda>(f, v, n). (f, decoded V v)) (AList.update f (v, n) al) =
      AList.update f (decoded V v) (map (\<lambda>(f, v, n). (f, decoded V v)) al)"
    for al :: "(string \<times> 'a \<times> i64) list" by (induction al) auto
  then show ?thesis by (simp add: table_files_def)
qed

lemma table_files_delete:
  "table_files V (t\<lparr>tb_manifests := AList.delete f (tb_manifests t)\<rparr>) = AList.delete f (table_files V t)"
proof -
  have "map (\<lambda>(f, v, n). (f, decoded V v)) (AList.delete f al) =
      AList.delete f (map (\<lambda>(f, v, n). (f, decoded V v)) al)"
    for al :: "(string \<times> 'a \<times> i64) list" by (induction al) auto
  then show ?thesis by (simp add: table_files_def)
qed

lemma table_files_refcounts [simp]: "table_files V (t\<lparr>tb_refcounts := rows\<rparr>) = table_files V t"
  by (simp add: table_files_def)

lemma table_files_keys: "map fst (table_files V t) = map fst (tb_manifests t)"
  by (simp add: table_files_def split_beta comp_def)

lemma map_of_table_files:
  "map_of (table_files V t) f = map_option (\<lambda>(v, n). decoded V v) (map_of (tb_manifests t) f)"
proof -
  have "map_of (map (\<lambda>(f, v, n). (f, decoded V v)) al) f = map_option (\<lambda>(v, n). decoded V v) (map_of al f)"
    for al :: "(string \<times> 'a \<times> i64) list" by (induction al) auto
  then show ?thesis by (simp add: table_files_def)
qed

lemma tables_okD:
  assumes "tables_ok V len t"
  shows "keys_distinct (tb_manifests t)" and "keys_distinct (table_files V t)"
    and "counts_match len (all_refs (table_files V t)) (tb_refcounts t)"
    and "(f, v, n) \<in> set (tb_manifests t) \<Longrightarrow>
           \<exists>ds. from_value V v = Inr ds \<and> list_all is_chunk_digest ds"
  using assms by (auto simp: tables_ok_def table_files_keys)

text \<open>The row of a file, and its digests.\<close>

lemma table_row:
  assumes "tables_ok V len t" and "map_of (table_files V t) f = Some ds"
  obtains v n where "map_of (tb_manifests t) f = Some (v, n)" and "from_value V v = Inr ds"
    and "list_all is_chunk_digest ds"
proof -
  obtain v n where v: "map_of (tb_manifests t) f = Some (v, n)" "decoded V v = ds"
    using assms(2) by (auto simp: map_of_table_files)
  moreover have "\<exists>ds. from_value V v = Inr ds \<and> list_all is_chunk_digest ds"
    by (rule tables_okD(4) [OF assms(1) map_of_SomeD [OF v(1)]])
  ultimately show ?thesis using that by auto
qed

lemma counts_matchD:
  assumes "counts_match len M rows"
  shows "keys_distinct rows" and "size M < 2 ^ 63"
    and "map_of rows d = (if d \<in># M then Some (of_nat (count M d), of_nat (len d)) else None)"
    and "sint (of_nat (count M d) :: i64) = int (count M d)"
  using assms count_le_size [of M d] by (simp_all add: counts_match_def sint_of_nat_i64)

text \<open>Releasing one of several references.\<close>

lemma counts_match_release:
  assumes "counts_match len (add_mset d N) rows" and "d \<in># N"
  shows "counts_match len N (AList.update d (of_nat (count N d), of_nat (len d)) rows)"
  using assms by (auto simp: counts_match_def)

lemma counts_match_add:
  assumes "counts_match len M rows" and "Suc (size M) < 2 ^ 63"
  shows "counts_match len (add_mset d M)
           (AList.update d (of_nat (Suc (count M d)), of_nat (len d)) rows)"
  using assms by (auto simp: counts_match_def)

context pg_server
begin

section \<open>Counting up\<close>

lemma wp_increment_refcount:
  assumes "session t sv p" and "is_chunk_digest d" and "counts_match len M (tb_refcounts t)"
    and "Suc (size M) < 2 ^ 63" and "len d < 2 ^ 63"
    and Q: "\<And>n rows p'. session (t\<lparr>tb_refcounts := rows\<rparr>) sv p' \<Longrightarrow>
           counts_match len (add_mset d M) rows \<Longrightarrow> Q n p'"
  shows "wp (increment_refcount V d (of_nat (len d))) p Q"
proof -
  note C = counts_matchD [OF assms(3)]
  let ?rows = "AList.update d (of_nat (Suc (count M d)), of_nat (len d)) (tb_refcounts t)"
  have sz: "0 \<le> sint (of_nat (len d) :: i64)" using assms(5) by (simp add: sint_of_nat_i64)
  have m: "\<exists>row. meaning (Increment_count d (of_nat (len d))) t = Some ([[Bigint row]], t\<lparr>tb_refcounts := ?rows\<rparr>)"
  proof (cases "d \<in># M")
    case False
    then have "count M d = 0" by (simp add: not_in_iff)
    with False show ?thesis
      using increment_fresh_Some [of t d "of_nat (len d)"] C(3) [of d] sz by simp
  next
    case True
    then have "count M d \<noteq> 0" by simp
    then have "0 < sint (of_nat (count M d) :: i64)" "sint (of_nat (count M d) :: i64) < 2 ^ 63 - 1"
      using C(4) [of d] count_le_size [of M d] assms(4) by simp_all
    with True show ?thesis
      using increment_known_Some(1) [of t d "of_nat (count M d)" "of_nat (len d)" "of_nat (len d)"] C(3) [of d] sz
      by (simp add: add.commute)
  qed
  then obtain row where m: "meaning (Increment_count d (of_nat (len d))) t =
      Some ([[Bigint row]], t\<lparr>tb_refcounts := ?rows\<rparr>)" by blast
  show ?thesis
    unfolding increment_refcount_def wp_seq
    by (rule wp_query_one [OF assms(1) _ m])
      (use assms(2) Q counts_match_add [OF assms(3,4)] in
        \<open>auto simp: wp_lift get_bigint_def digest_storable bigint_storable\<close>)
qed

lemma wp_increments:
  assumes "session t sv p" and "list_all is_chunk_digest ds" and "counts_match len M (tb_refcounts t)"
    and "size M + length ds < 2 ^ 63" and "\<And>d. d \<in> set ds \<Longrightarrow> len d < 2 ^ 63"
    and Q: "\<And>rows p'. session (t\<lparr>tb_refcounts := rows\<rparr>) sv p' \<Longrightarrow>
           counts_match len (M + mset ds) rows \<Longrightarrow> Q () p'"
  shows "wp (for_each (zip ds (map (\<lambda>d. of_nat (len d)) ds))
              (\<lambda>(digest, sz). seq (increment_refcount V digest sz) (\<lambda>_. ret ()))) p Q"
  using assms
proof (induction ds arbitrary: t p M)
  case Nil
  show ?case using Nil(6) [of "tb_refcounts t" p] Nil(1,3) by (simp add: wp_ret)
next
  case (Cons d ds)
  show ?case
    unfolding list.map zip_Cons_Cons for_each.simps wp_seq prod.case
  proof (rule wp_increment_refcount [OF Cons.prems(1) _ Cons.prems(3)], goal_cases)
    case (4 n rows p1)
    show ?case
      unfolding wp_ret
      by (rule Cons.IH [OF 4(1)]) (use Cons.prems 4(2) in auto)
  qed (use Cons.prems in auto)
qed

lemma wp_upsert_manifest:
  assumes "session t sv p" and "to_value V ds = Inr v" and "storable (Text f)" and "storable (Jsonb v)"
    and "\<And>p'. session (t\<lparr>tb_manifests := AList.update f (v, n) (tb_manifests t)\<rparr>) sv p' \<Longrightarrow> Q () p'"
  shows "wp (upsert_manifest V f ds n) p Q"
  unfolding upsert_manifest_def wp_seq assms(2) map_err.simps wp_lift res.case
  by (rule wp_execute [OF assms(1)]) (use assms in \<open>auto simp: bigint_storable wp_ret\<close>)

section \<open>Counting down\<close>

lemma wp_release_refcount:
  assumes "session t sv p" and "is_chunk_digest d" and "counts_match len (add_mset d N) (tb_refcounts t)"
    and "d \<in># N" and "len d < 2 ^ 63"
    and Q: "\<And>rows p'. session (t\<lparr>tb_refcounts := rows\<rparr>) sv p' \<Longrightarrow> counts_match len N rows \<Longrightarrow> Q gc p'"
  shows "wp (release_refcount V d gc) p Q"
proof -
  note C = counts_matchD [OF assms(3)]
  let ?c = "of_nat (count (add_mset d N) d) :: i64"
  have gt: "1 < sint ?c" using C(4) [of d] assms(4) by (simp del: of_nat_Suc)
  have sz: "0 \<le> sint (of_nat (len d) :: i64)" using assms(5) by (simp add: sint_of_nat_i64)
  have row: "map_of (tb_refcounts t) d = Some (?c, of_nat (len d))" using C(3) [of d] by simp
  have eq: "?c - 1 = of_nat (count N d)" by simp
  note m = decrement_Some [OF row gt sz, unfolded eq]
  have pos: "0 < sint (of_nat (count N d) :: i64)" using m(2) gt by simp
  then have "(of_nat (count N d) :: i64) \<noteq> 0" by auto
  then show ?thesis
    unfolding release_refcount_def decrement_refcount_def wp_seq
    by (intro wp_query_opt [OF assms(1) _ m(1)])
      (use assms(2) pos Q counts_match_release [OF assms(3,4)] in
        \<open>auto simp: wp_rules get_bigint_def digest_storable\<close>)
qed

lemma raises_release_refcount:
  assumes "session t sv p" and "is_chunk_digest d" and "counts_match len (add_mset d N) (tb_refcounts t)"
    and "d \<notin># N"
  shows "raises (release_refcount V d gc) p
     (\<lambda>e p'. up p' \<and> saved p' = sv \<and> (\<exists>msg. e = BackendError (''postgres decrement: '' @ msg)))"
proof -
  note C = counts_matchD [OF assms(3)]
  have "sint (of_nat (count (add_mset d N) d) :: i64) = 1"
    using C(4) [of d] assms(4) by (simp add: not_in_iff)
  moreover have "map_of (tb_refcounts t) d = Some (of_nat (count (add_mset d N) d), of_nat (len d))"
    using C(3) [of d] by simp
  ultimately have "meaning (Decrement_count d) t = None" by (rule decrement_last_None [rotated])
  then show ?thesis
    unfolding release_refcount_def decrement_refcount_def
    by (intro raises_seq_first raises_mono [OF raises_query_opt [OF assms(1)]])
      (use assms(2) in \<open>auto simp: digest_storable\<close>)
qed

text \<open>
  A file can be released exactly when each of its chunks has a reference besides those of the
  file; then nothing is left to collect.
\<close>

lemma wp_releases:
  assumes "session t sv p" and "list_all is_chunk_digest ds"
    and "counts_match len (N + mset ds) (tb_refcounts t)" and "\<And>d. d \<in> set ds \<Longrightarrow> d \<in># N"
    and "\<And>d. d \<in> set ds \<Longrightarrow> len d < 2 ^ 63"
    and Q: "\<And>rows p'. session (t\<lparr>tb_refcounts := rows\<rparr>) sv p' \<Longrightarrow> counts_match len N rows \<Longrightarrow> Q gc p'"
  shows "wp (fold_act (release_refcount V) ds gc) p Q"
  using assms
proof (induction ds arbitrary: t p)
  case Nil
  show ?case using Nil(6) [of "tb_refcounts t" p] Nil(1,3) by (simp add: wp_ret)
next
  case (Cons d ds)
  show ?case
    unfolding fold_act.simps wp_seq
  proof (rule wp_release_refcount [OF Cons.prems(1), where N = "N + mset ds" and len = len], goal_cases)
    case (5 rows p1)
    show ?case by (rule Cons.IH [OF 5(1)]) (use Cons.prems 5(2) in auto)
  qed (use Cons.prems in auto)
qed

lemma raises_releases:
  assumes "session t sv p" and "list_all is_chunk_digest ds"
    and "counts_match len (N + mset ds) (tb_refcounts t)" and "d \<in> set ds" and "d \<notin># N"
    and "\<And>d. d \<in> set ds \<Longrightarrow> len d < 2 ^ 63"
  shows "raises (fold_act (release_refcount V) ds gc) p
     (\<lambda>e p'. up p' \<and> saved p' = sv \<and> (\<exists>msg. e = BackendError (''postgres decrement: '' @ msg)))"
  using assms
proof (induction ds arbitrary: t p gc)
  case (Cons x xs)
  have match: "counts_match len (add_mset x (N + mset xs)) (tb_refcounts t)"
    using Cons.prems(3) by simp
  have x: "is_chunk_digest x" "list_all is_chunk_digest xs" using Cons.prems(2) by simp_all
  show ?case
  proof (cases "x \<in># N + mset xs")
    case False
    then show ?thesis
      unfolding fold_act.simps
      by (intro raises_seq_first raises_release_refcount [OF Cons.prems(1) x(1) match])
  next
    case True
    then have "d \<in> set xs" using Cons.prems(4,5) by auto
    then show ?thesis
      unfolding fold_act.simps
      by (intro raises_seq_second wp_release_refcount [OF Cons.prems(1) x(1) match True] Cons.IH)
        (use x(2) Cons.prems(5,6) in auto)
  qed
qed simp

end

section \<open>The two transactions\<close>

text \<open>The digests a file has in the tables, and those that would be left without a reference.\<close>

definition old_digests_of :: "(string \<times> string list) list \<Rightarrow> string \<Rightarrow> string list" where
  "old_digests_of al f = (case map_of al f of None \<Rightarrow> [] | Some ds \<Rightarrow> ds)"

lemma all_refs_replace:
  "keys_distinct al \<Longrightarrow>
     all_refs (AList.update f ds al) + mset (old_digests_of al f) = all_refs al + mset ds"
  using all_refs_update_fresh [of al f ds] all_refs_update_old [of al f _ ds]
  by (auto simp: old_digests_of_def split: option.split)

lemma all_refs_take_out:
  "keys_distinct al \<Longrightarrow> all_refs (AList.delete f al) + mset (old_digests_of al f) = all_refs al"
  using all_refs_delete [of al f]
  by (auto simp: old_digests_of_def map_of_eq_None_iff split: option.split)

lemma old_digests_hex: "tables_ok V len t \<Longrightarrow> list_all is_chunk_digest (old_digests_of (table_files V t) f)"
  by (auto simp: old_digests_of_def elim: table_row split: option.split)

lemma set_al_update: "set (AList.update k v al) \<subseteq> insert (k, v) (set al)"
  by (induction al) auto

lemma set_al_delete: "set (AList.delete k al) \<subseteq> set al"
  by (auto simp: AList.delete_eq)

text \<open>A row can be replaced by one that decodes to chunk digests.\<close>

lemma tables_ok_upsert:
  assumes "tables_ok V len t" and "from_value V v = Inr ds" and "list_all is_chunk_digest ds"
    and "counts_match len (all_refs (AList.update f ds (table_files V t))) rows"
  shows "tables_ok V len (t\<lparr>tb_manifests := AList.update f (v, n) (tb_manifests t), tb_refcounts := rows\<rparr>)"
proof -
  have "set (AList.update f (v, n) (tb_manifests t)) \<subseteq> insert (f, v, n) (set (tb_manifests t))"
    by (rule set_al_update)
  then show ?thesis
    using assms tables_okD(1) [OF assms(1)] table_files_upsert [where V = V and t = t and f = f and v = v and n = n]
    by (auto simp: tables_ok_def split_beta dest!: subsetD)
qed

lemma tables_ok_delete:
  assumes "tables_ok V len t" and "counts_match len (all_refs (AList.delete f (table_files V t))) rows"
  shows "tables_ok V len (t\<lparr>tb_manifests := AList.delete f (tb_manifests t), tb_refcounts := rows\<rparr>)"
  using assms tables_okD(1) [OF assms(1)] table_files_delete [where V = V and t = t and f = f] subsetD [OF set_al_delete, of _ f "tb_manifests t"]
  by (auto simp: tables_ok_def split_beta)

context pg_server
begin

text \<open>What an ingest does to the tables when it can release the file's old chunks.\<close>

lemma wp_commit_ingest:
  assumes free: "\<not> poisoned mx" and ses: "session t None (guarded mx)" and ok: "tables_ok V len t"
    and hex: "list_all is_chunk_digest ds" and v: "to_value V ds = Inr v" "from_value V v = Inr ds"
    and store: "storable (Text f)" "storable (Jsonb v)"
    and fits: "size (all_refs (table_files V t)) + length ds < 2 ^ 63" and len: "\<And>d. len d < 2 ^ 63"
    and old: "old_digests_of (table_files V t) f = (case old of None \<Rightarrow> [] | Some o' \<Rightarrow> o')"
    and keep: "\<forall>d \<in> set (old_digests_of (table_files V t) f).
        d \<in># all_refs (AList.update f ds (table_files V t))"
    and Q: "\<And>t' p'. session t' None p' \<Longrightarrow> tables_ok V len t' \<Longrightarrow>
        table_files V t' = AList.update f ds (table_files V t) \<Longrightarrow>
        tb_manifests t' = AList.update f (v, n) (tb_manifests t) \<Longrightarrow> Q [] (mx\<lparr>guarded := p'\<rparr>)"
  shows "wp (commit_ingest V f ds n (map (\<lambda>d. of_nat (len d)) ds) old) mx Q"
proof -
  let ?M = "all_refs (table_files V t)" and ?old = "old_digests_of (table_files V t) f"
  let ?N = "all_refs (AList.update f ds (table_files V t))"
  have N: "?N + mset ?old = ?M + mset ds" by (rule all_refs_replace [OF tables_okD(2) [OF ok]])
  have body: "wp (seq (for_each (zip ds (map (\<lambda>d. of_nat (len d)) ds))
          (\<lambda>(digest, sz). seq (increment_refcount V digest sz) (\<lambda>_. ret ())))
        (\<lambda>_. seq (upsert_manifest V f ds n)
        (\<lambda>_. case old of None \<Rightarrow> ret [] | Some old \<Rightarrow> fold_act (release_refcount V) old []))) p
      (\<lambda>gc p'. \<exists>t'. session t' (Some t) p' \<and> (\<forall>q. session t' None q \<longrightarrow> Q gc (mx\<lparr>guarded := q\<rparr>)))"
    if p: "session t (Some t) p" for p
    unfolding wp_seq
  proof (rule wp_increments [OF p hex tables_okD(3) [OF ok] fits len], goal_cases)
    case (1 rows p1)
    let ?t = "t\<lparr>tb_refcounts := rows, tb_manifests := AList.update f (v, n) (tb_manifests t)\<rparr>"
    have fin: "\<exists>t'. session t' (Some t) p' \<and> (\<forall>q. session t' None q \<longrightarrow> Q [] (mx\<lparr>guarded := q\<rparr>))"
      if "session (?t\<lparr>tb_refcounts := rows'\<rparr>) (Some t) p'" "counts_match len ?N rows'" for rows' p'
    proof (intro exI conjI allI impI)
      fix q assume "session (?t\<lparr>tb_refcounts := rows'\<rparr>) None q"
      then show "Q [] (mx\<lparr>guarded := q\<rparr>)"
        using tables_ok_upsert [OF ok v(2) hex that(2)] table_files_upsert [where V = V and t = t and f = f and v = v and n = n] v(2)
        by (intro Q [of "?t\<lparr>tb_refcounts := rows'\<rparr>"]) (simp_all add: table_files_def)
    qed (rule that(1))
    show ?case
    proof (rule wp_upsert_manifest [OF 1(1) v(1) store], goal_cases)
      case (1 p2)
      have p2: "session ?t (Some t) p2" using 1 by simp
      have match: "counts_match len (?N + mset ?old) (tb_refcounts ?t)"
        using \<open>counts_match len (?M + mset ds) rows\<close> N by simp
      show ?case
      proof (cases old)
        case None
        moreover have "?t\<lparr>tb_refcounts := rows\<rparr> = ?t" by simp
        then have "session (?t\<lparr>tb_refcounts := rows\<rparr>) (Some t) p2" using p2 by (rule ssubst)
        ultimately show ?thesis
          using fin [OF \<open>session (?t\<lparr>tb_refcounts := rows\<rparr>) (Some t) p2\<close>] match old by (simp add: wp_ret)
      next
        case (Some ds')
        then have "ds' = ?old" using old by simp
        then show ?thesis
          unfolding Some option.case
          by (auto intro!: wp_releases [OF p2 old_digests_hex [OF ok] match _ len] fin bspec [OF keep])
      qed
    qed
  qed
  show ?thesis
    using free wp_in_transaction [OF ses body] by (simp add: commit_ingest_def wp_with_lock)
qed

text \<open>Otherwise it fails while releasing them, and the tables stay.\<close>

abbreviation decrement_error :: "chunk_store_error \<Rightarrow> bool" where
  "decrement_error e \<equiv> \<exists>msg. e = BackendError (''postgres decrement: '' @ msg)"

lemma raises_commit_ingest:
  assumes free: "\<not> poisoned mx" and ses: "session t None (guarded mx)" and ok: "tables_ok V len t"
    and hex: "list_all is_chunk_digest ds" and v: "to_value V ds = Inr v"
    and store: "storable (Text f)" "storable (Jsonb v)"
    and fits: "size (all_refs (table_files V t)) + length ds < 2 ^ 63" and len: "\<And>d. len d < 2 ^ 63"
    and old: "map_of (table_files V t) f = Some old" and d: "d \<in> set old"
    and lost: "d \<notin># all_refs (AList.update f ds (table_files V t))"
  shows "raises (commit_ingest V f ds n (map (\<lambda>d. of_nat (len d)) ds) (Some old)) mx
     (\<lambda>e mx'. decrement_error e \<and> (\<exists>p'. session t None p' \<and> mx' = mx\<lparr>guarded := p'\<rparr>))"
proof -
  let ?M = "all_refs (table_files V t)" and ?N = "all_refs (AList.update f ds (table_files V t))"
  have eq: "old_digests_of (table_files V t) f = old" using old by (simp add: old_digests_of_def)
  have N: "?N + mset old = ?M + mset ds"
    using all_refs_replace [OF tables_okD(2) [OF ok], of f ds] by (simp add: eq)
  have body: "raises (seq (for_each (zip ds (map (\<lambda>d. of_nat (len d)) ds))
          (\<lambda>(digest, sz). seq (increment_refcount V digest sz) (\<lambda>_. ret ())))
        (\<lambda>_. seq (upsert_manifest V f ds n) (\<lambda>_. fold_act (release_refcount V) old []))) p
      (\<lambda>e p'. up p' \<and> saved p' = Some t \<and> decrement_error e)"
    if p: "session t (Some t) p" for p
  proof (intro raises_seq_second wp_increments [OF p hex tables_okD(3) [OF ok] fits len], goal_cases)
    case (1 rows p1)
    show ?case
    proof (rule wp_upsert_manifest [OF 1(1) v(1) store], goal_cases)
      case (1 p2)
      have match: "counts_match len (?N + mset old) rows"
        using \<open>counts_match len (?M + mset ds) rows\<close> N by simp
      show ?case
        by (rule raises_releases [OF 1 old_digests_hex [OF ok, of f, unfolded eq] _ d lost len])
          (use match in simp)
    qed
  qed
  have "raises (in_transaction V ''ingest'' (seq (for_each (zip ds (map (\<lambda>d. of_nat (len d)) ds))
          (\<lambda>(digest, sz). seq (increment_refcount V digest sz) (\<lambda>_. ret ())))
        (\<lambda>_. seq (upsert_manifest V f ds n) (\<lambda>_. fold_act (release_refcount V) old [])))) (guarded mx)
      (\<lambda>e p'. session t None p' \<and> decrement_error e)"
    by (rule raises_in_transaction [OF ses body])
  then show ?thesis
    unfolding commit_ingest_def using free
    by (auto intro!: raises_with_lock elim!: raises_mono)
qed

lemma wp_commit_delete:
  assumes free: "\<not> poisoned mx" and ses: "session t None (guarded mx)" and ok: "tables_ok V len t"
    and store: "storable (Text f)" and len: "\<And>d. len d < 2 ^ 63"
    and old: "map_of (table_files V t) f = Some old"
    and keep: "\<forall>d \<in> set old. d \<in># all_refs (AList.delete f (table_files V t))"
    and Q: "\<And>t' p'. session t' None p' \<Longrightarrow> tables_ok V len t' \<Longrightarrow>
        table_files V t' = AList.delete f (table_files V t) \<Longrightarrow>
        tb_manifests t' = AList.delete f (tb_manifests t) \<Longrightarrow> Q [] (mx\<lparr>guarded := p'\<rparr>)"
  shows "wp (commit_delete V f old) mx Q"
proof -
  let ?N = "all_refs (AList.delete f (table_files V t))"
  let ?t = "t\<lparr>tb_manifests := AList.delete f (tb_manifests t)\<rparr>"
  have eq: "old_digests_of (table_files V t) f = old" using old by (simp add: old_digests_of_def)
  have match: "counts_match len (?N + mset old) (tb_refcounts ?t)"
    using tables_okD(3) [OF ok] all_refs_take_out [OF tables_okD(2) [OF ok], of f] by (simp add: eq)
  have body: "wp (seq (pg_call ''postgres delete manifest: '' (execute V (Delete_manifest f)))
        (\<lambda>_. fold_act (release_refcount V) old [])) p
      (\<lambda>gc p'. \<exists>t'. session t' (Some t) p' \<and> (\<forall>q. session t' None q \<longrightarrow> Q gc (mx\<lparr>guarded := q\<rparr>)))"
    if p: "session t (Some t) p" for p
    unfolding wp_seq
  proof (rule wp_execute [OF p, where rows = "[]" and t' = ?t], goal_cases)
    case (3 n p1)
    show ?case
    proof (rule wp_releases [OF 3 old_digests_hex [OF ok, of f, unfolded eq] match _ len], goal_cases)
      case (2 rows p2)
      show ?case
      proof (intro exI conjI allI impI)
        show "session (?t\<lparr>tb_refcounts := rows\<rparr>) (Some t) p2" by (rule 2(1))
        fix q assume "session (?t\<lparr>tb_refcounts := rows\<rparr>) None q"
        then show "Q [] (mx\<lparr>guarded := q\<rparr>)"
          using tables_ok_delete [OF ok 2(2)] table_files_delete [where V = V and t = t and f = f]
          by (intro Q [of "?t\<lparr>tb_refcounts := rows\<rparr>"]) (simp_all add: table_files_def)
      qed
    qed (use keep in blast)
  qed (use store in simp_all)
  show ?thesis
    using free wp_in_transaction [OF ses body] by (simp add: commit_delete_def wp_with_lock)
qed

lemma raises_commit_delete:
  assumes free: "\<not> poisoned mx" and ses: "session t None (guarded mx)" and ok: "tables_ok V len t"
    and store: "storable (Text f)" and len: "\<And>d. len d < 2 ^ 63"
    and old: "map_of (table_files V t) f = Some old" and d: "d \<in> set old"
    and lost: "d \<notin># all_refs (AList.delete f (table_files V t))"
  shows "raises (commit_delete V f old) mx
     (\<lambda>e mx'. decrement_error e \<and> (\<exists>p'. session t None p' \<and> mx' = mx\<lparr>guarded := p'\<rparr>))"
proof -
  let ?N = "all_refs (AList.delete f (table_files V t))"
  let ?t = "t\<lparr>tb_manifests := AList.delete f (tb_manifests t)\<rparr>"
  have eq: "old_digests_of (table_files V t) f = old" using old by (simp add: old_digests_of_def)
  have match: "counts_match len (?N + mset old) (tb_refcounts ?t)"
    using tables_okD(3) [OF ok] all_refs_take_out [OF tables_okD(2) [OF ok], of f] by (simp add: eq)
  have body: "raises (seq (pg_call ''postgres delete manifest: '' (execute V (Delete_manifest f)))
        (\<lambda>_. fold_act (release_refcount V) old [])) p
      (\<lambda>e p'. up p' \<and> saved p' = Some t \<and> decrement_error e)"
    if p: "session t (Some t) p" for p
  proof (intro raises_seq_second wp_execute [OF p, where rows = "[]" and t' = ?t], goal_cases)
    case (3 n p1)
    show ?case
      by (rule raises_releases [OF 3 old_digests_hex [OF ok, of f, unfolded eq] match d lost len])
  qed (use store in simp_all)
  have "raises (in_transaction V ''delete'' (seq (pg_call ''postgres delete manifest: '' (execute V (Delete_manifest f)))
        (\<lambda>_. fold_act (release_refcount V) old []))) (guarded mx) (\<lambda>e p'. session t None p' \<and> decrement_error e)"
    by (rule raises_in_transaction [OF ses body])
  then show ?thesis
    unfolding commit_delete_def using free
    by (auto intro!: raises_with_lock elim!: raises_mono)
qed

end

end
