(* ===== verification/Pg_Blobs.thy ===== *)
theory Pg_Blobs
  imports Pg_Store Pg_Txn Store_Ops
begin

text \<open>
  The blobs of a store whose metadata is in Postgres: every blob under the name of a digest
  holds the chunk with that digest, whether or not the tables refer to it, and storing the
  chunks of a file only adds blobs.
\<close>

definition blobs_named :: "hash_fun \<Rightarrow> chunk_codec_ops option \<Rightarrow> (string \<rightharpoonup> bytes) \<Rightarrow> bool" where
  "blobs_named sha c m \<longleftrightarrow>
     (\<forall>d. is_chunk_digest d \<longrightarrow> m d \<noteq> None \<longrightarrow>
        (\<exists>p. blob_plain c m d = Some p \<and> digest_hex sha p = d \<and> length p < 2 ^ 63))"

lemma blobs_namedE:
  assumes "blobs_named sha c m" and "is_chunk_digest d" and "m d \<noteq> None"
  obtains p where "blob_plain c m d = Some p" and "digest_hex sha p = d" and "length p < 2 ^ 63"
  using assms unfolding blobs_named_def by blast

lemma blobs_named_put:
  assumes "blobs_named sha c m" and "decode_opt c raw = Ok p" and "length p < 2 ^ 63"
  shows "blobs_named sha c (m(digest_hex sha p \<mapsto> raw))"
  using assms by (auto simp: blobs_named_def blob_plain_def)

text \<open>More blobs change nothing for the digests that had one.\<close>

lemma blob_plain_map_le: "m \<subseteq>\<^sub>m m' \<Longrightarrow> m d \<noteq> None \<Longrightarrow> blob_plain c m' d = blob_plain c m d"
  by (rule blob_plain_cong) (metis map_le_def domIff)

lemma blob_plain_map_le_Some:
  "m \<subseteq>\<^sub>m m' \<Longrightarrow> blob_plain c m d = Some p \<Longrightarrow> blob_plain c m' d = Some p"
  using blob_plain_map_le blob_plain_not_None by metis

section \<open>Access to the fields\<close>

lemma wp_on_base [wp_rules]:
  "wp (on_base m) s Q = wp m (pgs_base s) (\<lambda>a b. Q a (s\<lparr>pgs_base := b\<rparr>))"
  by (simp add: on_base_def wp_zoom)

lemma if_pg_Some: "pgs_pg s = Some pg \<Longrightarrow> if_pg m n s = m s"
  by (simp add: if_pg_def)

lemma wp_if_pg: "pgs_pg s = Some pg \<Longrightarrow> wp (if_pg m n) s Q = wp m s Q"
  by (simp add: wp_def if_pg_def)

lemma raises_if_pg: "pgs_pg s = Some pg \<Longrightarrow> raises (if_pg m n) s R = raises m s R"
  by (simp add: raises_def if_pg_def)

lemma wp_on_pg:
  "pgs_pg s = Some pg \<Longrightarrow> wp (on_pg m) s Q = wp m pg (\<lambda>a pg'. Q a (s\<lparr>pgs_pg := Some pg'\<rparr>))"
  by (auto simp: wp_iff on_pg_def split: prod.split)

lemma raises_on_pg:
  "pgs_pg s = Some pg \<Longrightarrow> raises (on_pg m) s R = raises m pg (\<lambda>e pg'. R e (s\<lparr>pgs_pg := Some pg'\<rparr>))"
  by (auto simp: raises_iff on_pg_def split: prod.split)

section \<open>Storing chunks\<close>

abbreviation with_backend :: "('b, 'p) pg_store \<Rightarrow> 'b \<Rightarrow> ('b, 'p) pg_store" where
  "with_backend s b \<equiv> s\<lparr>pgs_base := (pgs_base s)\<lparr>st_backend := b\<rparr>\<rparr>"

context store_env
begin

lemma wp_pg_store_chunk:
  assumes pg: "pgs_pg s = Some pg" and ok: "ok (st_backend (pgs_base s))"
    and free: "\<not> poisoned (st_blob (pgs_base s))" and codec: "codec_ok (st_codec (pgs_base s))"
    and named: "blobs_named (dp_sha E) (st_codec (pgs_base s)) (kv (st_backend (pgs_base s)))"
    and p: "p \<noteq> []" "length p < 2 ^ 63"
    and coll: "\<And>q. blob_plain (st_codec (pgs_base s)) (kv (st_backend (pgs_base s)))
        (digest_hex (dp_sha E) p) = Some q \<Longrightarrow> dp_sha E q = dp_sha E p \<Longrightarrow> q = p"
    and Q: "\<And>b. ok b \<Longrightarrow> kv (st_backend (pgs_base s)) \<subseteq>\<^sub>m kv b \<Longrightarrow>
        (\<And>d. d \<noteq> digest_hex (dp_sha E) p \<Longrightarrow> kv b d = kv (st_backend (pgs_base s)) d) \<Longrightarrow>
        blobs_named (dp_sha E) (st_codec (pgs_base s)) (kv b) \<Longrightarrow>
        blob_plain (st_codec (pgs_base s)) (kv b) (digest_hex (dp_sha E) p) = Some p \<Longrightarrow>
        Q (kv (st_backend (pgs_base s)) (digest_hex (dp_sha E) p) \<noteq> None) (with_backend s b)"
  shows "wp (pg_store_chunk E (digest_hex (dp_sha E) p) p) s Q"
proof -
  let ?d = "digest_hex (dp_sha E) p" and ?c = "st_codec (pgs_base s)"
  let ?m = "kv (st_backend (pgs_base s))"
  have dd: "is_chunk_digest ?d" by (rule digest_is_chunk_digest [OF sha])
  obtain raw where raw: "encode_opt ?c p = Ok raw" "decode_opt ?c raw = Ok p" "raw \<noteq> []"
    using codec_okE [OF codec] p(1) by metis
  show ?thesis
    unfolding pg_store_chunk_def wp_seq wp_on_base wp_encode_blob [OF raw(1)]
  proof (simp, rule wp_blob_section [OF ok free dd raw(3)], goal_cases)
    case (1 b)
    have "?m \<subseteq>\<^sub>m kv b" using 1(2) by (auto simp: map_le_def)
    moreover have "kv b d = ?m d" if "d \<noteq> ?d" for d using 1(2) that by simp
    moreover have "blobs_named (dp_sha E) ?c (kv b)"
      using 1(2) named blobs_named_put [OF named raw(2) p(2)] by (cases "?m ?d") simp_all
    moreover have "blob_plain ?c (kv b) ?d = Some p"
    proof (cases "?m ?d")
      case None
      then show ?thesis using 1(2) raw(2) by (simp add: blob_plain_def)
    next
      case (Some r)
      then obtain q where q: "blob_plain ?c ?m ?d = Some q" "digest_hex (dp_sha E) q = ?d"
        using blobs_namedE [OF named dd] by auto
      then have "q = p" using coll by (simp add: digest_hex_eq_iff)
      with q Some 1(2) show ?thesis by simp
    qed
    ultimately show ?case
      using 1(1) pg Q by (simp add: wp_if_pg wp_ret)
  qed
qed

lemma wp_pg_accept:
  "wp (pg_accept E p se) s Q =
     wp (pg_store_chunk E (digest_hex (dp_sha E) p) p) s
       (\<lambda>_. Q \<lparr>se_digests = se_digests se @ [digest_hex (dp_sha E) p],
               se_sizes = se_sizes se @ [len64 p], se_file_bytes = se_file_bytes se + len64 p\<rparr>)"
  by (simp add: pg_accept_def Let_def wp_rules)

lemma wp_pg_accept_all:
  assumes "pgs_pg s = Some pg" and "ok (st_backend (pgs_base s))"
    and "\<not> poisoned (st_blob (pgs_base s))" and "codec_ok (st_codec (pgs_base s))"
    and "blobs_named (dp_sha E) (st_codec (pgs_base s)) (kv (st_backend (pgs_base s)))"
    and "inj_on (dp_sha E) U"
    and "stored_plain (st_codec (pgs_base s)) (kv (st_backend (pgs_base s))) \<subseteq> U"
    and "set chunks \<subseteq> U" and "[] \<notin> set chunks" and "\<forall>p \<in> set chunks. length p < 2 ^ 63"
    and "\<And>b. ok b \<Longrightarrow> kv (st_backend (pgs_base s)) \<subseteq>\<^sub>m kv b \<Longrightarrow>
           blobs_named (dp_sha E) (st_codec (pgs_base s)) (kv b) \<Longrightarrow>
           (\<And>p. p \<in> set chunks \<Longrightarrow>
              blob_plain (st_codec (pgs_base s)) (kv b) (digest_hex (dp_sha E) p) = Some p) \<Longrightarrow>
           stored_plain (st_codec (pgs_base s)) (kv b) \<subseteq> U \<Longrightarrow>
           Q \<lparr>se_digests = se_digests se @ map (digest_hex (dp_sha E)) chunks,
              se_sizes = se_sizes se @ map len64 chunks,
              se_file_bytes = se_file_bytes se + of_nat (length (concat chunks))\<rparr> (with_backend s b)"
  shows "wp (fold_act (pg_accept E) chunks se) s Q"
  using assms
proof (induction chunks arbitrary: s se)
  case Nil
  show ?case
    using Nil.prems(11) [of "st_backend (pgs_base s)"] Nil.prems(2,5,7) by (cases se) (simp add: wp_ret)
next
  case (Cons p chunks)
  let ?dg = "digest_hex (dp_sha E)" and ?c = "st_codec (pgs_base s)"
  let ?m = "kv (st_backend (pgs_base s))"
  have dig: "is_chunk_digest (?dg p)" by (rule digest_is_chunk_digest [OF sha])
  show ?case
    unfolding fold_act.simps wp_seq wp_pg_accept
  proof (rule wp_pg_store_chunk [OF Cons.prems(1-5)], goal_cases)
    case (3 q)
    then have "q \<in> U" using Cons.prems(7) dig by (auto simp: stored_plain_def)
    then show ?case using 3(2) Cons.prems(6,8) by (auto dest: inj_onD)
  next
    case (4 b)
    have "stored_plain ?c (kv b) \<subseteq> U"
    proof
      fix q assume "q \<in> stored_plain ?c (kv b)"
      then obtain d where d: "is_chunk_digest d" "blob_plain ?c (kv b) d = Some q"
        by (auto simp: stored_plain_def)
      show "q \<in> U"
      proof (cases "d = ?dg p")
        case True
        then show ?thesis using d(2) 4(5) Cons.prems(8) by simp
      next
        case False
        then have "blob_plain ?c ?m d = Some q" using d(2) 4(3) blob_plain_cong by metis
        then show ?thesis using d(1) Cons.prems(7) by (auto simp: stored_plain_def)
      qed
    qed
    moreover have "Q \<lparr>se_digests = (se_digests se @ [?dg p]) @ map ?dg chunks,
        se_sizes = (se_sizes se @ [len64 p]) @ map len64 chunks,
        se_file_bytes = se_file_bytes se + len64 p + of_nat (length (concat chunks))\<rparr> (with_backend s c)"
      if "ok c" "kv b \<subseteq>\<^sub>m kv c" "blobs_named (dp_sha E) ?c (kv c)"
        "\<And>q. q \<in> set chunks \<Longrightarrow> blob_plain ?c (kv c) (?dg q) = Some q"
        "stored_plain ?c (kv c) \<subseteq> U" for c
      using Cons.prems(11) [OF that(1) map_le_trans [OF 4(2) that(2)] that(3) _ that(5)] that(4)
        blob_plain_map_le_Some [OF that(2) 4(5)] by (auto simp: add.assoc)
    ultimately show ?case
      using Cons.prems(1,3,4,6,8-10) 4 by (intro Cons.IH) simp_all
  qed (use Cons.prems(9,10) in auto)
qed

end

end
