(* ===== verification/Pg_Ops.thy ===== *)
theory Pg_Ops
  imports Pg_Blobs Store_Ingest
begin

text \<open>
  The operations of a store opened with \<open>open_postgres\<close>.  Its invariant speaks of the
  database and the blobs only, never of the caches the store keeps in memory, so it is also the
  one that several processes share.
\<close>

section \<open>The invariant and the abstract state\<close>

text \<open>The payload length of the chunk with a digest.\<close>

definition digest_len :: "chunk_codec_ops option \<Rightarrow> (string \<rightharpoonup> bytes) \<Rightarrow> string \<Rightarrow> nat" where
  "digest_len c m d = (if is_chunk_digest d then plain_len c m d else 0)"

definition pg_tables_of :: "('p \<Rightarrow> 'v pg_tables) \<Rightarrow> ('b, 'p) pg_store \<Rightarrow> 'v pg_tables" where
  "pg_tables_of live s = live (guarded (the (pgs_pg s)))"

definition pg_inv ::
  "'b deps \<Rightarrow> ('b \<Rightarrow> string \<rightharpoonup> bytes) \<Rightarrow> ('b \<Rightarrow> bool) \<Rightarrow> ('v, 'p) pg_driver \<Rightarrow> ('p \<Rightarrow> bool) \<Rightarrow>
     ('p \<Rightarrow> 'v pg_tables) \<Rightarrow> ('p \<Rightarrow> 'v pg_tables option) \<Rightarrow> ('b, 'p) pg_store \<Rightarrow> bool" where
  "pg_inv E kv ok V up live saved s \<longleftrightarrow>
     ok (st_backend (pgs_base s)) \<and> unlocked (pgs_base s) \<and> codec_ok (st_codec (pgs_base s)) \<and>
     blobs_named (dp_sha E) (st_codec (pgs_base s)) (kv (st_backend (pgs_base s))) \<and>
     (\<exists>pg. pgs_pg s = Some pg \<and> \<not> poisoned pg \<and> up (guarded pg) \<and> saved (guarded pg) = None) \<and>
     tables_ok V (digest_len (st_codec (pgs_base s)) (kv (st_backend (pgs_base s)))) (pg_tables_of live s) \<and>
     (\<forall>d \<in># all_refs (table_files V (pg_tables_of live s)). kv (st_backend (pgs_base s)) d \<noteq> None)"

definition pg_contents ::
  "('b \<Rightarrow> string \<rightharpoonup> bytes) \<Rightarrow> ('v, 'p) pg_driver \<Rightarrow> ('p \<Rightarrow> 'v pg_tables) \<Rightarrow> ('b, 'p) pg_store \<Rightarrow>
     string \<rightharpoonup> bytes" where
  "pg_contents kv V live s f =
     (case map_of (table_files V (pg_tables_of live s)) f of
        None \<Rightarrow> None
      | Some ds \<Rightarrow> assemble (st_codec (pgs_base s)) (kv (st_backend (pgs_base s))) ds)"

locale pg_env = store_env E kv ok valid + pg_server V up live saved storable reachable
  for E :: "'b deps" and kv :: "'b \<Rightarrow> string \<rightharpoonup> bytes" and ok :: "'b \<Rightarrow> bool"
    and valid :: "string \<Rightarrow> bool" and V :: "('v, 'p) pg_driver" and up :: "'p \<Rightarrow> bool"
    and live :: "'p \<Rightarrow> 'v pg_tables" and saved :: "'p \<Rightarrow> 'v pg_tables option"
    and storable :: "'v pg_value \<Rightarrow> bool" and reachable :: "string \<Rightarrow> 'p \<Rightarrow> bool"

lemma counts_match_cong:
  assumes "counts_match len M rows" and "\<And>d. d \<in># M \<Longrightarrow> len' d = len d"
  shows "counts_match len' M rows"
  using assms by (auto simp: counts_match_def)

lemma tables_ok_cong:
  assumes "tables_ok V len t" and "\<And>d. d \<in># all_refs (table_files V t) \<Longrightarrow> len' d = len d"
  shows "tables_ok V len' t"
  using assms counts_match_cong [of len _ _ len'] by (simp add: tables_ok_def)

lemma digest_len_map_le:
  "m \<subseteq>\<^sub>m m' \<Longrightarrow> m d \<noteq> None \<Longrightarrow> digest_len c m' d = digest_len c m d"
  using blob_plain_map_le [of m m' d c] by (simp add: digest_len_def plain_len_def)

lemma digest_len_bound: "blobs_named sha c m \<Longrightarrow> digest_len c m d < 2 ^ 63"
  by (cases "m d") (auto simp: digest_len_def plain_len_def blob_plain_def blobs_named_def split: option.split)

lemma assemble_map_le:
  "m \<subseteq>\<^sub>m m' \<Longrightarrow> (\<And>d. d \<in> set ds \<Longrightarrow> m d \<noteq> None) \<Longrightarrow> assemble c m' ds = assemble c m ds"
  by (intro assemble_cong blob_plain_map_le)

lemma table_refs:
  "map_of (table_files V t) f = Some ds \<Longrightarrow> d \<in> set ds \<Longrightarrow> d \<in># all_refs (table_files V t)"
  by (rule all_refs_member)

lemma wp_manifest_insert:
  "f \<noteq> [] \<Longrightarrow> wp (manifest_insert f ds n) m Q = Q () (snd (manifest_insert f ds n m))"
  by (rule wp_by_fst_snd) (rule manifest_insert_Ok(1))

section \<open>Provisos of an ingest\<close>

text \<open>The blobs of \<open>chunks\<close> are on the backend.\<close>

definition blobs_stored ::
  "'b deps \<Rightarrow> ('b \<Rightarrow> string \<rightharpoonup> bytes) \<Rightarrow> ('b, 'p) pg_store \<Rightarrow> bytes list \<Rightarrow> bool" where
  "blobs_stored E kv s chunks \<longleftrightarrow>
     (\<forall>p \<in> set chunks. blob_plain (st_codec (pgs_base s)) (kv (st_backend (pgs_base s)))
        (digest_hex (dp_sha E) p) = Some p)"

text \<open>The session once \<open>chunks\<close> are accepted.\<close>

definition session_of :: "'b deps \<Rightarrow> bytes list \<Rightarrow> ingest_session" where
  "session_of E chunks =
     \<lparr>se_digests = map (digest_hex (dp_sha E)) chunks, se_sizes = map len64 chunks,
      se_file_bytes = of_nat (length (concat chunks))\<rparr>"

text \<open>The server takes the row of the new version.\<close>

definition row_storable ::
  "'b deps \<Rightarrow> ('v, 'p) pg_driver \<Rightarrow> ('v pg_value \<Rightarrow> bool) \<Rightarrow> string \<Rightarrow> bytes list \<Rightarrow> bool" where
  "row_storable E V storable f chunks \<longleftrightarrow>
     storable (Text f) \<and> (\<exists>v. to_value V (map (digest_hex (dp_sha E)) chunks) = Inr v \<and> storable (Jsonb v))"

text \<open>
  No two different chunks that are stored or about to be stored have the same SHA-256 value,
  and the counts and sizes fit a \<^verbatim>\<open>BIGINT\<close>.
\<close>

definition pg_fits ::
  "'b deps \<Rightarrow> ('b \<Rightarrow> string \<rightharpoonup> bytes) \<Rightarrow> ('v, 'p) pg_driver \<Rightarrow> ('p \<Rightarrow> 'v pg_tables) \<Rightarrow>
     ('b, 'p) pg_store \<Rightarrow> bytes list \<Rightarrow> bool" where
  "pg_fits E kv V live s chunks \<longleftrightarrow>
     inj_on (dp_sha E)
       (stored_plain (st_codec (pgs_base s)) (kv (st_backend (pgs_base s))) \<union> set chunks) \<and>
     size (all_refs (table_files V (pg_tables_of live s))) + length chunks < 2 ^ 63 \<and>
     (\<forall>p \<in> set chunks. length p < 2 ^ 63)"

text \<open>
  A file's chunks can be replaced by \<open>chunks\<close>, or taken away, when none of the old ones loses
  its last reference.
\<close>

definition replaceable ::
  "'b deps \<Rightarrow> ('v, 'p) pg_driver \<Rightarrow> ('p \<Rightarrow> 'v pg_tables) \<Rightarrow> ('b, 'p) pg_store \<Rightarrow> string \<Rightarrow> bytes list \<Rightarrow> bool"
where
  "replaceable E V live s f chunks \<longleftrightarrow>
     (\<forall>d \<in> set (old_digests_of (table_files V (pg_tables_of live s)) f).
        d \<in># all_refs (AList.update f (map (digest_hex (dp_sha E)) chunks)
                (table_files V (pg_tables_of live s))))"

definition removable ::
  "('v, 'p) pg_driver \<Rightarrow> ('p \<Rightarrow> 'v pg_tables) \<Rightarrow> ('b, 'p) pg_store \<Rightarrow> string \<Rightarrow> bool" where
  "removable V live s f \<longleftrightarrow>
     (\<forall>d \<in> set (old_digests_of (table_files V (pg_tables_of live s)) f).
        d \<in># all_refs (AList.delete f (table_files V (pg_tables_of live s))))"

context pg_env
begin

abbreviation "pinv \<equiv> pg_inv E kv ok V up live saved"

lemma pinvE:
  assumes "pinv s"
  obtains pg where "pgs_pg s = Some pg" and "\<not> poisoned pg"
    and "session (pg_tables_of live s) None (guarded pg)"
    and "tables_ok V (digest_len (st_codec (pgs_base s)) (kv (st_backend (pgs_base s)))) (pg_tables_of live s)"
  using assms by (auto simp: pg_inv_def session_def pg_tables_of_def)

lemma pinvD:
  assumes "pinv s"
  shows "ok (st_backend (pgs_base s))" and "unlocked (pgs_base s)" and "codec_ok (st_codec (pgs_base s))"
    and "blobs_named (dp_sha E) (st_codec (pgs_base s)) (kv (st_backend (pgs_base s)))"
    and "d \<in># all_refs (table_files V (pg_tables_of live s)) \<Longrightarrow> kv (st_backend (pgs_base s)) d \<noteq> None"
  using assms by (simp_all add: pg_inv_def)

lemma pinvI:
  assumes "ok (st_backend (pgs_base s))" and "unlocked (pgs_base s)" and "codec_ok (st_codec (pgs_base s))"
    and "blobs_named (dp_sha E) (st_codec (pgs_base s)) (kv (st_backend (pgs_base s)))"
    and "pgs_pg s = Some pg" and "\<not> poisoned pg" and "session t None (guarded pg)"
    and "tables_ok V (digest_len (st_codec (pgs_base s)) (kv (st_backend (pgs_base s)))) t"
    and "\<And>d. d \<in># all_refs (table_files V t) \<Longrightarrow> kv (st_backend (pgs_base s)) d \<noteq> None"
  shows "pinv s" and "pg_tables_of live s = t"
  using assms by (simp_all add: pg_inv_def session_def pg_tables_of_def)

text \<open>The chunks of a stored file.\<close>

lemma pinv_chunk:
  assumes "pinv s" and "map_of (table_files V (pg_tables_of live s)) f = Some ds" and "d \<in> set ds"
  obtains p where "is_chunk_digest d" and "blob_plain (st_codec (pgs_base s)) (kv (st_backend (pgs_base s))) d = Some p"
    and "digest_hex (dp_sha E) p = d"
proof -
  obtain pg where "tables_ok V (digest_len (st_codec (pgs_base s)) (kv (st_backend (pgs_base s)))) (pg_tables_of live s)"
    by (rule pinvE [OF assms(1)])
  then have d: "is_chunk_digest d"
    using assms(3) by (auto simp: list_all_iff elim: table_row [OF _ assms(2)])
  show ?thesis
    by (rule blobs_namedE [OF pinvD(4) [OF assms(1)] d pinvD(5) [OF assms(1) table_refs [OF assms(2,3)]]])
      (rule that [OF d])
qed

section \<open>Looking up a manifest\<close>

lemma wp_manifest_digests:
  assumes "\<not> poisoned pg" and "session t None (guarded pg)" and "tables_ok V len t" and "storable (Text f)"
    and Q: "\<And>p. session t None p \<Longrightarrow> Q (map_of (table_files V t) f) (pg\<lparr>guarded := p\<rparr>)"
  shows "wp (manifest_digests V f) pg Q"
  unfolding manifest_digests_def wp_with_lock wp_seq
proof (intro conjI assms(1))
  show "wp (pg_call ''postgres get manifest: '' (query_opt V (Select_digests f))) (guarded pg)
     (\<lambda>row p. wp (case row of None \<Rightarrow> ret None
        | Some row \<Rightarrow> seq (lift (get_jsonb row 0)) (\<lambda>v. seq (lift (json_digests V v)) (\<lambda>ds. ret (Some ds))))
        p (\<lambda>r p. Q r (pg\<lparr>guarded := p\<rparr>)))"
  proof (cases "map_of (table_files V t) f")
    case None
    then have "map_of (tb_manifests t) f = None" by (simp add: map_of_table_files)
    then show ?thesis
      using assms(4) Q None
      by (intro wp_query_opt [OF assms(2), where rows = "[]" and t' = t]) (simp_all add: wp_ret)
  next
    case (Some ds)
    obtain v n where "map_of (tb_manifests t) f = Some (v, n)" "from_value V v = Inr ds"
      by (rule table_row [OF assms(3) Some])
    then show ?thesis
      using assms(4) Q Some
      by (intro wp_query_opt [OF assms(2), where rows = "[[Jsonb v]]" and t' = t])
        (simp_all add: wp_seq wp_lift wp_ret get_jsonb_def json_digests_def)
  qed
qed

lemma wp_pg_peek:
  assumes "pinv s" and "storable (Text f)"
    and Q: "\<And>pg. \<not> poisoned pg \<Longrightarrow> session (pg_tables_of live s) None (guarded pg) \<Longrightarrow>
        Q (map_of (table_files V (pg_tables_of live s)) f) (s\<lparr>pgs_pg := Some pg\<rparr>)"
  shows "wp (pg_peek_digests V f) s Q"
proof -
  obtain pg where pg: "pgs_pg s = Some pg" "\<not> poisoned pg" "session (pg_tables_of live s) None (guarded pg)"
      "tables_ok V (digest_len (st_codec (pgs_base s)) (kv (st_backend (pgs_base s)))) (pg_tables_of live s)"
    by (rule pinvE [OF assms(1)])
  then show ?thesis
    unfolding pg_peek_digests_def wp_if_pg [OF pg(1)] wp_on_pg [OF pg(1)]
    by (intro wp_manifest_digests [OF pg(2-4) assms(2)] Q) simp_all
qed

section \<open>Ingest\<close>

text \<open>More blobs do not disturb the invariant or the files.\<close>

lemma pinv_grow:
  assumes "pinv s" and "ok b" and le: "kv (st_backend (pgs_base s)) \<subseteq>\<^sub>m kv b"
    and "blobs_named (dp_sha E) (st_codec (pgs_base s)) (kv b)"
  shows "pinv (with_backend s b)" and "pg_tables_of live (with_backend s b) = pg_tables_of live s"
    and "pg_contents kv V live (with_backend s b) = pg_contents kv V live s"
proof -
  note I = pinvD [OF assms(1)]
  obtain pg where pg: "pgs_pg s = Some pg" "\<not> poisoned pg" "session (pg_tables_of live s) None (guarded pg)"
      "tables_ok V (digest_len (st_codec (pgs_base s)) (kv (st_backend (pgs_base s)))) (pg_tables_of live s)"
    by (rule pinvE [OF assms(1)])
  have "tables_ok V (digest_len (st_codec (pgs_base s)) (kv b)) (pg_tables_of live s)"
    by (rule tables_ok_cong [OF pg(4) digest_len_map_le [OF le I(5)]])
  moreover have "kv b d \<noteq> None" if "d \<in># all_refs (table_files V (pg_tables_of live s))" for d
    using le I(5) [OF that] by (metis map_le_def domIff)
  ultimately show "pinv (with_backend s b)"
    using assms I pg by (intro pinvI(1)) (auto simp: unlocked_def)
  show "pg_tables_of live (with_backend s b) = pg_tables_of live s" by (simp add: pg_tables_of_def)
  moreover have "assemble (st_codec (pgs_base s)) (kv b) ds =
      assemble (st_codec (pgs_base s)) (kv (st_backend (pgs_base s))) ds"
    if "map_of (table_files V (pg_tables_of live s)) f = Some ds" for f ds
    by (rule assemble_map_le [OF le I(5) [OF table_refs [OF that]]])
  ultimately show "pg_contents kv V live (with_backend s b) = pg_contents kv V live s"
    by (auto simp: fun_eq_iff pg_contents_def split: option.split)
qed

lemma digests_hex: "list_all is_chunk_digest (map (digest_hex (dp_sha E)) chunks)"
  by (simp add: list_all_iff digest_is_chunk_digest [OF sha])

lemma session_sizes:
  assumes "blobs_stored E kv s chunks"
  shows "se_sizes (session_of E chunks) =
     map (\<lambda>d. of_nat (digest_len (st_codec (pgs_base s)) (kv (st_backend (pgs_base s))) d))
       (se_digests (session_of E chunks))"
  using assms digest_is_chunk_digest [OF sha]
  by (simp add: blobs_stored_def session_of_def digest_len_def plain_len_def)

lemma row_storableE:
  assumes "row_storable E V storable f chunks"
  obtains v where "storable (Text f)" and "storable (Jsonb v)"
    and "to_value V (se_digests (session_of E chunks)) = Inr v"
    and "from_value V v = Inr (se_digests (session_of E chunks))"
proof -
  obtain v where v: "to_value V (map (digest_hex (dp_sha E)) chunks) = Inr v" "storable (Jsonb v)" "storable (Text f)"
    using assms by (auto simp: row_storable_def)
  then have "from_value V v = Inr (map (digest_hex (dp_sha E)) chunks)"
    using value_law [OF digests_hex [of chunks]] by auto
  with v show ?thesis by (intro that) (simp_all add: session_of_def)
qed

text \<open>The transaction of an ingest commits; what is left is the manifest cache.\<close>

lemma pg_commit_cache:
  assumes inv: "pinv s" and f: "row_storable E V storable f chunks"
    and stored: "blobs_stored E kv s chunks" and fits: "pg_fits E kv V live s chunks"
    and keep: "replaceable E V live s f chunks"
  obtains s' where "pinv s'" and "pgs_base s' = pgs_base s"
    and "table_files V (pg_tables_of live s') =
          AList.update f (map (digest_hex (dp_sha E)) chunks) (table_files V (pg_tables_of live s))"
    and "pg_commit E V f (session_of E chunks) s =
          seq (on_base (on_manifest (manifest_insert f (map (digest_hex (dp_sha E)) chunks)
                 (se_file_bytes (session_of E chunks)))))
            (\<lambda>_. ret (map (digest_hex (dp_sha E)) chunks)) s'"
proof -
  let ?se = "session_of E chunks" and ?c = "st_codec (pgs_base s)" and ?m = "kv (st_backend (pgs_base s))"
  let ?t = "pg_tables_of live s" and ?ds = "map (digest_hex (dp_sha E)) chunks"
  let ?old = "map_of (table_files V ?t) f"
  note I = pinvD [OF inv]
  have ds: "se_digests ?se = ?ds" by (simp add: session_of_def)
  obtain v where v: "storable (Text f)" "storable (Jsonb v)" "to_value V ?ds = Inr v" "from_value V v = Inr ?ds"
    using row_storableE [OF f] ds by metis
  obtain pg0 where ok: "tables_ok V (digest_len ?c ?m) ?t" by (rule pinvE [OF inv])
  have refs: "?m d \<noteq> None" if "d \<in># all_refs (AList.update f ?ds (table_files V ?t))" for d
  proof -
    have "d \<in># all_refs (table_files V ?t) + mset ?ds"
      using that all_refs_replace [OF tables_okD(2) [OF ok], of f ?ds] by (metis union_iff)
    then show ?thesis
      using I(5) stored blob_plain_not_None by (auto simp: blobs_stored_def)
  qed
  have "wp (pg_peek_digests V f) s (\<lambda>old s1. \<exists>pg. old = ?old \<and> s1 = s\<lparr>pgs_pg := Some pg\<rparr> \<and>
      \<not> poisoned pg \<and> session ?t None (guarded pg))"
    by (rule wp_pg_peek [OF inv v(1)]) blast
  then obtain pg where pg: "pg_peek_digests V f s = (Ok ?old, s\<lparr>pgs_pg := Some pg\<rparr>)"
      "\<not> poisoned pg" "session ?t None (guarded pg)"
    by (auto elim!: wpE)
  have "wp (commit_ingest V f ?ds (se_file_bytes ?se) (se_sizes ?se) ?old) pg
      (\<lambda>gc pg'. \<exists>t p. gc = [] \<and> pg' = pg\<lparr>guarded := p\<rparr> \<and> session t None p \<and>
         tables_ok V (digest_len ?c ?m) t \<and> table_files V t = AList.update f ?ds (table_files V ?t))"
    unfolding session_sizes [OF stored] ds
    by (rule wp_commit_ingest [OF pg(2,3) ok digests_hex v(3,4,1,2) _ digest_len_bound [OF I(4)]])
      (use fits keep in \<open>auto simp: pg_fits_def replaceable_def old_digests_of_def split: option.split\<close>)
  then obtain t p where t: "commit_ingest V f ?ds (se_file_bytes ?se) (se_sizes ?se) ?old pg = (Ok [], pg\<lparr>guarded := p\<rparr>)"
      "session t None p" "tables_ok V (digest_len ?c ?m) t" "table_files V t = AList.update f ?ds (table_files V ?t)"
    by (auto elim!: wpE)
  let ?s' = "s\<lparr>pgs_pg := Some (pg\<lparr>guarded := p\<rparr>)\<rparr>"
  have P: "pinv ?s'" "pg_tables_of live ?s' = t"
    using pinvI [of ?s' "pg\<lparr>guarded := p\<rparr>" t] I(1-4) pg(2) t refs by simp_all
  show ?thesis
  proof (rule that [OF P(1)])
    show "pg_commit E V f ?se s = seq (on_base (on_manifest (manifest_insert f ?ds (se_file_bytes ?se)))) (\<lambda>_. ret ?ds) ?s'"
      using pg(1) t(1) by (simp add: pg_commit_def seq_def if_pg_def on_pg_def delete_blobs_def ret_def ds)
  qed (use P(2) t(4) in simp_all)
qed

lemma wp_pg_commit:
  assumes inv: "pinv s" and f: "f \<noteq> []" "row_storable E V storable f chunks"
    and stored: "blobs_stored E kv s chunks" and fits: "pg_fits E kv V live s chunks"
    and keep: "replaceable E V live s f chunks"
    and Q: "\<And>s'. pinv s' \<Longrightarrow> st_codec (pgs_base s') = st_codec (pgs_base s) \<Longrightarrow>
        st_backend (pgs_base s') = st_backend (pgs_base s) \<Longrightarrow>
        st_refcount (pgs_base s') = st_refcount (pgs_base s) \<Longrightarrow>
        table_files V (pg_tables_of live s') =
          AList.update f (map (digest_hex (dp_sha E)) chunks) (table_files V (pg_tables_of live s)) \<Longrightarrow>
        pg_contents kv V live s' = (pg_contents kv V live s)(f \<mapsto> concat chunks) \<Longrightarrow>
        Q (map (digest_hex (dp_sha E)) chunks) s'"
  shows "wp (pg_commit E V f (session_of E chunks)) s Q"
proof -
  let ?ds = "map (digest_hex (dp_sha E)) chunks" and ?c = "st_codec (pgs_base s)" and ?m = "kv (st_backend (pgs_base s))"
  obtain s1 where s1: "pinv s1" "pgs_base s1 = pgs_base s"
      "table_files V (pg_tables_of live s1) = AList.update f ?ds (table_files V (pg_tables_of live s))"
      "pg_commit E V f (session_of E chunks) s =
        seq (on_base (on_manifest (manifest_insert f ?ds (se_file_bytes (session_of E chunks))))) (\<lambda>_. ret ?ds) s1"
    by (rule pg_commit_cache [OF inv f(2) stored fits keep])
  let ?s' = "\<lambda>m. s1\<lparr>pgs_base := (pgs_base s)\<lparr>st_manifest := (st_manifest (pgs_base s))\<lparr>guarded := m\<rparr>\<rparr>\<rparr>"
  have t: "pg_tables_of live (?s' m) = pg_tables_of live s1" for m by (simp add: pg_tables_of_def)
  have "pinv (?s' m)" for m
    using s1(1,2) t [of m] by (auto simp: pg_inv_def unlocked_def)
  moreover have "assemble ?c ?m ?ds = Some (concat chunks)"
    by (rule assemble_digests) (use stored in \<open>simp add: blobs_stored_def\<close>)
  then have "pg_contents kv V live (?s' m) = (pg_contents kv V live s)(f \<mapsto> concat chunks)" for m
    by (simp add: fun_eq_iff pg_contents_def t s1(3) split: option.split)
  moreover have "\<not> poisoned (st_manifest (pgs_base s))" using pinvD(2) [OF inv] by (simp add: unlocked_def)
  ultimately have "wp (seq (on_base (on_manifest (manifest_insert f ?ds (se_file_bytes (session_of E chunks)))))
      (\<lambda>_. ret ?ds)) s1 Q"
    using s1(2,3) t by (auto simp: wp_rules wp_manifest_insert f(1) intro!: Q)
  then show ?thesis using s1(4) by (simp add: wp_def)
qed

text \<open>
  With an empty file id the transaction commits all the same, and the error comes from the
  cache, too late.
\<close>

lemma raises_pg_commit_empty:
  assumes inv: "pinv s" and f: "row_storable E V storable [] chunks"
    and stored: "blobs_stored E kv s chunks" and fits: "pg_fits E kv V live s chunks"
    and keep: "replaceable E V live s [] chunks"
  shows "raises (pg_commit E V [] (session_of E chunks)) s
     (\<lambda>e s'. e = InvalidArgument ''file_id cannot be empty'' \<and> pinv s' \<and> pgs_base s' = pgs_base s \<and>
        table_files V (pg_tables_of live s') =
          AList.update [] (map (digest_hex (dp_sha E)) chunks) (table_files V (pg_tables_of live s)))"
proof -
  let ?ds = "map (digest_hex (dp_sha E)) chunks"
  obtain s1 where s1: "pinv s1" "pgs_base s1 = pgs_base s"
      "table_files V (pg_tables_of live s1) = AList.update [] ?ds (table_files V (pg_tables_of live s))"
      "pg_commit E V [] (session_of E chunks) s =
        seq (on_base (on_manifest (manifest_insert [] ?ds (se_file_bytes (session_of E chunks))))) (\<lambda>_. ret ?ds) s1"
    by (rule pg_commit_cache [OF inv f stored fits keep])
  have free: "\<not> poisoned (st_manifest (pgs_base s1))" using pinvD(2) [OF s1(1)] by (simp add: unlocked_def)
  have "seq (on_base (on_manifest (manifest_insert [] ?ds (se_file_bytes (session_of E chunks))))) (\<lambda>_. ret ?ds) s1 =
      (Err (InvalidArgument ''file_id cannot be empty''), s1)"
    using free
    by (cases s1; cases "pgs_base s1"; cases "st_manifest (pgs_base s1)")
      (simp add: seq_def on_base_def on_manifest_def zoom_def with_lock_def manifest_insert_def)
  then show ?thesis using s1 by (simp add: raises_iff)
qed

text \<open>After a failure the store differs from \<open>s\<close> in its session only.\<close>

lemma pinv_session:
  assumes "pinv s" and "\<not> poisoned pg" and "session (pg_tables_of live s) None (guarded pg)"
  shows "pinv (s\<lparr>pgs_pg := Some pg\<rparr>)" and "pg_tables_of live (s\<lparr>pgs_pg := Some pg\<rparr>) = pg_tables_of live s"
    and "pg_contents kv V live (s\<lparr>pgs_pg := Some pg\<rparr>) = pg_contents kv V live s"
proof -
  have t: "pg_tables_of live (s\<lparr>pgs_pg := Some pg\<rparr>) = pg_tables_of live s"
    using assms(3) by (simp add: pg_tables_of_def session_def)
  then show "pg_tables_of live (s\<lparr>pgs_pg := Some pg\<rparr>) = pg_tables_of live s" .
  show "pinv (s\<lparr>pgs_pg := Some pg\<rparr>)"
    using assms t by (auto simp: pg_inv_def session_def)
  show "pg_contents kv V live (s\<lparr>pgs_pg := Some pg\<rparr>) = pg_contents kv V live s"
    by (simp add: fun_eq_iff pg_contents_def t split: option.split)
qed

lemma raises_pg_commit:
  assumes inv: "pinv s" and f: "row_storable E V storable f chunks"
    and stored: "blobs_stored E kv s chunks" and fits: "pg_fits E kv V live s chunks"
    and lost: "\<not> replaceable E V live s f chunks"
  shows "raises (pg_commit E V f (session_of E chunks)) s
     (\<lambda>e s'. decrement_error e \<and> (\<exists>pg. s' = s\<lparr>pgs_pg := Some pg\<rparr> \<and> \<not> poisoned pg \<and>
        session (pg_tables_of live s) None (guarded pg)))"
proof -
  let ?se = "session_of E chunks" and ?c = "st_codec (pgs_base s)" and ?m = "kv (st_backend (pgs_base s))"
  let ?t = "pg_tables_of live s" and ?ds = "map (digest_hex (dp_sha E)) chunks"
  note I = pinvD [OF inv]
  have ds: "se_digests ?se = ?ds" by (simp add: session_of_def)
  obtain v where v: "storable (Text f)" "storable (Jsonb v)" "to_value V ?ds = Inr v"
    using row_storableE [OF f] ds by metis
  obtain pg0 where ok: "tables_ok V (digest_len ?c ?m) ?t" by (rule pinvE [OF inv])
  obtain old d where old: "map_of (table_files V ?t) f = Some old" "d \<in> set old"
      "d \<notin># all_refs (AList.update f ?ds (table_files V ?t))"
    using lost by (cases "map_of (table_files V ?t) f") (auto simp: replaceable_def old_digests_of_def)
  show ?thesis
    unfolding pg_commit_def
  proof (intro raises_seq_second, rule wp_pg_peek [OF inv v(1)], goal_cases)
    case (1 pg)
    show ?case
      unfolding raises_if_pg [of "s\<lparr>pgs_pg := Some pg\<rparr>" pg, simplified]
      apply (rule raises_seq_first)
      unfolding raises_on_pg [of "s\<lparr>pgs_pg := Some pg\<rparr>" pg, simplified] session_sizes [OF stored] ds old(1)
      by (rule raises_mono [OF raises_commit_ingest [OF 1 ok digests_hex v(3,1,2) _ digest_len_bound [OF I(4)] old]])
        (use fits 1(1) in \<open>auto simp: pg_fits_def\<close>)
  qed
qed

text \<open>The whole ingest: chunks first, then the transaction.\<close>

lemma wp_pg_accept_file:
  assumes inv: "pinv s" and fits: "pg_fits E kv V live s chunks" and ne: "[] \<notin> set chunks"
    and Q: "\<And>b. ok b \<Longrightarrow> kv (st_backend (pgs_base s)) \<subseteq>\<^sub>m kv b \<Longrightarrow> pinv (with_backend s b) \<Longrightarrow>
        pg_contents kv V live (with_backend s b) = pg_contents kv V live s \<Longrightarrow>
        pg_tables_of live (with_backend s b) = pg_tables_of live s \<Longrightarrow>
        blobs_stored E kv (with_backend s b) chunks \<Longrightarrow> pg_fits E kv V live (with_backend s b) chunks \<Longrightarrow>
        stored_plain (st_codec (pgs_base s)) (kv b) \<subseteq>
          stored_plain (st_codec (pgs_base s)) (kv (st_backend (pgs_base s))) \<union> set chunks \<Longrightarrow>
        Q (session_of E chunks) (with_backend s b)"
  shows "wp (fold_act (pg_accept E) chunks session_new) s Q"
proof -
  note I = pinvD [OF inv]
  let ?c = "st_codec (pgs_base s)" and ?m = "kv (st_backend (pgs_base s))"
  obtain pg where pg: "pgs_pg s = Some pg" by (rule pinvE [OF inv])
  show ?thesis
  proof (rule wp_pg_accept_all [OF pg I(1) _ I(3,4), where U = "stored_plain ?c ?m \<union> set chunks"], goal_cases)
    case (7 b)
    note G = pinv_grow [OF inv 7(1-3)]
    have plain: "stored_plain ?c (kv b) \<subseteq> stored_plain ?c ?m \<union> set chunks"
      using 7(5) by simp
    then have "inj_on (dp_sha E) (stored_plain ?c (kv b) \<union> set chunks)"
      using fits by (auto simp: pg_fits_def intro: inj_on_subset)
    then show ?case
      using Q [OF 7(1,2) G(1,3,2) _ _ plain] fits 7(4) G(2)
      by (simp add: pg_fits_def blobs_stored_def session_of_def session_new_def)
  qed (use fits ne I(2) in \<open>auto simp: pg_fits_def unlocked_def\<close>)
qed

lemma wp_pg_ingest_chunks:
  assumes inv: "pinv s" and f: "f \<noteq> []" "row_storable E V storable f chunks"
    and fits: "pg_fits E kv V live s chunks" and ne: "[] \<notin> set chunks"
    and keep: "replaceable E V live s f chunks"
    and Q: "\<And>s'. pinv s' \<Longrightarrow> st_codec (pgs_base s') = st_codec (pgs_base s) \<Longrightarrow>
        kv (st_backend (pgs_base s)) \<subseteq>\<^sub>m kv (st_backend (pgs_base s')) \<Longrightarrow>
        stored_plain (st_codec (pgs_base s)) (kv (st_backend (pgs_base s'))) \<subseteq>
          stored_plain (st_codec (pgs_base s)) (kv (st_backend (pgs_base s))) \<union> set chunks \<Longrightarrow>
        st_refcount (pgs_base s') = st_refcount (pgs_base s) \<Longrightarrow>
        table_files V (pg_tables_of live s') =
          AList.update f (map (digest_hex (dp_sha E)) chunks) (table_files V (pg_tables_of live s)) \<Longrightarrow>
        pg_contents kv V live s' = (pg_contents kv V live s)(f \<mapsto> concat chunks) \<Longrightarrow>
        Q (map (digest_hex (dp_sha E)) chunks) s'"
  shows "wp (pg_ingest_chunks E V f chunks) s Q"
  unfolding pg_ingest_chunks_def wp_seq
proof (rule wp_pg_accept_file [OF inv fits ne], goal_cases)
  case (1 b)
  have "replaceable E V live (with_backend s b) f chunks"
    using keep 1(5) by (simp add: replaceable_def)
  then show ?case
    using 1 by (intro wp_pg_commit [OF 1(3) f 1(6,7)] Q) simp_all
qed

lemma raises_pg_ingest_chunks:
  assumes inv: "pinv s" and f: "row_storable E V storable f chunks"
    and fits: "pg_fits E kv V live s chunks" and ne: "[] \<notin> set chunks"
    and lost: "\<not> replaceable E V live s f chunks"
  shows "raises (pg_ingest_chunks E V f chunks) s
     (\<lambda>e s'. decrement_error e \<and> pinv s' \<and> st_codec (pgs_base s') = st_codec (pgs_base s) \<and>
        kv (st_backend (pgs_base s)) \<subseteq>\<^sub>m kv (st_backend (pgs_base s')) \<and>
        stored_plain (st_codec (pgs_base s)) (kv (st_backend (pgs_base s'))) \<subseteq>
          stored_plain (st_codec (pgs_base s)) (kv (st_backend (pgs_base s))) \<union> set chunks \<and>
        pg_tables_of live s' = pg_tables_of live s \<and> pg_contents kv V live s' = pg_contents kv V live s)"
  unfolding pg_ingest_chunks_def
proof (rule raises_seq_second, rule wp_pg_accept_file [OF inv fits ne], goal_cases)
  case (1 b)
  have "\<not> replaceable E V live (with_backend s b) f chunks"
    using lost 1(5) by (simp add: replaceable_def)
  then show ?case
    using pinv_session [OF 1(3)] 1(2,4,5,8)
    by (auto intro!: raises_mono [OF raises_pg_commit [OF 1(3) f 1(6,7)]])
qed

section \<open>Reading\<close>

lemma wp_pg_digests_for_file:
  assumes "pinv s" and "storable (Text f)" and "map_of (table_files V (pg_tables_of live s)) f = Some ds"
    and Q: "\<And>pg. \<not> poisoned pg \<Longrightarrow> session (pg_tables_of live s) None (guarded pg) \<Longrightarrow>
        Q ds (s\<lparr>pgs_pg := Some pg\<rparr>)"
  shows "wp (pg_digests_for_file V f) s Q"
proof -
  obtain pg where pg: "pgs_pg s = Some pg" by (rule pinvE [OF assms(1)])
  have "wp (pg_peek_digests V f) s (\<lambda>r s'. wp (lift (ok_or (NotFound (''file '' @ f)) r)) s' Q)"
    by (rule wp_pg_peek [OF assms(1,2)]) (use assms(3) Q in \<open>simp add: ok_or_def wp_lift\<close>)
  then show ?thesis
    by (simp add: pg_digests_for_file_def pg_peek_digests_def wp_if_pg [OF pg] wp_seq)
qed

lemma raises_pg_digests_for_file:
  assumes "pinv s" and "storable (Text f)" and "map_of (table_files V (pg_tables_of live s)) f = None"
  shows "raises (pg_digests_for_file V f) s (\<lambda>e s'. e = NotFound (''file '' @ f) \<and> pinv s' \<and>
     pg_tables_of live s' = pg_tables_of live s \<and> pg_contents kv V live s' = pg_contents kv V live s)"
proof -
  obtain pg where pg: "pgs_pg s = Some pg" by (rule pinvE [OF assms(1)])
  have "wp (pg_peek_digests V f) s (\<lambda>r s'. raises (lift (ok_or (NotFound (''file '' @ f)) r)) s'
      (\<lambda>e s'. e = NotFound (''file '' @ f) \<and> pinv s' \<and>
         pg_tables_of live s' = pg_tables_of live s \<and> pg_contents kv V live s' = pg_contents kv V live s))"
    by (rule wp_pg_peek [OF assms(1,2)])
      (use assms pinv_session [OF assms(1)] in \<open>simp add: ok_or_def raises_iff lift_def\<close>)
  then show ?thesis
    by (auto simp: pg_digests_for_file_def pg_peek_digests_def raises_if_pg [OF pg] wp_if_pg [OF pg]
        intro: raises_seq_second)
qed

text \<open>The writer receives the chunks in order; the store changes in its session and in the
  backend's own state only.\<close>

lemma wp_pg_read_to_writer:
  assumes inv: "pinv s" and f: "storable (Text f)"
    and bs: "pg_contents kv V live s f = Some bs"
    and W: "W [] w" "\<And>out p w. W out w \<Longrightarrow> wp (put_all p) w (\<lambda>_ w'. W (out @ p) w')"
    and Q: "\<And>w s'. W bs w \<Longrightarrow> pinv s' \<Longrightarrow> pg_tables_of live s' = pg_tables_of live s \<Longrightarrow>
        pg_contents kv V live s' = pg_contents kv V live s \<Longrightarrow> Q () (w, s')"
  shows "wp (pg_read_to_writer E V put_all f) (w, s) Q"
proof -
  let ?c = "st_codec (pgs_base s)" and ?m = "kv (st_backend (pgs_base s))"
  obtain ds where ds: "map_of (table_files V (pg_tables_of live s)) f = Some ds" "assemble ?c ?m ds = Some bs"
    using bs by (cases "map_of (table_files V (pg_tables_of live s)) f") (auto simp: pg_contents_def)
  have snoc: "those (xs @ [Some a]) = map_option (\<lambda>ys. ys @ [a]) (those xs)" for xs :: "bytes option list" and a
    by (induction xs) (auto split: option.split simp: option.map_comp comp_def)
  show ?thesis
    unfolding pg_read_to_writer_def wp_seq wp_on_store
  proof (simp, rule wp_pg_digests_for_file [OF inv f ds(1)], goal_cases)
    case (1 pg)
    let ?s = "s\<lparr>pgs_pg := Some pg\<rparr>"
    note S = pinv_session [OF inv 1]
    note I = pinvD [OF S(1)]
    let ?I = "\<lambda>pre (w', s'). \<exists>b ps. s' = with_backend ?s b \<and> ok b \<and> kv b = ?m \<and> W (concat ps) w' \<and>
                those (map (blob_plain ?c ?m) pre) = Some ps"
    show ?case
    proof (rule wp_for_each [where I = ?I], goal_cases)
      case 1
      show ?case using W(1) I(1) by (auto intro!: exI [of _ "st_backend (pgs_base s)"])
    next
      case (2 pre d todo ws)
      then obtain b ps where ws: "snd ws = with_backend ?s b" "ok b" "kv b = ?m" "W (concat ps) (fst ws)"
          "those (map (blob_plain ?c ?m) pre) = Some ps" by (cases ws) auto
      have "d \<in> set ds" using 2(1) by simp
      then obtain p where p: "is_chunk_digest d" "blob_plain ?c ?m d = Some p" "digest_hex (dp_sha E) p = d"
        by (rule pinv_chunk [OF inv ds(1)])
      show ?case
        unfolding wp_seq wp_on_store wp_on_writer wp_on_base
      proof (rule wp_read_chunk [OF _ p(1) _ p(3)], goal_cases)
        case (3 b')
        then show ?case
          using ws W(2) [OF ws(4), of p] snoc p(2) by (auto elim!: wp_mono)
      qed (use ws p in simp_all)
    next
      case (3 ws)
      then obtain b ps where ws: "ws = (fst ws, with_backend ?s b)" "ok b" "kv b = ?m" "W (concat ps) (fst ws)"
          "those (map (blob_plain ?c ?m) ds) = Some ps" by (cases ws) auto
      have "concat ps = bs" using ds(2) ws(5) by (simp add: assemble_def)
      moreover have grow: "kv (st_backend (pgs_base ?s)) \<subseteq>\<^sub>m kv b" "blobs_named (dp_sha E) (st_codec (pgs_base ?s)) (kv b)"
        using I(4) ws(3) by simp_all
      note G = pinv_grow [OF S(1) ws(2) grow]
      ultimately show ?case
        using Q [of "fst ws" "with_backend ?s b"] ws(1,4) G S(2,3) by simp
    qed
  qed
qed

lemma wp_pg_read:
  assumes "pinv s" and "storable (Text f)" and "pg_contents kv V live s f = Some bs"
    and Q: "\<And>s'. pinv s' \<Longrightarrow> pg_tables_of live s' = pg_tables_of live s \<Longrightarrow>
        pg_contents kv V live s' = pg_contents kv V live s \<Longrightarrow> Q bs s'"
  shows "wp (pg_read E V f) s Q"
proof -
  have "wp (pg_read_to_writer E V vec_write_all f) ([], s) (\<lambda>_ (out, s'). Q out s')"
    by (rule wp_pg_read_to_writer [OF assms(1-3), where W = "\<lambda>out w. w = out"])
      (use Q in \<open>auto simp: vec_write_all_def wp_iff\<close>)
  then show ?thesis by (auto simp: wp_iff pg_read_def split: prod.splits)
qed

lemma raises_pg_read:
  assumes "pinv s" and "storable (Text f)" and "map_of (table_files V (pg_tables_of live s)) f = None"
  shows "raises (pg_read E V f) s (\<lambda>e s'. e = NotFound (''file '' @ f) \<and> pinv s' \<and>
     pg_tables_of live s' = pg_tables_of live s \<and> pg_contents kv V live s' = pg_contents kv V live s)"
  using raises_pg_digests_for_file [OF assms]
  by (auto simp: raises_iff pg_read_def pg_read_to_writer_def seq_def on_store_def zoom_def)

end

end
