(* ===== verification/Pg_Open.thy ===== *)
theory Pg_Open
  imports Pg_Ops
begin

text \<open>
  Deleting from and opening a store whose metadata is in Postgres, and its statistics.  A store
  opened on a backend and a database sees what any other store on the two has committed.
\<close>

section \<open>Sums over the tables\<close>

lemma ref_bytes_count: "ref_bytes len M = (\<Sum>d \<in> set_mset M. count M d * len d)"
proof (induction M)
  case (add d M)
  have "(\<Sum>x \<in> insert d (set_mset M). count (add_mset d M) x * len x) =
      (\<Sum>x \<in> insert d (set_mset M). count M x * len x + (if x = d then len d else 0))"
    by (rule sum.cong) auto
  also have "\<dots> = (\<Sum>x \<in> insert d (set_mset M). count M x * len x) + len d"
    by (simp add: sum.distrib)
  also have "(\<Sum>x \<in> insert d (set_mset M). count M x * len x) = (\<Sum>x \<in> set_mset M. count M x * len x)"
    by (rule sum.mono_neutral_right) (auto simp: not_in_iff)
  finally show ?case using add by simp
qed (simp add: ref_bytes_def)

lemma counts_match_set:
  assumes "counts_match len M rows"
  shows "set rows = (\<lambda>d. (d, of_nat (count M d), of_nat (len d))) ` set_mset M"
proof -
  have "(d, r) \<in> set rows \<longleftrightarrow> d \<in># M \<and> r = (of_nat (count M d), of_nat (len d))" for d r
    using counts_matchD(3) [OF assms, of d] map_of_eq_Some_iff [OF counts_matchD(1) [OF assms], of d r]
    by (cases "d \<in># M") auto
  then show ?thesis by auto
qed

lemma sum_list_rows:
  assumes "counts_match len M rows"
  shows "sum_list (map g rows) = (\<Sum>d \<in> set_mset M. g (d, of_nat (count M d), of_nat (len d)))"
proof -
  have "distinct rows" using counts_matchD(1) [OF assms] by (simp add: distinct_map)
  then show ?thesis
    using counts_match_set [OF assms]
    by (simp add: sum_list_distinct_conv_sum_set sum.reindex inj_on_def)
qed

text \<open>The query of \<^verbatim>\<open>compute_stats\<close> returns the bytes referenced and stored.\<close>

lemma sum_row_exact:
  assumes match: "counts_match len M rows" and len: "\<And>d. len d < 2 ^ 63" and fits: "ref_bytes len M < 2 ^ 63"
  shows "sum_row rows = Some [Bigint (of_nat (ref_bytes len M)), Bigint (of_nat (unique_bytes len M))]"
proof -
  have sz: "sint (of_nat (len d) :: i64) = int (len d)" for d using len by (simp add: sint_of_nat_i64)
  have le: "count M d * len d \<le> ref_bytes len M" if "d \<in># M" for d
    unfolding ref_bytes_count by (rule member_le_sum) (use that in simp_all)
  have big: "bigint (int (len d) * int (count M d)) \<noteq> None" if "d \<in># M" for d
  proof -
    obtain k where k: "k = count M d * len d" by blast
    then have "k < 2 ^ 63" using le [OF that] fits by simp
    then have "bigint (int k) \<noteq> None" by (simp add: bigint_def)
    then show ?thesis by (simp add: k mult.commute)
  qed
  have "bigint (sint n * sint c) \<noteq> None" if row: "(d, c, n) \<in> set rows" for d c n
  proof -
    have "d \<in># M" "c = of_nat (count M d)" "n = of_nat (len d)"
      using row unfolding counts_match_set [OF match] by auto
    then show ?thesis using big [of d] by (simp add: sz counts_matchD(4) [OF match])
  qed
  then have "list_all (\<lambda>(_, c, n). bigint (sint n * sint c) \<noteq> None) rows"
    unfolding list_all_iff by blast
  moreover have "sum_list (map (\<lambda>(_, c, n). sint n * sint c) rows) = int (ref_bytes len M)"
    by (simp add: sum_list_rows [OF match] sz counts_matchD(4) [OF match] ref_bytes_count mult.commute)
  moreover have "sum_list (map (\<lambda>(_, c, n). sint n) rows) = int (unique_bytes len M)"
    by (simp add: sum_list_rows [OF match] sz unique_bytes_def)
  moreover have "int (ref_bytes len M) < 2 ^ 63" "int (unique_bytes len M) < 2 ^ 63"
    using fits unique_le_ref_bytes [of len M] by simp_all
  ultimately show ?thesis by (simp add: sum_row_def del: of_nat_power)
qed

lemma row_get [simp]:
  "get_text [Text f, x, y] 0 = Ok f" "get_jsonb [x, Jsonb v, y] 1 = Ok v"
  "get_jsonb [x, Jsonb v, y] (Suc 0) = Ok v"
  "get_bigint [x, y, Bigint n] 2 = Ok n" "get_bigint [x, Bigint c, y] 1 = Ok c"
  "get_bigint [x, Bigint c, y] (Suc 0) = Ok c"
  "get_bigint [Bigint c, x] 0 = Ok c" "get_bigint [x, Bigint c] 1 = Ok c"
  "get_bigint [x, Bigint c] (Suc 0) = Ok c"
  by (simp_all add: get_text_def get_jsonb_def get_bigint_def numeral_2_eq_2)

context pg_env
begin

section \<open>Delete\<close>

lemma wp_pg_delete:
  assumes inv: "pinv s" and f: "storable (Text f)"
    and ds: "map_of (table_files V (pg_tables_of live s)) f = Some ds" and keep: "removable V live s f"
    and Q: "\<And>s'. pinv s' \<Longrightarrow> st_codec (pgs_base s') = st_codec (pgs_base s) \<Longrightarrow>
        st_backend (pgs_base s') = st_backend (pgs_base s) \<Longrightarrow>
        table_files V (pg_tables_of live s') = AList.delete f (table_files V (pg_tables_of live s)) \<Longrightarrow>
        pg_contents kv V live s' = (pg_contents kv V live s)(f := None) \<Longrightarrow> Q () s'"
  shows "wp (pg_delete E V f) s Q"
proof -
  let ?c = "st_codec (pgs_base s)" and ?m = "kv (st_backend (pgs_base s))" and ?t = "pg_tables_of live s"
  note I = pinvD [OF inv]
  obtain pg0 where pg0: "pgs_pg s = Some pg0" "\<not> poisoned pg0" "session ?t None (guarded pg0)"
      and ok: "tables_ok V (digest_len ?c ?m) ?t" by (rule pinvE [OF inv])
  have keep': "\<forall>d \<in> set ds. d \<in># all_refs (AList.delete f (table_files V ?t))"
    using keep ds by (simp add: removable_def old_digests_of_def)
  have refs: "?m d \<noteq> None" if "d \<in># all_refs (AList.delete f (table_files V ?t))" for d
    using that all_refs_take_out [OF tables_okD(2) [OF ok], of f] I(5) by (metis union_iff)
  show ?thesis
    unfolding pg_delete_def wp_if_pg [OF pg0(1)] wp_seq wp_on_pg [OF pg0(1)]
  proof (rule wp_manifest_digests [OF pg0(2,3) ok f], goal_cases)
    case (1 p)
    let ?pg = "pg0\<lparr>guarded := p\<rparr>"
    have "wp (commit_delete V f ds) ?pg
        (\<lambda>gc pg'. \<exists>t p'. gc = [] \<and> pg' = ?pg\<lparr>guarded := p'\<rparr> \<and> session t None p' \<and>
           tables_ok V (digest_len ?c ?m) t \<and> table_files V t = AList.delete f (table_files V ?t))"
      by (rule wp_commit_delete [OF _ _ ok f digest_len_bound [OF I(4)] ds keep']) (use pg0 1 in auto)
    then show ?case
      unfolding ds ok_or_def option.case wp_lift res.case wp_on_pg [of "s\<lparr>pgs_pg := Some ?pg\<rparr>" ?pg, simplified]
    proof (rule wp_mono, goal_cases)
      case (1 gc pg')
      then obtain t p' where t: "gc = []" "pg' = ?pg\<lparr>guarded := p'\<rparr>" "session t None p'"
          "tables_ok V (digest_len ?c ?m) t" "table_files V t = AList.delete f (table_files V ?t)" by blast
      let ?s' = "\<lambda>m. s\<lparr>pgs_pg := Some pg', pgs_base := (pgs_base s)\<lparr>st_manifest := (st_manifest (pgs_base s))\<lparr>guarded := m\<rparr>\<rparr>\<rparr>"
      have live: "pg_tables_of live (?s' m) = t" for m
        using t(2,3) by (simp add: pg_tables_of_def session_def)
      have "pinv (?s' m)" for m
        using I pg0(2) t refs by (intro pinvI(1) [where pg = pg' and t = t]) (auto simp: unlocked_def)
      moreover have "pg_contents kv V live (?s' m) = (pg_contents kv V live s)(f := None)" for m
        by (simp add: fun_eq_iff pg_contents_def live t(5) split: option.split)
      ultimately show ?case
        using t(1,5) live I(2) by (auto simp: delete_blobs_def forget_manifest_def wp_rules unlocked_def intro!: Q)
    qed
  qed
qed

text \<open>A file that holds the last reference to one of its chunks stays, whatever is tried.\<close>

lemma raises_pg_delete:
  assumes inv: "pinv s" and f: "storable (Text f)"
    and ds: "map_of (table_files V (pg_tables_of live s)) f = Some ds" and lost: "\<not> removable V live s f"
  shows "raises (pg_delete E V f) s
     (\<lambda>e s'. decrement_error e \<and> pinv s' \<and> pgs_base s' = pgs_base s \<and>
        pg_tables_of live s' = pg_tables_of live s \<and> pg_contents kv V live s' = pg_contents kv V live s)"
proof -
  let ?c = "st_codec (pgs_base s)" and ?m = "kv (st_backend (pgs_base s))" and ?t = "pg_tables_of live s"
  note I = pinvD [OF inv]
  obtain pg0 where pg0: "pgs_pg s = Some pg0" "\<not> poisoned pg0" "session ?t None (guarded pg0)"
      and ok: "tables_ok V (digest_len ?c ?m) ?t" by (rule pinvE [OF inv])
  obtain d where d: "d \<in> set ds" "d \<notin># all_refs (AList.delete f (table_files V ?t))"
    using lost ds by (auto simp: removable_def old_digests_of_def)
  show ?thesis
    unfolding pg_delete_def raises_if_pg [OF pg0(1)]
  proof (intro raises_seq_second, unfold wp_on_pg [OF pg0(1)], rule wp_manifest_digests [OF pg0(2,3) ok f], goal_cases)
    case (1 p)
    let ?pg = "pg0\<lparr>guarded := p\<rparr>"
    have pg: "\<not> poisoned ?pg" "session ?t None (guarded ?pg)" using pg0 1 by simp_all
    have "raises (commit_delete V f ds) ?pg
        (\<lambda>e pg'. decrement_error e \<and> (\<exists>p'. session ?t None p' \<and> pg' = ?pg\<lparr>guarded := p'\<rparr>))"
      by (rule raises_commit_delete [OF pg ok f digest_len_bound [OF I(4)] ds d])
    then have "raises (on_pg (commit_delete V f ds)) (s\<lparr>pgs_pg := Some ?pg\<rparr>)
        (\<lambda>e s'. decrement_error e \<and> pinv s' \<and> pgs_base s' = pgs_base s \<and>
           pg_tables_of live s' = ?t \<and> pg_contents kv V live s' = pg_contents kv V live s)"
      unfolding raises_on_pg [of "s\<lparr>pgs_pg := Some ?pg\<rparr>" ?pg, simplified]
      using pg pinv_session [OF inv] by (auto elim!: raises_mono)
    then show ?case
      unfolding ds ok_or_def option.case
      by (intro raises_seq_second) (simp add: wp_lift raises_seq_first)
  qed
qed

lemma raises_pg_delete_missing:
  assumes inv: "pinv s" and f: "storable (Text f)"
    and none: "map_of (table_files V (pg_tables_of live s)) f = None"
  shows "raises (pg_delete E V f) s
     (\<lambda>e s'. e = NotFound (''file '' @ f) \<and> pinv s' \<and> st_backend (pgs_base s') = st_backend (pgs_base s) \<and>
        pg_tables_of live s' = pg_tables_of live s)"
proof -
  obtain pg where pg: "pgs_pg s = Some pg" by (rule pinvE [OF inv])
  have "wp (pg_peek_digests V f) s (\<lambda>r s'. raises (lift (ok_or (NotFound (''file '' @ f)) r)) s'
      (\<lambda>e s'. e = NotFound (''file '' @ f) \<and> pinv s' \<and> st_backend (pgs_base s') = st_backend (pgs_base s) \<and>
         pg_tables_of live s' = pg_tables_of live s))"
    by (rule wp_pg_peek [OF inv f])
      (use none pinv_session [OF inv] in \<open>simp add: ok_or_def raises_iff lift_def\<close>)
  then show ?thesis
    unfolding pg_delete_def raises_if_pg [OF pg] pg_peek_digests_def wp_if_pg [OF pg]
    by (intro raises_seq_second) (auto elim!: wp_mono intro: raises_seq_first)
qed

section \<open>Statistics\<close>

lemma wp_compute_stats:
  assumes "\<not> poisoned pg" and "session t None (guarded pg)" and "tables_ok V len t"
    and "\<And>d. len d < 2 ^ 63" and "ref_bytes len (all_refs (table_files V t)) < 2 ^ 63"
    and Q: "\<And>p. session t None p \<Longrightarrow>
        Q \<lparr>total_bytes = of_nat (ref_bytes len (all_refs (table_files V t))),
           stored_bytes = of_nat (unique_bytes len (all_refs (table_files V t))), gc_chunks = 0\<rparr> (pg\<lparr>guarded := p\<rparr>)"
  shows "wp (compute_stats V) pg Q"
proof -
  let ?row = "[Bigint (of_nat (ref_bytes len (all_refs (table_files V t)))),
      Bigint (of_nat (unique_bytes len (all_refs (table_files V t))))]"
  have "meaning Sum_sizes t = Some ([?row], t)"
    by (simp add: sum_row_exact [OF tables_okD(3) [OF assms(3)] assms(4,5)])
  then show ?thesis
    unfolding compute_stats_def wp_with_lock wp_seq
    by (intro conjI assms(1) wp_query_one [OF assms(2), where row = ?row and t' = t])
      (use Q in \<open>simp_all add: wp_rules\<close>)
qed

section \<open>Opening\<close>

lemma manifest_rows:
  assumes "mset rows = mset (map (\<lambda>(f, v, n). [Text f, Jsonb v, Bigint n]) al)" and "row \<in> set rows"
  obtains f v n where "row = [Text f, Jsonb v, Bigint n]" and "(f, v, n) \<in> set al"
proof -
  have "row \<in> set (map (\<lambda>(f, v, n). [Text f, Jsonb v, Bigint n]) al)"
    using assms by (metis mset_eq_setD)
  with that show ?thesis by auto
qed

lemma wp_load_manifest_row:
  assumes "f \<noteq> []" and "from_value V v = Inr ds" and "\<And>m. Q m p"
  shows "wp (load_manifest_row V [Text f, Jsonb v, Bigint n] m) p Q"
  using assms
  by (simp add: load_manifest_row_def wp_rules json_digests_def manifest_insert_def get_text_def)

lemma wp_load_manifest_rows:
  assumes "tables_ok V len t"
    and "\<And>row. row \<in> set rows \<Longrightarrow>
           \<exists>f v n. row = [Text f, Jsonb v, Bigint n] \<and> (f, v, n) \<in> set (tb_manifests t) \<and> f \<noteq> []"
    and "\<And>m. Q m p"
  shows "wp (fold_act (load_manifest_row V) rows m) p Q"
proof (rule wp_fold_act [where I = "\<lambda>_ _ p'. p' = p"], goal_cases)
  case (2 pre row todo m' p')
  then obtain f v n where "row = [Text f, Jsonb v, Bigint n]" "(f, v, n) \<in> set (tb_manifests t)" "f \<noteq> []"
    using assms(2) [of row] by auto
  moreover from this obtain ds where "from_value V v = Inr ds" using tables_okD(4) [OF assms(1)] by blast
  ultimately show ?case using 2(2) by (auto intro: wp_load_manifest_row)
qed (use assms(3) in simp_all)

lemma wp_pg_load_manifests:
  assumes "\<not> poisoned pg" and "session t None (guarded pg)" and "tables_ok V len t"
    and "map_of (table_files V t) [] = None"
    and Q: "\<And>m p. session t None p \<Longrightarrow> Q m (pg\<lparr>guarded := p\<rparr>)"
  shows "wp (pg_load_manifests V) pg Q"
  unfolding pg_load_manifests_def wp_with_lock wp_seq
proof (intro conjI assms(1) wp_query [OF assms(2), where t' = t and rows = "map (\<lambda>(f, v, n). [Text f, Jsonb v, Bigint n]) (tb_manifests t)"], goal_cases)
  case (3 rows p)
  then show ?case
  proof (intro wp_load_manifest_rows [OF assms(3)], goal_cases)
    case (1 row)
    then obtain f v n where "row = [Text f, Jsonb v, Bigint n]" "(f, v, n) \<in> set (tb_manifests t)"
      by (elim manifest_rows) auto
    moreover have "[] \<notin> fst ` set (tb_manifests t)"
      using assms(4) by (simp add: map_of_table_files map_of_eq_None_iff)
    ultimately show ?case by force
  qed (use Q in simp)
qed simp_all

text \<open>A row with an empty file id cannot be loaded.\<close>

lemma raises_pg_load_manifests:
  assumes "\<not> poisoned pg" and "session t None (guarded pg)" and "tables_ok V len t"
    and "map_of (table_files V t) [] = Some ds"
  shows "raises (pg_load_manifests V) pg (\<lambda>e _. e = InvalidArgument ''file_id cannot be empty'')"
  unfolding pg_load_manifests_def
proof (intro raises_with_lock assms(1) raises_seq_second wp_query [OF assms(2), where t' = t and rows = "map (\<lambda>(f, v, n). [Text f, Jsonb v, Bigint n]) (tb_manifests t)"], goal_cases)
  case (3 rows p)
  obtain v n where v: "([], v, n) \<in> set (tb_manifests t)" "from_value V v = Inr ds"
    using assms(4) table_row [OF assms(3,4)] by (metis map_of_SomeD)
  have set: "set rows = (\<lambda>(f, v, n). [Text f, Jsonb v, Bigint n]) ` set (tb_manifests t)"
    using mset_eq_setD [OF 3(1)] by simp
  have "[Text [], Jsonb v, Bigint n] \<in> set rows"
    unfolding set by (rule image_eqI [OF _ v(1)]) simp
  then have "\<exists>row \<in> set rows. hd row = Text []" by (rule bexI [rotated]) simp
  then obtain pre row post where row: "rows = pre @ row # post" "hd row = Text []"
      "\<forall>r \<in> set pre. hd r \<noteq> Text []"
    by (rule split_list_first_propE) blast
  have all: "\<exists>f v n. r = [Text f, Jsonb v, Bigint n] \<and> (f, v, n) \<in> set (tb_manifests t)" if "r \<in> set rows" for r
    using that unfolding set by auto
  obtain v' n' where r: "row = [Text [], Jsonb v', Bigint n']" "([], v', n') \<in> set (tb_manifests t)"
    using all [of row] row(1,2) by auto
  obtain ds' where "from_value V v' = Inr ds'" using tables_okD(4) [OF assms(3) r(2)] by blast
  then have bad: "raises (load_manifest_row V row m) p' (\<lambda>e _. e = InvalidArgument ''file_id cannot be empty'')" for m p'
    by (simp add: r(1) raises_iff load_manifest_row_def get_text_def json_digests_def manifest_insert_def
        fail_def seq_def lift_def)
  have "wp (fold_act (load_manifest_row V) pre manifest_new) p (\<lambda>_ _. True)"
  proof (rule wp_load_manifest_rows [OF assms(3)], goal_cases)
    case (1 r)
    then show ?case using all [of r] row(1,3) by auto
  qed simp
  then show ?case
    unfolding row(1) fold_act_append fold_act.simps
    by (intro raises_seq_second, elim wp_mono) (intro raises_seq_first bad)
qed simp_all

lemma wp_pg_load_refcounts:
  assumes "\<not> poisoned pg" and "session t None (guarded pg)"
    and Q: "\<And>rc p. session t None p \<Longrightarrow> Q rc (pg\<lparr>guarded := p\<rparr>)"
  shows "wp (pg_load_refcounts V) pg Q"
  unfolding pg_load_refcounts_def wp_with_lock wp_seq
proof (intro conjI assms(1) wp_query [OF assms(2), where t' = t and rows = "map (\<lambda>(d, c, n). [Text d, Bigint c, Bigint n]) (tb_refcounts t)"], goal_cases)
  case (3 rows p)
  have rows: "\<exists>d c n. row = [Text d, Bigint c, Bigint n]" if "row \<in> set rows" for row
    using mset_eq_setD [OF 3(1)] that by auto
  show ?case
  proof (rule wp_fold_act [where I = "\<lambda>_ _ p'. p' = p"], goal_cases)
    case (2 pre row todo rc p')
    then show ?case
      using rows [of row] by (auto simp: load_refcount_row_def count_row_def get_text_def wp_rules)
  qed (use Q 3(2) in simp_all)
qed simp_all

lemma wp_open_postgres:
  assumes "reachable dsn p" and "ok b" and named: "blobs_named (dp_sha E) None (kv b)"
    and tab: "tables_ok V (digest_len None (kv b)) (live p)"
    and refs: "\<And>d. d \<in># all_refs (table_files V (live p)) \<Longrightarrow> kv b d \<noteq> None"
    and fits: "ref_bytes (digest_len None (kv b)) (all_refs (table_files V (live p))) < 2 ^ 63"
    and ne: "map_of (table_files V (live p)) [] = None"
    and Q: "\<And>s p'. pinv s \<Longrightarrow> st_codec (pgs_base s) = None \<Longrightarrow> st_backend (pgs_base s) = b \<Longrightarrow>
        pg_tables_of live s = live p \<Longrightarrow> Q s p'"
  shows "wp (open_postgres E V dsn b) p Q"
  unfolding open_postgres_def wp_seq
proof (rule wp_connect [OF assms(1)], goal_cases)
  case (1 p1)
  have "wp (seq (pg_load_manifests V) (\<lambda>m. seq (pg_load_refcounts V) (\<lambda>rc. ret (m, rc)))) (new_mutex p1)
      (\<lambda>_ pg. \<not> poisoned pg \<and> session (live p) None (guarded pg))"
    unfolding wp_seq
    by (intro wp_pg_load_manifests [OF _ _ tab ne, of "new_mutex p1"] wp_pg_load_refcounts [where t = "live p"])
      (use 1 in \<open>auto simp: wp_ret\<close>)
  then obtain m rc pg where pg: "\<not> poisoned pg" "session (live p) None (guarded pg)"
      "seq (pg_load_manifests V) (\<lambda>m. seq (pg_load_refcounts V) (\<lambda>rc. ret (m, rc))) (new_mutex p1) = (Ok (m, rc), pg)"
    by (auto elim!: wpE)
  let ?s = "\<lparr>pgs_base = fresh_store m rc b, pgs_pg = Some pg\<rparr>"
  have "wp (pg_rebuild_stats E V) ?s (\<lambda>_ s. pinv s \<and> st_codec (pgs_base s) = None \<and>
      st_backend (pgs_base s) = b \<and> pg_tables_of live s = live p)"
    unfolding pg_rebuild_stats_def wp_if_pg [of ?s pg, simplified] wp_seq wp_on_pg [of ?s pg, simplified]
  proof (rule wp_compute_stats [OF pg(1,2) tab digest_len_bound [OF named] fits], goal_cases)
    case (1 p2)
    have I: "pinv s' \<and> pg_tables_of live s' = live p"
      if "pgs_pg s' = Some (pg\<lparr>guarded := p2\<rparr>)" "st_backend (pgs_base s') = b" "st_codec (pgs_base s') = None"
        "unlocked (pgs_base s')" for s'
      using pinvI [of s' "pg\<lparr>guarded := p2\<rparr>" "live p"] that pg(1) 1 assms(2) named tab refs by simp
    show ?case
      by (auto simp: wp_rules fresh_store_def unlocked_def intro!: I [THEN conjunct1] I [THEN conjunct2])
  qed
  then show ?case
    using pg(3) Q by (auto simp: wp_iff)
qed

text \<open>A stored file has contents.\<close>

lemma pg_contents_None:
  assumes "pinv s"
  shows "pg_contents kv V live s f = None \<longleftrightarrow> map_of (table_files V (pg_tables_of live s)) f = None"
proof (cases "map_of (table_files V (pg_tables_of live s)) f")
  case (Some ds)
  let ?plain = "blob_plain (st_codec (pgs_base s)) (kv (st_backend (pgs_base s)))"
  have all: "\<exists>p. ?plain d = Some p" if "d \<in> set ds" for d
    using pinv_chunk [OF assms Some that] by metis
  have "those (map ?plain es) \<noteq> None" if "set es \<subseteq> set ds" for es
    using that
  proof (induction es)
    case (Cons d es)
    then show ?case using all [of d] by (auto split: option.split)
  qed simp
  then show ?thesis using Some by (auto simp: pg_contents_def assemble_def)
qed (simp add: pg_contents_def)

text \<open>Any file can be read, any other is not found.\<close>

lemma pg_read_outcome:
  assumes "pinv s" and "storable (Text f)"
  shows "fst (pg_read E V f s) =
     (case pg_contents kv V live s f of None \<Rightarrow> Err (NotFound (''file '' @ f)) | Some bs \<Rightarrow> Ok bs)"
proof (cases "pg_contents kv V live s f")
  case None
  then have "map_of (table_files V (pg_tables_of live s)) f = None" by (simp add: pg_contents_None [OF assms(1)])
  from raises_pg_read [OF assms this] None show ?thesis by (auto simp: raises_iff)
next
  case (Some bs)
  have "wp (pg_read E V f) s (\<lambda>r _. r = bs)" by (rule wp_pg_read [OF assms Some]) simp
  with Some show ?thesis by (auto simp: wp_iff)
qed

lemma pg_stats_exact:
  assumes inv: "pinv s"
    and fits: "ref_bytes (digest_len (st_codec (pgs_base s)) (kv (st_backend (pgs_base s))))
        (all_refs (table_files V (pg_tables_of live s))) < 2 ^ 63"
  shows "fst (pg_stats V s) = Ok
     \<lparr>total_bytes = of_nat (ref_bytes (digest_len (st_codec (pgs_base s)) (kv (st_backend (pgs_base s))))
        (all_refs (table_files V (pg_tables_of live s)))),
      stored_bytes = of_nat (unique_bytes (digest_len (st_codec (pgs_base s)) (kv (st_backend (pgs_base s))))
        (all_refs (table_files V (pg_tables_of live s)))), gc_chunks = 0\<rparr>" (is "_ = Ok ?st")
proof -
  obtain pg where pg: "pgs_pg s = Some pg" "\<not> poisoned pg" "session (pg_tables_of live s) None (guarded pg)"
      and ok: "tables_ok V (digest_len (st_codec (pgs_base s)) (kv (st_backend (pgs_base s)))) (pg_tables_of live s)"
    by (rule pinvE [OF inv])
  have "wp (pg_stats V) s (\<lambda>r _. r = ?st)"
    unfolding pg_stats_def wp_if_pg [OF pg(1)] wp_on_pg [OF pg(1)]
    by (rule wp_compute_stats [OF pg(2,3) ok digest_len_bound [OF pinvD(4) [OF inv]] fits]) simp
  then show ?thesis by (auto simp: wp_iff)
qed

text \<open>An empty file id is refused by every store that is opened later.\<close>

lemma open_postgres_bricked:
  assumes "reachable dsn p" and "tables_ok V len (live p)" and "map_of (table_files V (live p)) [] = Some ds"
  shows "fst (open_postgres E V dsn b p) = Err (InvalidArgument ''file_id cannot be empty'')"
proof -
  have "wp (connect V dsn) p (\<lambda>_ p1. session (live p) None p1)"
    by (rule wp_connect [OF assms(1)])
  then obtain p1 where p1: "connect V dsn p = (Ok (), p1)" "session (live p) None p1"
    by (auto simp: wp_iff)
  have "raises (pg_load_manifests V) (new_mutex p1) (\<lambda>e _. e = InvalidArgument ''file_id cannot be empty'')"
    by (rule raises_pg_load_manifests [OF _ _ assms(2,3)]) (use p1 in simp_all)
  then obtain pg where "pg_load_manifests V (new_mutex p1) = (Err (InvalidArgument ''file_id cannot be empty''), pg)"
    by (auto simp: raises_iff)
  then show ?thesis using p1(1) by (simp add: open_postgres_def seq_def)
qed

lemma raises_pg_ingest_empty:
  assumes inv: "pinv s" and f: "row_storable E V storable [] chunks"
    and fits: "pg_fits E kv V live s chunks" and ne: "[] \<notin> set chunks"
    and keep: "replaceable E V live s [] chunks"
  shows "raises (pg_ingest_chunks E V [] chunks) s
     (\<lambda>e s'. e = InvalidArgument ''file_id cannot be empty'' \<and> pinv s' \<and>
        table_files V (pg_tables_of live s') =
          AList.update [] (map (digest_hex (dp_sha E)) chunks) (table_files V (pg_tables_of live s)))"
  unfolding pg_ingest_chunks_def
proof (rule raises_seq_second, rule wp_pg_accept_file [OF inv fits ne], goal_cases)
  case (1 b)
  have "replaceable E V live (with_backend s b) [] chunks"
    using keep 1(5) by (simp add: replaceable_def)
  from raises_pg_commit_empty [OF 1(3) f 1(6,7) this] show ?case
    by (rule raises_mono) (simp add: 1(5))
qed

end

end
