(* ===== verification/Pg_Types.thy ===== *)
theory Pg_Types
  imports Pg_Laws
begin

text \<open>
  On whatever tables, consistent or not: the rows that come back have the columns and types
  the code reads, so no call on the metadata panics and the client's lock is never poisoned; and a
  transaction that does not commit leaves the tables as they were.
\<close>

text \<open>The rows of each statement.\<close>

lemma write_count_row: "write_count d row t = Some (rows, t') \<Longrightarrow> \<exists>c. rows = [[Bigint c]]"
  by (auto simp: write_count_def split: option.splits)

lemma decrement_rows:
  "meaning (Decrement_count d) t = Some (rows, t') \<Longrightarrow> rows = [] \<or> (\<exists>c. rows = [[Bigint c]])"
  by (auto split: option.splits dest: write_count_row)

lemma increment_rows: "meaning (Increment_count d n) t = Some (rows, t') \<Longrightarrow> \<exists>c. rows = [[Bigint c]]"
  by (auto split: option.splits prod.splits dest: write_count_row)

lemma sum_rows: "meaning Sum_sizes t = Some (rows, t') \<Longrightarrow> \<exists>a b. rows = [[Bigint a, Bigint b]]"
  by (auto simp: sum_row_def split: option.splits if_splits)

lemma get_cells [simp]:
  "get_bigint (Bigint c # row) 0 = Ok c" "get_bigint (x # Bigint c # row) (Suc 0) = Ok c"
  "get_bigint (x # y # Bigint c # row) (Suc (Suc 0)) = Ok c"
  "get_text (Text f # row) 0 = Ok f" "get_jsonb (Jsonb v # row) 0 = Ok v"
  "get_jsonb (x # Jsonb v # row) (Suc 0) = Ok v"
  by (simp_all add: get_bigint_def get_text_def get_jsonb_def)

context pg_server
begin

abbreviation within_txn :: "'v pg_tables option \<Rightarrow> 'p \<Rightarrow> bool" where
  "within_txn sv p \<equiv> up p \<and> saved p = sv"

lemma returns_query_opt:
  assumes "within_txn sv p" and "list_all storable (sql_params st)"
    and "\<And>t rows t'. meaning st t = Some (rows, t') \<Longrightarrow> length rows \<le> 1"
    and "\<And>t rows t' p'. meaning st t = Some (rows, t') \<Longrightarrow> within_txn sv p' \<Longrightarrow>
           P (if rows = [] then None else Some (hd rows)) p'"
    and "\<And>p'. within_txn sv p' \<Longrightarrow> R p'"
  shows "returns (pg_call what (query_opt V st)) p P R"
proof (cases "meaning st (live p)")
  case None
  then show ?thesis using error_law [of p st] assms(1,2,5) by (auto simp: returns_def pg_call_def)
next
  case (Some x)
  then show ?thesis
    using query_opt_law [of p st "fst x" "snd x"] assms(3) [of "live p" "fst x" "snd x"]
      assms(4) [of "live p" "fst x" "snd x"] assms(1,2)
    by (auto simp: returns_def pg_call_def)
qed

lemma returns_query_one:
  assumes "within_txn sv p" and "list_all storable (sql_params st)"
    and "\<And>t rows t'. meaning st t = Some (rows, t') \<Longrightarrow> \<exists>row. rows = [row] \<and> P row"
    and "\<And>row p'. P row \<Longrightarrow> within_txn sv p' \<Longrightarrow> Q row p'" and "\<And>p'. within_txn sv p' \<Longrightarrow> R p'"
  shows "returns (pg_call what (query_one V st)) p Q R"
proof (cases "meaning st (live p)")
  case None
  then show ?thesis using error_law [of p st] assms(1,2,5) by (auto simp: returns_def pg_call_def)
next
  case (Some x)
  then obtain row where "fst x = [row]" "P row" using assms(3) [of "live p" "fst x" "snd x"] by auto
  then show ?thesis
    using query_one_law [of p st row "snd x"] Some assms(4) [of row] assms(1,2)
    by (cases x) (auto simp: returns_def pg_call_def)
qed

lemma returns_execute:
  assumes "within_txn sv p" and "list_all storable (sql_params st)" and "\<And>t. meaning st t \<noteq> None"
    and "\<And>n p'. within_txn sv p' \<Longrightarrow> P n p'"
  shows "returns (pg_call what (execute V st)) p P R"
proof -
  obtain x where "meaning st (live p) = Some x" using assms(3) by blast
  then show ?thesis
    using execute_law [of p st "fst x" "snd x"] assms(1,2,4) by (auto simp: returns_def pg_call_def)
qed

lemma returns_increment:
  assumes "within_txn sv p" and "storable (Text d)"
  shows "returns (increment_refcount V d n) p (\<lambda>_. within_txn sv) (within_txn sv)"
  unfolding increment_refcount_def
  by (intro returns_seq returns_query_one [OF assms(1), where P = "\<lambda>row. \<exists>c. row = [Bigint c]"])
    (use assms(2) in \<open>auto simp: bigint_storable dest!: increment_rows intro: returns_lift simp del: meaning.simps\<close>)

lemma returns_release:
  assumes "within_txn sv p" and "storable (Text d)"
  shows "returns (release_refcount V d gc) p (\<lambda>_. within_txn sv) (within_txn sv)"
proof -
  have "returns (decrement_refcount V d) p (\<lambda>_. within_txn sv) (within_txn sv)"
    unfolding decrement_refcount_def
  proof (intro returns_seq returns_query_opt [OF assms(1)], goal_cases)
    case (3 t rows t' p')
    have tail: "returns (seq (lift (Ok c)) (\<lambda>remaining. if sint remaining \<le> 0
          then seq (pg_call ''postgres delete refcount: '' (execute V (Delete_count d))) (\<lambda>_. ret 0)
          else ret remaining)) p' (\<lambda>_. within_txn sv) (within_txn sv)" for c
    proof (rule returns_seq, rule returns_lift [OF refl], cases "sint c \<le> 0")
      case True
      show "returns (if sint c \<le> 0
          then seq (pg_call ''postgres delete refcount: '' (execute V (Delete_count d))) (\<lambda>_. ret 0)
          else ret c) p' (\<lambda>_. within_txn sv) (within_txn sv)"
        unfolding if_P [OF True]
        by (intro returns_seq returns_execute [OF 3(2)]) (use assms(2) in \<open>auto intro: returns_ret\<close>)
    next
      case False
      then show "returns (if sint c \<le> 0
          then seq (pg_call ''postgres delete refcount: '' (execute V (Delete_count d))) (\<lambda>_. ret 0)
          else ret c) p' (\<lambda>_. within_txn sv) (within_txn sv)"
        using 3(2) by (simp add: returns_ret)
    qed
    show ?case
      using decrement_rows [OF 3(1)] 3(2) tail by (auto intro!: returns_fail simp del: seq_lift_Ok)
  qed (use assms(2) in \<open>auto dest: decrement_rows simp del: meaning.simps\<close>)
  then show ?thesis
    unfolding release_refcount_def by (intro returns_seq) (auto elim!: returns_mono intro!: returns_ret)
qed

lemma returns_query:
  assumes "within_txn sv p" and "list_all storable (sql_params st)" and "\<And>t. meaning st t \<noteq> None"
    and "\<And>t rows t' rows' p'. meaning st t = Some (rows, t') \<Longrightarrow> set rows' = set rows \<Longrightarrow> within_txn sv p' \<Longrightarrow>
           P rows' p'"
  shows "returns (pg_call what (query V st)) p P R"
proof -
  obtain rows t where x: "meaning st (live p) = Some (rows, t)" using assms(3) by fastforce
  then obtain rows' p' where "query V st p = (Inr rows', p')" "mset rows' = mset rows" "within_txn sv p'"
    using query_law [of p st rows t] assms(1,2) by auto
  then show ?thesis
    using assms(4) [OF x mset_eq_setD] by (simp add: returns_def pg_call_def)
qed

text \<open>A transaction whose body returns commits, or leaves the tables as they were.\<close>

lemma returns_in_transaction:
  assumes "session t None p"
    and "\<And>p'. within_txn (Some t) p' \<Longrightarrow> returns body p' (\<lambda>_. within_txn (Some t)) (within_txn (Some t))"
  shows "returns (in_transaction V what body) p (\<lambda>_. within_txn None) (session t None)"
proof -
  obtain p1 where p1: "dr_transaction V p = (Inr (), p1)" "within_txn (Some t) p1"
    using transaction_law [of p] assms(1) by (auto simp: session_def)
  show ?thesis
  proof (cases "body p1")
    case (Pair r p2)
    then have r: "(\<exists>a. r = Ok a) \<or> (\<exists>e. r = Err e)" "within_txn (Some t) p2"
      using assms(2) [OF p1(2)] by (auto simp: returns_def split: res.splits)
    then show ?thesis
      using p1(1) Pair commit_law [of p2 t] rollback_law [of p2 t]
      by (auto simp: returns_def in_transaction_def pg_call_def seq_def ret_def session_def)
  qed
qed

end

text \<open>A client that can be used: its lock not poisoned, no transaction open.\<close>

definition client_ok :: "('p \<Rightarrow> bool) \<Rightarrow> ('p \<Rightarrow> 'v pg_tables option) \<Rightarrow> 'p mutex \<Rightarrow> bool" where
  "client_ok up saved mx \<longleftrightarrow> \<not> poisoned mx \<and> up (guarded mx) \<and> saved (guarded mx) = None"

lemma load_manifest_row_returns:
  "R p \<Longrightarrow> (\<And>m. P m p) \<Longrightarrow> returns (load_manifest_row V [Text f, Jsonb v, Bigint n] m) p P R"
  by (cases "from_value V v"; cases "f = []")
    (simp_all add: load_manifest_row_def json_digests_def manifest_insert_def returns_def seq_def lift_def
      get_text_def get_bigint_def ret_def fail_def)

context pg_server
begin

abbreviation "usable \<equiv> client_ok up saved"

lemma returns_locked:
  assumes "usable mx" and "returns m (guarded mx) (\<lambda>_. within_txn None) (within_txn None)"
  shows "returns (with_lock m) mx (\<lambda>_. usable) usable"
  using assms by (auto simp: client_ok_def intro!: returns_with_lock elim!: returns_mono)

lemma returns_commit:
  assumes "usable mx"
    and "\<And>t p. within_txn (Some t) p \<Longrightarrow> returns body p (\<lambda>_. within_txn (Some t)) (within_txn (Some t))"
  shows "returns (with_lock (in_transaction V what body)) mx (\<lambda>_. usable)
     (\<lambda>mx'. usable mx' \<and> live (guarded mx') = live (guarded mx))"
proof (rule returns_with_lock)
  have "session (live (guarded mx)) None (guarded mx)" using assms(1) by (simp add: client_ok_def session_def)
  then show "returns (in_transaction V what body) (guarded mx) (\<lambda>a p. usable (mx\<lparr>guarded := p\<rparr>))
      (\<lambda>p. usable (mx\<lparr>guarded := p\<rparr>) \<and> live (guarded (mx\<lparr>guarded := p\<rparr>)) = live (guarded mx))"
    using assms(1)
    by (intro returns_mono [OF returns_in_transaction [OF _ assms(2)]])
      (auto simp: client_ok_def session_def)
qed (use assms(1) in \<open>simp add: client_ok_def\<close>)

lemma returns_commit_ingest:
  assumes "usable mx" and "storable (Text f)" and "\<forall>d \<in> set ds. storable (Text d)"
    and "\<forall>v. to_value V ds = Inr v \<longrightarrow> storable (Jsonb v)"
    and "\<forall>ds'. old = Some ds' \<longrightarrow> (\<forall>d \<in> set ds'. storable (Text d))"
  shows "returns (commit_ingest V f ds n szs old) mx (\<lambda>_. usable)
     (\<lambda>mx'. usable mx' \<and> live (guarded mx') = live (guarded mx))"
proof (cases "length ds = length szs")
  case False
  then show ?thesis using assms(1) by (simp add: commit_ingest_def returns_fail)
next
  case True
  have "returns (seq (for_each (zip ds szs) (\<lambda>(digest, sz). seq (increment_refcount V digest sz) (\<lambda>_. ret ())))
        (\<lambda>_. seq (upsert_manifest V f ds n)
        (\<lambda>_. case old of None \<Rightarrow> ret [] | Some old \<Rightarrow> fold_act (release_refcount V) old []))) p
      (\<lambda>_. within_txn sv) (within_txn sv)" if p: "within_txn sv p" for sv p
  proof (rule returns_seq, rule returns_mono [OF returns_for_each [where J = "within_txn sv" and R = "within_txn sv"]], goal_cases)
    case (2 x q)
    obtain d sz where x: "x = (d, sz)" by (cases x)
    then have "d \<in> set ds" using set_zip_leftD [of d sz ds szs] 2(1) by simp
    then have "storable (Text d)" using assms(3) by blast
    then show ?case
      unfolding x(1) prod.case
      by (intro returns_seq returns_mono [OF returns_increment [OF 2(2)]]) (simp_all add: returns_ret)
  next
    case (3 u q)
    show ?case
    proof (rule returns_seq, unfold upsert_manifest_def, rule returns_seq, rule returns_lift_map_err, rule 3, goal_cases)
      case (1 v)
      show ?case
      proof (intro returns_seq returns_execute [OF 3] returns_ret, goal_cases)
        case (3 k p')
        then show ?case
          using assms(5)
          by (auto split: option.split intro!: returns_ret returns_fold_act returns_release)
      qed (use assms(2,4) 1 in \<open>auto simp: bigint_storable\<close>)
    qed
  qed (use p in auto)
  from returns_commit [OF assms(1) this] True show ?thesis
    unfolding commit_ingest_def by simp
qed

lemma returns_commit_delete:
  assumes "usable mx" and "storable (Text f)" and "\<forall>d \<in> set ds. storable (Text d)"
  shows "returns (commit_delete V f ds) mx (\<lambda>_. usable)
     (\<lambda>mx'. usable mx' \<and> live (guarded mx') = live (guarded mx))"
  unfolding commit_delete_def
proof (rule returns_commit [OF assms(1)])
  fix t p assume "within_txn (Some t) p"
  then show "returns (seq (pg_call ''postgres delete manifest: '' (execute V (Delete_manifest f)))
      (\<lambda>_. fold_act (release_refcount V) ds [])) p (\<lambda>_. within_txn (Some t)) (within_txn (Some t))"
    by (intro returns_seq returns_execute)
      (use assms(2,3) in \<open>auto intro!: returns_fold_act returns_release\<close>)
qed

lemma returns_manifest_digests:
  assumes "usable mx" and "storable (Text f)"
  shows "returns (manifest_digests V f) mx (\<lambda>_. usable) usable"
  unfolding manifest_digests_def
proof (rule returns_locked [OF assms(1)], rule returns_seq, rule returns_query_opt [where sv = None], goal_cases)
  case (4 t rows t' p')
  then show ?case
    by (auto simp: json_digests_def intro!: returns_ret returns_seq returns_lift [OF refl] returns_lift_map_err
        split: option.splits)
qed (use assms in \<open>auto simp: client_ok_def split: option.splits\<close>)

lemma returns_compute_stats:
  assumes "usable mx"
  shows "returns (compute_stats V) mx (\<lambda>_. usable) usable"
  unfolding compute_stats_def
  by (rule returns_locked [OF assms], rule returns_seq,
      rule returns_query_one [where sv = None and P = "\<lambda>row. \<exists>a b. row = [Bigint a, Bigint b]"])
    (use assms in \<open>auto simp: client_ok_def dest!: sum_rows intro!: returns_ret returns_seq
      returns_lift [OF get_cells(1)] returns_lift [OF get_cells(2)] simp del: meaning.simps\<close>)

lemma returns_chunk_size:
  assumes "usable mx" and "storable (Text d)"
  shows "returns (pg_chunk_size V d) mx (\<lambda>_. usable) usable"
  unfolding pg_chunk_size_def
proof (rule returns_locked [OF assms(1)], rule returns_seq, rule returns_query_opt [where sv = None], goal_cases)
  case (4 t rows t' p')
  then show ?case
    by (auto intro!: returns_ret returns_seq returns_lift [OF refl] split: option.splits)
qed (use assms in \<open>auto simp: client_ok_def split: option.splits\<close>)

text \<open>The three loops over all rows of a table.\<close>

lemma returns_load_manifests:
  assumes "usable mx"
  shows "returns (pg_load_manifests V) mx (\<lambda>_. usable) usable"
  unfolding pg_load_manifests_def
proof (rule returns_locked [OF assms], rule returns_seq, rule returns_query [where sv = None], goal_cases)
  case (4 t rows t' rows' p')
  then show ?case
    by (intro returns_fold_act) (auto intro: load_manifest_row_returns)
qed (use assms in \<open>simp_all add: client_ok_def\<close>)

lemma returns_load_refcounts:
  assumes "usable mx"
  shows "returns (pg_load_refcounts V) mx (\<lambda>_. usable) usable"
  unfolding pg_load_refcounts_def
proof (rule returns_locked [OF assms], rule returns_seq, rule returns_query [where sv = None], goal_cases)
  case (4 t rows t' rows' p')
  then show ?case
    by (intro returns_fold_act)
      (auto simp: load_refcount_row_def count_row_def get_text_def get_bigint_def seq_def lift_def returns_def ret_def)
qed (use assms in \<open>simp_all add: client_ok_def\<close>)

lemma returns_list_refcounts:
  assumes "usable mx"
  shows "returns (list_refcounts V) mx (\<lambda>_. usable) usable"
  unfolding list_refcounts_def
proof (rule returns_locked [OF assms], rule returns_seq, rule returns_query [where sv = None], goal_cases)
  case (4 t rows t' rows' p')
  then show ?case
    by (intro returns_fold_act)
      (auto simp: count_row_def get_text_def get_bigint_def seq_def lift_def returns_def ret_def)
qed (use assms in \<open>simp_all add: client_ok_def\<close>)

end

end
