(* ===== verification/Sample_Pg.thy ===== *)
theory Sample_Pg
  imports Pg_Open Pg_Types Sample
begin

text \<open>
  A database server in memory, on which the laws of \<open>pg_server\<close> hold: two sets of tables, the
  current ones and those to go back to.  A JSON array of strings is the list itself.
\<close>

type_synonym sample_tables = "string list pg_tables"
type_synonym sample_session = "sample_tables \<times> sample_tables option"

text \<open>The statement behind a text and its parameters.\<close>

definition parse_sql :: "string \<Rightarrow> 'v pg_value list \<Rightarrow> 'v pg_statement option" where
  "parse_sql sql ps =
     (case ps of
        [] \<Rightarrow> find (\<lambda>st. sql_text st = sql) [Select_manifests, Select_refcounts, Sum_sizes]
      | [Text x] \<Rightarrow> find (\<lambda>st. sql_text st = sql)
          [Select_digests x, Select_size x, Delete_manifest x, Decrement_count x, Delete_count x]
      | [Text d, Bigint n] \<Rightarrow> Some (Increment_count d n)
      | [Text f, Jsonb v, Bigint n] \<Rightarrow> Some (Upsert_manifest f v n)
      | _ \<Rightarrow> None)"

definition sample_run ::
  "string \<Rightarrow> string list pg_value list \<Rightarrow> sample_session \<Rightarrow>
     (string + string list pg_row list) \<times> sample_session" where
  "sample_run sql ps p =
     (case parse_sql sql ps of
        None \<Rightarrow> (Inl ''db error: syntax error'', p)
      | Some st \<Rightarrow>
          (case meaning st (fst p) of
             None \<Rightarrow> (Inl ''db error: new row violates check constraint'', p)
           | Some (rows, t) \<Rightarrow> (Inr rows, (t, snd p))))"

definition map_result :: "('a \<Rightarrow> 'b) \<Rightarrow> (string + 'a) \<times> 'p \<Rightarrow> (string + 'b) \<times> 'p" where
  "map_result f r = (case r of (Inl e, p) \<Rightarrow> (Inl e, p) | (Inr a, p) \<Rightarrow> (Inr (f a), p))"

definition sample_driver :: "(string list, sample_session) pg_driver" where
  "sample_driver =
     \<lparr>dr_connect = (\<lambda>dsn p. if dsn = ''postgres://local'' then (Inr (), (fst p, None)) else (Inl ''refused'', p)),
      dr_batch_execute = (\<lambda>sql p. (Inr (), p)),
      dr_query = sample_run,
      dr_query_opt = (\<lambda>sql ps p. map_result (\<lambda>rows. if rows = [] then None else Some (hd rows)) (sample_run sql ps p)),
      dr_query_one = (\<lambda>sql ps p. map_result hd (sample_run sql ps p)),
      dr_execute = (\<lambda>sql ps p. map_result (\<lambda>rows. of_nat (length rows)) (sample_run sql ps p)),
      dr_transaction = (\<lambda>p. (Inr (), (fst p, Some (fst p)))),
      dr_commit = (\<lambda>p. (Inr (), (fst p, None))),
      dr_rollback = (\<lambda>p. case snd p of None \<Rightarrow> p | Some t \<Rightarrow> (t, None)),
      to_value = Inr, from_value = Inr\<rparr>"

lemma parse_sql_text [simp]: "parse_sql (sql_text st) (sql_params st) = Some st"
  by (cases st) (simp_all add: parse_sql_def)

lemma sample_run_meaning:
  "sample_run (sql_text st) (sql_params st) p =
     (case meaning st (fst p) of
        None \<Rightarrow> (Inl ''db error: new row violates check constraint'', p)
      | Some (rows, t) \<Rightarrow> (Inr rows, (t, snd p)))"
  by (simp add: sample_run_def)

lemmas sample_sql_calls = query_def query_opt_def query_one_def execute_def sample_driver_def map_result_def
  sample_run_meaning

interpretation sample_pg: pg_env sample_deps memory_kv memory_ok "\<lambda>_. True" sample_driver "\<lambda>_. True" fst snd
    "\<lambda>_. True" "\<lambda>dsn _. dsn = ''postgres://local''"
proof (unfold_locales, goal_cases)
  case (1 dsn p) then show ?case by (simp add: sample_driver_def)
next
  case (10 ds) then show ?case by (simp add: sample_driver_def)
qed (simp_all add: sample_sql_calls del: meaning.simps sql_text.simps sql_params.simps)

end
