(* ===== verification/Pg_Off.thy ===== *)
theory Pg_Off
  imports Pg_Store Store_Ingest
begin

text \<open>
  A store without metadata in Postgres: every method of the \<^verbatim>\<open>postgres\<close> build is the
  method of the default build.
\<close>

text \<open>
  A part \<open>g t\<close> of a state \<open>t\<close>, put back by \<open>p\<close>, in the states that satisfy
  \<open>ok\<close>.  An action on the whole mirrors one on the part when it does that one and nothing
  else.
\<close>

definition mirrors ::
  "('t \<Rightarrow> bool) \<Rightarrow> ('t \<Rightarrow> 's) \<Rightarrow> ('s \<Rightarrow> 't \<Rightarrow> 't) \<Rightarrow> ('t, 'a) act \<Rightarrow> ('s, 'a) act \<Rightarrow> bool" where
  "mirrors ok g p m n \<longleftrightarrow> (\<forall>t. ok t \<longrightarrow> m t = zoom g p n t)"

named_theorems mirror_rules \<open>actions that are those of the default build\<close>

locale state_part =
  fixes ok :: "'t \<Rightarrow> bool" and g :: "'t \<Rightarrow> 's" and p :: "'s \<Rightarrow> 't \<Rightarrow> 't"
  assumes put_ok: "ok t \<Longrightarrow> ok (p b t)"
    and get_put: "ok t \<Longrightarrow> g (p b t) = b"
    and put_get: "ok t \<Longrightarrow> p (g t) t = t"
    and put_put: "ok t \<Longrightarrow> p c (p b t) = p c t"
begin

lemma mirrors_ret [mirror_rules]: "mirrors ok g p (ret a) (ret a)"
  by (simp add: mirrors_def act_defs put_get)

lemma mirrors_fail [mirror_rules]: "mirrors ok g p (fail e) (fail e)"
  by (simp add: mirrors_def act_defs put_get)

lemma mirrors_lift [mirror_rules]: "mirrors ok g p (lift r) (lift r)"
  by (simp add: mirrors_def act_defs put_get)

lemma mirrors_seq [mirror_rules]:
  assumes "mirrors ok g p m n" and "\<And>a. mirrors ok g p (f a) (h a)"
  shows "mirrors ok g p (seq m f) (seq n h)"
proof -
  have "seq m f t = zoom g p (seq n h) t" if t: "ok t" for t
  proof (cases "n (g t)")
    case (Pair r b)
    have "m t = (r, p b t)" using assms(1) t Pair by (simp add: mirrors_def zoom_def)
    moreover have "f a (p b t) = zoom g p (h a) (p b t)" for a
      using assms(2) put_ok [OF t] by (simp add: mirrors_def)
    ultimately show ?thesis
      using Pair t by (cases r) (simp_all add: seq_def zoom_def get_put put_put split: prod.split)
  qed
  then show ?thesis by (simp add: mirrors_def)
qed

lemma mirrors_fold_act [mirror_rules]:
  "(\<And>x v. mirrors ok g p (f x v) (h x v)) \<Longrightarrow> mirrors ok g p (fold_act f xs v) (fold_act h xs v)"
  by (induction xs arbitrary: v) (auto intro!: mirrors_ret mirrors_seq)

lemma mirrors_for_each [mirror_rules]:
  "(\<And>x. mirrors ok g p (f x) (h x)) \<Longrightarrow> mirrors ok g p (for_each xs f) (for_each xs h)"
  by (induction xs) (auto intro!: mirrors_ret mirrors_seq)

end

lemma mirrorsD: "mirrors ok g p m n \<Longrightarrow> ok t \<Longrightarrow> m t = zoom g p n t"
  by (simp add: mirrors_def)

text \<open>The base of a store without metadata in Postgres, alone and beside a writer.\<close>

definition put_base :: "'b store \<Rightarrow> ('b, 'p) pg_store \<Rightarrow> ('b, 'p) pg_store" where
  "put_base b s = s\<lparr>pgs_base := b\<rparr>"

abbreviation off :: "('b, 'p) pg_store \<Rightarrow> bool" where
  "off s \<equiv> pgs_pg s = None"

abbreviation mirrors_off :: "(('b, 'p) pg_store, 'a) act \<Rightarrow> ('b store, 'a) act \<Rightarrow> bool" where
  "mirrors_off \<equiv> mirrors off pgs_base put_base"

abbreviation mirrors_writing ::
  "('w \<times> ('b, 'p) pg_store, 'a) act \<Rightarrow> ('w \<times> 'b store, 'a) act \<Rightarrow> bool" where
  "mirrors_writing \<equiv> mirrors (\<lambda>ws. off (snd ws)) (\<lambda>ws. (fst ws, pgs_base (snd ws)))
     (\<lambda>wb ws. (fst wb, put_base (snd wb) (snd ws)))"

interpretation base_part: state_part off pgs_base put_base
  by unfold_locales (simp_all add: put_base_def)

interpretation writing_part: state_part "\<lambda>ws. off (snd ws)"
    "\<lambda>ws :: 'w \<times> ('b, 'p) pg_store. (fst ws, pgs_base (snd ws))"
    "\<lambda>wb ws. (fst wb, put_base (snd wb) (snd ws))"
  by unfold_locales (auto simp: put_base_def)

lemma on_base_zoom: "on_base m = zoom pgs_base put_base m"
  by (simp add: on_base_def put_base_def fun_eq_iff zoom_def)

lemma mirrors_on_base [mirror_rules]: "mirrors_off (on_base m) m"
  by (simp add: mirrors_def on_base_zoom)

lemma mirrors_if_pg [mirror_rules]: "mirrors_off n n' \<Longrightarrow> mirrors_off (if_pg m n) n'"
  by (simp add: mirrors_def if_pg_def)

lemma mirrors_on_store [mirror_rules]: "mirrors_off m n \<Longrightarrow> mirrors_writing (on_store m) (on_store n)"
  by (auto simp: mirrors_def on_store_def zoom_def split: prod.split)

lemma mirrors_on_writer [mirror_rules]: "mirrors_writing (on_writer m) (on_writer m)"
  by (auto simp: mirrors_def on_writer_def zoom_def put_base_def split: prod.split)

lemma mirrors_if [mirror_rules]:
  "mirrors ok g p m m' \<Longrightarrow> mirrors ok g p n n' \<Longrightarrow> mirrors ok g p (if b then m else n) (if b then m' else n')"
  by simp

lemma mirrors_option [mirror_rules]:
  "mirrors ok g p m m' \<Longrightarrow> (\<And>a. mirrors ok g p (f a) (f' a)) \<Longrightarrow>
     mirrors ok g p (case x of None \<Rightarrow> m | Some a \<Rightarrow> f a) (case x of None \<Rightarrow> m' | Some a \<Rightarrow> f' a)"
  by (cases x) simp_all

section \<open>The methods\<close>

lemma mirrors_store_chunk [mirror_rules]: "mirrors_off (pg_store_chunk E d p) (store_chunk E d p)"
  unfolding pg_store_chunk_def store_chunk_def by (intro mirror_rules)

lemma mirrors_accept [mirror_rules]: "mirrors_off (pg_accept E p se) (accept E p se)"
  unfolding pg_accept_def accept_def Let_def by (intro mirror_rules)

lemma mirrors_peek [mirror_rules]: "mirrors_off (pg_peek_digests V f) (peek_digests f)"
  unfolding pg_peek_digests_def by (intro mirror_rules)

lemma mirrors_commit [mirror_rules]: "mirrors_off (pg_commit E V f se) (commit E f se)"
  unfolding pg_commit_def commit_def by (intro mirror_rules)

lemma mirrors_drive_chunker [mirror_rules]:
  assumes "\<And>p se. mirrors_off (acc p se) (acc' p se)" and "\<And>se. mirrors_off (com se) (com' se)"
  shows "mirrors_off (drive_chunker acc com data K c) (drive_chunker acc' com' data K c)"
  unfolding drive_chunker_def
  by (auto split: prod.split intro!: mirror_rules assms)

lemma mirrors_ingest_with_chunker [mirror_rules]:
  "mirrors_off (pg_ingest_with_chunker E V f data K c) (ingest_with_chunker E f data K c)"
  unfolding pg_ingest_with_chunker_def ingest_with_chunker_def by (intro mirror_rules)

lemma mirrors_ingest_fixed: "mirrors_off (pg_ingest_fixed E V f data n) (ingest_fixed E f data n)"
  unfolding pg_ingest_fixed_def ingest_fixed_def by (intro mirror_rules)

lemma mirrors_ingest: "mirrors_off (pg_ingest E V f data) (ingest E f data)"
  unfolding pg_ingest_def ingest_def by (rule mirrors_ingest_fixed)

lemma mirrors_ingest_cdc: "mirrors_off (pg_ingest_cdc E V f data) (ingest_cdc E f data)"
  unfolding pg_ingest_cdc_def ingest_cdc_def by (intro mirror_rules)

lemma mirrors_ingest_chunks: "mirrors_off (pg_ingest_chunks E V f chunks) (ingest_chunks E f chunks)"
  unfolding pg_ingest_chunks_def ingest_chunks_def by (intro mirror_rules)

lemma mirrors_digests_for_file: "mirrors_off (pg_digests_for_file V f) (digests_for_file f)"
  unfolding pg_digests_for_file_def by (intro mirror_rules)

lemma mirrors_read_to_writer:
  "mirrors_writing (pg_read_to_writer E V put_all f) (read_to_writer E put_all f)"
  unfolding pg_read_to_writer_def read_to_writer_def
  by (intro mirror_rules mirrors_digests_for_file)

lemma mirrors_read: "mirrors_off (pg_read E V f) (read E f)"
  using mirrorsD [OF mirrors_read_to_writer [of E V vec_write_all f]]
  by (auto simp: mirrors_def pg_read_def read_def zoom_def split: prod.split)

lemma mirrors_delete: "mirrors_off (pg_delete E V f) (delete E f)"
  unfolding pg_delete_def by (intro mirror_rules)

lemma mirrors_stats: "mirrors_off (pg_stats V) store_stats"
  unfolding pg_stats_def by (intro mirror_rules)

lemma mirrors_fsck: "mirrors_off (pg_fsck E V repair) (fsck E repair)"
  unfolding pg_fsck_def fsck_def by (intro mirror_rules)

end
