(* ===== verification/Pg_Properties.thy ===== *)
theory Pg_Properties
  imports Sample_Pg Pg_Off
begin

text \<open>The properties of the store with metadata in Postgres, with their witnesses.\<close>

section \<open>From chunks to files\<close>

lemma pg_ingest_with_chunker_eq:
  "one_shot K data c = Ok chunks \<Longrightarrow> pg_ingest_with_chunker E V f data K c = pg_ingest_chunks E V f chunks"
  by (simp add: pg_ingest_with_chunker_def pg_ingest_chunks_def drive_chunker_eq)

lemma pg_ingest_fixed_eq:
  "0 < n \<Longrightarrow> pg_ingest_fixed E V f data n = pg_ingest_chunks E V f (fixed_chunks n data)"
  by (simp add: pg_ingest_fixed_def pg_ingest_with_chunker_eq [OF one_shot_fixed])

lemma pg_ingest_cdc_eq:
  "cdc_chunks (dp_fastcdc E) data = Ok chunks \<Longrightarrow> pg_ingest_cdc E V f data = pg_ingest_chunks E V f chunks"
  by (simp add: pg_ingest_cdc_def cdc_with_defaults_eq pg_ingest_with_chunker_eq one_shot_cdc)

text \<open>Streamed or buffered, from a reader or from a path, an ingest is the same.\<close>

lemma pg_ingest_reader_fixed_eq:
  assumes "0 < n" and "delivers rd r data r'"
  shows "\<exists>r1. pg_ingest_reader_fixed E V f rd n (r, s) =
           (fst (pg_ingest_fixed E V f data n s), (r1, snd (pg_ingest_fixed E V f data n s)))"
  using drive_reader_eq [OF fixed.stream_chunker_axioms fixed_inv_new [OF assms(1)] assms(2)
      one_shot_fixed [OF assms(1)]] assms(1)
  by (simp add: pg_ingest_reader_fixed_def pg_ingest_reader_with_chunker_def pg_ingest_fixed_eq
      pg_ingest_chunks_def)

lemma pg_ingest_path_eq:
  assumes "open_file path = Ok r" and "delivers rd r data r'"
  shows "pg_ingest_path E V open_file rd f path s = pg_ingest E V f data s"
  using pg_ingest_reader_fixed_eq [OF default_chunk_size_pos assms(2), of E V f s] assms(1)
  by (auto simp: pg_ingest_path_def from_file_def pg_ingest_def)

section \<open>A sample store\<close>

definition no_rows :: sample_tables where
  "no_rows = \<lparr>tb_manifests = [], tb_refcounts = []\<rparr>"

definition pg_fresh :: "(memory_backend, sample_session) pg_store" where
  "pg_fresh = \<lparr>pgs_base = empty_store, pgs_pg = Some (new_mutex (no_rows, None))\<rparr>"

abbreviation "sample_inv \<equiv> pg_inv sample_deps memory_kv memory_ok sample_driver (\<lambda>_. True) fst snd"

lemma pg_fresh_simps [simp]:
  "pgs_base pg_fresh = empty_store" "pg_tables_of fst pg_fresh = no_rows"
  "table_files sample_driver no_rows = []"
  by (simp_all add: pg_fresh_def pg_tables_of_def no_rows_def table_files_def)

lemma pg_fresh_inv: "sample_inv pg_fresh"
proof -
  have "memory_ok (st_backend empty_store)" "unlocked empty_store"
    using store_invD(1,5) [OF empty_store_inv] chunk_invD(1) by auto
  then show ?thesis
    by (simp add: pg_inv_def blobs_named_def tables_ok_def counts_match_def no_rows_def [THEN arg_cong [where f = tb_manifests]]
        no_rows_def [THEN arg_cong [where f = tb_refcounts]]) (simp add: pg_fresh_def)
qed

lemma sample_row_storable [simp]: "row_storable sample_deps sample_driver (\<lambda>_. True) f chunks"
  by (simp add: row_storable_def sample_driver_def)

lemma pg_fresh_fits [simp]: "pg_fits sample_deps memory_kv sample_driver fst pg_fresh [[1, 2], [3]]"
proof -
  have "inj_on sample_sha {[1, 2], [3]}" by (rule inj_on_subset [OF short_inj]) simp
  then show ?thesis by (simp add: pg_fits_def)
qed

lemma pg_fresh_replaceable [simp]: "replaceable sample_deps sample_driver fst pg_fresh f chunks"
  by (simp add: replaceable_def old_digests_of_def)

text \<open>The store after one ingest.\<close>

lemma pg_one_file:
  obtains s where "pg_ingest_fixed sample_deps sample_driver ''f'' [1, 2, 3] 2 pg_fresh =
      (Ok (map (digest_hex sample_sha) [[1, 2], [3]]), s)"
    and "sample_inv s" and "pg_contents memory_kv sample_driver fst s = [''f'' \<mapsto> [1, 2, 3]]"
    and "table_files sample_driver (pg_tables_of fst s) = [(''f'', map (digest_hex sample_sha) [[1, 2], [3]])]"
    and "st_codec (pgs_base s) = None" and "stored_plain None (memory_kv (st_backend (pgs_base s))) \<subseteq> short"
proof -
  have empty: "pg_contents memory_kv sample_driver fst pg_fresh = Map.empty"
    by (simp add: fun_eq_iff pg_contents_def)
  have "wp (pg_ingest_chunks sample_deps sample_driver ''f'' [[1, 2], [3]]) pg_fresh
      (\<lambda>r s. r = map (digest_hex sample_sha) [[1, 2], [3]] \<and> sample_inv s \<and>
         pg_contents memory_kv sample_driver fst s = [''f'' \<mapsto> [1, 2, 3]] \<and>
         table_files sample_driver (pg_tables_of fst s) = [(''f'', map (digest_hex sample_sha) [[1, 2], [3]])] \<and>
         st_codec (pgs_base s) = None \<and> stored_plain None (memory_kv (st_backend (pgs_base s))) \<subseteq> short)"
    by (rule sample_pg.wp_pg_ingest_chunks [OF pg_fresh_inv]) (auto simp: empty)
  then show ?thesis
    using that by (auto simp: pg_ingest_fixed_eq sample_chunks elim!: wpE)
qed

section \<open>The properties\<close>

text \<open>
  C8.  Ingest, metadata in Postgres.  An ingest commits exactly when every chunk of the version
  it replaces is still referenced by some file afterwards: then it returns the digests, the
  file has the new bytes and every other file its own.  Otherwise the constraint
  \<^verbatim>\<open>count > 0\<close> makes it fail while it takes the last reference away, and the tables and
  all files are as before.  So a file can never be replaced by one without its chunks, against
  \<^verbatim>\<open>docs/CONSISTENCY.md\<close>, unless other files share them; a new file, or one
  that only grows, is always stored.  Either way no blob is removed, and
  \<^verbatim>\<open>chunk_refcount\<close> answers from the cache as before the ingest.
\<close>

theorem pg_ingest_outcome:
  assumes "pg_env E kv ok valid V up live saved storable reachable" and "pg_inv E kv ok V up live saved s"
    and "f \<noteq> []" and "0 < n" and "row_storable E V storable f (fixed_chunks n bs)"
    and "pg_fits E kv V live s (fixed_chunks n bs)"
  shows "if replaceable E V live s f (fixed_chunks n bs)
    then \<exists>s'. pg_ingest_fixed E V f bs n s = (Ok (map (digest_hex (dp_sha E)) (fixed_chunks n bs)), s') \<and>
           pg_inv E kv ok V up live saved s' \<and>
           pg_contents kv V live s' = (pg_contents kv V live s)(f \<mapsto> bs) \<and>
           kv (st_backend (pgs_base s)) \<subseteq>\<^sub>m kv (st_backend (pgs_base s')) \<and>
           (\<forall>d. fst (pg_chunk_refcount d s') = fst (pg_chunk_refcount d s))
    else \<exists>msg s'. pg_ingest_fixed E V f bs n s = (Err (BackendError (''postgres decrement: '' @ msg)), s') \<and>
           pg_inv E kv ok V up live saved s' \<and> pg_tables_of live s' = pg_tables_of live s \<and>
           pg_contents kv V live s' = pg_contents kv V live s \<and>
           kv (st_backend (pgs_base s)) \<subseteq>\<^sub>m kv (st_backend (pgs_base s'))"
proof (cases "replaceable E V live s f (fixed_chunks n bs)")
  case True
  have cache: "fst (pg_chunk_refcount d s') = fst (pg_chunk_refcount d s)"
    if "st_refcount (pgs_base s') = st_refcount (pgs_base s)" for s' d
    using that by (simp add: pg_chunk_refcount_def chunk_refcount_def on_base_def on_refcount_def zoom_def
        with_lock_def split: prod.split)
  have "wp (pg_ingest_chunks E V f (fixed_chunks n bs)) s (\<lambda>r s'.
      r = map (digest_hex (dp_sha E)) (fixed_chunks n bs) \<and> pg_inv E kv ok V up live saved s' \<and>
      pg_contents kv V live s' = (pg_contents kv V live s)(f \<mapsto> bs) \<and>
      kv (st_backend (pgs_base s)) \<subseteq>\<^sub>m kv (st_backend (pgs_base s')) \<and>
      (\<forall>d. fst (pg_chunk_refcount d s') = fst (pg_chunk_refcount d s)))"
    by (rule pg_env.wp_pg_ingest_chunks [OF assms(1-3,5,6) fixed_chunks_nonempty [OF assms(4)] True])
      (use concat_fixed_chunks [OF assms(4)] cache in \<open>blast | simp\<close>)+
  then show ?thesis
    unfolding if_P [OF True] pg_ingest_fixed_eq [OF assms(4)] by (auto elim!: wpE)
next
  case False
  then show ?thesis
    using pg_env.raises_pg_ingest_chunks [OF assms(1,2,5,6) fixed_chunks_nonempty [OF assms(4)] False]
    unfolding pg_ingest_fixed_eq [OF assms(4)] raises_iff by auto
qed

text \<open>A first version is stored; a second one that drops a chunk is refused.\<close>

theorem pg_ingest_outcome_witness:
  "\<exists>s. fst (pg_ingest_fixed sample_deps sample_driver ''f'' [1, 2, 3] 2 pg_fresh) =
       Ok (map (digest_hex sample_sha) [[1, 2], [3]]) \<and>
     pg_contents memory_kv sample_driver fst s = [''f'' \<mapsto> [1, 2, 3]] \<and>
     (\<exists>msg s'. pg_ingest_fixed sample_deps sample_driver ''f'' [1, 2] 2 s =
        (Err (BackendError (''postgres decrement: '' @ msg)), s') \<and>
        pg_contents memory_kv sample_driver fst s' = [''f'' \<mapsto> [1, 2, 3]])"
proof -
  obtain s where s: "sample_inv s" "pg_contents memory_kv sample_driver fst s = [''f'' \<mapsto> [1, 2, 3]]"
      "table_files sample_driver (pg_tables_of fst s) = [(''f'', map (digest_hex sample_sha) [[1, 2], [3]])]"
      "st_codec (pgs_base s) = None" "stored_plain None (memory_kv (st_backend (pgs_base s))) \<subseteq> short"
    by (rule pg_one_file)
  have chunks: "fixed_chunks 2 [1, 2] = [[1, 2]]"
    by (simp add: fixed_chunks_def full_chunks_def rest_bytes_def upt_rec)
  have "inj_on sample_sha (stored_plain None (memory_kv (st_backend (pgs_base s))) \<union> {[1, 2]})"
    by (rule inj_on_subset [OF short_inj]) (use s(5) in auto)
  then have fits: "pg_fits sample_deps memory_kv sample_driver fst s [[1, 2]]"
    by (simp add: pg_fits_def s(3,4))
  have "digest_hex sample_sha [3] \<noteq> digest_hex sample_sha [1, 2]"
    by (simp add: digest_hex_eq_iff sample_sha_def)
  then have lost: "\<not> replaceable sample_deps sample_driver fst s ''f'' [[1, 2]]"
    by (simp add: replaceable_def s(3) old_digests_of_def)
  note first = pg_ingest_outcome [OF sample_pg.pg_env_axioms pg_fresh_inv, of "''f''" 2 "[1, 2, 3]"]
  note second = pg_ingest_outcome [OF sample_pg.pg_env_axioms s(1), of "''f''" 2 "[1, 2]"]
  show ?thesis
    using first second lost fits s(2) by (auto simp: sample_chunks chunks)
qed

text \<open>
  C13.  Delete, metadata in Postgres.  A file can be deleted exactly when every chunk of it is
  also referenced by other files; then the other files keep their bytes and no blob goes.
  Otherwise \<^verbatim>\<open>delete\<close> fails on the constraint \<^verbatim>\<open>count > 0\<close> and everything
  is as before.  Hence the list of chunks to collect is empty after every commit, and no blob is
  ever freed; an unknown file is reported as not found.
\<close>

theorem pg_delete_outcome:
  assumes "pg_env E kv ok valid V up live saved storable reachable" and "pg_inv E kv ok V up live saved s"
    and "storable (Text f)"
  shows "\<exists>s'. pg_inv E kv ok V up live saved s' \<and> st_backend (pgs_base s') = st_backend (pgs_base s) \<and>
    (if pg_contents kv V live s f = None
     then pg_delete E V f s = (Err (NotFound (''file '' @ f)), s') \<and> pg_tables_of live s' = pg_tables_of live s
     else if removable V live s f
     then pg_delete E V f s = (Ok (), s') \<and> pg_contents kv V live s' = (pg_contents kv V live s)(f := None)
     else (\<exists>msg. pg_delete E V f s = (Err (BackendError (''postgres decrement: '' @ msg)), s')) \<and>
          pg_tables_of live s' = pg_tables_of live s \<and> pg_contents kv V live s' = pg_contents kv V live s)"
proof (cases "map_of (table_files V (pg_tables_of live s)) f")
  case None
  have "raises (pg_delete E V f) s (\<lambda>e s'. e = NotFound (''file '' @ f) \<and>
      pg_inv E kv ok V up live saved s' \<and> st_backend (pgs_base s') = st_backend (pgs_base s) \<and>
      pg_tables_of live s' = pg_tables_of live s)"
    by (rule pg_env.raises_pg_delete_missing [OF assms None])
  then show ?thesis
    using None by (auto simp: pg_env.pg_contents_None [OF assms(1,2)] raises_iff)
next
  case (Some ds)
  then have found: "pg_contents kv V live s f \<noteq> None"
    by (simp add: pg_env.pg_contents_None [OF assms(1,2)])
  show ?thesis
  proof (cases "removable V live s f")
    case True
    have "wp (pg_delete E V f) s (\<lambda>_ s'. pg_inv E kv ok V up live saved s' \<and>
        st_backend (pgs_base s') = st_backend (pgs_base s) \<and>
        pg_contents kv V live s' = (pg_contents kv V live s)(f := None))"
      by (rule pg_env.wp_pg_delete [OF assms Some True]) simp
    with True found show ?thesis by (auto simp: wp_iff)
  next
    case False
    from pg_env.raises_pg_delete [OF assms Some False] False found show ?thesis
      by (auto simp: raises_iff)
  qed
qed

text \<open>The only file of a store cannot be deleted.\<close>

theorem pg_delete_outcome_witness:
  "\<exists>s s'. pg_contents memory_kv sample_driver fst s = [''f'' \<mapsto> [1, 2, 3]] \<and>
     (\<exists>msg. pg_delete sample_deps sample_driver ''f'' s = (Err (BackendError (''postgres decrement: '' @ msg)), s')) \<and>
     pg_contents memory_kv sample_driver fst s' = [''f'' \<mapsto> [1, 2, 3]]"
proof -
  obtain s where s: "sample_inv s" "pg_contents memory_kv sample_driver fst s = [''f'' \<mapsto> [1, 2, 3]]"
      "table_files sample_driver (pg_tables_of fst s) = [(''f'', map (digest_hex sample_sha) [[1, 2], [3]])]"
    by (rule pg_one_file)
  have "\<not> removable sample_driver fst s ''f''"
    by (simp add: removable_def s(3) old_digests_of_def) blast
  then show ?thesis
    using pg_delete_outcome [OF sample_pg.pg_env_axioms s(1), of "''f''"] s(2) by auto
qed

text \<open>
  C22.  Round trip.  Any process that opens the backend and the database afterwards reads what
  was committed: every file has its bytes, every other id is not found, and the statistics,
  computed in SQL, are the exact bytes referenced and the exact bytes of the distinct chunks.
\<close>

theorem pg_open_shares_files:
  assumes "pg_env E kv ok valid V up live saved storable reachable" and "pg_inv E kv ok V up live saved s"
    and "st_codec (pgs_base s) = None" and "pg_contents kv V live s [] = None"
    and "ref_bytes (digest_len None (kv (st_backend (pgs_base s)))) (all_refs (table_files V (pg_tables_of live s)))
        < 2 ^ 63"
    and "reachable dsn p" and "live p = pg_tables_of live s"
    and "ok b" and "kv b = kv (st_backend (pgs_base s))"
  shows "\<exists>s' q. open_postgres E V dsn b p = (Ok s', q) \<and> pg_inv E kv ok V up live saved s' \<and>
     pg_contents kv V live s' = pg_contents kv V live s \<and>
     (\<forall>f. storable (Text f) \<longrightarrow> fst (pg_read E V f s') =
        (case pg_contents kv V live s f of None \<Rightarrow> Err (NotFound (''file '' @ f)) | Some bs \<Rightarrow> Ok bs)) \<and>
     fst (pg_stats V s') = Ok
       \<lparr>total_bytes = of_nat (ref_bytes (digest_len None (kv b)) (all_refs (table_files V (live p)))),
        stored_bytes = of_nat (unique_bytes (digest_len None (kv b)) (all_refs (table_files V (live p)))),
        gc_chunks = 0\<rparr>"
proof -
  note I = pg_env.pinvD [OF assms(1,2)]
  have tab: "tables_ok V (digest_len None (kv b)) (live p)"
    using assms(2,3,7,9) by (simp add: pg_inv_def)
  have "wp (open_postgres E V dsn b) p (\<lambda>s' _. pg_inv E kv ok V up live saved s' \<and>
      st_codec (pgs_base s') = None \<and> st_backend (pgs_base s') = b \<and> pg_tables_of live s' = live p)"
    by (rule pg_env.wp_open_postgres [OF assms(1,6,8) _ tab])
      (use assms(3,4,5,7,9) I pg_env.pg_contents_None [OF assms(1,2)] in simp_all)
  then obtain s' q where s': "open_postgres E V dsn b p = (Ok s', q)" "pg_inv E kv ok V up live saved s'"
      "st_codec (pgs_base s') = None" "st_backend (pgs_base s') = b" "pg_tables_of live s' = live p"
    by (auto simp: wp_iff)
  have same: "pg_contents kv V live s' = pg_contents kv V live s"
    by (rule ext) (simp add: pg_contents_def s' assms(3,7,9) cong: option.case_cong)
  moreover have "fst (pg_read E V f s') =
      (case pg_contents kv V live s f of None \<Rightarrow> Err (NotFound (''file '' @ f)) | Some bs \<Rightarrow> Ok bs)"
    if "storable (Text f)" for f
    using pg_env.pg_read_outcome [OF assms(1) s'(2) that] same by simp
  moreover have "fst (pg_stats V s') = Ok
       \<lparr>total_bytes = of_nat (ref_bytes (digest_len None (kv b)) (all_refs (table_files V (live p)))),
        stored_bytes = of_nat (unique_bytes (digest_len None (kv b)) (all_refs (table_files V (live p)))),
        gc_chunks = 0\<rparr>"
    using pg_env.pg_stats_exact [OF assms(1) s'(2)] s'(3-5) assms(5,7,9) by simp
  ultimately show ?thesis using s'(1,2) by blast
qed

theorem pg_open_shares_files_witness:
  "\<exists>(s :: (memory_backend, sample_session) pg_store) s' q. fst (pg_ingest_fixed sample_deps sample_driver ''f'' [1, 2, 3] 2 pg_fresh) = Ok (map (digest_hex sample_sha) [[1, 2], [3]]) \<and>
     open_postgres sample_deps sample_driver ''postgres://local'' (st_backend (pgs_base s)) (pg_tables_of fst s, None) = (Ok s', q) \<and>
     fst (pg_read sample_deps sample_driver ''f'' s') = Ok [1, 2, 3] \<and>
     fst (pg_read sample_deps sample_driver ''g'' s') = Err (NotFound ''file g'')"
proof -
  obtain s where s: "pg_ingest_fixed sample_deps sample_driver ''f'' [1, 2, 3] 2 pg_fresh =
      (Ok (map (digest_hex sample_sha) [[1, 2], [3]]), s)" "sample_inv s"
      "pg_contents memory_kv sample_driver fst s = [''f'' \<mapsto> [1, 2, 3]]"
      "table_files sample_driver (pg_tables_of fst s) = [(''f'', map (digest_hex sample_sha) [[1, 2], [3]])]"
      "st_codec (pgs_base s) = None" "stored_plain None (memory_kv (st_backend (pgs_base s))) \<subseteq> short"
    by (rule pg_one_file)
  have short: "digest_len None (memory_kv (st_backend (pgs_base s))) d \<le> 31" for d
    using s(6)
    by (auto simp: digest_len_def plain_len_def stored_plain_def split: option.split)
  have "ref_bytes (digest_len None (memory_kv (st_backend (pgs_base s))))
      (all_refs (table_files sample_driver (pg_tables_of fst s))) < 2 ^ 63"
    using short [of "digest_hex sample_sha [1, 2]"] short [of "digest_hex sample_sha [3]"]
    by (simp add: s(4) ref_bytes_def)
  then obtain s' q where "open_postgres sample_deps sample_driver ''postgres://local''
        (st_backend (pgs_base s)) (pg_tables_of fst s, None) = (Ok s', q)"
      and "\<And>f. fst (pg_read sample_deps sample_driver f s') =
        (case [''f'' \<mapsto> [1, 2, 3]] f of None \<Rightarrow> Err (NotFound (''file '' @ f)) | Some bs \<Rightarrow> Ok bs)"
    using pg_open_shares_files [OF sample_pg.pg_env_axioms s(2,5), of "''postgres://local''"
        "(pg_tables_of fst s, None)" "st_backend (pgs_base s)"] s(3) sample_pg.pinvD(1) [OF s(2)] by auto
  then have "fst (pg_ingest_fixed sample_deps sample_driver ''f'' [1, 2, 3] 2 pg_fresh) =
        Ok (map (digest_hex sample_sha) [[1, 2], [3]]) \<and>
      open_postgres sample_deps sample_driver ''postgres://local'' (st_backend (pgs_base s)) (pg_tables_of fst s, None) =
        (Ok s', q) \<and>
      fst (pg_read sample_deps sample_driver ''f'' s') = Ok [1, 2, 3] \<and>
      fst (pg_read sample_deps sample_driver ''g'' s') = Err (NotFound ''file g'')"
    using s(1) by simp
  then show ?thesis by blast
qed

text \<open>
  C27.  Equivalence.  The crate built with the feature \<^verbatim>\<open>postgres\<close> treats a store
  without metadata in Postgres exactly as the crate built without it: every operation returns
  the same and changes the base of the store alike, whatever the driver.
\<close>

theorem pg_disabled_same:
  assumes "pgs_pg s = None"
  shows "pg_ingest_fixed E V f bs n s = on_base (ingest_fixed E f bs n) s \<and>
     pg_ingest_cdc E V f bs s = on_base (ingest_cdc E f bs) s \<and>
     pg_ingest_chunks E V f chunks s = on_base (ingest_chunks E f chunks) s \<and>
     pg_read E V f s = on_base (read E f) s \<and>
     pg_file_digests V f s = on_base (file_digests f) s \<and>
     pg_delete E V f s = on_base (delete E f) s \<and>
     pg_stats V s = on_base store_stats s \<and>
     pg_fsck E V repair s = on_base (fsck E repair) s"
proof -
  have digests: "mirrors_off (pg_file_digests V f) (file_digests f)"
    unfolding pg_file_digests_def file_digests_def by (rule mirrors_digests_for_file)
  show ?thesis
    unfolding on_base_zoom
    by (intro conjI mirrorsD [where ok = off] assms mirrors_ingest_fixed mirrors_ingest_cdc mirrors_ingest_chunks
        mirrors_read digests mirrors_delete mirrors_stats mirrors_fsck)
qed

theorem pg_disabled_same_witness:
  "\<exists>r. pg_ingest_fixed sample_deps sample_driver ''f'' [1, 2, 3] 2 \<lparr>pgs_base = empty_store, pgs_pg = None\<rparr> =
     (r, \<lparr>pgs_base = one_file, pgs_pg = None\<rparr>)"
  using pg_disabled_same [of "\<lparr>pgs_base = empty_store, pgs_pg = None\<rparr>" sample_deps sample_driver]
  by (simp add: on_base_def zoom_def one_file_def split: prod.split)

text \<open>
  C28.  Types.  On whatever tables, consistent with the manifests or not, each call on the
  metadata returns a result or an error: the columns it reads have the types it reads them at,
  so \<^verbatim>\<open>row.get\<close> never panics, the client's lock is not poisoned and no transaction is left
  open.  A commit that fails leaves the tables as they were.
\<close>

theorem pg_calls_typed:
  assumes "pg_server V up live saved storable reachable" and "client_ok up saved pg"
    and "storable (Text f)" and "\<forall>d \<in> set ds. storable (Text d)"
    and "\<forall>v. to_value V ds = Inr v \<longrightarrow> storable (Jsonb v)"
    and "\<forall>os. old = Some os \<longrightarrow> (\<forall>d \<in> set os. storable (Text d))"
  shows "returns (commit_ingest V f ds nbytes szs old) pg (\<lambda>_. client_ok up saved)
        (\<lambda>pg'. client_ok up saved pg' \<and> live (guarded pg') = live (guarded pg)) \<and>
     returns (commit_delete V f ds) pg (\<lambda>_. client_ok up saved)
        (\<lambda>pg'. client_ok up saved pg' \<and> live (guarded pg') = live (guarded pg)) \<and>
     returns (manifest_digests V f) pg (\<lambda>_. client_ok up saved) (client_ok up saved) \<and>
     returns (pg_chunk_size V f) pg (\<lambda>_. client_ok up saved) (client_ok up saved) \<and>
     returns (compute_stats V) pg (\<lambda>_. client_ok up saved) (client_ok up saved) \<and>
     returns (list_refcounts V) pg (\<lambda>_. client_ok up saved) (client_ok up saved) \<and>
     returns (pg_load_manifests V) pg (\<lambda>_. client_ok up saved) (client_ok up saved) \<and>
     returns (pg_load_refcounts V) pg (\<lambda>_. client_ok up saved) (client_ok up saved)"
proof -
  note typed = pg_server.returns_commit_ingest [OF assms(1)] pg_server.returns_commit_delete [OF assms(1)]
    pg_server.returns_manifest_digests [OF assms(1)] pg_server.returns_chunk_size [OF assms(1)]
    pg_server.returns_compute_stats [OF assms(1)] pg_server.returns_list_refcounts [OF assms(1)]
    pg_server.returns_load_manifests [OF assms(1)] pg_server.returns_load_refcounts [OF assms(1)]
  show ?thesis
    by (intro conjI typed assms(2-6))
qed

text \<open>Tables with a count and no manifest: a delete of the chunk fails and changes nothing.\<close>

theorem pg_calls_typed_witness:
  "returns (commit_delete sample_driver ''f'' [''d'']) (new_mutex (\<lparr>tb_manifests = [], tb_refcounts = [(''d'', 1, 5)]\<rparr>, None))
     (\<lambda>_. client_ok (\<lambda>_. True) snd)
     (\<lambda>pg'. client_ok (\<lambda>_. True) snd pg' \<and> fst (guarded pg') = \<lparr>tb_manifests = [], tb_refcounts = [(''d'', 1, 5)]\<rparr>)"
  using pg_calls_typed [OF sample_pg.pg_server_axioms, where f = "''f''" and ds = "[''d'']" and old = None and
      pg = "new_mutex (\<lparr>tb_manifests = [], tb_refcounts = [(''d'', 1, 5)]\<rparr>, None)"]
  by (simp add: client_ok_def)

text \<open>
  C29.  Errors.  An ingest under the empty file id is refused, but only by the cache, after the
  transaction has committed: the row is in the database, and from then on
  \<^verbatim>\<open>open_postgres\<close> fails for every process, on any backend, with the same error.
\<close>

theorem pg_empty_file_id_bricks_open:
  assumes "pg_env E kv ok valid V up live saved storable reachable" and "pg_inv E kv ok V up live saved s"
    and "0 < n" and "row_storable E V storable [] (fixed_chunks n bs)"
    and "pg_fits E kv V live s (fixed_chunks n bs)" and "replaceable E V live s [] (fixed_chunks n bs)"
  shows "\<exists>s'. pg_ingest_fixed E V [] bs n s = (Err (InvalidArgument ''file_id cannot be empty''), s') \<and>
     map_of (table_files V (pg_tables_of live s')) [] = Some (map (digest_hex (dp_sha E)) (fixed_chunks n bs)) \<and>
     (\<forall>dsn p b. reachable dsn p \<and> live p = pg_tables_of live s' \<longrightarrow>
        fst (open_postgres E V dsn b p) = Err (InvalidArgument ''file_id cannot be empty''))"
proof -
  obtain s' where s': "pg_ingest_fixed E V [] bs n s = (Err (InvalidArgument ''file_id cannot be empty''), s')"
      "pg_inv E kv ok V up live saved s'"
      "table_files V (pg_tables_of live s') =
        AList.update [] (map (digest_hex (dp_sha E)) (fixed_chunks n bs)) (table_files V (pg_tables_of live s))"
    using pg_env.raises_pg_ingest_empty [OF assms(1,2,4,5) fixed_chunks_nonempty [OF assms(3)] assms(6)]
    unfolding pg_ingest_fixed_eq [OF assms(3)] raises_iff by auto
  have row: "map_of (table_files V (pg_tables_of live s')) [] = Some (map (digest_hex (dp_sha E)) (fixed_chunks n bs))"
    by (simp add: s'(3))
  have tab: "tables_ok V (digest_len (st_codec (pgs_base s')) (kv (st_backend (pgs_base s')))) (pg_tables_of live s')"
    using s'(2) by (simp add: pg_inv_def)
  have "fst (open_postgres E V dsn b p) = Err (InvalidArgument ''file_id cannot be empty'')"
    if "reachable dsn p" "live p = pg_tables_of live s'" for dsn p b
    by (rule pg_env.open_postgres_bricked [OF assms(1) that(1)]) (use that(2) tab row in simp_all)
  then show ?thesis using s'(1) row by blast
qed

theorem pg_empty_file_id_bricks_open_witness:
  "\<exists>s. pg_ingest_fixed sample_deps sample_driver [] [1, 2, 3] 2 pg_fresh =
      (Err (InvalidArgument ''file_id cannot be empty''), s) \<and>
     fst (open_postgres sample_deps sample_driver ''postgres://local'' memory_new (pg_tables_of fst s, None)) =
       Err (InvalidArgument ''file_id cannot be empty'')"
  using pg_empty_file_id_bricks_open [OF sample_pg.pg_env_axioms pg_fresh_inv, of 2 "[1, 2, 3]"]
  by (auto simp: sample_chunks)

end
