(* ===== verification/Crash_Properties.thy ===== *)
theory Crash_Properties
  imports Store_Recovery Sample
begin

text \<open>What survives an operation that is cut short, with witnesses on a process that dies.\<close>

section \<open>A store opened again\<close>

lemma chunk_refcount_eq:
  "\<not> poisoned (st_refcount s) \<Longrightarrow> chunk_refcount d s = (Ok (map_option cr_count (get_ref (guarded (st_refcount s)) d)), s)"
  by (cases s; cases "st_refcount s")
    (simp add: chunk_refcount_def on_refcount_def zoom_def with_lock_def rc_get_def get_ref_def)

lemma covered_refcount:
  assumes "recovered kv ok mv refs m s" and "covers refs N" and "d \<in># N"
  shows "\<exists>k. fst (chunk_refcount d s) = Ok (Some k) \<and> count N d \<le> unat k"
proof -
  have le: "count N d \<le> (case refs d of None \<Rightarrow> 0 | Some r \<Rightarrow> unat (cr_count r))"
    using assms(2) by (simp add: covers_def)
  then obtain r where "refs d = Some r"
    using assms(3) by (cases "refs d") (auto simp: not_in_iff [symmetric])
  then show ?thesis
    using assms(1) le by (auto simp: recovered_def unlocked_def chunk_refcount_eq)
qed

text \<open>The two ways an ingest of a new file can leave the backend.\<close>

lemma reopen_old:
  assumes E: "store_env E kv ok valid" "dp_json E = dp_json F" "dp_sha E = dp_sha F"
    and b: "ok b" "kv b = kvF (st_backend s1)" and inv: "store_inv F kvF okF valid s"
    and left: "left_behind F kvF okF (st_codec s) (kvF (st_backend s))
      (manifest_view (guarded (st_manifest s))) (store_refs s) s1"
  shows "\<exists>s2 b2. open_store E b = (Ok s2, b2) \<and>
    (\<forall>g. fst (read E g (s2\<lparr>st_codec := st_codec s\<rparr>)) =
       (case contents kvF s g of None \<Rightarrow> Err (NotFound (''file '' @ g)) | Some bs \<Rightarrow> Ok bs)) \<and>
    (\<forall>d \<in># store_refs s2. \<exists>k. fst (chunk_refcount d s2) = Ok (Some k) \<and> count (store_refs s2) d \<le> unat k)"
proof -
  note S = store_invD [OF inv]
  let ?mv = "manifest_view (guarded (st_manifest s))"
  have kept: "blobs_kept (kvF (st_backend s)) (kv b)" using left b(2) by (simp add: left_behind_def)
  obtain s2 b2 refs where s2: "open_store E b = (Ok s2, b2)" "recovered kv ok ?mv refs (kv b) s2"
      "covers refs (store_refs s)"
      "\<And>g. fst (read E g (s2\<lparr>st_codec := st_codec s\<rparr>)) = (case ?mv g of None \<Rightarrow> Err (NotFound (''file '' @ g))
         | Some (ds, n) \<Rightarrow> Ok (the (assemble (st_codec s) (kv b) ds)))"
    by (rule store_env.reopen_left [OF E(1) left E(2,3) b]) (use S(4) survivors(3) [OF inv kept] in auto)
  have "fst (read E g (s2\<lparr>st_codec := st_codec s\<rparr>)) =
      (case contents kvF s g of None \<Rightarrow> Err (NotFound (''file '' @ g)) | Some bs \<Rightarrow> Ok bs)" for g
  proof (cases "?mv g")
    case None
    then have "contents kvF s g = None"
      using contents_None_iff [OF inv] manifest_view_digests [OF S(2), of g] by simp
    with None s2(4) show ?thesis by simp
  next
    case (Some x)
    then show ?thesis using s2(4) survivors(1,2) [OF inv kept, of g] by (cases x) auto
  qed
  moreover have "store_refs s2 = store_refs s"
    using s2(2) S(2) by (intro manifest_refs_cong) (auto simp: recovered_def)
  ultimately show ?thesis
    using s2(1) covered_refcount [OF s2(2,3)] by auto
qed

lemma reopen_new:
  assumes E: "store_env E kv ok valid" "dp_json E = dp_json F" "dp_sha E = dp_sha F"
    and b: "ok b" "kv b = kvF (st_backend s1)" and inv: "store_inv F kvF okF valid s"
    and f: "proper_file_id f" "valid (manifest_key f)" "try_get (guarded (st_manifest s)) f = None"
    and left: "left_behind F kvF okF (st_codec s) (kvF (st_backend s))
      ((manifest_view (guarded (st_manifest s)))(f \<mapsto> (map (digest_hex (dp_sha F)) chunks, n)))
      (mset (map (digest_hex (dp_sha F)) chunks) + store_refs s) s1"
    and stored: "\<forall>p \<in> set chunks. blob_plain (st_codec s) (kvF (st_backend s1)) (digest_hex (dp_sha F) p) = Some p"
  shows "\<exists>s2 b2. open_store E b = (Ok s2, b2) \<and>
    (\<forall>g. fst (read E g (s2\<lparr>st_codec := st_codec s\<rparr>)) =
       (case ((contents kvF s)(f \<mapsto> concat chunks)) g of None \<Rightarrow> Err (NotFound (''file '' @ g)) | Some bs \<Rightarrow> Ok bs)) \<and>
    (\<forall>d \<in># store_refs s2. \<exists>k. fst (chunk_refcount d s2) = Ok (Some k) \<and> count (store_refs s2) d \<le> unat k)"
proof -
  note S = store_invD [OF inv]
  let ?dg = "digest_hex (dp_sha F)" and ?mf = "guarded (st_manifest s)"
  let ?mv = "manifest_view ?mf" and ?N = "mset (map (digest_hex (dp_sha F)) chunks) + store_refs s"
  let ?mv' = "?mv(f \<mapsto> (map ?dg chunks, n))" and ?mf' = "snd (manifest_insert f (map ?dg chunks) n ?mf)"
  have f0: "f \<noteq> []" using f(1) by (simp add: proper_file_id_def)
  have kept: "blobs_kept (kvF (st_backend s)) (kv b)" using left b(2) by (simp add: left_behind_def)
  have keys: "valid (manifest_key g)" if "g \<in> dom ?mv'" for g
    using that S(4) f(2) by (cases "g = f") auto
  have cov: "d \<in># ?N" if "?mv' g = Some (ds, k)" "d \<in> set ds" for g ds k d
    using that survivors(3) [OF inv kept, of g ds k d] by (cases "g = f") auto
  obtain s2 b2 refs where s2: "open_store E b = (Ok s2, b2)" "recovered kv ok ?mv' refs (kv b) s2" "covers refs ?N"
      "\<And>g. fst (read E g (s2\<lparr>st_codec := st_codec s\<rparr>)) = (case ?mv' g of None \<Rightarrow> Err (NotFound (''file '' @ g))
         | Some (ds, n) \<Rightarrow> Ok (the (assemble (st_codec s) (kv b) ds)))"
    by (rule store_env.reopen_left [OF E(1) left E(2,3) b]) (erule keys | erule (1) cov | rule that; assumption)+
  have read: "fst (read E g (s2\<lparr>st_codec := st_codec s\<rparr>)) =
      (case ((contents kvF s)(f \<mapsto> concat chunks)) g of None \<Rightarrow> Err (NotFound (''file '' @ g)) | Some bs \<Rightarrow> Ok bs)" for g
  proof (cases "g = f")
    case True
    then show ?thesis
      using s2(4) [of f] assemble_digests [of chunks "st_codec s" "kv b" ?dg] stored b(2) by simp
  next
    case g: False
    show ?thesis
    proof (cases "?mv g")
      case None
      then have "contents kvF s g = None"
        using contents_None_iff [OF inv] manifest_view_digests [OF S(2), of g] by simp
      with None g s2(4) show ?thesis by simp
    next
      case (Some x)
      then show ?thesis using g s2(4) survivors(1,2) [OF inv kept, of g] by (cases x) auto
    qed
  qed
  have "store_refs s2 = all_refs (files ?mf')"
    using s2(2) manifest_insert_preserves [OF S(2)] manifest_view_insert [OF f0, of "map ?dg chunks" n ?mf]
    by (intro manifest_refs_cong) (auto simp: recovered_def)
  also have "\<dots> = ?N"
    using all_refs_update_fresh [of "files ?mf" f "map ?dg chunks"] f(3)
    by (simp add: manifest_insert_Ok(2) [OF f0] try_get_def ac_simps)
  finally show ?thesis
    using s2(1) read covered_refcount [OF s2(2,3)] by auto
qed

section \<open>A sample client that dies\<close>

lemma crash_after_views [simp]:
  "contents (kv \<circ> fst) (crash_after n s) = contents kv s"
  "collision_free (crash_deps E) (kv \<circ> fst) (crash_after n s) chunks = collision_free E kv s chunks"
  "fits (crash_after n s) chunks = fits s chunks"
  "sized_refs (crash_after n s) = sized_refs s"
  by (simp_all add: fun_eq_iff contents_def collision_free_def fits_def sized_refs_def cong: option.case_cong)

interpretation dying: faulty_env "crash_deps sample_deps" "memory_kv \<circ> fst" "memory_ok \<circ> fst" "\<lambda>_. True"
  by (rule store_env.crash_env [OF sample.store_env_axioms])

lemma one_file_sized: "sized_refs one_file"
  unfolding sized_refs_def
proof (intro allI impI)
  fix d r assume r: "get_ref (guarded (st_refcount one_file)) d = Some r"
  note inv = store_invD(5) [OF one_file_inv]
  have "d \<in># store_refs one_file"
    using refs_match_None_iff [OF chunk_invD(5) [OF inv], of d] r by simp
  then obtain p where p: "store_plain memory_kv one_file d = Some p" "cr_size r = len64 p"
    using chunk_inv_member [OF inv] r by (metis option.inject)
  have "d \<in> set (map (digest_hex sample_sha) [[1, 2], [3]])"
    using \<open>d \<in># store_refs one_file\<close> one_file_ingested
    by (auto simp: ingested_def empty_store_def fresh_store_def manifest_new_def)
  then have "p \<in> set [[1, 2], [3]]" using p(1) one_file_plain by auto
  then show "cr_size r \<noteq> 0" using p(2) by auto
qed

section \<open>The properties\<close>

text \<open>
  C20.  Failures.  Whatever calls on the backend fail while a new file is ingested, the disk
  is full, the network is gone or the process dies at any write: the ingest returns the digests
  or an error, it does not panic or hang, and a store opened on what is left, by any client whose
  backend works, reads every file that was there; the new file is there too, or an error was
  reported and it is not.  Every chunk is counted at least as often as files refer to it, so no later
  delete takes it from a file.
\<close>

theorem ingest_survives_failures:
  assumes "faulty_env F kvF okF valid" and "store_inv F kvF okF valid s" and "sized_refs s"
    and "contents kvF s f = None" and "proper_file_id f" and "valid (manifest_key f)" and "0 < n"
    and "collision_free F kvF s (fixed_chunks n bs)" and "fits s (fixed_chunks n bs)"
    and "ingest_fixed F f bs n s = (r, s1)"
    and "store_env E kv ok valid" and "dp_json E = dp_json F" and "dp_sha E = dp_sha F"
    and "ok b" and "kv b = kvF (st_backend s1)"
  shows "(r = Ok (map (digest_hex (dp_sha F)) (fixed_chunks n bs)) \<or> (\<exists>e. r = Err e)) \<and>
    (\<exists>s2 b2 survived. open_store E b = (Ok s2, b2) \<and>
       (survived = contents kvF s \<and> (\<exists>e. r = Err e) \<or> survived = (contents kvF s)(f \<mapsto> bs)) \<and>
       (\<forall>g. fst (read E g (s2\<lparr>st_codec := st_codec s\<rparr>)) =
          (case survived g of None \<Rightarrow> Err (NotFound (''file '' @ g)) | Some bytes \<Rightarrow> Ok bytes)) \<and>
       (\<forall>d \<in># store_refs s2. \<exists>k. fst (chunk_refcount d s2) = Ok (Some k) \<and> count (store_refs s2) d \<le> unat k))"
proof -
  let ?chunks = "fixed_chunks n bs"
  have new: "try_get (guarded (st_manifest s)) f = None"
    using contents_None_iff [OF assms(2)] assms(4) by simp
  note outcome = faulty_env.returns_ingest_new [OF assms(1-3,5,6) new assms(8,9)
      fixed_chunks_nonempty [OF assms(7)] refl refl refl, unfolded returns_iff,
      folded ingest_fixed_eq [OF assms(7)], unfolded assms(10)]
  let ?old = "left_behind F kvF okF (st_codec s) (kvF (st_backend s))
      (manifest_view (guarded (st_manifest s))) (store_refs s) s1"
  let ?dg = "digest_hex (dp_sha F)"
  let ?new = "left_behind F kvF okF (st_codec s) (kvF (st_backend s))
      ((manifest_view (guarded (st_manifest s)))(f \<mapsto> (map ?dg ?chunks, of_nat (length (concat ?chunks)))))
      (mset (map ?dg ?chunks) + store_refs s) s1 \<and>
      (\<forall>p \<in> set ?chunks. blob_plain (st_codec s) (kvF (st_backend s1)) (?dg p) = Some p)"
  have cases: "r = Ok (map ?dg ?chunks) \<and> ?new \<or> (\<exists>e. r = Err e) \<and> (?old \<or> ?new)"
    using outcome by (simp only: prod.inject) blast
  let ?reads = "\<lambda>survived. \<exists>s2 b2. open_store E b = (Ok s2, b2) \<and>
    (\<forall>g. fst (read E g (s2\<lparr>st_codec := st_codec s\<rparr>)) =
       (case survived g of None \<Rightarrow> Err (NotFound (''file '' @ g)) | Some bytes \<Rightarrow> Ok bytes)) \<and>
    (\<forall>d \<in># store_refs s2. \<exists>k. fst (chunk_refcount d s2) = Ok (Some k) \<and> count (store_refs s2) d \<le> unat k)"
  have "?reads (contents kvF s)" if ?old
    using reopen_old [OF assms(11-15,2) that] .
  moreover have "?reads ((contents kvF s)(f \<mapsto> bs))" if ?new
    using reopen_new [OF assms(11-15,2,5,6) new conjunct1 [OF that] conjunct2 [OF that]]
    unfolding concat_fixed_chunks [OF assms(7)] .
  ultimately have "\<exists>survived. (survived = contents kvF s \<and> (\<exists>e. r = Err e) \<or>
      survived = (contents kvF s)(f \<mapsto> bs)) \<and> ?reads survived"
    using cases by blast
  then show ?thesis using cases by blast
qed

text \<open>A process that dies at the fourth write of its second ingest; the first file is read afterwards.\<close>

theorem ingest_survives_failures_witness:
  "\<exists>s1 s2 b2. s1 = snd (ingest_fixed (crash_deps sample_deps) ''g'' [1, 2, 1, 2] 2 (crash_after 4 one_file)) \<and>
     open_store sample_deps (fst (st_backend s1)) = (Ok s2, b2) \<and>
     fst (read sample_deps ''f'' (s2\<lparr>st_codec := None\<rparr>)) = Ok [1, 2, 3]"
proof -
  obtain r s1 where run: "ingest_fixed (crash_deps sample_deps) ''g'' [1, 2, 1, 2] 2 (crash_after 4 one_file) = (r, s1)"
    by fastforce
  have chunks: "set [[1, 2], [1, 2 :: byte]] \<subseteq> short" by simp
  note provisos = one_file_provisos [OF chunks, simplified]
  have new: "try_get (guarded (st_manifest one_file)) ''g'' = None"
    using contents_None_iff [OF one_file_inv, of "''g''"] by (simp add: one_file_contents)
  have "memory_ok (fst (st_backend s1))"
    using dying.returns_ingest_new [OF crash_after_inv [OF one_file_inv, of 4], of "''g''" "[[1, 2], [1, 2]]"]
      run new provisos one_file_sized
    by (auto simp: returns_iff left_behind_def ingest_fixed_eq sample_chunks proper_file_id_def)
  then obtain s2 b2 survived where *: "open_store sample_deps (fst (st_backend s1)) = (Ok s2, b2)"
      "survived = contents memory_kv one_file \<or> survived = (contents memory_kv one_file)(''g'' \<mapsto> [1, 2, 1, 2])"
      "\<forall>g. fst (read sample_deps g (s2\<lparr>st_codec := None\<rparr>)) =
         (case survived g of None \<Rightarrow> Err (NotFound (''file '' @ g)) | Some bytes \<Rightarrow> Ok bytes)"
    using ingest_survives_failures [OF dying.faulty_env_axioms crash_after_inv [OF one_file_inv, of 4], of "''g''" 2
        "[1, 2, 1, 2]" r s1 sample_deps memory_kv memory_ok "fst (st_backend s1)"] run provisos one_file_sized
    by (auto simp: sample_chunks proper_file_id_def one_file_contents one_file_codec sample.store_env_axioms)
  then have "fst (read sample_deps ''f'' (s2\<lparr>st_codec := None\<rparr>)) = Ok [1, 2, 3]"
    by (auto simp: one_file_contents)
  with *(1) run show ?thesis by auto
qed

text \<open>
  C5.  A delete that dies between its first two writes loses the whole store: the record of the file is
  gone, the index still lists it, and from then on \<^verbatim>\<open>open\<close> fails, for every file.
  \<^verbatim>\<open>docs/CONSISTENCY.md\<close> has a crash leave a partial write that \<^verbatim>\<open>fsck\<close>
  can clean up; but \<^verbatim>\<open>fsck\<close> needs an open store.
\<close>

theorem delete_crash_bricks_open:
  assumes "store_env E kv ok valid" and "store_inv E kv ok valid s" and "contents kv s f \<noteq> None"
  shows "\<exists>s1. delete (crash_deps E) f (crash_after 1 s) = (Err (IoError ''process killed''), s1) \<and>
     fst (open_store E (fst (st_backend s1))) = Err (BackendError (''missing manifest key '' @ manifest_key f))"
proof -
  note S = store_invD [OF assms(2)]
  have f: "f \<in> dom (manifest_view (guarded (st_manifest s)))"
    using contents_None_iff [OF assms(2), of f] assms(3) manifest_view_digests [OF S(2), of f] by auto
  from store_env.raises_delete_crash [OF assms(1,2) f] obtain s1
    where s1: "delete (crash_deps E) f (crash_after 1 s) = (Err (IoError ''process killed''), s1)"
      "ok (fst (st_backend s1))" "kv (fst (st_backend s1)) = (kv (st_backend s))(manifest_key f := None)"
    by (auto simp: raises_iff)
  from store_env.load_missing_record [OF assms(1) s1(2) S(3) f s1(3) S(4)] s1(1) show ?thesis
    by (auto simp: raises_iff)
qed

theorem delete_crash_bricks_open_witness:
  "\<exists>s1. delete (crash_deps sample_deps) ''f'' (crash_after 1 one_file) = (Err (IoError ''process killed''), s1) \<and>
     fst (open_store sample_deps (fst (st_backend s1))) = Err (BackendError ''missing manifest key _manifest/f'')"
  using delete_crash_bricks_open [OF sample.store_env_axioms one_file_inv, of "''f''"]
  by (simp add: one_file_contents key_defs)

end
