(* ===== verification/Drivers.thy ===== *)
theory Drivers
  imports Store
begin

unbundle bit_operations_syntax

text \<open>
  The programs of the repository that drive the library:
  \<^verbatim>\<open>core/examples/workload_analysis.rs\<close>, which measures what deduplication saves on
  synthetic workloads, and the two fuzz targets of \<^verbatim>\<open>core/fuzz\<close>.
  \<^verbatim>\<open>expect\<close> panics on an error; what the example prints is a list of lines.
\<close>

definition expecting :: "('s, 'a) act \<Rightarrow> ('s, 'a) act" where [act_defs]:
  "expecting m s = (case m s of (Err e, s') \<Rightarrow> (Panic, s') | r \<Rightarrow> r)"

text \<open>A store opened on a new \<^verbatim>\<open>MemoryBackend\<close>, used by the rest of a function and dropped.\<close>

definition with_memory_store :: "memory_backend deps \<Rightarrow> (memory_backend store, 'a) act \<Rightarrow> 'a res" where
  "with_memory_store E body =
     (case expecting (open_store E) memory_new of (opened, _) \<Rightarrow>
        bind_res opened (\<lambda>store. fst (body store)))"

section \<open>The workloads\<close>

definition build_pool :: "nat \<Rightarrow> nat \<Rightarrow> bytes list" where
  "build_pool pool_chunks chunk_sz =
     map (\<lambda>idx. map (\<lambda>i. of_nat ((idx * 31 + i) mod 251)) [0..<chunk_sz]) [0..<pool_chunks]"

text \<open>An empty pool is a remainder by zero.\<close>

fun assemble_file :: "bytes list \<Rightarrow> nat list \<Rightarrow> bytes res" where
  "assemble_file pool [] = Ok []"
| "assemble_file pool (idx # picks) =
     (if pool = [] then Panic
      else bind_res (assemble_file pool picks) (\<lambda>out. Ok (pool ! (idx mod length pool) @ out)))"

definition savings :: "('b store, f64) act" where
  "savings = seq (expecting store_stats) (\<lambda>st. ret (savings_pct st))"

definition dedup_savings :: "memory_backend deps \<Rightarrow> nat \<Rightarrow> nat \<Rightarrow> nat \<Rightarrow> f64 res" where
  "dedup_savings E nfiles pool_chunks chunk_sz =
     (let pool = build_pool pool_chunks chunk_sz in
      with_memory_store E (
        seq (for_each [0..<nfiles] (\<lambda>file_id.
          if pool_chunks = 0 then lift Panic
          else let picks = [file_id mod pool_chunks, (file_id * 3 + 1) mod pool_chunks,
                            (file_id * 7 + 2) mod pool_chunks];
                   n = 1 + file_id mod 3
               in seq (lift (assemble_file pool (take n picks))) (\<lambda>payload.
                  seq (expecting (ingest E (''file-'' @ show_nat file_id) payload)) (\<lambda>_. ret ())))) (\<lambda>_.
        savings)))"

text \<open>\<^verbatim>\<open>i.wrapping_mul(0x9E37_79B9)\<close> and three of its bytes mixed.\<close>

definition scrambled :: "nat \<Rightarrow> bytes" where
  "scrambled n =
     map (\<lambda>i. let x = of_nat i * 0x9E3779B9 :: u64
              in ucast (drop_bit 24 x XOR drop_bit 16 x XOR drop_bit 8 x)) [0..<n]"

definition prefix_insert_savings :: "memory_backend deps \<Rightarrow> (f64 \<times> f64) res" where
  "prefix_insert_savings E =
     (let base = scrambled (20 * 1024 * 1024); edited = 0xAB # base in
      bind_res (with_memory_store E (
        seq (expecting (ingest E ''base'' base)) (\<lambda>_.
        seq (expecting (ingest E ''edited'' edited)) (\<lambda>_.
        savings)))) (\<lambda>fixed.
      bind_res (with_memory_store E (
        seq (expecting (ingest_cdc E ''base'' base)) (\<lambda>_.
        seq (expecting (ingest_cdc E ''edited'' edited)) (\<lambda>_.
        savings)))) (\<lambda>cdc.
      Ok (fixed, cdc))))"

definition random_binary_savings :: "memory_backend deps \<Rightarrow> nat \<Rightarrow> nat \<Rightarrow> f64 res" where
  "random_binary_savings E nfiles sz =
     with_memory_store E (
       seq (for_each [0..<nfiles] (\<lambda>file_id.
         let payload = map (\<lambda>i. of_nat ((file_id * 17 + i * 13) mod 256)) [0..<sz]
         in seq (expecting (ingest E (''rand-'' @ show_nat file_id) payload)) (\<lambda>_. ret ()))) (\<lambda>_.
       savings))"

text \<open>\<open>0, 1, .., p - 1\<close> over and over.\<close>

definition ramp :: "nat \<Rightarrow> nat \<Rightarrow> bytes" where
  "ramp p n = map (\<lambda>i. of_nat (i mod p)) [0..<n]"

definition version_90_10_savings :: "memory_backend deps \<Rightarrow> f64 res" where
  "version_90_10_savings E =
     (let shared = ramp 200 (18 * 1024 * 1024);
          v1 = shared @ ramp 17 (2 * 1024 * 1024);
          v2 = shared @ ramp 23 (2 * 1024 * 1024)
      in with_memory_store E (
        seq (expecting (ingest E ''v1'' v1)) (\<lambda>_.
        seq (expecting (ingest E ''v2'' v2)) (\<lambda>_.
        savings))))"

section \<open>What the example prints\<close>

definition println :: "string \<Rightarrow> (string list, unit) act" where
  "println line out = (Ok (), out @ [line])"

definition workload_analysis :: "memory_backend deps \<Rightarrow> (string list, unit) act" where
  "workload_analysis E =
     seq (println ''chunkstore workload analysis'') (\<lambda>_.
     seq (println ''----------------------------'') (\<lambda>_.
     seq (lift (dedup_savings E 1000 200 (4 * 1024 * 1024))) (\<lambda>pool.
     seq (println (''dedup pool (200x4MiB, 1000 files): '' @ show_fixed 1 pool @ ''%'')) (\<lambda>_.
     seq (for_each [64 * 1024, 256 * 1024, 1024 * 1024, 4 * 1024 * 1024] (\<lambda>chunk_sz.
       seq (lift (dedup_savings E 200 50 chunk_sz)) (\<lambda>pct.
       println (''chunk size sweep '' @ show_nat chunk_sz @ '' bytes: '' @ show_fixed 1 pct @ ''%'')))) (\<lambda>_.
     seq (lift (random_binary_savings E 50 (4 * 1024 * 1024))) (\<lambda>random.
     seq (println (''random binaries (50 x 4MiB): '' @ show_fixed 1 random @ ''%'')) (\<lambda>_.
     seq (lift (version_90_10_savings E)) (\<lambda>versions.
     seq (println (''versions 90/10: '' @ show_fixed 1 versions @ ''%'')) (\<lambda>_.
     seq (lift (prefix_insert_savings E)) (\<lambda>(fixed, cdc).
     seq (println (''prefix insert 1 byte (fixed 4MiB): '' @ show_fixed 1 fixed @ ''%'')) (\<lambda>_.
     seq (println (''prefix insert 1 byte (CDC): '' @ show_fixed 1 cdc @ ''%'')) (\<lambda>_.
     let base = scrambled (20 * 1024 * 1024); edited = 0xAB # base in
     seq (expecting (lift (chunk_cdc (dp_fastcdc E) base))) (\<lambda>base_chunks.
     seq (expecting (lift (chunk_cdc (dp_fastcdc E) edited))) (\<lambda>edited_chunks.
     println (''prefix insert shared CDC chunks: '' @
       show_nat (length (filter (\<lambda>c. c \<in> set edited_chunks) base_chunks)) @ ''/'' @
       show_nat (length base_chunks))))))))))))))))"

section \<open>The fuzz targets\<close>

text \<open>\<^verbatim>\<open>let _ =\<close> drops a value or an error; a panic passes.\<close>

definition ignoring :: "('s, 'a) act \<Rightarrow> ('s, unit) act" where
  "ignoring m s = (case m s of (Ok a, s') \<Rightarrow> (Ok (), s') | (Err e, s') \<Rightarrow> (Ok (), s')
                   | (Panic, s') \<Rightarrow> (Panic, s') | (Hang, s') \<Rightarrow> (Hang, s'))"

definition fuzz_fixed_chunker :: "bytes \<Rightarrow> unit res" where
  "fuzz_fixed_chunker data =
     (if length data < 2 then Ok ()
      else let chunk_sz = unat (data ! 0) mod 64 + 1 in
        fst (seq (ignoring (feed FixedChunker (drop 1 data))) (\<lambda>_.
             ignoring (finish FixedChunker)) (fixed_chunker_new chunk_sz)))"

definition fuzz_cdc_chunker :: "fastcdc \<Rightarrow> bytes \<Rightarrow> unit res" where
  "fuzz_cdc_chunker fcdc data =
     (let config = \<lparr>min_size = 64, avg_size = 256, max_size = 1024, window_size = 64\<rparr> in
      case cdc_chunker_new config of
        Ok fresh \<Rightarrow> fst (seq (ignoring (feed (CdcChunker fcdc) data)) (\<lambda>_.
                          ignoring (finish (CdcChunker fcdc))) fresh)
      | Err e \<Rightarrow> Ok ()
      | Panic \<Rightarrow> Panic
      | Hang \<Rightarrow> Hang)"

end
