(* ===== verification/Workloads.thy ===== *)
theory Workloads
  imports Drivers Store_Accounts Fs_Store
begin

text \<open>
  What the drivers compute: a store that is only ever given new files holds each distinct chunk
  once, so the percentage a workload reports is a function of the list of its chunks
  (\<open>dedup_pct\<close>), and no \<^verbatim>\<open>expect\<close> on the way panics.
\<close>

section \<open>The savings of a list of chunks\<close>

definition dedup_pct :: "bytes list \<Rightarrow> f64" where
  "dedup_pct chunks =
     savings_pct \<lparr>total_bytes = of_nat (length (concat chunks)),
                  stored_bytes = of_nat (\<Sum>p\<in>set chunks. length p), gc_chunks = 0\<rparr>"

lemma savings_pct_cong:
  "total_bytes s = total_bytes t \<Longrightarrow> stored_bytes s = stored_bytes t \<Longrightarrow> savings_pct s = savings_pct t"
  by (simp add: savings_pct_def)

lemma length_le_concat: "[] \<notin> set xss \<Longrightarrow> length xss \<le> length (concat xss)"
proof (induction xss)
  case (Cons xs xss)
  then show ?case by (cases xs) auto
qed simp

lemma wp_expecting [wp_rules]: "wp (expecting m) s Q = wp m s Q"
  by (auto simp: wp_def expecting_def split: prod.splits res.splits)

section \<open>Stores that are given new files\<close>

text \<open>\<open>chunks\<close> are in, under the files \<open>names\<close>; \<open>rest\<close> still fits.\<close>

definition loaded ::
  "'b deps \<Rightarrow> ('b \<Rightarrow> string \<rightharpoonup> bytes) \<Rightarrow> ('b \<Rightarrow> bool) \<Rightarrow> (string \<Rightarrow> bool) \<Rightarrow> bytes set \<Rightarrow> bytes list \<Rightarrow>
     string list \<Rightarrow> bytes list \<Rightarrow> 'b store \<Rightarrow> bool" where
  "loaded E kv ok valid U rest names chunks s \<longleftrightarrow>
     store_inv E kv ok valid s \<and> within E kv U rest s \<and>
     map fst (files (guarded (st_manifest s))) = names \<and>
     store_refs s = mset (map (digest_hex (dp_sha E)) chunks) \<and>
     (\<forall>p \<in> set chunks. store_plain kv s (digest_hex (dp_sha E) p) = Some p)"

context store_env
begin

lemma wp_ingest_loaded:
  assumes s: "loaded E kv ok valid U (new @ rest) names chunks s" and U: "inj_on (dp_sha E) U" "[] \<notin> U"
    and f: "f \<notin> set names" "proper_file_id f" "valid (manifest_key f)"
    and Q: "\<And>ds s'. loaded E kv ok valid U rest (names @ [f]) (chunks @ new) s' \<Longrightarrow> Q ds s'"
  shows "wp (ingest_chunks E f new) s Q"
proof -
  let ?dg = "digest_hex (dp_sha E)"
  have inv: "store_inv E kv ok valid s" and w: "within E kv U (new @ rest) s"
    and names: "map fst (files (guarded (st_manifest s))) = names"
    and refs: "store_refs s = mset (map ?dg chunks)"
    and plain: "\<And>p. p \<in> set chunks \<Longrightarrow> store_plain kv s (?dg p) = Some p"
    using s by (simp_all add: loaded_def)
  have new: "map_of (files (guarded (st_manifest s))) f = None"
    using f(1) names by (simp add: map_of_eq_None_iff flip: set_map)
  show ?thesis
  proof (rule wp_ingest_chunks [OF inv f(2,3) within_collision_free [OF w U(1)]])
    show "[] \<notin> set new" using w U(2) by (auto simp: within_def)
    fix s' assume i: "ingested E kv ok valid f new s s'"
    have upd: "files (guarded (st_manifest s')) = AList.update f (map ?dg new) (files (guarded (st_manifest s)))"
      using i by (simp add: ingested_def)
    have refs': "store_refs s' = mset (map ?dg (chunks @ new))"
      unfolding upd all_refs_update_fresh [OF new] refs by simp
    have keep: "store_plain kv s' (?dg p) = Some p" if "p \<in> set (chunks @ new)" for p
    proof (cases "p \<in> set new")
      case True
      then show ?thesis using i by (simp add: ingested_def)
    next
      case False
      then have "p \<in> set chunks" using that by simp
      then show ?thesis using i plain refs refs' by (simp add: ingested_def)
    qed
    have "map fst (files (guarded (st_manifest s'))) = names @ [f]"
      unfolding upd using f(1) names by (simp add: AList.update_keys flip: set_map)
    then have "loaded E kv ok valid U rest (names @ [f]) (chunks @ new) s'"
      using i keep refs' within_ingested [OF inv i w] by (simp add: loaded_def ingested_def)
    then show "Q (map ?dg new) s'" by (rule Q)
  qed
qed

text \<open>A loop that ingests one new file per round.\<close>

lemma wp_ingest_each:
  assumes s: "loaded E kv ok valid U (concat (map ch xs) @ rest) names chunks s"
    and U: "inj_on (dp_sha E) U" "[] \<notin> U"
    and act: "\<And>x. x \<in> set xs \<Longrightarrow> act x = ingest_chunks E (name x) (ch x)"
    and ids: "distinct (names @ map name xs)"
      "\<And>x. x \<in> set xs \<Longrightarrow> proper_file_id (name x) \<and> valid (manifest_key (name x))"
    and Q: "\<And>s'. loaded E kv ok valid U rest (names @ map name xs) (chunks @ concat (map ch xs)) s' \<Longrightarrow> Q () s'"
  shows "wp (for_each xs (\<lambda>x. seq (expecting (act x)) (\<lambda>_. ret ()))) s Q"
  using s act ids Q
proof (induction xs arbitrary: names chunks s)
  case Nil
  then show ?case by (simp add: wp_ret)
next
  case (Cons x xs)
  show ?case
    unfolding for_each.simps wp_seq wp_expecting Cons.prems(2) [OF list.set_intros(1)]
  proof (rule wp_ingest_loaded [OF _ U])
    show "loaded E kv ok valid U (ch x @ concat (map ch xs) @ rest) names chunks s"
      using Cons.prems(1) by simp
    fix ds s' assume "loaded E kv ok valid U (concat (map ch xs) @ rest) (names @ [name x]) (chunks @ ch x) s'"
    then show "wp (ret ()) s' (\<lambda>_ s'. wp (for_each xs (\<lambda>x. seq (expecting (act x)) (\<lambda>_. ret ()))) s' Q)"
      unfolding wp_ret by (rule Cons.IH) (use Cons.prems in auto)
  qed (use Cons.prems in auto)
qed

lemma wp_savings:
  assumes "loaded E kv ok valid U rest names chunks s" and Q: "Q (dedup_pct chunks) s"
  shows "wp savings s Q"
proof -
  let ?dg = "digest_hex (dp_sha E)" and ?len = "plain_len (st_codec s) (kv (st_backend s))"
  have inv: "store_inv E kv ok valid s" and refs: "store_refs s = mset (map ?dg chunks)"
    and plain: "\<And>p. p \<in> set chunks \<Longrightarrow> store_plain kv s (?dg p) = Some p"
    using assms(1) by (simp_all add: loaded_def)
  have len: "?len (?dg p) = length p" if "p \<in> set chunks" for p
    using plain [OF that] by (simp add: plain_len_def)
  have "inj_on ?dg (set chunks)" using plain by (metis inj_onI option.inject)
  then have unique: "unique_bytes ?len (store_refs s) = (\<Sum>p\<in>set chunks. length p)"
    unfolding refs unique_bytes_def using len by (simp add: sum.reindex)
  have total: "ref_bytes ?len (store_refs s) = length (concat chunks)"
    unfolding refs by (rule ref_bytes_map) (rule len)
  have "savings_pct (guarded (st_stats s)) = dedup_pct chunks"
    unfolding dedup_pct_def using chunk_invD(8) [OF store_invD(5) [OF inv]]
    by (intro savings_pct_cong) (simp_all add: stats_match_def unique total)
  then show ?thesis
    unfolding savings_def wp_seq wp_expecting using Q store_stats_Ok [OF inv] by (simp add: wp_iff ret_def)
qed

text \<open>The whole of a workload: a new store, some files, the percentage.\<close>

lemma loaded_empty:
  assumes "ok b" and "kv b = Map.empty" and "set rest \<subseteq> U"
    and "length rest < 2 ^ 64" and "length (concat rest) < 2 ^ 64"
  obtains s where "open_store E b = (Ok s, st_backend s)" and "loaded E kv ok valid U rest [] [] s"
proof -
  obtain s where s: "open_store E b = (Ok s, st_backend s)" "store_inv E kv ok valid s"
      "contents kv s = Map.empty" "stored_plain (st_codec s) (kv (st_backend s)) = {}"
      "fits s rest \<longleftrightarrow> length rest < 2 ^ 64 \<and> length (concat rest) < 2 ^ 64"
    by (rule open_empty [OF assms(1,2)]) blast
  have "map_of (files (guarded (st_manifest s))) = Map.empty"
    using contents_None_iff [OF s(2)] s(3) by (simp add: try_get_def fun_eq_iff)
  then have "files (guarded (st_manifest s)) = []" by simp
  then show ?thesis using s assms by (intro that [of s]) (simp_all add: loaded_def within_def)
qed

end

lemma memory_store_measured:
  assumes E: "store_env E memory_kv memory_ok (\<lambda>_. True)"
    and chunks: "[] \<notin> set chunks" "length (concat chunks) < 2 ^ 64"
    and body: "\<And>s. loaded E memory_kv memory_ok (\<lambda>_. True) (set chunks) chunks [] [] s \<Longrightarrow> wp body s (\<lambda>r _. r = x)"
  shows "with_memory_store E body = Ok x"
proof -
  have "length chunks \<le> length (concat chunks)" using chunks(1) by (rule length_le_concat)
  then have "length chunks < 2 ^ 64" using chunks(2) by simp
  then obtain s where s: "open_store E memory_new = (Ok s, st_backend s)"
      "loaded E memory_kv memory_ok (\<lambda>_. True) (set chunks) chunks [] [] s"
    using store_env.loaded_empty [OF E memory_new_ok memory_new_kv subset_refl _ chunks(2)] by blast
  then show ?thesis
    using body [OF s(2)] by (auto simp: with_memory_store_def expecting_def wp_iff)
qed

lemma memory_workload:
  assumes E: "store_env E memory_kv memory_ok (\<lambda>_. True)"
    and sha: "inj_on (dp_sha E) (set (concat (map ch xs)))"
    and chunks: "[] \<notin> set (concat (map ch xs))" "length (concat (concat (map ch xs))) < 2 ^ 64"
    and act: "\<And>x. x \<in> set xs \<Longrightarrow> act x = ingest_chunks E (name x) (ch x)"
    and ids: "distinct (map name xs)" "\<And>x. x \<in> set xs \<Longrightarrow> proper_file_id (name x)"
  shows "with_memory_store E (seq (for_each xs (\<lambda>x. seq (expecting (act x)) (\<lambda>_. ret ()))) (\<lambda>_. savings)) =
           Ok (dedup_pct (concat (map ch xs)))"
proof (rule memory_store_measured [OF E chunks])
  fix s assume s: "loaded E memory_kv memory_ok (\<lambda>_. True) (set (concat (map ch xs))) (concat (map ch xs)) [] [] s"
  show "wp (seq (for_each xs (\<lambda>x. seq (expecting (act x)) (\<lambda>_. ret ()))) (\<lambda>_. savings)) s
      (\<lambda>r _. r = dedup_pct (concat (map ch xs)))"
    unfolding wp_seq
    by (rule store_env.wp_ingest_each [OF E, where rest = "[]", OF _ sha chunks(1) act])
      (use s ids in \<open>auto intro: store_env.wp_savings [OF E]\<close>)
qed

text \<open>Two files, one after the other.\<close>

lemma memory_workload_two:
  assumes "store_env E memory_kv memory_ok (\<lambda>_. True)"
    and "inj_on (dp_sha E) (set (c1 @ c2))" and "[] \<notin> set (c1 @ c2)" and "length (concat (c1 @ c2)) < 2 ^ 64"
    and "m1 = ingest_chunks E f1 c1" and "m2 = ingest_chunks E f2 c2"
    and "f1 \<noteq> f2" and "proper_file_id f1" and "proper_file_id f2"
  shows "with_memory_store E (seq (expecting m1) (\<lambda>_. seq (expecting m2) (\<lambda>_. savings))) = Ok (dedup_pct (c1 @ c2))"
  using memory_workload [OF assms(1), of "\<lambda>x. if x then c1 else c2" "[True, False]"
      "\<lambda>x. if x then m1 else m2" "\<lambda>x. if x then f1 else f2"] assms(2-9)
  by (simp add: seq_assoc)

section \<open>File names\<close>

definition read_digits :: "string \<Rightarrow> nat" where
  "read_digits s = fold (\<lambda>c n. 10 * n + (of_char c - 48)) s 0"

lemma digit_char_value: "n < 10 \<Longrightarrow> of_char (digit_char n) - 48 = n"
proof -
  assume "n < 10"
  then have "n \<in> {0, 1, 2, 3, 4, 5, 6, 7, 8, 9}" by (simp; arith)
  then show ?thesis by (auto simp: digit_char_def)
qed

lemma read_show_nat [simp]: "read_digits (show_nat n) = n"
proof (induction n rule: show_nat.induct)
  case (1 n)
  show ?case
  proof (cases "n < 10")
    case True
    then show ?thesis by (subst show_nat.simps) (simp add: read_digits_def digit_char_value)
  next
    case False
    then show ?thesis using 1 by (subst show_nat.simps) (simp add: read_digits_def digit_char_value)
  qed
qed

lemma show_nat_inj: "show_nat m = show_nat n \<longleftrightarrow> m = n"
  using read_show_nat by metis

lemma numbered_names:
  assumes "hd p \<noteq> CHR ''_''" and "p \<noteq> []"
  shows "distinct (map (\<lambda>i. p @ show_nat i) xs) \<longleftrightarrow> distinct xs" and "proper_file_id (p @ show_nat i)"
  using assms by (cases p; auto simp: distinct_map inj_on_def show_nat_inj proper_file_id_def)+

end
