(* ===== verification/Driver_Properties.thy ===== *)
theory Driver_Properties
  imports Workloads Sample
begin

text \<open>What the example programs compute and that the fuzz targets cannot fail.\<close>

abbreviation default_chunks :: "bytes \<Rightarrow> bytes list" where
  "default_chunks \<equiv> fixed_chunks default_chunk_size"

lemma default_chunks_nonempty [simp]: "[] \<notin> set (default_chunks bs)"
  by (simp add: fixed_chunks_nonempty default_chunk_size_pos)

lemma concat_default_chunks [simp]: "concat (default_chunks bs) = bs"
  by (simp add: concat_fixed_chunks default_chunk_size_pos)

lemma concat_concat_chunks: "concat (concat (map (\<lambda>x. default_chunks (g x)) xs)) = concat (map g xs)"
  by (induction xs) simp_all

lemmas numbered_file_names =
  numbered_names [where p = "''file-''", simplified] numbered_names [where p = "''rand-''", simplified]

section \<open>Files from a pool\<close>

lemma length_build_pool [simp]: "length (build_pool m n) = m"
  by (simp add: build_pool_def)

lemma length_pool_chunk [simp]: "idx < m \<Longrightarrow> length (build_pool m n ! idx) = n"
  by (simp add: build_pool_def)

lemma assemble_file_eq:
  "pool \<noteq> [] \<Longrightarrow> assemble_file pool picks = Ok (concat (map (\<lambda>i. pool ! (i mod length pool)) picks))"
  by (induction picks) simp_all

definition pool_file :: "nat \<Rightarrow> nat \<Rightarrow> nat \<Rightarrow> bytes" where
  "pool_file m n i =
     concat (map ((!) (build_pool m n)) (take (1 + i mod 3) [i mod m, (i * 3 + 1) mod m, (i * 7 + 2) mod m]))"

lemma length_concat_le:
  assumes "\<And>x. x \<in> set xs \<Longrightarrow> length (g x) \<le> k"
  shows "length (concat (map g xs)) \<le> length xs * k"
  using assms by (induction xs) (auto simp: add_mono)

lemma length_pool_file:
  assumes "0 < m"
  shows "length (pool_file m n i) \<le> 3 * n"
proof -
  have "length (pool_file m n i) \<le>
      length (take (1 + i mod 3) [i mod m, (i * 3 + 1) mod m, (i * 7 + 2) mod m]) * n"
    unfolding pool_file_def by (rule length_concat_le) (use assms in \<open>auto dest!: in_set_takeD\<close>)
  also have "\<dots> \<le> 3 * n" by (rule mult_le_mono1) simp
  finally show ?thesis .
qed

lemma dedup_savings_eq:
  assumes "store_env E memory_kv memory_ok (\<lambda>_. True)" and m: "0 < m" and fits: "nfiles * (3 * n) < 2 ^ 64"
    and chunks: "chunks = concat (map (\<lambda>i. default_chunks (pool_file m n i)) [0..<nfiles])"
    and "inj_on (dp_sha E) (set chunks)"
  shows "dedup_savings E nfiles m n = Ok (dedup_pct chunks)"
proof -
  have pool: "build_pool m n \<noteq> []" using m length_build_pool [of m n] by force
  have picks: "map (\<lambda>i. build_pool m n ! (i mod m)) (take k [i mod m, (i * 3 + 1) mod m, (i * 7 + 2) mod m]) =
      map ((!) (build_pool m n)) (take k [i mod m, (i * 3 + 1) mod m, (i * 7 + 2) mod m])" for i k
    by (intro map_cong refl) (use m in \<open>auto dest!: in_set_takeD\<close>)
  have payload: "assemble_file (build_pool m n)
      (take (1 + i mod 3) [i mod m, (i * 3 + 1) mod m, (i * 7 + 2) mod m]) = Ok (pool_file m n i)" for i
    unfolding assemble_file_eq [OF pool] length_build_pool pool_file_def by (simp only: picks)
  have "length (concat (map (pool_file m n) [0..<nfiles])) \<le> nfiles * (3 * n)"
    using length_concat_le [of "[0..<nfiles]" "pool_file m n" "3 * n"] length_pool_file [OF m] by simp
  then have "length (concat chunks) < 2 ^ 64"
    using fits unfolding chunks concat_concat_chunks by simp
  then have "with_memory_store E (seq (for_each [0..<nfiles] (\<lambda>i.
        seq (expecting (ingest E (''file-'' @ show_nat i) (pool_file m n i))) (\<lambda>_. ret ()))) (\<lambda>_. savings)) =
      Ok (dedup_pct chunks)"
    unfolding chunks
    by (intro memory_workload [OF assms(1)]) (use assms(5) in \<open>auto simp: chunks ingest_eq numbered_file_names\<close>)
  then show ?thesis
    using m unfolding dedup_savings_def Let_def payload seq_lift_Ok by simp
qed

section \<open>Pseudo-random files\<close>

definition random_file :: "nat \<Rightarrow> nat \<Rightarrow> bytes" where
  "random_file n i = map (\<lambda>j. of_nat ((i * 17 + j * 13) mod 256)) [0..<n]"

lemma random_binary_savings_eq:
  assumes "store_env E memory_kv memory_ok (\<lambda>_. True)" and fits: "nfiles * n < 2 ^ 64"
    and chunks: "chunks = concat (map (\<lambda>i. default_chunks (random_file n i)) [0..<nfiles])"
    and "inj_on (dp_sha E) (set chunks)"
  shows "random_binary_savings E nfiles n = Ok (dedup_pct chunks)"
proof -
  have "length (concat (map (random_file n) [0..<nfiles])) \<le> nfiles * n"
    using length_concat_le [of "[0..<nfiles]" "random_file n" n] by (simp add: random_file_def)
  then have "length (concat chunks) < 2 ^ 64"
    using fits unfolding chunks concat_concat_chunks by simp
  then show ?thesis
    unfolding chunks random_binary_savings_def Let_def random_file_def [symmetric]
    by (intro memory_workload [OF assms(1)]) (use assms(4) in \<open>auto simp: chunks ingest_eq numbered_file_names\<close>)
qed

section \<open>Two versions of a file\<close>

lemma length_ramp [simp]: "length (ramp p n) = n"
  and nth_ramp [simp]: "i < n \<Longrightarrow> ramp p n ! i = of_nat (i mod p)"
  by (simp_all add: ramp_def)

lemma fixed_chunks_concat:
  assumes "0 < n" and "\<And>c. c \<in> set cs \<Longrightarrow> length c = n"
  shows "fixed_chunks n (concat cs) = cs"
  using assms(2)
proof (induction cs)
  case Nil
  then show ?case by (simp add: fixed_chunks_def full_chunks_def rest_bytes_def)
next
  case (Cons c cs)
  then have "length c = n" by simp
  then have step: "full_chunks n (c @ concat cs) = c # full_chunks n (concat cs)"
      "rest_bytes n (c @ concat cs) = rest_bytes n (concat cs)"
    using full_chunks_step [OF assms(1), of "c @ concat cs"] by simp_all
  show ?case
    using Cons.IH Cons.prems unfolding fixed_chunks_def concat.simps step by simp
qed

text \<open>Five chunks of 4 MiB, of which the first four are those of the other version.\<close>

definition shared_chunk :: "nat \<Rightarrow> bytes" where
  "shared_chunk k = take default_chunk_size (drop (k * default_chunk_size) (ramp 200 (18 * 1024 * 1024)))"

definition last_chunk :: "nat \<Rightarrow> bytes" where
  "last_chunk p = drop (4 * default_chunk_size) (ramp 200 (18 * 1024 * 1024)) @ ramp p (2 * 1024 * 1024)"

definition version_chunks :: "nat \<Rightarrow> bytes list" where
  "version_chunks p = [shared_chunk 0, shared_chunk 1, shared_chunk 2, shared_chunk 3, last_chunk p]"

lemma version_chunks_lengths: "c \<in> set (version_chunks p) \<Longrightarrow> length c = default_chunk_size"
  by (auto simp: version_chunks_def shared_chunk_def last_chunk_def default_chunk_size_def)

lemma concat_version_chunks: "concat (version_chunks p) = ramp 200 (18 * 1024 * 1024) @ ramp p (2 * 1024 * 1024)"
proof -
  have "take n xs @ take n (drop n xs) @ take n (drop (2 * n) xs) @ take n (drop (3 * n) xs) @ drop (4 * n) xs = xs"
    for n and xs :: bytes
    using append_take_drop_id [of n xs] append_take_drop_id [of n "drop n xs"]
      append_take_drop_id [of n "drop (2 * n) xs"] append_take_drop_id [of n "drop (3 * n) xs"]
    by (simp add: drop_drop flip: mult_2)
  from this [of default_chunk_size "ramp 200 (18 * 1024 * 1024)"] show ?thesis
    by (simp add: version_chunks_def shared_chunk_def last_chunk_def)
qed

lemma chunks_of_version: "default_chunks (ramp 200 (18 * 1024 * 1024) @ ramp p (2 * 1024 * 1024)) = version_chunks p"
  unfolding concat_version_chunks [symmetric]
  by (rule fixed_chunks_concat [OF default_chunk_size_pos version_chunks_lengths])

text \<open>The six chunks of the two versions differ in their first byte or in one further on.\<close>

definition probe :: "bytes \<Rightarrow> byte \<times> byte" where
  "probe c = (c ! 0, c ! 2097169)"

definition both_versions :: "bytes list" where
  "both_versions = [shared_chunk 0, shared_chunk 1, shared_chunk 2, shared_chunk 3, last_chunk 17, last_chunk 23]"

lemma probe_versions: "distinct (map probe both_versions)"
  by (simp add: both_versions_def probe_def shared_chunk_def last_chunk_def default_chunk_size_def nth_append)

lemma both_versions_set: "set (version_chunks 17 @ version_chunks 23) = set both_versions"
  by (auto simp: version_chunks_def both_versions_def)

lemma two_fifths:
  "savings_pct \<lparr>total_bytes = 41943040, stored_bytes = 25165824, gc_chunks = 0\<rparr> = 40"
proof -
  have n: "f64_of_u64 16777216 = 16777216" "f64_of_u64 41943040 = 41943040"
    using f64_round_nat [of 16777216] f64_round_nat [of 41943040] by (simp_all add: f64_of_u64_def)
  have "f64_round (2 / 5) = of_int 7205759403792794 * 2 powi (- 2 - 52)"
    by (rule f64_roundI) (simp_all add: power_int_def power_divide)
  then have fifths: "f64_round (2 / 5) = 3602879701896397 / 9007199254740992"
    by (simp add: power_int_def power_divide)
  have "f64_round (3602879701896397 / 9007199254740992 * 100) = of_int 5629499534213120 * 2 powi (5 - 52)"
    by (rule f64_roundI) (simp_all add: power_int_def power_divide)
  then show ?thesis
    by (simp add: savings_pct_def saturating_sub_def n f64_div_def f64_mult_def fifths power_int_def power_divide)
qed

lemma version_pct: "dedup_pct (version_chunks 17 @ version_chunks 23) = 40"
proof -
  have len: "length c = default_chunk_size" if "c \<in> set both_versions" for c
    using that version_chunks_lengths unfolding both_versions_set [symmetric] by auto
  have "(\<Sum>c\<in>set both_versions. length c) = (\<Sum>c\<in>set both_versions. default_chunk_size)"
    by (rule sum.cong) (simp_all add: len)
  also have "\<dots> = length both_versions * default_chunk_size"
    using distinct_card [of both_versions] probe_versions by (simp add: distinct_map)
  also have "\<dots> = 6 * default_chunk_size" by (simp add: both_versions_def)
  finally have "(\<Sum>c\<in>set (version_chunks 17 @ version_chunks 23). length c) = 6 * default_chunk_size"
    unfolding both_versions_set .
  moreover have "length (concat (version_chunks 17 @ version_chunks 23)) = 10 * default_chunk_size"
    by (simp add: concat_version_chunks default_chunk_size_def)
  ultimately have "dedup_pct (version_chunks 17 @ version_chunks 23) =
      savings_pct \<lparr>total_bytes = 41943040, stored_bytes = 25165824, gc_chunks = 0\<rparr>"
    by (simp only: dedup_pct_def) (simp add: default_chunk_size_def)
  also note two_fifths
  finally show ?thesis .
qed

lemma version_savings_eq:
  assumes "store_env E memory_kv memory_ok (\<lambda>_. True)" and "inj_on (dp_sha E) (set both_versions)"
  shows "version_90_10_savings E = Ok 40"
proof -
  have "with_memory_store E (seq (expecting (ingest E ''v1'' (ramp 200 (18 * 1024 * 1024) @ ramp 17 (2 * 1024 * 1024)))) (\<lambda>_.
      seq (expecting (ingest E ''v2'' (ramp 200 (18 * 1024 * 1024) @ ramp 23 (2 * 1024 * 1024)))) (\<lambda>_. savings))) =
      Ok (dedup_pct (version_chunks 17 @ version_chunks 23))"
    unfolding ingest_eq chunks_of_version
  proof (rule memory_workload_two [OF assms(1) _ _ _ refl refl])
    show "inj_on (dp_sha E) (set (version_chunks 17 @ version_chunks 23))"
      unfolding both_versions_set by (rule assms(2))
    show "[] \<notin> set (version_chunks 17 @ version_chunks 23)"
      using version_chunks_lengths default_chunk_size_pos by fastforce
    show "length (concat (version_chunks 17 @ version_chunks 23)) < 2 ^ 64"
      by (simp add: concat_version_chunks)
  qed (simp_all add: proper_file_id_def)
  then show ?thesis by (simp add: version_90_10_savings_def Let_def version_pct)
qed

section \<open>A byte in front\<close>

lemma length_scrambled [simp]: "length (scrambled n) = n"
  by (simp add: scrambled_def)

lemma prefix_insert_savings_eq:
  assumes E: "store_env E memory_kv memory_ok (\<lambda>_. True)" and cdc: "fastcdc_ok (dp_fastcdc E) cdc_config_default"
    and base: "base = scrambled (20 * 1024 * 1024)"
    and cb: "cdc_chunks (dp_fastcdc E) base = Ok cb" and ce: "cdc_chunks (dp_fastcdc E) (0xAB # base) = Ok ce"
    and sha: "inj_on (dp_sha E) (set (default_chunks base @ default_chunks (0xAB # base)))"
      "inj_on (dp_sha E) (set (cb @ ce))"
  shows "prefix_insert_savings E =
           Ok (dedup_pct (default_chunks base @ default_chunks (0xAB # base)), dedup_pct (cb @ ce))"
proof -
  have len: "length base = 20 * 1024 * 1024" by (simp add: base)
  have shape: "concat cb = base" "[] \<notin> set cb" "concat ce = 0xAB # base" "[] \<notin> set ce"
    using cdc_chunks_Ok [OF cdc] cb ce by (metis res.inject)+
  have "with_memory_store E (seq (expecting (ingest E ''base'' base)) (\<lambda>_.
      seq (expecting (ingest E ''edited'' (0xAB # base))) (\<lambda>_. savings))) =
      Ok (dedup_pct (default_chunks base @ default_chunks (0xAB # base)))"
    by (rule memory_workload_two [OF E sha(1) _ _ ingest_eq ingest_eq])
      (simp_all add: len proper_file_id_def)
  moreover have "with_memory_store E (seq (expecting (ingest_cdc E ''base'' base)) (\<lambda>_.
      seq (expecting (ingest_cdc E ''edited'' (0xAB # base))) (\<lambda>_. savings))) = Ok (dedup_pct (cb @ ce))"
    by (rule memory_workload_two [OF E sha(2) _ _ ingest_cdc_eq [OF cb] ingest_cdc_eq [OF ce]])
      (simp_all add: shape len proper_file_id_def)
  ultimately show ?thesis
    by (simp only: prefix_insert_savings_def Let_def base [symmetric] bind_res.simps)
qed

section \<open>The fuzz targets\<close>

lemma fuzz_fixed_chunker_passes: "fuzz_fixed_chunker data = Ok ()"
  by (simp add: fuzz_fixed_chunker_def Let_def seq_def ignoring_def FixedChunker_def fixed_chunker_new_def
      fixed_feed_eq fixed_finish_def ret_def)

lemma fuzz_cdc_chunker_passes:
  assumes "fastcdc_ok fcdc \<lparr>min_size = 64, avg_size = 256, max_size = 1024, window_size = 64\<rparr>"
  shows "fuzz_cdc_chunker fcdc data = Ok ()"
proof (cases "data = []")
  case False
  from chunk_bytes_Ok [OF _ assms False] obtain cs
    where "chunk_bytes fcdc data \<lparr>min_size = 64, avg_size = 256, max_size = 1024, window_size = 64\<rparr> = Ok cs"
    by (auto simp: cdc_config_ok_def)
  then show ?thesis
    by (simp add: fuzz_cdc_chunker_def Let_def cdc_chunker_new_def seq_def ignoring_def CdcChunker_def
        cdc_feed_def cdc_finish_def ret_def False)
qed (simp add: fuzz_cdc_chunker_def Let_def cdc_chunker_new_def seq_def ignoring_def CdcChunker_def
        cdc_feed_def cdc_finish_def ret_def)

section \<open>The chunks of the workloads\<close>

definition pool_chunks_of :: "nat \<Rightarrow> nat \<Rightarrow> nat \<Rightarrow> bytes list" where
  "pool_chunks_of nfiles m n = concat (map (\<lambda>i. default_chunks (pool_file m n i)) [0..<nfiles])"

definition random_chunks_of :: "nat \<Rightarrow> nat \<Rightarrow> bytes list" where
  "random_chunks_of nfiles n = concat (map (\<lambda>i. default_chunks (random_file n i)) [0..<nfiles])"

lemma show_fixed_forty: "show_fixed 1 40 = ''40.0''"
proof -
  have "round_half_even (40 * 10 ^ 1) = 400" using round_half_even_of_int [of 400] by simp
  then show ?thesis by (simp add: show_fixed_def show_nat.simps digit_char_def)
qed

section \<open>The pool of 200 chunks\<close>

lemma pool_picks:
  "take (1 + i mod 3) [i mod m, (i * 3 + 1) mod m, (i * 7 + 2) mod m] =
     i mod m # take (i mod 3) [(i * 3 + 1) mod m, (i * 7 + 2) mod m]"
  by simp

lemma chunks_of_pool_file:
  assumes "0 < m"
  shows "default_chunks (pool_file m default_chunk_size i) = map ((!) (build_pool m default_chunk_size))
           (i mod m # take (i mod 3) [(i * 3 + 1) mod m, (i * 7 + 2) mod m])"
  unfolding pool_file_def pool_picks
  by (rule fixed_chunks_concat [OF default_chunk_size_pos]) (use assms in \<open>auto dest!: in_set_takeD\<close>)

lemma pool_chunk_inj:
  assumes "0 < n" and "m \<le> 251"
  shows "inj_on ((!) (build_pool m n)) {..<m}"
proof (rule inj_on_inverseI [where g = "\<lambda>c. (unat (c ! 0) * 81) mod 251"])
  fix idx assume "idx \<in> {..<m}"
  then have idx: "idx < m" "idx < 251" using assms(2) by simp_all
  have "(idx * 31) mod 251 < 256" by (rule less_trans [OF mod_less_divisor]) simp_all
  then have "unat (build_pool m n ! idx ! 0) = (idx * 31) mod 251"
    using idx(1) assms(1) by (simp add: build_pool_def unat_of_nat take_bit_eq_mod)
  moreover have "((idx * 31) mod 251 * 81) mod 251 = (idx * 31 * 81) mod 251" by (rule mod_mult_left_eq)
  moreover have "idx * 31 * 81 = idx + 251 * (10 * idx)" by simp
  ultimately show "(unat (build_pool m n ! idx ! 0) * 81) mod 251 = idx"
    using idx(2) by (simp only: mod_mult_self2) simp
qed

lemma pool_chunks_set:
  assumes "0 < m" and "m \<le> nfiles"
  shows "set (pool_chunks_of nfiles m default_chunk_size) = (!) (build_pool m default_chunk_size) ` {..<m}"
proof -
  have "(\<Union>i<nfiles. set (i mod m # take (i mod 3) [(i * 3 + 1) mod m, (i * 7 + 2) mod m])) = {..<m}" (is "?L = _")
  proof (intro antisym subsetI)
    fix idx assume "idx \<in> {..<m}"
    with assms(2) show "idx \<in> ?L" by (intro UN_I [of idx]) auto
  qed (use assms(1) in \<open>auto dest!: in_set_takeD\<close>)
  then show ?thesis
    unfolding pool_chunks_of_def chunks_of_pool_file [OF assms(1)]
    by (simp only: set_concat set_map atLeast_upt image_UN [symmetric] image_image)
qed

lemma sum_mod_3: "(\<Sum>i<3 * k. 1 + i mod 3) = (6 * k :: nat)"
proof (induction k)
  case (Suc k)
  have "3 * Suc k = Suc (Suc (Suc (3 * k)))" by simp
  moreover have "Suc (3 * k) mod 3 = 1" "Suc (Suc (3 * k)) mod 3 = 2" by presburger+
  ultimately show ?case using Suc by (simp only: sum.lessThan_Suc) simp
qed simp

lemma pool_chunks_lengths:
  assumes "0 < m" and "c \<in> set (pool_chunks_of nfiles m default_chunk_size)"
  shows "length c = default_chunk_size"
  using assms unfolding pool_chunks_of_def chunks_of_pool_file [OF assms(1)]
  by (auto dest!: in_set_takeD)

lemma length_pool_chunks:
  assumes "0 < m"
  shows "length (pool_chunks_of nfiles m n') = (\<Sum>i<nfiles. length (default_chunks (pool_file m n' i)))"
  by (simp add: pool_chunks_of_def length_concat comp_def interv_sum_list_conv_sum_set_nat atLeast0LessThan)

lemma concat_equal_length:
  "(\<And>c. c \<in> set cs \<Longrightarrow> length c = n) \<Longrightarrow> length (concat cs) = length cs * n"
  by (induction cs) simp_all

text \<open>1000 files from 200 chunks of 4 MiB, the first workload of the report.\<close>

lemma pool_pct:
  "dedup_pct (pool_chunks_of 1000 200 default_chunk_size) =
     savings_pct \<lparr>total_bytes = 8384413696, stored_bytes = 838860800, gc_chunks = 0\<rparr>"
proof -
  let ?chunks = "pool_chunks_of 1000 200 default_chunk_size"
  note lens = pool_chunks_lengths [of 200 _ 1000]
  have "length ?chunks = (\<Sum>i<Suc (3 * 333). 1 + i mod 3)"
    unfolding length_pool_chunks [of 200 1000, simplified] by (intro sum.cong) (simp_all add: chunks_of_pool_file)
  also have "\<dots> = 1999" unfolding sum.lessThan_Suc sum_mod_3 by simp
  finally have total: "length (concat ?chunks) = 1999 * default_chunk_size"
    using concat_equal_length [OF lens] by simp
  have "(\<Sum>c\<in>set ?chunks. length c) = (\<Sum>c\<in>set ?chunks. default_chunk_size)"
    by (rule sum.cong) (simp_all add: lens)
  also have "\<dots> = 200 * default_chunk_size"
    unfolding pool_chunks_set [of 200 1000, simplified]
    using card_image [OF pool_chunk_inj [OF default_chunk_size_pos, of 200]] by simp
  finally show ?thesis
    using total by (simp only: dedup_pct_def) (simp add: default_chunk_size_def)
qed

lemma pool_printed: "show_fixed 1 (dedup_pct (pool_chunks_of 1000 200 default_chunk_size)) = ''90.0''"
proof -
  let ?st = "\<lparr>total_bytes = 8384413696, stored_bytes = 838860800, gc_chunks = 0\<rparr>"
  have "\<bar>savings_pct ?st - 179900 / 1999\<bar> \<le> 179900 / 1999 / 2 ^ 50"
    using savings_pct_accurate(4) [of ?st] by simp
  also have "179900 / 1999 / 2 ^ 50 \<le> (1 / 1000 :: rat)" by simp
  finally have "\<bar>savings_pct ?st * 10 ^ 1 - of_int 900\<bar> < 1 / 2"
    unfolding abs_le_iff abs_less_iff power_one_right of_int_numeral by (elim conjE; intro conjI; linarith)
  from round_half_even_near [OF this] show ?thesis
    unfolding pool_pct by (simp add: show_fixed_def show_nat.simps digit_char_def)
qed

section \<open>The whole report\<close>

text \<open>\<^verbatim>\<open>main\<close> runs to its last line.\<close>

lemma workload_analysis_completes:
  assumes E: "store_env E memory_kv memory_ok (\<lambda>_. True)" and cdc: "fastcdc_ok (dp_fastcdc E) cdc_config_default"
    and base: "base = scrambled (20 * 1024 * 1024)"
    and cb: "cdc_chunks (dp_fastcdc E) base = Ok cb" and ce: "cdc_chunks (dp_fastcdc E) (0xAB # base) = Ok ce"
    and U: "inj_on (dp_sha E) U" "set (pool_chunks_of 1000 200 (4 * 1024 * 1024)) \<subseteq> U"
      "\<And>n. n \<in> {64 * 1024, 256 * 1024, 1024 * 1024, 4 * 1024 * 1024} \<Longrightarrow> set (pool_chunks_of 200 50 n) \<subseteq> U"
      "set (random_chunks_of 50 (4 * 1024 * 1024)) \<subseteq> U" "set both_versions \<subseteq> U"
      "set (default_chunks base @ default_chunks (0xAB # base)) \<subseteq> U" "set (cb @ ce) \<subseteq> U"
  shows "\<exists>lines. workload_analysis E [] = (Ok (), lines) \<and> length lines = 12 \<and>
           lines ! 2 = ''dedup pool (200x4MiB, 1000 files): 90.0%'' \<and> lines ! 8 = ''versions 90/10: 40.0%''"
proof -
  note sha = inj_on_subset [OF U(1)]
  have pool: "dedup_savings E 1000 200 (4 * 1024 * 1024) = Ok (dedup_pct (pool_chunks_of 1000 200 (4 * 1024 * 1024)))"
    by (rule dedup_savings_eq [OF E _ _ pool_chunks_of_def sha [OF U(2)]]) simp_all
  have sweep: "dedup_savings E 200 50 n = Ok (dedup_pct (pool_chunks_of 200 50 n))"
    if "n \<in> {64 * 1024, 256 * 1024, 1024 * 1024, 4 * 1024 * 1024}" for n
    by (rule dedup_savings_eq [OF E _ _ pool_chunks_of_def sha [OF U(3) [OF that]]]) (use that in auto)
  have random: "random_binary_savings E 50 (4 * 1024 * 1024) = Ok (dedup_pct (random_chunks_of 50 (4 * 1024 * 1024)))"
    by (rule random_binary_savings_eq [OF E _ random_chunks_of_def sha [OF U(4)]]) simp
  note versions = version_savings_eq [OF E sha [OF U(5)]]
  note prefix = prefix_insert_savings_eq [OF E cdc base cb ce sha [OF U(6)] sha [OF U(7)]]
  have "length base = 20 * 1024 * 1024" by (simp add: base)
  then have "base \<noteq> []" by auto
  then have cdc_chunk: "chunk_cdc (dp_fastcdc E) base = Ok cb" "chunk_cdc (dp_fastcdc E) (0xAB # base) = Ok ce"
    using cb ce by (simp_all add: cdc_chunks_def)
  have expect: "expecting (lift (Ok a)) = ret a" for a
    by (simp add: fun_eq_iff expecting_def lift_def ret_def)
  show ?thesis
    unfolding workload_analysis_def pool random versions prefix Let_def base [symmetric] cdc_chunk expect
      for_each.simps seq_lift_Ok seq_ret prod.case show_fixed_forty
      pool_printed [unfolded default_chunk_size_def]
    by (simp add: sweep println_def seq_def ret_def)
qed

section \<open>The property\<close>

text \<open>
  C9.  The example programs measure deduplication.  On a store in memory, files assembled from a
  pool of chunks give exactly the percentage of the bytes that repeat an earlier chunk, for every
  number of files and size of the pool, without a panic on any \<^verbatim>\<open>expect\<close>.  For the 1000
  files from 200 chunks of the report this prints 90.0, and the two versions of a file that share
  nine tenths of it give exactly 40.0 in 64-bit floating point (four of the five chunks of 4 MiB),
  the figures of the README.
\<close>

theorem workloads_measure_dedup:
  assumes "store_env E memory_kv memory_ok (\<lambda>_. True)" and "0 < m" and "nfiles * (3 * n) < 2 ^ 64"
    and "inj_on (dp_sha E) (set (pool_chunks_of nfiles m n) \<union> set both_versions)"
  shows "dedup_savings E nfiles m n = Ok (dedup_pct (pool_chunks_of nfiles m n)) \<and>
         show_fixed 1 (dedup_pct (pool_chunks_of 1000 200 default_chunk_size)) = ''90.0'' \<and>
         version_90_10_savings E = Ok 40"
  using pool_printed dedup_savings_eq [OF assms(1-3) pool_chunks_of_def inj_on_subset [OF assms(4)]]
    version_savings_eq [OF assms(1) inj_on_subset [OF assms(4)]] by auto

text \<open>A digest that looks at two bytes tells these chunks apart.\<close>

definition probe_sha :: hash_fun where
  "probe_sha c =
     (if length c < 100 then replicate 32 1 else [c ! 0, c ! 2097169] @ replicate 30 0)"

definition probe_deps :: "memory_backend deps" where
  "probe_deps = sample_deps\<lparr>dp_sha := probe_sha\<rparr>"

lemma probe_env: "store_env probe_deps memory_kv memory_ok (\<lambda>_. True)"
  using memory_listing_env [of probe_deps] sample_json_ok
  by (simp add: probe_deps_def sha_ok_def probe_sha_def listing_env_def)

lemma probe_inj: "inj_on probe_sha (insert [0] (set both_versions))"
proof -
  have len: "100 \<le> length c" if "c \<in> set both_versions" for c
    using that version_chunks_lengths [of c] unfolding both_versions_set [symmetric]
    by (auto simp: default_chunk_size_def)
  have sha: "probe_sha c = [fst (probe c), snd (probe c)] @ replicate 30 0" if "c \<in> set both_versions" for c
    using len [OF that] by (simp add: probe_sha_def probe_def)
  have "inj_on probe_sha (set both_versions)"
  proof (rule inj_onI)
    fix c d assume c: "c \<in> set both_versions" and d: "d \<in> set both_versions" and "probe_sha c = probe_sha d"
    then have "probe c = probe d" by (simp add: sha prod_eq_iff)
    with c d show "c = d" using probe_versions by (auto simp: distinct_map dest: inj_onD)
  qed
  moreover have "probe_sha [0] \<noteq> probe_sha c" if "c \<in> set both_versions" for c
  proof -
    have "probe_sha [0] ! 2 = 1" "probe_sha c ! 2 = 0" unfolding sha [OF that] by (simp_all add: probe_sha_def)
    then show ?thesis by auto
  qed
  ultimately show ?thesis by (auto simp: inj_on_insert)
qed

theorem workloads_measure_dedup_witness:
  "dedup_savings probe_deps 1 1 1 = Ok 0 \<and> version_90_10_savings probe_deps = Ok 40"
proof -
  have chunks: "pool_chunks_of 1 1 1 = [[0]]"
    by (simp add: pool_chunks_of_def pool_file_def build_pool_def default_chunk_size_def
        fixed_chunks_def full_chunks_def rest_bytes_def)
  have "dp_sha probe_deps = probe_sha" by (simp add: probe_deps_def)
  moreover have "dedup_pct [[0]] = 0" by (simp add: dedup_pct_def savings_pct_def saturating_sub_def)
  ultimately show ?thesis
    using workloads_measure_dedup [OF probe_env, of 1 1 1] probe_inj unfolding chunks by simp
qed

end
