(* ===== verification/Store_Readers.thy ===== *)
theory Store_Readers
  imports Store_Accounts Store_Faults
begin

text \<open>
  A second process on the same backend.  It opened the store at some time and works on, with the
  manifests it loaded then, while another process writes (deployment mode 2 of
  \<^verbatim>\<open>docs/CONSISTENCY.md\<close>, one writer and many readers).
\<close>

section \<open>Reading when blobs may be gone\<close>

context store_env
begin

lemma raises_missing_chunk:
  assumes "ok (st_backend s)" and "is_chunk_digest d" and "kv (st_backend s) d = None"
  shows "raises (read_chunk_by_digest E d) s (\<lambda>e s'. e = NotFound (''chunk '' @ d))"
  using read_chunk_missing [OF assms] by (simp add: raises_iff prod_eq_iff)

text \<open>What a read gives when every blob that is there is the right one: the bytes, or the first digest that has none.\<close>

lemma read_present:
  assumes ok: "ok (st_backend s)" and free: "\<not> poisoned (st_manifest s)"
    and ds: "try_get (guarded (st_manifest s)) f = Some ds"
    and dig: "\<And>d. d \<in> set ds \<Longrightarrow> is_chunk_digest d"
    and plain: "\<And>d. d \<in> set ds \<Longrightarrow> kv (st_backend s) d \<noteq> None \<Longrightarrow>
           \<exists>p. blob_plain (st_codec s) (kv (st_backend s)) d = Some p \<and> digest_hex (dp_sha E) p = d"
  shows "fst (read E f s) =
     (case filter (\<lambda>d. kv (st_backend s) d = None) ds of
        [] \<Rightarrow> Ok (the (assemble (st_codec s) (kv (st_backend s)) ds))
      | d # _ \<Rightarrow> Err (NotFound (''chunk '' @ d)))"
proof (cases "filter (\<lambda>d. kv (st_backend s) d = None) ds")
  case Nil
  then have all: "\<exists>p. is_chunk_digest d \<and> blob_plain (st_codec s) (kv (st_backend s)) d = Some p \<and>
      digest_hex (dp_sha E) p = d" if "d \<in> set ds" for d
    using that dig plain by (simp add: filter_empty_conv)
  have "wp (read E f) s (\<lambda>out s'. assemble (st_codec s) (kv (st_backend s)) ds = Some out)"
    by (rule wp_read, rule wp_read_named [OF ok free ds all, where W = "\<lambda>ps w. w = concat ps"])
      (auto simp: vec_write_all_def wp_iff assemble_def)
  then show ?thesis using Nil by (auto simp: wp_iff)
next
  case (Cons d rest)
  then obtain pre post where split: "ds = pre @ d # post" and pre: "\<forall>e \<in> set pre. kv (st_backend s) e \<noteq> None"
      and d: "kv (st_backend s) d = None"
    by (auto simp: filter_eq_Cons_iff)
  let ?step = "\<lambda>digest. seq (on_store (read_chunk_by_digest E digest)) (\<lambda>chunk. on_writer (vec_write_all chunk))"
  have "raises (read_to_writer E vec_write_all f) ([], s) (\<lambda>e _. e = NotFound (''chunk '' @ d))"
    unfolding read_to_writer_def
  proof (rule raises_seq_second)
    have "raises (for_each ds ?step) ([], s) (\<lambda>e _. e = NotFound (''chunk '' @ d))"
      unfolding split for_each_append
    proof (rule raises_seq_second, rule wp_read_loop [where W = "\<lambda>_ _. True", OF ok])
      fix ps and w :: bytes and b assume b: "ok b" "kv b = kv (st_backend s)"
      have "raises (read_chunk_by_digest E d) (s\<lparr>st_backend := b\<rparr>) (\<lambda>e _. e = NotFound (''chunk '' @ d))"
        by (rule raises_missing_chunk) (use b d dig split in simp_all)
      then show "raises (for_each (d # post) ?step) (w, s\<lparr>st_backend := b\<rparr>) (\<lambda>e _. e = NotFound (''chunk '' @ d))"
        unfolding for_each.simps on_store_def by (intro raises_seq_first raises_zoom) simp
    qed (use dig plain pre split in \<open>auto simp: vec_write_all_def wp_iff\<close>)
    then show "wp (on_store (digests_for_file f)) ([], s) (\<lambda>digests ws.
        raises (for_each digests ?step) ws (\<lambda>e _. e = NotFound (''chunk '' @ d)))"
      unfolding wp_on_store wp_digests_for_file using ds free by simp
  qed
  then show ?thesis using Cons by (auto simp: read_def raises_iff)
qed

section \<open>One writer, many readers\<close>

text \<open>The reader's store on whatever consistent state the writer has brought the backend to.\<close>

lemma read_snapshot:
  assumes r: "store_inv E kv ok valid r" and w: "store_inv E kv ok valid w" and codec: "st_codec w = st_codec r"
    and inj: "inj_on (dp_sha E) (stored_plain (st_codec r) (kv (st_backend r)) \<union> stored_plain (st_codec r) (kv (st_backend w)))"
    and ds: "try_get (guarded (st_manifest r)) f = Some ds"
  shows "fst (read E f (r\<lparr>st_backend := st_backend w\<rparr>)) =
     (case filter (\<lambda>d. d \<notin># store_refs w) ds of
        [] \<Rightarrow> Ok (the (contents kv r f)) | d # _ \<Rightarrow> Err (NotFound (''chunk '' @ d)))"
proof -
  note R = store_invD [OF r] and W = store_invD [OF w]
  let ?c = "st_codec r" and ?m = "kv (st_backend w)"
  have dig: "is_chunk_digest d" if "d \<in> set ds" for d
    by (rule store_ref_digest [OF r file_refs [OF ds that]])
  have gone: "?m d = None \<longleftrightarrow> d \<notin># store_refs w" if "d \<in> set ds" for d
    using chunk_inv_present [OF W(5) dig [OF that]] by blast
  have there: "blob_plain ?c ?m d = store_plain kv r d"
    and right: "\<exists>p. blob_plain ?c ?m d = Some p \<and> digest_hex (dp_sha E) p = d"
    if d: "d \<in> set ds" "d \<in># store_refs w" for d
  proof -
    obtain p where p: "blob_plain ?c ?m d = Some p" "digest_hex (dp_sha E) p = d"
      using chunk_inv_member [OF W(5) d(2)] codec by metis
    obtain q where q: "store_plain kv r d = Some q" "digest_hex (dp_sha E) q = d"
      using chunk_inv_member [OF R(5) file_refs [OF ds d(1)]] by metis
    have "p \<in> stored_plain ?c ?m" "q \<in> stored_plain ?c (kv (st_backend r))"
      unfolding store_inv_stored [OF w, unfolded codec] store_inv_stored [OF r]
      using d(2) p(1) q(1) file_refs [OF ds d(1)] by blast+
    moreover have "dp_sha E p = dp_sha E q" using p(2) q(2) by (metis digest_hex_eq_iff)
    ultimately have "p = q" using inj by (auto dest: inj_onD)
    with p q show "blob_plain ?c ?m d = store_plain kv r d"
      and "\<exists>p. blob_plain ?c ?m d = Some p \<and> digest_hex (dp_sha E) p = d" by simp_all
  qed
  have same: "filter (\<lambda>d. ?m d = None) ds = filter (\<lambda>d. d \<notin># store_refs w) ds"
    using gone by (intro filter_cong) auto
  have "fst (read E f (r\<lparr>st_backend := st_backend w\<rparr>)) =
      (case filter (\<lambda>d. ?m d = None) ds of
         [] \<Rightarrow> Ok (the (assemble ?c ?m ds)) | d # _ \<Rightarrow> Err (NotFound (''chunk '' @ d)))"
    by (subst read_present [where ds = ds])
      (use W(1) ds dig right gone chunk_invD(1) [OF R(5)] in \<open>auto simp: unlocked_def cong: list.case_cong\<close>)
  moreover have "assemble ?c ?m ds = contents kv r f" if "filter (\<lambda>d. d \<notin># store_refs w) ds = []"
  proof -
    have "blob_plain ?c ?m d = store_plain kv r d" if "d \<in> set ds" for d
      using there [OF that] that \<open>filter _ ds = []\<close> by (simp add: filter_empty_conv)
    then show ?thesis using assemble_cong [of ds ?c ?m "kv (st_backend r)"] by (simp add: contents_def ds)
  qed
  ultimately show ?thesis unfolding same by (auto split: list.splits)
qed

end

end
