(* ===== verification/Spec2Isabelle.thy ===== *)
theory Spec2Isabelle
  imports Ffi_Properties Py_Properties Thread_Races Pg_Properties Crash_Properties Driver_Properties
    Store_Readers
begin

text \<open>
  A verification development for chunkstore, a content-addressed, deduplicating chunk store
  (\<^verbatim>\<open>src/core\<close>, the Rust crate behind the C and Python bindings).

  The program.  A \<^verbatim>\<open>ChunkStore\<close> splits a file into chunks (fixed-size or
  content-defined), stores each chunk once under the hex SHA-256 digest of its bytes, counts the
  references to it, and records for every file id the list of its digests (the manifest).
  Everything is kept in a \<^verbatim>\<open>ChunkBackend\<close>, a key-value store with five methods: chunk
  blobs under their digest, one JSON record per file under \<^verbatim>\<open>_manifest/<id>\<close>, one per
  chunk under \<^verbatim>\<open>_refcount/<digest>\<close>, and an index of each kind under
  \<^verbatim>\<open>__index__\<close>.  The store keeps the manifests, the counts and the byte statistics in
  memory, each behind a mutex, writes every change through, and reloads them on \<^verbatim>\<open>open\<close>.

  Theories, in the order of the imports, and the code they model:
    \<^item> \<open>Chunk_Prelude\<close>: what the rest shares.  Results (\<open>Ok\<close>, \<open>Err\<close> of the error enum of
      \<^verbatim>\<open>error.rs\<close>, \<open>Panic\<close>, and \<open>Hang\<close> for a call that does not return), actions
      \<open>'s \<Rightarrow> 'a res \<times> 's\<close> composed by \<open>seq\<close> (the \<^verbatim>\<open>?\<close> operator), mutexes that
      a panic poisons, association lists as hash maps, and the weakest precondition \<open>wp\<close> with
      its rules in \<open>wp_rules\<close>, which the component proofs run on.
    \<^item> \<open>Hasher\<close>, \<open>Codec\<close>, \<open>Chunkers\<close>: \<^verbatim>\<open>hasher.rs\<close>, \<^verbatim>\<open>store/codec.rs\<close>,
      \<^verbatim>\<open>chunker/*.rs\<close>.  \<open>Chunkers\<close> proves, in the locales \<open>chunker\<close> and
      \<open>stream_chunker\<close>, that what a chunker emits over a stream is what it emits over the whole
      buffer, and interprets them on both chunkers.
    \<^item> \<open>Backend\<close>, \<open>Fs_Backend\<close>, \<open>Fs_Store\<close>: the trait and \<^verbatim>\<open>MemoryBackend\<close> of
      \<^verbatim>\<open>store/mod.rs\<close> and \<^verbatim>\<open>store/fs_backend.rs\<close>.  A backend meets its
      contract when it is a finite map on the valid keys (locales \<open>kv_backend\<close>,
      \<open>listing_backend\<close>, \<open>store_backend\<close>); both implementations are interpreted there, the file
      system on the keys whose paths do not run through each other (\<open>key_space\<close>, \<open>file_space\<close>).
    \<^item> \<open>F64\<close>: the floating-point numbers of the percentage in the statistics, as rationals rounded to
      53 significant bits.
    \<^item> \<open>Refcount\<close>, \<open>Manifests\<close>, \<open>Store_Stats\<close>, \<open>Persistence\<close>, \<open>Persistence_Laws\<close>: the records
      of \<^verbatim>\<open>store/refcount.rs\<close>, \<^verbatim>\<open>manifest.rs\<close>, \<^verbatim>\<open>stats.rs\<close>
      and their encoding of \<^verbatim>\<open>persistence.rs\<close>; the abstract views \<open>disk_refs\<close> and
      \<open>disk_manifests\<close> of a backend and what each load, save and remove does to them.
    \<^item> \<open>Store\<close>: every method of \<^verbatim>\<open>ChunkStore\<close> and \<^verbatim>\<open>IngestSession\<close>,
      lock by lock in the order of the code, and \<^verbatim>\<open>fsck.rs\<close>.
    \<^item> \<open>Store_Inv\<close>, \<open>Store_Steps\<close>, \<open>Store_Ops\<close>, \<open>Store_Ingest\<close>, \<open>Store_Open\<close>, \<open>Store_Fsck\<close>: the
      invariant \<open>store_inv\<close>, which ties the in-memory counts, the records on the backend, the
      blobs and the statistics together through the multiset of references of the manifests, and
      the functional behaviour of each operation over it (locale \<open>store_env\<close>).
    \<^item> \<open>Store_Trace\<close>: sequences of operations against a finite map from file ids to bytes.
    \<^item> \<open>Store_Faults\<close>, \<open>Store_Accounts\<close>: corrupted and missing blobs, file ids that break the
      layout, and the byte accounts.
    \<^item> \<open>Store_Live\<close>: the chunks each file was last stored as, a function of the operations alone,
      and the counts, blobs and byte totals of a store that starts on an empty backend as functions
      of it.  C11, C12.
    \<^item> \<open>Store_Threads\<close>, \<open>Thread_Properties\<close>, \<open>Thread_Races\<close>: pools of threads that interleave between
      the steps of \<open>store_chunk\<close> and \<open>release_digests\<close>, as a step relation: a step is what a mutex
      guards, or one access to the backend outside every mutex.  A thread alone is the sequential
      function, the invariant of pools that only store is proved by induction over the runs (locale
      \<open>chunk_pool\<close>), and two schedules that lose data are exhibited.  C39, C40, and \<open>index_race\<close>: two
      releases that interleave on the index of the counts leave a backend that does not open.
    \<^item> \<open>Pg_Sql\<close>, \<open>Pg_Meta\<close>, \<open>Pg_Store\<close>: the feature \<^verbatim>\<open>postgres\<close>.  The two tables of
      \<^verbatim>\<open>store/postgres_meta.rs\<close> with their constraints, the statements it sends and their
      meaning on the tables; every method of \<^verbatim>\<open>PostgresMetadata\<close> over a driver; and the
      methods of \<^verbatim>\<open>ChunkStore\<close> with the branch the feature adds.
    \<^item> \<open>Pg_Laws\<close>, \<open>Pg_Txn\<close>, \<open>Pg_Types\<close>: the contract of the server (locale \<open>pg_server\<close>); what the two
      transactions do to tables in which the counts match the manifests, and that no call panics on
      any tables.
    \<^item> \<open>Pg_Off\<close>, \<open>Pg_Blobs\<close>, \<open>Pg_Ops\<close>, \<open>Pg_Open\<close>, \<open>Pg_Properties\<close>: a store without metadata in
      Postgres is the store of theory \<open>Store\<close> (locale \<open>state_part\<close>); the invariant \<open>pg_inv\<close>, which ties
      the tables to the blobs, and ingest, read, delete, statistics and opening over it (locale
      \<open>pg_env\<close>, which extends \<open>store_env\<close> and \<open>pg_server\<close>).  C8, C13, C22, C27, C28, C29.
    \<^item> \<open>Backend_Faults\<close>, \<open>Store_Crash\<close>, \<open>Store_Recovery\<close>, \<open>Crash_Properties\<close>: operations that are cut
      short.  A backend any of whose calls may fail (locale \<open>faulty_backend\<close>; one that fails every write
      after the first n is a process that dies there, \<open>crashing\<close>), what each persistence routine
      then leaves, what an interrupted ingest leaves (locale \<open>faulty_env\<close>), and what \<^verbatim>\<open>open\<close>
      makes of it.  C5, C20.
    \<^item> \<open>Store_Readers\<close>: a process that reads, with the manifests it loaded, a backend that another process
      writes.  C32.
    \<^item> \<open>Drivers\<close>, \<open>Workloads\<close>, \<open>Driver_Properties\<close>: the example program
      \<^verbatim>\<open>core/examples/workload_analysis.rs\<close> and the fuzz targets; stores that are given new
      files only, and the percentage they report as a function of the chunks.  C9.
    \<^item> \<open>Std_Io\<close>: what the bindings use of the Rust library: \<^verbatim>\<open>write_all\<close> over partial and
      interrupted writes, vectors with their capacity, C strings, UTF-8.
    \<^item> \<open>Ffi_Memory\<close>, \<open>Ffi\<close>: the C API of \<^verbatim>\<open>ffi/store_ffi.rs\<close> and \<^verbatim>\<open>ffi/types.rs\<close>.
      A process has the caller's world, a heap of the buffers and strings that cross the boundary
      (with a flag for undefined behaviour), the file system, and the stores behind handles; every
      extern function is an action on it.
    \<^item> \<open>Ffi_Callbacks\<close>, \<open>Ffi_Client\<close>, \<open>Ffi_Sessions\<close>, \<open>Ffi_Reads\<close>, \<open>Ffi_Properties\<close>: the contract of
      the caller's callbacks and that \<^verbatim>\<open>CallbackBackend\<close> then is a lawful backend; a client that
      calls, reads the results and frees the strings (locale \<open>c_handle\<close>, which both kinds of handle
      satisfy); the buffers of \<^verbatim>\<open>chunkstore_read\<close>.  C30 to C34.
    \<^item> \<open>Py_Bindings\<close>, \<open>Py_Sessions\<close>, \<open>Py_Streams\<close>, \<open>Py_Properties\<close>: the Python module of
      \<^verbatim>\<open>python/src/lib.rs\<close>.  Python values as far as the bindings look at them, an object as its
      method calls on a state, the backend, reader and writer adapters, and the handle over its
      three kinds of store (locale \<open>py_handle\<close>).  C35 to C37.
    \<^item> \<open>Sample\<close>, \<open>Sample_Ffi\<close>, \<open>Sample_Py\<close>, \<open>Sample_Pg\<close>: concrete instances on which the hypotheses of the
      theorems hold.

  The abstract state of a store is \<open>contents\<close>, the bytes of every file: the concatenation of the
  decoded blobs its manifest lists.  The main results are refinements of finite maps: C1 for the
  store on any lawful backend, C23 for the whole stack from \<^verbatim>\<open>FsBackend::new\<close> on, C30,
  C31 and C35 for what a C and a Python program see.

  Parameters, code that is not in the repository: SHA-256 (\<open>dp_sha\<close>, 32 bytes; where sharing of
  chunks matters it does not collide on the chunks at hand), serde_json (\<open>dp_json\<close>, decodes what
  it encoded; \<open>json_typed\<close> where a record is read as a list), the fastcdc crate (\<open>dp_fastcdc\<close>, cut
  points that cover the buffer and obey the sizes), a codec supplied by the user, and the
  \<^verbatim>\<open>postgres\<close> crate with its server and serde_json's values (\<open>pg_driver\<close>, which runs each
  statement as its \<open>meaning\<close>, refuses rows against a constraint and undoes a transaction that is
  not committed).  The file system
  is a map from paths to files and directories with the POSIX behaviour of the calls the backend
  makes, without symbolic links and device errors, and no name is refused for its length or a NUL byte.  The callbacks of a C program
  and the objects of a Python program are arguments with a stated contract (\<open>callbacks_ok\<close>,
  \<open>py_object_ok\<close>); a reader or writer they pass has a state of its own.

  Bounds.  Counters are 64-bit words and wrap as in a release build; theorems on statistics assume
  the totals stay below \<open>2 ^ 64\<close> (\<open>fits\<close>, \<open>within\<close>).  The two loops that need not end are
  \<open>fixed_feed_loop\<close> (chunk size 0, \<open>zero_chunk_size_refused\<close>) and \<open>read_loop\<close> (a reader that never ends), partial functions
  whose undefined value is the result \<open>Hang\<close>; they are shown to end for a positive size and a reader
  that delivers its data.  The directory walk \<open>collect_keys\<close> has fuel, the depth of the tree plus
  two, which \<open>collect_keys_eq\<close> shows to suffice.

  In \<open>Std_Io\<close>, \<open>write_all_loop\<close> is partial too (a writer that stays interrupted); it ends for a
  writer whose patience shrinks (\<open>write_all_progresses\<close>).

  Not modelled: writes that a crash leaves half done (a \<^verbatim>\<open>put\<close> or \<^verbatim>\<open>delete\<close> of
  a backend happens or fails), interleavings within what one mutex guards (so the index that \<^verbatim>\<open>store_chunk\<close> writes
  under the refcount mutex is not interleaved with a release), sessions of
  other processes between the statements of one call on Postgres and a server that goes away, the
  \<^verbatim>\<open>Debug\<close> renderings, the benchmarks, \<^verbatim>\<open>flush\<close> of a Python writer (nothing calls it), the argument conversions PyO3 generates, and threads inside the C and Python bindings.
\<close>

section \<open>The store as a finite map\<close>

text \<open>
  C1.  Refinement.  Any sequence of ingests (fixed-size or content-defined), reads, deletes,
  consistency checks and restarts on a \<open>ChunkStore\<close> gives, call by call, the results of the
  same sequence on a finite map from file ids to bytes, and leaves the store consistent and
  holding exactly the files of the map.  It holds on every backend that meets the contract of
  \<open>kv_backend\<close> and can list its keys, for chunks on which SHA-256 does not collide, file ids
  that are neither empty nor \<^verbatim>\<open>__index__\<close>, and totals below \<open>2 ^ 64\<close>.
\<close>

theorem store_refines_map:
  assumes "listing_env E kv ok valid" and "store_inv E kv ok valid s"
    and "inj_on (dp_sha E) U" and "[] \<notin> U"
    and "within E kv U (concat (map (op_chunks (dp_fastcdc E)) ops)) s"
    and "list_all (op_file_ok valid) ops" and "fastcdc_ok (dp_fastcdc E) cdc_config_default"
  shows "fst (run_ops E ops s) = fst (spec_ops (dp_sha E) (dp_fastcdc E) ops (contents kv s)) \<and>
         contents kv (snd (run_ops E ops s)) =
           snd (spec_ops (dp_sha E) (dp_fastcdc E) ops (contents kv s)) \<and>
         store_inv E kv ok valid (snd (run_ops E ops s))"
proof -
  have "related E kv ok valid U (concat (map (op_chunks (dp_fastcdc E)) ops)) s (contents kv s)"
    using assms(2,5) by (simp add: related_def)
  from listing_env.run_ops_refines [OF assms(1) this assms(3,4,6,7)] show ?thesis
    by (auto simp: related_def)
qed

theorem store_refines_map_witness:
  "fst (run_ops sample_deps sample_ops empty_store) = sample_outcomes"
  using store_refines_map [OF sample.listing_env_axioms empty_store_inv, of short sample_ops]
    sample_ops_provisos short_inj sample_ops_spec by simp

section \<open>Ingest\<close>

text \<open>
  C2.  \<open>ingest_fixed\<close> (and so \<open>ingest\<close>, with the default size) of \<open>data\<close> as \<open>f\<close> succeeds, returns
  the digests of the consecutive chunks, makes \<open>data\<close> the contents of \<open>f\<close>, changes no other
  file, and leaves references, records, blobs and statistics consistent, whether \<open>f\<close> is new or
  replaces an older version.
\<close>

theorem ingest_fixed_correct:
  assumes "store_env E kv ok valid" and "store_inv E kv ok valid s"
    and "proper_file_id f" and "valid (manifest_key f)" and "0 < n"
    and "collision_free E kv s (fixed_chunks n data)" and "fits s (fixed_chunks n data)"
  shows "\<exists>s'. ingest_fixed E f data n s =
                (Ok (map (digest_hex (dp_sha E)) (fixed_chunks n data)), s') \<and>
              store_inv E kv ok valid s' \<and> contents kv s' = (contents kv s)(f \<mapsto> data)"
proof -
  have "wp (ingest_chunks E f (fixed_chunks n data)) s (\<lambda>ds s'.
      ds = map (digest_hex (dp_sha E)) (fixed_chunks n data) \<and>
      ingested E kv ok valid f (fixed_chunks n data) s s')"
    by (rule store_env.wp_ingest_chunks [OF assms(1-4,6,7) fixed_chunks_nonempty [OF assms(5)]]) simp
  then show ?thesis
    using assms(5) by (auto simp: wp_iff ingest_fixed_eq ingested_def concat_fixed_chunks)
qed

theorem ingest_fixed_correct_witness:
  "\<exists>s'. ingest_fixed sample_deps ''f'' [1, 2, 1, 2] 2 one_file =
           (Ok (map (digest_hex sample_sha) [[1, 2], [1, 2]]), s') \<and>
         contents memory_kv s' ''f'' = Some [1, 2, 1, 2]"
proof -
  have "within sample_deps memory_kv short (fixed_chunks 2 [1, 2, 1, 2] @ []) one_file"
    by (rule one_file_within) (simp_all add: sample_chunks)
  then have "collision_free sample_deps memory_kv one_file (fixed_chunks 2 [1, 2, 1, 2])"
      "fits one_file (fixed_chunks 2 [1, 2, 1, 2])"
    by (rule within_collision_free; simp add: short_inj)+
  then show ?thesis
    using ingest_fixed_correct [OF sample.store_env_axioms one_file_inv, of "''f''" 2 "[1, 2, 1, 2]"]
    by (auto simp: proper_file_id_def sample_chunks)
qed

text \<open>
  C3.  \<open>ingest_cdc\<close>: the same for content-defined chunking with the default sizes, for every
  cut-point finder that meets FastCDC's documented contract; the chunks it returns digests of
  concatenate to the data, are at most 8 MiB, and all but the last at least 256 KiB.
\<close>

theorem ingest_cdc_correct:
  assumes "store_env E kv ok valid" and "store_inv E kv ok valid s"
    and "proper_file_id f" and "valid (manifest_key f)"
    and "fastcdc_ok (dp_fastcdc E) cdc_config_default" and "cdc_chunks (dp_fastcdc E) data = Ok chunks"
    and "collision_free E kv s chunks" and "fits s chunks"
  shows "concat chunks = data \<and> (\<forall>c \<in> set chunks. c \<noteq> [] \<and> length c \<le> 8 * 1024 * 1024) \<and>
         (\<forall>c \<in> set (butlast chunks). 256 * 1024 \<le> length c) \<and>
         (\<exists>s'. ingest_cdc E f data s = (Ok (map (digest_hex (dp_sha E)) chunks), s') \<and>
               store_inv E kv ok valid s' \<and> contents kv s' = (contents kv s)(f \<mapsto> data))"
proof -
  have shape: "concat chunks = data" "[] \<notin> set chunks" "\<forall>c \<in> set chunks. length c \<le> 8 * 1024 * 1024"
      "\<forall>c \<in> set (butlast chunks). 256 * 1024 \<le> length c"
    using cdc_chunks_Ok [OF assms(5), of data] assms(6) by auto
  have "wp (ingest_chunks E f chunks) s (\<lambda>ds s'. ds = map (digest_hex (dp_sha E)) chunks \<and>
      ingested E kv ok valid f chunks s s')"
    by (rule store_env.wp_ingest_chunks [OF assms(1-4,7,8) shape(2)]) simp
  then show ?thesis
    using shape by (auto simp: wp_iff ingest_cdc_eq [OF assms(6)] ingested_def)
qed

theorem ingest_cdc_correct_witness:
  "\<exists>s'. ingest_cdc sample_deps ''f'' [1, 2] empty_store = (Ok [digest_hex sample_sha [1, 2]], s') \<and>
         contents memory_kv s' = [''f'' \<mapsto> [1, 2]]"
proof -
  have chunks: "cdc_chunks (dp_fastcdc sample_deps) [1, 2] = Ok [[1, 2]]"
    by (simp add: cdc_chunks_def chunk_cdc_def chunk_bytes_def cdc_config_default_def
        sample_fastcdc_def slice_def)
  show ?thesis
    using ingest_cdc_correct [OF sample.store_env_axioms empty_store_inv _ _ _ chunks, of "''f''"]
    by (auto simp: proper_file_id_def empty_store_collision_free sample_fastcdc_ok cdc_defaults_ok)
qed

text \<open>
  C4.  Streaming is buffering.  Reading the data from a reader, in whatever pieces it comes,
  gives the same result and the same store as \<open>ingest_fixed\<close> on the whole buffer: the same
  digests, or the same error at the same chunk.
\<close>

theorem ingest_reader_fixed_buffered:
  assumes "0 < n" and "delivers rd r data r'"
  shows "fst (ingest_reader_fixed E f rd n (r, s)) = fst (ingest_fixed E f data n s) \<and>
         snd (snd (ingest_reader_fixed E f rd n (r, s))) = snd (ingest_fixed E f data n s)"
  using ingest_reader_fixed_eq [OF assms, of E f s] by auto

theorem ingest_reader_fixed_buffered_witness:
  "fst (ingest_reader_fixed sample_deps ''f'' cursor_read 2 ([1, 2, 3], empty_store)) =
     fst (ingest_fixed sample_deps ''f'' [1, 2, 3] 2 empty_store)"
  using ingest_reader_fixed_buffered [OF _ cursor_delivers, of 2 sample_deps "''f''" "[1, 2, 3]" empty_store]
  by simp

text \<open>
  The same for content-defined chunking, which buffers the whole stream before it cuts, and
  for \<open>ingest_path_cdc\<close>, which opens the path and streams it.
\<close>

theorem ingest_reader_cdc_buffered:
  assumes "fastcdc_ok (dp_fastcdc E) cdc_config_default" and "delivers rd r data r'"
    and "open_file path = Ok r"
  shows "fst (ingest_reader_cdc E f rd (r, s)) = fst (ingest_cdc E f data s) \<and>
         snd (snd (ingest_reader_cdc E f rd (r, s))) = snd (ingest_cdc E f data s) \<and>
         ingest_path_cdc E open_file rd f path s = ingest_cdc E f data s"
  using ingest_reader_cdc_eq [OF assms(1,2), of f s]
    ingest_path_cdc_eq [where open_file = open_file, OF assms(3,2,1), of f s] by auto

theorem ingest_reader_cdc_buffered_witness:
  "ingest_path_cdc sample_deps (\<lambda>p. Ok [1, 2, 3]) cursor_read ''f'' ''/tmp/f'' empty_store =
     ingest_cdc sample_deps ''f'' [1, 2, 3] empty_store"
  using ingest_reader_cdc_buffered [OF _ cursor_delivers, of sample_deps "\<lambda>p. Ok [1, 2, 3]" "''/tmp/f''"]
  by (simp add: sample_fastcdc_ok cdc_defaults_ok)

section \<open>Read and delete\<close>

text \<open>
  C6.  \<open>read\<close> of a file returns its bytes; of an unknown file, \<open>NotFound\<close>.  The store stays
  consistent and its backend unchanged.
\<close>

theorem read_correct:
  assumes "store_env E kv ok valid" and "store_inv E kv ok valid s"
  shows "\<exists>s'. read E f s =
                (case contents kv s f of None \<Rightarrow> Err (NotFound (''file '' @ f)) | Some data \<Rightarrow> Ok data, s') \<and>
              store_inv E kv ok valid s' \<and> kv (st_backend s') = kv (st_backend s)"
proof (cases "try_get (guarded (st_manifest s)) f")
  case None
  have "\<not> poisoned (st_manifest s)"
    using chunk_invD(1) [OF store_invD(5) [OF assms(2)]] by (simp add: unlocked_def)
  then show ?thesis
    using read_missing [OF None] contents_None_iff [OF assms(2), of f] None assms(2) by simp
next
  case (Some ds)
  have "wp (read E f) s (\<lambda>out s'. contents kv s f = Some out \<and> store_inv E kv ok valid s' \<and>
      kv (st_backend s') = kv (st_backend s))"
    by (rule store_env.wp_read_file [OF assms Some]) (use same_map_keeps [OF assms(2)] in simp)
  then show ?thesis by (auto simp: wp_iff)
qed

theorem read_correct_witness:
  "fst (read sample_deps ''f'' one_file) = Ok [1, 2, 3] \<and>
   fst (read sample_deps ''g'' one_file) = Err (NotFound ''file g'')"
  using read_correct [OF sample.store_env_axioms one_file_inv, of "''f''"]
    read_correct [OF sample.store_env_axioms one_file_inv, of "''g''"]
  by (auto simp: one_file_contents)

text \<open>
  C7.  \<open>delete\<close> of a file removes it and nothing else.  A chunk's blob survives exactly when
  another file refers to it; each blob that goes is counted once in \<open>gc_chunks\<close>, which
  saturates.  Deleting an unknown file is \<open>NotFound\<close> and changes nothing.
\<close>

theorem delete_correct:
  assumes "store_env E kv ok valid" and "store_inv E kv ok valid s"
    and "try_get (guarded (st_manifest s)) f = Some ds"
  shows "\<exists>s'. delete E f s = (Ok (), s') \<and> store_inv E kv ok valid s' \<and>
              contents kv s' = (contents kv s)(f := None) \<and>
              (\<forall>d \<in> set ds. kv (st_backend s') d = None \<longleftrightarrow> d \<notin># store_refs s') \<and>
              store_refs s = mset ds + store_refs s' \<and>
              unat (gc_chunks (guarded (st_stats s'))) =
                min (unat (gc_chunks (guarded (st_stats s))) +
                     card {d \<in> set ds. kv (st_backend s') d = None}) (2 ^ 64 - 1)"
proof -
  have "wp (delete E f) s (\<lambda>_. deleted E kv ok valid f ds s)"
    by (rule store_env.wp_delete_file [OF assms])
  then obtain s' where del: "delete E f s = (Ok (), s')" and d: "deleted E kv ok valid f ds s s'"
    by (auto simp: wp_iff)
  have inv': "store_inv E kv ok valid s'" using d by (simp add: deleted_def)
  have gone: "kv (st_backend s') e = None \<longleftrightarrow> e \<notin># store_refs s'" if "e \<in> set ds" for e
  proof -
    have "e \<in># store_refs s" using d that by (simp add: deleted_def)
    then show ?thesis
      using chunk_inv_present [OF store_invD(5) [OF inv'] store_ref_digest [OF assms(2)]] by metis
  qed
  then have "{e \<in> set ds. e \<notin># store_refs s'} = {e \<in> set ds. kv (st_backend s') e = None}" by auto
  with del d gone show ?thesis by (auto simp: deleted_def)
qed

theorem delete_correct_witness:
  "\<exists>s'. delete sample_deps ''f'' one_file = (Ok (), s') \<and> contents memory_kv s' = Map.empty"
  using delete_correct [OF sample.store_env_axioms one_file_inv one_file_digests]
  by (auto simp: one_file_contents)

text \<open>
  Unknown files: \<open>read\<close>, \<open>file_digests\<close> and \<open>delete\<close> fail with \<open>NotFound\<close> and leave the
  store as it was.
\<close>

theorem unknown_file_errors:
  assumes "store_inv E kv ok valid s" and "contents kv s f = None"
  shows "read E f s = (Err (NotFound (''file '' @ f)), s) \<and>
         file_digests f s = (Err (NotFound (''file '' @ f)), s) \<and>
         delete E f s = (Err (NotFound (''file '' @ f)), s)"
proof -
  have none: "try_get (guarded (st_manifest s)) f = None"
    using contents_None_iff [OF assms(1)] assms(2) by simp
  have un: "\<not> poisoned (st_manifest s)"
    using chunk_invD(1) [OF store_invD(5) [OF assms(1)]] by (simp add: unlocked_def)
  have "file_digests f s = (Err (NotFound (''file '' @ f)), s)"
    using none un by (cases s; cases "st_manifest s")
      (simp add: file_digests_def digests_for_file_def on_manifest_def zoom_def with_lock_def
        manifest_get_try_get)
  then show ?thesis
    using read_missing [OF none un] delete_missing [OF none store_invD(2) [OF assms(1)] un] by simp
qed

theorem unknown_file_errors_witness:
  "delete sample_deps ''g'' one_file = (Err (NotFound ''file g''), one_file)"
  using unknown_file_errors [OF one_file_inv, of "''g''"] by (simp add: one_file_contents)

text \<open>
  Streaming read: \<open>read_to_writer\<close> hands the writer the file's bytes and nothing else, for
  every writer whose \<open>put_chunk\<close> appends (\<open>W out w\<close>: the writer \<open>w\<close> has received \<open>out\<close>).
\<close>

theorem read_to_writer_correct:
  assumes "store_env E kv ok valid" and "store_inv E kv ok valid s" and "contents kv s f = Some data"
    and "W [] w" and "\<And>out p w. W out w \<Longrightarrow> \<exists>w'. put_chunk p w = (Ok (), w') \<and> W (out @ p) w'"
  shows "\<exists>w' s'. read_to_writer E put_chunk f (w, s) = (Ok (), (w', s')) \<and> W data w' \<and>
                 store_inv E kv ok valid s'"
proof -
  obtain ds where ds: "try_get (guarded (st_manifest s)) f = Some ds"
    using assms(3) contents_None_iff [OF assms(2), of f] by (cases "try_get (guarded (st_manifest s)) f") auto
  have "wp (read_to_writer E put_chunk f) (w, s) (\<lambda>_ (w', s'). W data w' \<and> store_inv E kv ok valid s')"
    by (rule store_env.wp_read_to_writer [OF assms(1,2) ds, where W = W])
      (use assms(3-5) same_map_keeps [OF assms(2)] in \<open>auto simp: wp_iff\<close>)
  then show ?thesis by (auto simp: wp_iff)
qed

theorem read_to_writer_correct_witness:
  "\<exists>w' s'. read_to_writer sample_deps vec_write_all ''f'' ([], one_file) = (Ok (), (w', s')) \<and>
           [1, 2, 3] = w'"
  using read_to_writer_correct [OF sample.store_env_axioms one_file_inv, of "''f''" "[1, 2, 3]"
      "(=)" "[]" vec_write_all]
  by (auto simp: one_file_contents vec_write_all_def)

section \<open>Restarting\<close>

text \<open>
  C10.  Durability.  Opening the backend of a consistent store gives back its files, digests,
  file sizes, reference counts and byte totals; only \<open>gc_chunks\<close> starts again from 0.  (With a
  codec the sizes must be recorded, which they are unless a chunk is empty.)
\<close>

theorem reopen_correct:
  assumes "store_env E kv ok valid" and "store_inv E kv ok valid s"
    and "st_codec s = None \<or> sized_refs s"
  shows "\<exists>s'. reopen E s = (Ok (), s') \<and> store_inv E kv ok valid s' \<and>
              contents kv s' = contents kv s \<and>
              manifest_view (guarded (st_manifest s')) = manifest_view (guarded (st_manifest s)) \<and>
              get_ref (guarded (st_refcount s')) = get_ref (guarded (st_refcount s)) \<and>
              guarded (st_stats s') = (guarded (st_stats s))\<lparr>gc_chunks := 0\<rparr>"
proof -
  have "wp (reopen E) s (\<lambda>_ s'. store_inv E kv ok valid s' \<and> contents kv s' = contents kv s \<and>
      manifest_view (guarded (st_manifest s')) = manifest_view (guarded (st_manifest s)) \<and>
      get_ref (guarded (st_refcount s')) = get_ref (guarded (st_refcount s)) \<and>
      guarded (st_stats s') = (guarded (st_stats s))\<lparr>gc_chunks := 0\<rparr>)"
    by (rule store_env.wp_reopen [OF assms]) simp
  then show ?thesis by (auto simp: wp_iff)
qed

theorem reopen_correct_witness:
  "\<exists>s'. reopen sample_deps one_file = (Ok (), s') \<and> contents memory_kv s' = [''f'' \<mapsto> [1, 2, 3]]"
  using reopen_correct [OF sample.store_env_axioms one_file_inv]
  by (auto simp: one_file_contents one_file_codec)

text \<open>
  C32.  Readers beside a writer.  A process that has the store open while another one writes,
  in whatever way that leaves the backend consistent, reads every file as it was when it opened,
  as long as the writer's files still refer to its chunks; after that the read is an error that
  names the first chunk that is gone, and never wrong bytes.  Files that came later are not found.
\<close>

theorem reader_keeps_snapshot:
  assumes "store_env E kv ok valid" and "store_inv E kv ok valid r" and "store_inv E kv ok valid w"
    and "st_codec w = st_codec r"
    and "inj_on (dp_sha E) (stored_plain (st_codec r) (kv (st_backend r)) \<union>
                            stored_plain (st_codec r) (kv (st_backend w)))"
  shows "fst (read E f (r\<lparr>st_backend := st_backend w\<rparr>)) =
     (case try_get (guarded (st_manifest r)) f of
        None \<Rightarrow> Err (NotFound (''file '' @ f))
      | Some ds \<Rightarrow>
          (case filter (\<lambda>d. d \<notin># store_refs w) ds of
             [] \<Rightarrow> Ok (the (contents kv r f))
           | d # _ \<Rightarrow> Err (NotFound (''chunk '' @ d))))"
proof (cases "try_get (guarded (st_manifest r)) f")
  case None
  have "\<not> poisoned (st_manifest r)"
    using chunk_invD(1) [OF store_invD(5) [OF assms(2)]] by (simp add: unlocked_def)
  with None show ?thesis using read_missing [of "r\<lparr>st_backend := st_backend w\<rparr>" f E] by simp
next
  case (Some ds)
  then show ?thesis using store_env.read_snapshot [OF assms Some] by simp
qed

theorem reader_keeps_snapshot_witness:
  "\<exists>w. delete sample_deps ''f'' one_file = (Ok (), w) \<and>
       fst (read sample_deps ''f'' (one_file\<lparr>st_backend := st_backend w\<rparr>)) =
         Err (NotFound (''chunk '' @ digest_hex sample_sha [1, 2]))"
proof -
  have "wp (delete sample_deps ''f'') one_file
      (\<lambda>_. deleted sample_deps memory_kv memory_ok (\<lambda>_. True) ''f'' (map (digest_hex sample_sha) [[1, 2], [3]]) one_file)"
    by (rule sample.wp_delete_file [OF one_file_inv one_file_digests])
  then obtain w where del: "delete sample_deps ''f'' one_file = (Ok (), w)"
      and d: "deleted sample_deps memory_kv memory_ok (\<lambda>_. True) ''f'' (map (digest_hex sample_sha) [[1, 2], [3]]) one_file w"
    by (auto simp: wp_iff)
  have w: "store_inv sample_deps memory_kv memory_ok (\<lambda>_. True) w" "st_codec w = st_codec one_file"
    using d by (simp_all add: deleted_def)
  have refs: "store_refs w = {#}"
    using d one_file_ingested by (simp add: deleted_def ingested_def empty_store_def fresh_store_def manifest_new_def)
  have "stored_plain (st_codec one_file) (memory_kv (st_backend w)) = {}"
    using store_inv_stored [OF w(1)] refs w(2) by simp
  moreover have "stored_plain (st_codec one_file) (memory_kv (st_backend one_file)) \<subseteq> short"
    using one_file_within [of "[]"] by (simp add: within_def)
  ultimately have "inj_on (dp_sha sample_deps) (stored_plain (st_codec one_file) (memory_kv (st_backend one_file)) \<union>
      stored_plain (st_codec one_file) (memory_kv (st_backend w)))"
    using inj_on_subset [OF short_inj] by simp
  from reader_keeps_snapshot [OF sample.store_env_axioms one_file_inv w this, of "''f''"] del
  show ?thesis by (auto simp: one_file_digests refs)
qed

section \<open>Accounts\<close>

text \<open>
  C11.  The statistics are exact, whatever happened before.  After any sequence of ingests, reads,
  deletes, consistency checks and restarts that starts on an empty backend, \<open>total_bytes\<close> is the sum
  of the sizes of the files the sequence leaves, by the specification of C1, and \<open>stored_bytes\<close> is
  the sum of the sizes of their distinct chunks, each once, however often files share it.
\<close>

theorem stats_exact:
  assumes "listing_env E kv ok valid" and "ok b" and "kv b = Map.empty"
    and "fastcdc_ok (dp_fastcdc E) cdc_config_default"
    and "chunks = concat (map (op_chunks (dp_fastcdc E)) ops)" and "inj_on (dp_sha E) (set chunks)"
    and "length chunks < 2 ^ 64" and "length (concat chunks) < 2 ^ 64"
    and "list_all (op_file_ok valid) ops"
    and "L = live_ops (dp_fastcdc E) ops Map.empty"
    and "fs = snd (spec_ops (dp_sha E) (dp_fastcdc E) ops Map.empty)"
  shows "\<exists>s st. open_store E b = (Ok s, st_backend s) \<and>
           fst (store_stats (snd (run_ops E ops s))) = Ok st \<and>
           unat (total_bytes st) = (\<Sum>f \<in> dom fs. length (the (fs f))) \<and>
           unat (stored_bytes st) = (\<Sum>p \<in> (\<Union>cs \<in> ran L. set cs). length p)"
proof -
  obtain s where s: "open_store E b = (Ok s, st_backend s)"
      "store_inv E kv ok valid (snd (run_ops E ops s))" "within E kv (set chunks) [] (snd (run_ops E ops s))"
      "tracks (dp_sha E) L (snd (run_ops E ops s))" "live_chunks L \<subseteq> set chunks"
    unfolding assms(10) by (rule listing_env.session_tracks [OF assms(1-9)]) blast
  show ?thesis
    using live_accounts(1,2) [OF s(2) assms(6) s(5,3,4)] store_stats_Ok [OF s(2)] s(1)
      live_bytes_spec [OF assms(4,11)] assms(10) by (auto simp: live_chunks_def)
qed

theorem stats_exact_witness:
  "\<exists>s st. open_store sample_deps memory_new = (Ok s, st_backend s) \<and>
     fst (store_stats (snd (run_ops sample_deps shared_ops s))) = Ok st \<and>
     unat (total_bytes st) = 7 \<and> unat (stored_bytes st) = 3"
proof -
  have "\<exists>s st. open_store sample_deps memory_new = (Ok s, st_backend s) \<and>
      fst (store_stats (snd (run_ops sample_deps shared_ops s))) = Ok st \<and>
      unat (total_bytes st) = Suc (Suc (Suc (Suc (Suc (Suc (Suc 0)))))) \<and> unat (stored_bytes st) = Suc (Suc (Suc 0))"
    using stats_exact [OF sample.listing_env_axioms memory_new_ok memory_new_kv _ refl shared_ops_provisos(2) _ _ _ refl refl]
      shared_ops_provisos shared_ops_live shared_ops_live_chunks shared_ops_spec by simp
  then show ?thesis by (simp add: numeral_eq_Suc)
qed

text \<open>
  C38.  The percentage \<open>savings_pct\<close> of the statistics, computed in 64-bit floating point, is the share of
  the bytes of all files that no blob is stored for, in percent, with a relative error of at most
  \<open>2 ^ -50\<close> from its five roundings.  It is never below 0 nor above 100, and it is 0 exactly when
  nothing is shared.
\<close>

theorem savings_accurate:
  assumes "store_inv E kv ok valid s"
    and "T = (\<Sum>f\<in>dom (contents kv s). length (the (contents kv s f)))"
    and "S = (\<Sum>d\<in>{d. is_chunk_digest d \<and> kv (st_backend s) d \<noteq> None}.
                plain_len (st_codec s) (kv (st_backend s)) d)"
    and "exact = 100 * (of_nat (T - S) / of_nat T)"
  shows "\<exists>st. store_stats s = (Ok st, s) \<and> S \<le> T \<and> 0 \<le> savings_pct st \<and> savings_pct st \<le> 100 \<and>
           (savings_pct st = 0 \<longleftrightarrow> S = T) \<and> \<bar>savings_pct st - exact\<bar> \<le> exact / 2 ^ 50"
proof -
  let ?st = "guarded (st_stats s)"
  have TS: "unat (total_bytes ?st) = T" "unat (stored_bytes ?st) = S"
    unfolding assms(2,3) by (rule store_total_bytes [OF assms(1)], rule store_stored_bytes [OF assms(1)])
  note pct = savings_pct_accurate [of ?st, unfolded TS word_le_nat_alt, folded assms(4)]
  have "S \<le> T" using stored_le_total [OF assms(1)] by (simp only: word_le_nat_alt TS)
  with pct store_stats_Ok [OF assms(1)] show ?thesis by (intro exI [of _ ?st]) auto
qed

theorem savings_accurate_witness:
  "\<exists>st. store_stats one_file = (Ok st, one_file) \<and> 0 \<le> savings_pct st \<and> savings_pct st \<le> 100"
  using savings_accurate [OF one_file_inv refl refl refl] by blast

text \<open>
  C12.  References are counted exactly, whatever happened before.  After any sequence of operations
  that starts on an empty backend, the count of a chunk is the number of its occurrences in the
  files the sequence leaves, each file as it was last chunked, with multiplicity; when that is 0
  it has no count and no blob, and otherwise it has a blob.  No other digest has a count or a blob.
\<close>

theorem refcount_exact:
  assumes "listing_env E kv ok valid" and "ok b" and "kv b = Map.empty"
    and "fastcdc_ok (dp_fastcdc E) cdc_config_default"
    and "chunks = concat (map (op_chunks (dp_fastcdc E)) ops)" and "inj_on (dp_sha E) (set chunks)"
    and "length chunks < 2 ^ 64" and "length (concat chunks) < 2 ^ 64"
    and "list_all (op_file_ok valid) ops"
    and "L = live_ops (dp_fastcdc E) ops Map.empty"
  shows "\<exists>s s'. open_store E b = (Ok s, st_backend s) \<and> s' = snd (run_ops E ops s) \<and>
           (\<forall>p \<in> set chunks.
              let d = digest_hex (dp_sha E) p; k = (\<Sum>f \<in> dom L. count_list (the (L f)) p)
              in k < 2 ^ 64 \<and> fst (chunk_refcount d s') = Ok (if k = 0 then None else Some (of_nat k)) \<and>
                 (kv (st_backend s') d = None \<longleftrightarrow> k = 0)) \<and>
           (\<forall>d. d \<notin> digest_hex (dp_sha E) ` set chunks \<longrightarrow>
              fst (chunk_refcount d s') = Ok None \<and> (is_chunk_digest d \<longrightarrow> kv (st_backend s') d = None))"
proof -
  obtain s where s: "open_store E b = (Ok s, st_backend s)"
      "store_inv E kv ok valid (snd (run_ops E ops s))" "within E kv (set chunks) [] (snd (run_ops E ops s))"
      "tracks (dp_sha E) L (snd (run_ops E ops s))" "live_chunks L \<subseteq> set chunks"
    unfolding assms(10) by (rule listing_env.session_tracks [OF assms(1-9)]) blast
  let ?s = "snd (run_ops E ops s)" and ?dg = "digest_hex (dp_sha E)"
  note S = store_invD(5) [OF s(2)]
  note A = live_accounts(3,4) [OF s(2) assms(6) s(5,3,4)]
  have sha: "sha_ok (dp_sha E)" by (rule store_env.sha [OF listing_env.axioms(1) [OF assms(1)]])
  have given: "live_count L p < 2 ^ 64 \<and>
      fst (chunk_refcount (?dg p) ?s) = Ok (if live_count L p = 0 then None else Some (of_nat (live_count L p))) \<and>
      (kv (st_backend ?s) (?dg p) = None \<longleftrightarrow> live_count L p = 0)" if p: "p \<in> set chunks" for p
  proof -
    have "?dg p \<in># store_refs ?s \<longleftrightarrow> live_count L p \<noteq> 0"
      using A(1) [OF p] by (simp flip: count_greater_zero_iff)
    then show ?thesis
      using A(1) [OF p] store_refcount [OF s(2), of "?dg p"] count_less_64 [OF chunk_invD(3) [OF S], of "?dg p"]
        chunk_inv_present [OF S digest_is_chunk_digest [OF sha], of p] by auto
  qed
  have other: "fst (chunk_refcount d ?s) = Ok None \<and> (is_chunk_digest d \<longrightarrow> kv (st_backend ?s) d = None)"
    if "d \<notin> ?dg ` set chunks" for d
  proof -
    have "d \<notin># store_refs ?s" using that A(2) s(5) by auto
    then show ?thesis
      using store_refcount [OF s(2), of d] chunk_inv_absent(1) [OF S, of d] by simp
  qed
  show ?thesis
    using s(1) given other by (intro exI [of _ s] exI [of _ ?s]) (simp add: Let_def flip: live_count_def)
qed

theorem refcount_exact_witness:
  "\<exists>s. open_store sample_deps memory_new = (Ok s, st_backend s) \<and>
     fst (chunk_refcount (digest_hex sample_sha [1, 2]) (snd (run_ops sample_deps shared_ops s))) = Ok (Some 3) \<and>
     fst (chunk_refcount (digest_hex sample_sha [9]) (snd (run_ops sample_deps shared_ops s))) = Ok None \<and>
     memory_kv (st_backend (snd (run_ops sample_deps shared_ops s))) (digest_hex sample_sha [9]) = None"
  using refcount_exact [OF sample.listing_env_axioms memory_new_ok memory_new_kv _ refl shared_ops_provisos(2) _ _ _ refl]
    shared_ops_provisos shared_ops_live by (auto simp: Let_def)

text \<open>
  Nothing is kept for a store without files: no blob, and both byte totals are 0.
\<close>

theorem empty_store_holds_no_blob:
  assumes "store_inv E kv ok valid s" and "contents kv s = Map.empty" and "is_chunk_digest d"
  shows "kv (st_backend s) d = None \<and> total_bytes (guarded (st_stats s)) = 0 \<and>
         stored_bytes (guarded (st_stats s)) = 0"
  using empty_store_reclaimed [OF assms] by simp

theorem empty_store_holds_no_blob_witness:
  "memory_kv (st_backend empty_store) (digest_hex sample_sha [1]) = None"
  using empty_store_holds_no_blob [OF empty_store_inv _ digest_is_chunk_digest [OF sample_sha_ok], of "[1]"]
  by simp

text \<open>
  C14.  Deduplication.  Ingesting, as a new file, data whose chunks are all stored already adds
  no blob and no stored byte; only the total grows, by the size of the file.
\<close>

theorem duplicate_ingest_stores_nothing:
  assumes "store_env E kv ok valid" and "store_inv E kv ok valid s"
    and "proper_file_id g" and "valid (manifest_key g)" and "0 < n" and "contents kv s g = None"
    and "collision_free E kv s (fixed_chunks n data)" and "fits s (fixed_chunks n data)"
    and "\<forall>p \<in> set (fixed_chunks n data). store_plain kv s (digest_hex (dp_sha E) p) = Some p"
  shows "\<exists>s'. ingest_fixed E g data n s =
                (Ok (map (digest_hex (dp_sha E)) (fixed_chunks n data)), s') \<and>
              (\<forall>d. is_chunk_digest d \<longrightarrow> (kv (st_backend s') d = None \<longleftrightarrow> kv (st_backend s) d = None)) \<and>
              stored_bytes (guarded (st_stats s')) = stored_bytes (guarded (st_stats s)) \<and>
              unat (total_bytes (guarded (st_stats s'))) =
                unat (total_bytes (guarded (st_stats s))) + length data"
proof -
  let ?dg = "digest_hex (dp_sha E)" and ?chunks = "fixed_chunks n data"
  have "wp (ingest_chunks E g ?chunks) s (\<lambda>ds s'. ds = map ?dg ?chunks \<and>
      ingested E kv ok valid g ?chunks s s')"
    by (rule store_env.wp_ingest_chunks [OF assms(1-4,7,8) fixed_chunks_nonempty [OF assms(5)]]) simp
  then obtain s' where s': "ingest_fixed E g data n s = (Ok (map ?dg ?chunks), s')"
      "ingested E kv ok valid g ?chunks s s'"
    using assms(5) by (auto simp: wp_iff ingest_fixed_eq)
  note D = duplicate_ingest [OF store_env.sha [OF assms(1)] assms(2,6,9) s'(2)]
  then show ?thesis using s'(1) assms(5) by (auto simp: concat_fixed_chunks)
qed

theorem duplicate_ingest_stores_nothing_witness:
  "\<exists>s'. ingest_fixed sample_deps ''g'' [1, 2, 3] 2 one_file =
           (Ok (map (digest_hex sample_sha) [[1, 2], [3]]), s') \<and>
         stored_bytes (guarded (st_stats s')) = stored_bytes (guarded (st_stats one_file))"
  using duplicate_ingest_stores_nothing [OF sample.store_env_axioms one_file_inv, of "''g''" 2 "[1, 2, 3]"]
    one_file_provisos [of "[[1, 2], [3]]"] one_file_plain
  by (auto simp: proper_file_id_def one_file_contents sample_chunks)

section \<open>Consistency check\<close>

text \<open>
  C15.  \<open>fsck\<close> on any store, consistent or not, over a backend that can list its keys: it reports
  as missing exactly the referenced digests without a blob and as orphans exactly the
  digest-named blobs without a reference; a repair deletes these orphans and nothing else, and
  counts them.
\<close>

theorem fsck_reports_exactly:
  assumes "listing_env E kv ok valid" and "ok (st_backend s)" and "\<not> poisoned (st_refcount s)"
    and "\<And>d r. get_ref (guarded (st_refcount s)) d = Some r \<Longrightarrow> is_chunk_digest d"
    and "keys_distinct (counts (guarded (st_refcount s)))"
  shows "\<exists>rep b. fsck E repair s = (Ok rep, s\<lparr>st_backend := b\<rparr>) \<and> ok b \<and>
           set (missing_blobs rep) =
             {d. get_ref (guarded (st_refcount s)) d \<noteq> None \<and> kv (st_backend s) d = None} \<and>
           set (orphan_blobs rep) =
             {d. get_ref (guarded (st_refcount s)) d = None \<and> kv (st_backend s) d \<noteq> None \<and>
                 is_chunk_digest d} \<and>
           distinct (orphan_blobs rep) \<and>
           repaired rep = (if repair then of_nat (length (orphan_blobs rep)) else 0) \<and>
           kv b = (if repair then kv (st_backend s) |` (- set (orphan_blobs rep)) else kv (st_backend s))"
proof -
  have "wp (fsck E repair) s (\<lambda>rep s'. \<exists>b. s' = s\<lparr>st_backend := b\<rparr> \<and> ok b \<and>
      fsck_result repair (kv (st_backend s)) (guarded (st_refcount s)) rep (kv b))"
    by (rule listing_env.wp_fsck [OF assms]) blast+
  then obtain rep b where r: "fsck E repair s = (Ok rep, s\<lparr>st_backend := b\<rparr>)" "ok b"
      "fsck_result repair (kv (st_backend s)) (guarded (st_refcount s)) rep (kv b)"
    by (auto simp: wp_iff)
  have "d \<in> fst ` set (counts (guarded (st_refcount s))) \<longleftrightarrow> get_ref (guarded (st_refcount s)) d \<noteq> None" for d
    using set_fst_dom [of "counts (guarded (st_refcount s))"] by (auto simp: get_ref_def)
  then show ?thesis
    using r by (intro exI [of _ rep] exI [of _ b]) (auto simp: fsck_result_def strays_def)
qed

theorem fsck_reports_exactly_witness:
  "\<exists>rep b. fsck sample_deps True with_orphan = (Ok rep, with_orphan\<lparr>st_backend := b\<rparr>) \<and>
           set (orphan_blobs rep) = {orphan_digest}"
proof -
  note I = chunk_invD [OF store_invD(5) [OF one_file_inv]]
  have "\<exists>rep b. fsck sample_deps True with_orphan = (Ok rep, with_orphan\<lparr>st_backend := b\<rparr>) \<and>
      set (orphan_blobs rep) =
        strays (memory_kv (st_backend with_orphan)) (get_ref (guarded (st_refcount with_orphan)))"
    using fsck_reports_exactly [OF sample.listing_env_axioms with_orphan_backend(1), of True]
      I(1,4) disk_refsD(1) [OF I(7)]
    by (auto simp: with_orphan_backend unlocked_def strays_def conj_ac)
  then show ?thesis by (simp add: orphan_strays)
qed

text \<open>
  C16.  Repair.  When the only fault of a store is that blobs were left behind that nothing
  refers to, \<open>fsck\<close> with repair makes it consistent again and no file changes.
\<close>

theorem fsck_repairs_orphans:
  assumes "listing_env E kv ok valid" and "ok (st_backend s)"
    and "store_inv E kv ok valid (s\<lparr>st_backend := b0\<rparr>)"
    and "kv b0 = kv (st_backend s) |` (- strays (kv (st_backend s)) (get_ref (guarded (st_refcount s))))"
  shows "\<exists>rep s'. fsck E True s = (Ok rep, s') \<and> store_inv E kv ok valid s' \<and>
                  contents kv s' = contents kv s \<and> missing_blobs rep = []"
proof -
  let ?strays = "strays (kv (st_backend s)) (get_ref (guarded (st_refcount s)))"
  note I = chunk_invD [OF store_invD(5) [OF assms(3)]]
  have "wp (fsck E True) s (\<lambda>rep s'. \<exists>b. s' = s\<lparr>st_backend := b\<rparr> \<and> ok b \<and>
      fsck_result True (kv (st_backend s)) (guarded (st_refcount s)) rep (kv b))"
    by (rule listing_env.wp_fsck [OF assms(1,2)])
      (use I disk_refsD(1) [OF I(7)] in \<open>auto simp: unlocked_def\<close>)
  then obtain rep b where r: "fsck E True s = (Ok rep, s\<lparr>st_backend := b\<rparr>)" "ok b"
      "fsck_result True (kv (st_backend s)) (guarded (st_refcount s)) rep (kv b)"
    by (auto simp: wp_iff)
  have kv: "kv b = kv b0" using r(3) assms(4) by (simp add: fsck_result_def)
  have inv: "store_inv E kv ok valid (s\<lparr>st_backend := b\<rparr>)"
    by (rule store_inv_kv [OF assms(3) r(2) kv])
  have live: "d \<notin> ?strays" if "d \<in># store_refs s" for d
    using refs_match_None_iff [OF I(5), of d] that by (simp add: strays_def)
  have "contents kv (s\<lparr>st_backend := b\<rparr>) f = contents kv s f" for f
  proof (rule contents_cong)
    fix d ds assume "try_get (guarded (st_manifest s)) f = Some ds" "d \<in> set ds"
    from live [OF file_refs [OF this]]
    show "blob_plain (st_codec s) (kv (st_backend (s\<lparr>st_backend := b\<rparr>))) d = store_plain kv s d"
      by (simp add: kv assms(4) blob_plain_def restrict_map_def)
  qed simp_all
  moreover have "missing_blobs rep = []"
  proof -
    have "kv (st_backend s) d \<noteq> None" if "d \<in> set (map fst (counts (guarded (st_refcount s))))" for d
      using chunk_inv_no_strays(2) [OF store_invD(5) [OF inv]] that kv assms(4)
      by (auto simp: filter_empty_conv restrict_map_def split: if_splits)
    then show ?thesis using r(3) by (auto simp: fsck_result_def filter_empty_conv)
  qed
  ultimately show ?thesis using r(1) inv by auto
qed

theorem fsck_repairs_orphans_witness:
  "\<exists>rep s'. fsck sample_deps True with_orphan = (Ok rep, s') \<and>
            store_inv sample_deps memory_kv memory_ok (\<lambda>_. True) s'"
proof -
  have "with_orphan\<lparr>st_backend := st_backend one_file\<rparr> = one_file"
    by (simp add: with_orphan_def)
  then have "store_inv sample_deps memory_kv memory_ok (\<lambda>_. True)
      (with_orphan\<lparr>st_backend := st_backend one_file\<rparr>)" using one_file_inv by simp
  then show ?thesis
    using fsck_repairs_orphans [OF sample.listing_env_axioms with_orphan_backend(1)]
      orphan_removed orphan_strays by fastforce
qed

section \<open>Integrity\<close>

text \<open>
  C17.  A read never returns wrong bytes.  On every backend whatsoever, failing, corrupting or
  malicious, and in every state of the store: if \<open>read\<close> returns bytes, then the file is in the
  manifest, and the bytes are the concatenation of chunks whose digests are, in order, exactly
  the ones the manifest lists.
\<close>

theorem read_returns_verified_bytes:
  assumes "read E f s = (Ok out, s')"
  shows "\<exists>ds ps. try_get (guarded (st_manifest s)) f = Some ds \<and>
                 map (digest_hex (dp_sha E)) ps = ds \<and> out = concat ps"
  using assms by (rule read_verified)

theorem read_returns_verified_bytes_witness:
  "\<exists>ds ps. try_get (guarded (st_manifest one_file)) ''f'' = Some ds \<and>
           map (digest_hex sample_sha) ps = ds \<and> [1, 2, 3] = concat ps"
proof -
  have "wp (read sample_deps ''f'') one_file (\<lambda>out _. out = [1, 2, 3])"
    by (rule sample.wp_read_file [OF one_file_inv one_file_digests]) (simp add: one_file_contents)
  then obtain s' where "read sample_deps ''f'' one_file = (Ok [1, 2, 3], s')" by (auto simp: wp_iff)
  from read_returns_verified_bytes [OF this] show ?thesis by simp
qed

text \<open>
  C18.  A chunk whose blob was changed is refused: \<open>read_chunk\<close> returns \<open>DigestMismatch\<close> with the
  digest asked for and the digest found.
\<close>

theorem corrupted_chunk_refused:
  assumes "store_env E kv ok valid" and "ok (st_backend s)" and "is_chunk_digest d"
    and "store_plain kv s d = Some p" and "digest_hex (dp_sha E) p \<noteq> d"
  shows "fst (read_chunk E d s) = Err (DigestMismatch d (digest_hex (dp_sha E) p))"
  unfolding read_chunk_def by (rule store_env.read_chunk_corrupted [OF assms])

theorem corrupted_chunk_refused_witness:
  "fst (read_chunk sample_deps (digest_hex sample_sha [3]) corrupted) =
     Err (DigestMismatch (digest_hex sample_sha [3]) (digest_hex sample_sha [4]))"
  using corrupted_chunk_refused [OF sample.store_env_axioms corrupted_backend(1)
      digest_is_chunk_digest [OF sample_sha_ok], of "[3]" "[4]"]
  by (simp add: corrupted_backend blob_plain_def digest_hex_eq_iff sample_sha_def)

section \<open>Older versions\<close>

text \<open>
  C19.  Migration.  Opening a backend whose refcount records are in the old wire format, a bare
  count, succeeds: the files and counts are taken over, each missing size is filled in with the
  length of the blob, in memory and on the backend, and the store is consistent.
\<close>

theorem open_migrates_old_records:
  assumes "store_env E kv ok valid" and "ok b" and "loadable E (kv b) valid None refs mv"
  shows "\<exists>s b'. open_store E b = (Ok s, b') \<and> store_inv E kv ok valid s \<and>
                manifest_view (guarded (st_manifest s)) = mv \<and>
                (\<forall>f. contents kv s f =
                   (case mv f of None \<Rightarrow> None | Some (ds, n) \<Rightarrow> assemble None (kv b) ds)) \<and>
                (\<forall>d r raw. refs d = Some r \<longrightarrow> kv b d = Some raw \<longrightarrow>
                   get_ref (guarded (st_refcount s)) d =
                     Some \<lparr>cr_count = cr_count r,
                           cr_size = (if cr_size r = 0 then len64 raw else cr_size r)\<rparr>)"
proof -
  have "wp (open_store E) b (\<lambda>s _. opened E kv ok valid None refs mv b s)"
    by (rule store_env.wp_open_store [OF assms])
  then obtain s b' where s: "open_store E b = (Ok s, b')" "opened E kv ok valid None refs mv b s"
    by (auto simp: wp_iff)
  have "s\<lparr>st_codec := None\<rparr> = s" using s(2) by (cases s) (simp add: opened_def)
  then have inv: "store_inv E kv ok valid s"
    and cont: "contents kv s f = (case mv f of None \<Rightarrow> None | Some (ds, n) \<Rightarrow> assemble None (kv b) ds)" for f
    using s(2) opened_contents [OF assms(3) s(2), of f] by (simp_all add: opened_def)
  have ref: "get_ref (guarded (st_refcount s)) d =
      Some \<lparr>cr_count = cr_count r, cr_size = (if cr_size r = 0 then len64 raw else cr_size r)\<rparr>"
    if "refs d = Some r" "kv b d = Some raw" for d r raw
    using that s(2) by (cases r) (auto simp: opened_def upgraded_def upgrade_def)
  show ?thesis
    using s inv cont ref by (intro exI [of _ s] exI [of _ b']) (simp add: opened_def)
qed

theorem open_migrates_old_records_witness:
  "\<exists>s b'. open_store sample_deps old_backend = (Ok s, b') \<and>
          get_ref (guarded (st_refcount s)) old_digest = Some \<lparr>cr_count = 1, cr_size = 1\<rparr>"
  using open_migrates_old_records [OF sample.store_env_axioms old_backend_kv(1) old_loadable]
  by (fastforce simp: old_refs_def old_backend_kv(2) old_kv_lookups)

section \<open>Faults\<close>

text \<open>
  Ingesting under the empty file id fails, but only at the commit, after every chunk was
  stored and its reference recorded.  The references belong to no file, and a repairing \<open>fsck\<close>
  finds nothing wrong: the blobs are never reclaimed.
\<close>

theorem empty_file_id_leaks:
  assumes "listing_env E kv ok valid" and "store_inv E kv ok valid s" and "0 < n"
    and "collision_free E kv s (fixed_chunks n data)" and "fits s (fixed_chunks n data)"
  shows "\<exists>s1 s2. ingest_fixed E [] data n s =
                   (Err (InvalidArgument ''file_id cannot be empty''), s1) \<and>
                 st_manifest s1 = st_manifest s \<and>
                 fsck E True s1 = (Ok \<lparr>missing_blobs = [], orphan_blobs = [], repaired = 0\<rparr>, s2) \<and>
                 (\<forall>p \<in> set (fixed_chunks n data).
                    store_plain kv s2 (digest_hex (dp_sha E) p) = Some p)"
proof -
  have env: "store_env E kv ok valid" using assms(1) by (simp add: listing_env_def)
  obtain s1 where s1: "ingest_chunks E [] (fixed_chunks n data) s =
        (Err (InvalidArgument ''file_id cannot be empty''), s1)"
      "chunks_stored E kv ok (fixed_chunks n data) s s1"
    using store_env.ingest_empty_id [OF env assms(2,4,5) fixed_chunks_nonempty [OF assms(3)]] by blast
  have "wp (fsck E True) s1 (\<lambda>rep s2. rep = \<lparr>missing_blobs = [], orphan_blobs = [], repaired = 0\<rparr> \<and>
      st_codec s2 = st_codec s1 \<and> kv (st_backend s2) = kv (st_backend s1))"
    by (rule listing_env.wp_fsck_clean [OF assms(1)]) (use s1(2) in \<open>auto simp: chunks_stored_def\<close>)
  then show ?thesis
    using s1 assms(3) by (auto simp: wp_iff ingest_fixed_eq chunks_stored_def)
qed

theorem empty_file_id_leaks_witness:
  "\<exists>s1 s2. ingest_fixed sample_deps [] [1, 2, 3] 2 empty_store =
             (Err (InvalidArgument ''file_id cannot be empty''), s1) \<and>
           fsck sample_deps True s1 = (Ok \<lparr>missing_blobs = [], orphan_blobs = [], repaired = 0\<rparr>, s2) \<and>
           store_plain memory_kv s2 (digest_hex sample_sha [3]) = Some [3]"
  using empty_file_id_leaks [OF sample.listing_env_axioms empty_store_inv, of 2 "[1, 2, 3]"]
  by (auto simp: sample_chunks empty_store_collision_free)

text \<open>
  C21.  A file called \<^verbatim>\<open>__index__\<close> destroys the store: its manifest record is written to
  the key of the manifest index.  The ingest fails when it reads the index back, and from then
  on \<open>open\<close> fails too, so every file of the store becomes inaccessible.
\<close>

theorem index_file_id_destroys_store:
  assumes "store_env E kv ok valid" and "store_inv E kv ok valid s" and "0 < n"
    and "collision_free E kv s (fixed_chunks n data)" and "fits s (fixed_chunks n data)"
    and "json_typed (dp_json E)"
  shows "\<exists>e s'. ingest_fixed E ''__index__'' data n s = (Err (index_error e), s') \<and>
                fst (open_store E (st_backend s')) = Err (index_error e)"
proof -
  obtain e s' where "ingest_chunks E ''__index__'' (fixed_chunks n data) s = (Err (index_error e), s')"
      "fst (open_store E (st_backend s')) = Err (index_error e)"
    using store_env.ingest_index_id [OF assms(1,2,4-6) fixed_chunks_nonempty [OF assms(3)]] by metis
  then show ?thesis using assms(3) by (auto simp: ingest_fixed_eq)
qed

theorem index_file_id_destroys_store_witness:
  "\<exists>e s'. ingest_fixed sample_deps ''__index__'' [1, 2, 3] 2 one_file = (Err (index_error e), s') \<and>
          fst (open_store sample_deps (st_backend s')) = Err (index_error e)"
  using index_file_id_destroys_store [OF sample.store_env_axioms one_file_inv, of 2 "[1, 2, 3]"]
    one_file_provisos [of "[[1, 2], [3]]"]
  by (simp add: sample_chunks sample_json_typed)

text \<open>
  A chunk size of 0 is refused before anything is stored, by the buffered and by the
  streaming entry point; the guard is needed, since \<open>FixedChunker\<close> itself would never return.
\<close>

theorem zero_chunk_size_refused:
  "ingest_fixed E f data 0 s = (Err zero_chunk_size_error, s) \<and>
   ingest_reader_fixed E f rd 0 (r, s) = (Err zero_chunk_size_error, (r, s)) \<and>
   fst (fixed_feed data (fixed_chunker_new 0)) = Hang"
  by (simp add: ingest_fixed_zero ingest_reader_fixed_def fail_def fixed_feed_def
      fixed_chunker_new_def fixed_feed_loop_0)

section \<open>The file-system backend\<close>

text \<open>
  C23.  End to end on a file system.  \<^verbatim>\<open>FsBackend::new\<close> on a directory with nothing
  in it, \<^verbatim>\<open>ChunkStore::open\<close> and any sequence of operations give the results of the
  same sequence on an empty finite map, for file ids that can be laid out side by side
  (\<open>file_space\<close>: canonical, none a directory of another, none named as a temporary file or as
  the index).
\<close>

theorem fs_store_refines_map:
  assumes "file_space F" and "dp_backend E = FsBackend" and "json_ok (dp_json E)"
    and "sha_ok (dp_sha E)" and "fastcdc_ok (dp_fastcdc E) cdc_config_default"
    and "chunks = concat (map (op_chunks (dp_fastcdc E)) ops)"
    and "set chunks \<subseteq> U" and "inj_on (dp_sha E) U" and "[] \<notin> U"
    and "length chunks < 2 ^ 64" and "length (concat chunks) < 2 ^ 64"
    and "list_all (op_file_ok (fs_keys F)) ops"
    and "fs_new root c ns = (Ok b, ns')" and "keys_distinct ns"
    and "\<forall>p. p \<noteq> [] \<longrightarrow> map_of ns (root @ p) = None"
  shows "\<exists>ns''. fs_session E root c ops ns =
           (Ok (spec_ops (dp_sha E) (dp_fastcdc E) ops Map.empty), ns'')"
  by (rule file_space.session_refines [OF assms(1-5,8,9,7,6,10-15)])

theorem fs_store_refines_map_witness:
  "\<exists>ns. fs_session fs_sample_deps [''r''] 0 sample_ops [] = (Ok (sample_outcomes, Map.empty), ns)"
proof -
  have new: "fs_new [''r''] 0 [] = (Ok fs_empty, snd (fs_new [''r''] 0 []))"
    using fs_empty_new by (metis prod.collapse)
  have ids: "list_all (op_file_ok (fs_keys flat_id)) sample_ops"
    by (auto simp: sample_ops_def proper_file_id_def fs_keys_def flat_id_def plain_name_def)
  show ?thesis
    using fs_store_refines_map [OF flat.file_space_axioms, of fs_sample_deps _ sample_ops short,
        OF _ _ _ _ refl _ _ _ _ _ ids new]
      sample_ops_provisos sample_ops_spec
    by (simp add: sample_json_ok sample_sha_ok short_inj within_def fits_def manifest_new_def
        stats_default_def)
qed

text \<open>
  C24.  On the keys of a \<open>key_space\<close> \<^verbatim>\<open>FsBackend\<close> is a finite map: each method
  succeeds, returns what the map says and leaves the map it should, every write through its
  temporary file and rename included; the listing is exactly the keys with the prefix, each once.
\<close>

theorem fs_backend_is_map:
  assumes "key_space V" and "fs_ok V b" and "V k"
  shows "fs_get k b = (Ok (fs_kv b k), b) \<and>
         fs_exists k b = (Ok (fs_kv b k \<noteq> None), b) \<and>
         (\<exists>b'. fs_put k data b = (Ok (), b') \<and> fs_ok V b' \<and> fs_kv b' = (fs_kv b)(k \<mapsto> data)) \<and>
         (\<exists>b'. fs_delete k b = (Ok (), b') \<and> fs_ok V b' \<and> fs_kv b' = (fs_kv b)(k := None)) \<and>
         (\<exists>ks. fs_list_keys pre b = (Ok (Some ks), b) \<and> distinct ks \<and>
               set ks = {k \<in> dom (fs_kv b). starts_with k pre})"
  using key_space.fs_get_law [OF assms] key_space.fs_exists_law [OF assms]
    key_space.fs_put_law [OF assms] key_space.fs_delete_law [OF assms]
    key_space.fs_list_law [OF assms(1,2)] by blast

theorem fs_backend_is_map_witness:
  "\<exists>ks. fs_get (manifest_key ''a'') fs_one = (Ok (Some [1]), fs_one) \<and>
        fs_list_keys ''_man'' fs_one = (Ok (Some ks), fs_one) \<and> set ks = {manifest_key ''a''}"
proof -
  have "starts_with (manifest_key ''a'') ''_man''" by (simp add: starts_with_def key_defs)
  then show ?thesis
    using fs_backend_is_map [OF flat.ks.key_space_axioms fs_one_ok(1) flat_a, of "[]" "''_man''"]
    by (auto simp: fs_one_ok(2) split: if_splits)
qed

text \<open>
  C25.  Keys are confined to the root, with one exception.  Absolute keys, keys with a parent
  component, with a backslash or empty are refused by every method and change nothing.  A read
  changes nothing at all and a delete, under any key, no path that is not strictly below the
  root.  A write changes no such path either, unless its key has no name in it
  (\<^verbatim>\<open>.\<close>, \<^verbatim>\<open>./\<close>): then it can change one, the temporary file beside the root, which C26
  shows it does leave there.
\<close>

theorem fs_keys_confined:
  assumes "\<forall>q \<in> set (ancestors (fb_root b)). map_of (fb_nodes b) q = Some Dir"
    and "\<not> strictly_below (fb_root b) q"
  shows "snd (fs_get key b) = b \<and> snd (fs_exists key b) = b \<and>
         map_of (fb_nodes (snd (fs_delete key b))) q = map_of (fb_nodes b) q \<and>
         (map_of (fb_nodes (snd (fs_put key data b))) q = map_of (fb_nodes b) q \<or>
            normals (path_components key) = [] \<and> fb_root b \<noteq> [] \<and>
            q = butlast (fb_root b) @ [tmp_name (last (fb_root b)) (fb_tmp_counter b)]) \<and>
         (key = [] \<or> CHR 0x5C \<in> set key \<or> take 1 key = ''/'' \<or> ''..'' \<in> set (split_slash key) \<longrightarrow>
            (\<exists>e. fs_get key b = (Err (InvalidArgument e), b) \<and>
                 fs_put key data b = (Err (InvalidArgument e), b) \<and>
                 fs_exists key b = (Err (InvalidArgument e), b) \<and>
                 fs_delete key b = (Err (InvalidArgument e), b)))"
proof (intro conjI impI)
  show "map_of (fb_nodes (snd (fs_delete key b))) q = map_of (fb_nodes b) q"
    using fs_delete_outside [of key b] fs_delete_root_key [of b key] assms
    by (cases "normals (path_components key) = []") (simp_all add: agree_outside_def ancestors_iff)
  show "map_of (fb_nodes (snd (fs_put key data b))) q = map_of (fb_nodes b) q \<or>
      normals (path_components key) = [] \<and> fb_root b \<noteq> [] \<and>
      q = butlast (fb_root b) @ [tmp_name (last (fb_root b)) (fb_tmp_counter b)]"
    using fs_put_outside [OF assms(1), of key data] fs_put_root_key [OF assms(1), of key q data] assms(2)
    by (auto simp: agree_outside_def beside_root_def)
next
  assume bad: "key = [] \<or> CHR 0x5C \<in> set key \<or> take 1 key = ''/'' \<or> ''..'' \<in> set (split_slash key)"
  obtain e where "key_to_path (fb_root b) key = Err (InvalidArgument e)"
    using key_to_path_refused [OF bad] by blast
  then show "\<exists>e. fs_get key b = (Err (InvalidArgument e), b) \<and>
      fs_put key data b = (Err (InvalidArgument e), b) \<and>
      fs_exists key b = (Err (InvalidArgument e), b) \<and> fs_delete key b = (Err (InvalidArgument e), b)"
    by (simp add: fs_get_def fs_put_def fs_exists_def fs_delete_def seq_def fs_path_def)
qed (rule fs_reads_keep)+

theorem fs_keys_confined_witness:
  "map_of (fb_nodes (snd (fs_put ''a/b'' [1] fs_empty))) [''s''] = None \<and>
   map_of (fb_nodes (snd (fs_put ''.'' [1] fs_empty))) [''s''] = None \<and>
   (\<exists>e. fs_put ''a/../../s'' [1] fs_empty = (Err (InvalidArgument e), fs_empty))"
  using fs_keys_confined [of fs_empty "[''s'']" "''a/b''" "[1]"]
    fs_keys_confined [of fs_empty "[''s'']" "''.''" "[1]"]
    fs_keys_confined [of fs_empty "[''s'']" "''a/../../s''" "[1]"]
  by (auto simp: fs_empty_def ancestors_def strictly_below_def path_components_def tmp_name_def)

text \<open>
  C26.  The key \<^verbatim>\<open>.\<close> is not refused, and it does escape: \<open>put\<close> writes the data to a
  temporary file beside the root, then fails to rename it over the root and leaves it there.
\<close>

theorem fs_dot_key_escapes:
  assumes "\<forall>q \<in> set (ancestors (fb_root b)). map_of (fb_nodes b) q = Some Dir"
    and "fb_root b = parent @ [name]"
    and "map_of (fb_nodes b) (parent @ [tmp_name name (fb_tmp_counter b)]) \<noteq> Some Dir"
  shows "\<exists>e b'. fs_put ''.'' data b = (Err (IoError e), b') \<and>
           map_of (fb_nodes b') (parent @ [tmp_name name (fb_tmp_counter b)]) = Some (File data) \<and>
           \<not> strictly_below (fb_root b) (parent @ [tmp_name name (fb_tmp_counter b)])"
proof -
  have dirs: "map_of (fb_nodes b) q = Some Dir" if "q \<in> set (ancestors parent)" for q
    using assms(1,2) that by (auto simp: ancestors_append)
  then have mk: "create_dir_all parent (fb_nodes b) = (Ok (), fb_nodes b)"
    by (rule create_dir_all_present)
  have "key_to_path (fb_root b) ''.'' = Ok (fb_root b, True)"
    by (simp add: key_to_path_def path_components_def names_dir_def)
  then show ?thesis
    using mk dirs [of parent] assms(2,3)
    by (simp add: fs_put_def write_atomic_def seq_def fs_path_def on_fs_def zoom_def lift_def Let_def
        write_file_def is_dir_def rename_def ancestors_iff strictly_below_def)
qed

theorem fs_dot_key_escapes_witness:
  "\<exists>e b'. fs_put ''.'' [7] fs_empty = (Err (IoError e), b') \<and>
          map_of (fb_nodes b') [''r.0.tmp''] = Some (File [7])"
  using fs_dot_key_escapes [of fs_empty "[]" "''r''" "[7]"]
  by (auto simp: fs_empty_def ancestors_def tmp_name_def show_nat_simps)

text \<open>
  Two spellings of one path are one value: writing under any key with the path of \<open>k\<close>
  overwrites \<open>k\<close>.  So file ids such as \<^verbatim>\<open>a\<close> and \<^verbatim>\<open>./a\<close>, distinct files
  for the store, share one manifest record.
\<close>

theorem fs_alias_overwrites:
  assumes "key_space V" and "fs_ok V b" and "V k"
    and "key_to_path (fb_root b) k' = key_to_path (fb_root b) k"
  shows "fst (fs_get k' b) = Ok (fs_kv b k) \<and>
         (\<exists>b'. fs_put k' data b = (Ok (), b') \<and> fs_kv b' = (fs_kv b)(k \<mapsto> data))"
  using key_space.fs_get_law [OF assms(1-3)] key_space.fs_put_law [OF assms(1-3), of data]
    fs_put_same_path [OF assms(4)] fs_get_same_path [OF assms(4)] by fastforce

theorem fs_alias_overwrites_witness:
  "\<exists>b'. fs_put (manifest_key ''./a'') [2] fs_one = (Ok (), b') \<and>
        fs_kv b' = [manifest_key ''a'' \<mapsto> [2]]"
proof -
  have "key_to_path [''r''] (manifest_key ''./a'') = key_to_path [''r''] (manifest_key ''a'')"
    by (simp add: key_to_path_def path_components_def names_dir_def key_defs)
  then show ?thesis
    using fs_alias_overwrites [OF flat.ks.key_space_axioms fs_one_ok(1) flat_a, of "manifest_key ''./a''" "[2]"]
    by (simp add: fs_one_ok(2,3))
qed

text \<open>
  A key that continues the path of a stored key (the file ids \<^verbatim>\<open>a\<close> and
  \<^verbatim>\<open>a/b\<close>) cannot be written: \<open>put\<close> fails and nothing changes.
\<close>

theorem fs_child_of_file_refused:
  assumes "key_space V" and "fs_ok V b" and "V k" and "fs_kv b k \<noteq> None"
    and "canonical (k @ CHR ''/'' # rest)"
  shows "\<exists>e. fs_put (k @ CHR ''/'' # rest) data b = (Err (IoError e), b)"
proof -
  let ?p = "fb_root b @ split_slash k"
  have at_k: "is_file (fb_nodes b) ?p"
    using key_space.fs_kv_valid [OF assms(1-3)] assms(4) by (auto simp: is_file_def)
  have "\<exists>e. create_dir_all (?p @ butlast (split_slash rest)) (fb_nodes b) = (Err (IoError e), fb_nodes b)"
    by (rule create_dir_all_through [OF at_k])
  moreover have "butlast (?p @ split_slash rest) = ?p @ butlast (split_slash rest)"
    by (simp add: butlast_append)
  ultimately show ?thesis
    using canonical_path [OF assms(5), of "fb_root b"]
    by (auto simp: fs_put_def write_atomic_def seq_def fs_path_def on_fs_def zoom_def Let_def split_append)
qed

theorem fs_child_of_file_refused_witness:
  "\<exists>e. fs_put (manifest_key ''a/b'') [2] fs_one = (Err (IoError e), fs_one)"
proof -
  have "manifest_key ''a/b'' = manifest_key ''a'' @ CHR ''/'' # ''b''" by (simp add: key_defs)
  moreover have "canonical (manifest_key ''a/b'')" by (simp add: canonical_def plain_name_def)
  ultimately show ?thesis
    using fs_child_of_file_refused [OF flat.ks.key_space_axioms fs_one_ok(1) flat_a, of "''b''"]
    by (simp add: fs_one_ok(2))
qed

text \<open>
  A value whose name is that of another key's next temporary file is lost when that key is
  written: the counter of temporary names starts again at 0 with every process, so
  \<^verbatim>\<open>x.0.tmp\<close> disappears when a new process writes \<^verbatim>\<open>x\<close> first.
\<close>

theorem fs_tmp_name_clash:
  assumes "\<forall>q \<in> set (ancestors (fb_root b)). map_of (fb_nodes b) q = Some Dir"
    and "canonical name" and "CHR ''/'' \<notin> set name"
    and "t = tmp_name name (fb_tmp_counter b)"
    and "fs_get t b = (Ok (Some old), b)" and "\<not> is_dir (fb_nodes b) (fb_root b @ [name])"
  shows "\<exists>b'. fs_put name data b = (Ok (), b') \<and> fst (fs_get name b') = Ok (Some data) \<and>
              fst (fs_get t b') = Ok None"
proof -
  let ?root = "fb_root b" and ?u = "fb_tmp_counter b"
  have plain: "split_slash name = [name]" using assms(3) by (rule split_no_slash)
  have t: "canonical t" "split_slash t = [t]"
    unfolding assms(4) using tmp_name_canonical [OF assms(2,3)] by simp_all
  have paths: "key_to_path ?root name = Ok (?root @ [name], False)"
      "key_to_path ?root t = Ok (?root @ [t], False)"
    using canonical_path [OF assms(2)] canonical_path [OF t(1)] plain t(2) by simp_all
  have at_t: "map_of (fb_nodes b) (?root @ [t]) = Some (File old)"
    using assms(5) paths(2) by (rule fs_get_file)
  have ne: "name \<noteq> t" unfolding assms(4) tmp_name_def by simp
  have root: "map_of (fb_nodes b) ?root = Some Dir" using assms(1) by (simp add: ancestors_iff)
  have mk: "create_dir_all ?root (fb_nodes b) = (Ok (), fb_nodes b)"
    by (rule create_dir_all_present) (use assms(1) in simp)
  show ?thesis
    using paths mk root at_t ne assms(4,6)
    by (simp add: fs_put_def fs_get_def write_atomic_def seq_def fs_path_def on_fs_def zoom_def
        lift_def Let_def write_file_def is_dir_def rename_def is_file_at_def is_file_def
        read_file_def ret_def)
qed

theorem fs_tmp_name_clash_witness:
  "\<exists>b'. fs_put ''x'' [2] (snd (fs_put ''x.0.tmp'' [1] fs_empty)\<lparr>fb_tmp_counter := 0\<rparr>) = (Ok (), b') \<and>
        fst (fs_get ''x.0.tmp'' b') = Ok None"
proof -
  let ?b = "snd (fs_put ''x.0.tmp'' [1] fs_empty)\<lparr>fb_tmp_counter := 0\<rparr>"
  have names: "tmp_name ''x'' 0 = ''x.0.tmp''" "canonical ''x''" "canonical ''x.0.tmp''"
      "tmp_name ''x.0.tmp'' 0 = ''x.0.tmp.0.tmp''"
    by (simp_all add: tmp_name_def show_nat_simps canonical_def plain_name_def)
  have b: "?b = \<lparr>fb_root = [''r''], fb_nodes = [([], Dir), ([''r''], Dir), ([''r'', ''x.0.tmp''], File [1])],
             fb_tmp_counter = 0\<rparr>"
    using canonical_path [OF names(3), of "[''r'']"] names(4)
    by (simp add: fs_put_def write_atomic_def seq_def fs_path_def on_fs_def zoom_def lift_def Let_def
        fs_empty_def create_dir_all_def ancestors_def is_file_def add_dir_def write_file_def is_dir_def
        rename_def)
  show ?thesis
    using fs_tmp_name_clash [of ?b "''x''" "''x.0.tmp''" "[1]" "[2]"] names canonical_path [OF names(3), of "[''r'']"]
    unfolding b
    by (auto simp: ancestors_def fs_get_def seq_def fs_path_def is_file_at_def is_file_def on_fs_def
        zoom_def read_file_def ret_def is_dir_def)
qed

end
